(* ===== verification/AP_Prelude.thy ===== *)
theory AP_Prelude
  imports Main "HOL-Library.Word"
begin

text \<open>
  Prelude of the development: the machine types of the C sources, byte buffers with the
  accesses the code makes to them (little-endian loads and stores, \<^verbatim>\<open>memcpy\<close> into a
  buffer), the error numbers, and the generic lemmas that the components share.
  A C buffer of n bytes is a list of n bytes. A \<^verbatim>\<open>size_t\<close> is a \<^typ>\<open>nat\<close>; wherever the
  code subtracts two sizes without a guard the model tests the subtraction and reports a
  memory fault instead of wrapping around.
\<close>

unbundle bit_operations_syntax

subsection \<open>Machine types\<close>

type_synonym u8 = "8 word"
type_synonym u16 = "16 word"
type_synonym u32 = "32 word"
type_synonym u64 = "64 word"
type_synonym bytes = "8 word list"

text \<open>The casts of the code: zero extension or truncation to the named width.\<close>

abbreviation to8 :: "'a::len word \<Rightarrow> u8" where "to8 \<equiv> ucast"
abbreviation to16 :: "'a::len word \<Rightarrow> u16" where "to16 \<equiv> ucast"
abbreviation to32 :: "'a::len word \<Rightarrow> u32" where "to32 \<equiv> ucast"
abbreviation to64 :: "'a::len word \<Rightarrow> u64" where "to64 \<equiv> ucast"

subsection \<open>Error numbers\<close>

datatype errno = EPROTO | EINVAL | ENOBUFS | ENOTCONN | EIO | ECONNRESET | EAGAIN | EINTR
  | EBUSY | EACCES | EMSGSIZE | ENOENT | ENOTSUP | EOTHER nat

subsection \<open>Lemma collections\<close>

named_theorems frame_simps "what an operation leaves unchanged, and how it changes the rest"
named_theorems inv_intros "preservation of the invariants"

subsection \<open>Buffers\<close>

text \<open>\<^verbatim>\<open>memcpy(buffer + offset, data, length)\<close> on a buffer that is long enough.\<close>

definition blit :: "'a list \<Rightarrow> nat \<Rightarrow> 'a list \<Rightarrow> 'a list" where
  "blit buf off xs = take off buf @ xs @ drop (off + length xs) buf"

lemma length_blit [simp]:
  "off + length xs \<le> length buf \<Longrightarrow> length (blit buf off xs) = length buf"
  by (simp add: blit_def)

lemma take_blit_before [simp]:
  "n \<le> off \<Longrightarrow> off \<le> length buf \<Longrightarrow> take n (blit buf off xs) = take n buf"
  by (simp add: blit_def min_def)

lemma drop_blit_after [simp]:
  "off + length xs \<le> n \<Longrightarrow> off \<le> length buf \<Longrightarrow> drop n (blit buf off xs) = drop n buf"
  by (simp add: blit_def min_def)

lemma take_blit_end:
  "off + length xs \<le> length buf \<Longrightarrow> take (off + length xs) (blit buf off xs) = take off buf @ xs"
  by (simp add: blit_def)

text \<open>A store of adjacent bytes is a blit, and adjacent blits join up.\<close>

lemma blit_nil [simp]: "off \<le> length buf \<Longrightarrow> blit buf off [] = buf"
  by (simp add: blit_def)

lemma blit_blit:
  "off + length xs + length ys \<le> length buf \<Longrightarrow>
   blit (blit buf off xs) (off + length xs) ys = blit buf off (xs @ ys)"
  by (simp add: blit_def ac_simps)

lemma list_update_blit: "i < length buf \<Longrightarrow> buf[i := x] = blit buf i [x]"
  by (simp add: blit_def upd_conv_take_nth_drop)

subsection \<open>Little-endian integers\<close>

definition get_u16_le :: "bytes \<Rightarrow> nat \<Rightarrow> u16" where
  "get_u16_le data i = to16 (data ! i) OR push_bit 8 (to16 (data ! (i + 1)))"

definition le16 :: "u16 \<Rightarrow> bytes" where
  "le16 v = [to8 v, to8 (drop_bit 8 v)]"

definition put_u16_le :: "bytes \<Rightarrow> nat \<Rightarrow> u16 \<Rightarrow> bytes" where
  "put_u16_le data i v =
     data[i := to8 v, i + 1 := to8 (drop_bit 8 v)]"

lemma length_le16 [simp]: "length (le16 v) = 2"
  by (simp add: le16_def)

lemma length_put_u16_le [simp]: "length (put_u16_le data i v) = length data"
  by (simp add: put_u16_le_def)

lemma put_u16_le_blit:
  "i + 1 < length data \<Longrightarrow> put_u16_le data i v = blit data i (le16 v)"
  using blit_blit [of i "[to8 v]" "[to8 (drop_bit 8 v)]" data]
  by (simp add: put_u16_le_def le16_def list_update_blit)

lemma u16_of_bytes:
  fixes v :: u16
  shows "to16 (to8 v) OR
     push_bit 8 (to16 (to8 (drop_bit 8 v))) = v"
  by (rule bit_word_eqI) (auto simp: bit_simps)

lemma bytes_of_u16:
  fixes a b :: u8
  shows "to8 (to16 a OR push_bit 8 (to16 b)) = a"
  "to8 (drop_bit 8 (to16 a OR push_bit 8 (to16 b))) = b"
proof -
  show "to8 (to16 a OR push_bit 8 (to16 b)) = a"
    by (rule bit_word_eqI) (auto simp: bit_simps)
  show "to8 (drop_bit 8 (to16 a OR push_bit 8 (to16 b))) = b"
    by (rule bit_word_eqI) (auto simp: bit_simps dest: bit_imp_le_length)
qed

lemma le16_get_u16_le: "i + 1 < length data \<Longrightarrow> le16 (get_u16_le data i) = take 2 (drop i data)"
proof -
  assume h: "i + 1 < length data"
  then have "take 2 (drop i data) = [data ! i, data ! (i + 1)]"
    by (simp add: Cons_nth_drop_Suc [symmetric] numeral_2_eq_2)
  then show ?thesis
    by (simp only: le16_def get_u16_le_def bytes_of_u16)
qed

lemma get_u16_le_append:
  "i + 1 < length xs \<Longrightarrow> get_u16_le (xs @ ys) i = get_u16_le xs i"
  by (simp add: get_u16_le_def nth_append)

lemma nth_take_drop_eq: "take n (drop i xs) = ys \<Longrightarrow> j < length ys \<Longrightarrow> xs ! (i + j) = ys ! j"
  by (auto simp: nth_append)

lemma get_u16_le_le16: "take 2 (drop i data) = le16 v \<Longrightarrow> get_u16_le data i = v"
  using nth_take_drop_eq [of 2 i data "le16 v" 0] nth_take_drop_eq [of 2 i data "le16 v" 1]
  by (simp add: get_u16_le_def) (simp add: le16_def u16_of_bytes)

text \<open>Filling a buffer from its start, store by store.\<close>

lemma blit_start:
  "length xs + length ys \<le> length buf \<Longrightarrow> n = length xs \<Longrightarrow>
   blit (blit buf 0 xs) n ys = blit buf 0 (xs @ ys)"
  using blit_blit [of 0 xs ys buf] by simp

lemma put_u16_le_start:
  "length xs + 2 \<le> length buf \<Longrightarrow> n = length xs \<Longrightarrow>
   put_u16_le (blit buf 0 xs) n v = blit buf 0 (xs @ le16 v)"
  by (simp add: put_u16_le_blit blit_start)

lemma list_update_start:
  "length xs + 1 \<le> length buf \<Longrightarrow> n = length xs \<Longrightarrow>
   (blit buf 0 xs)[n := x] = blit buf 0 (xs @ [x])"
  by (simp add: list_update_blit blit_start)

subsection \<open>Lists\<close>

lemma list_update_concat_dec:
  "i < length xs \<Longrightarrow> xs[i := x] = take i xs @ x # drop (Suc i) xs"
  by (rule upd_conv_take_nth_drop)

lemma foldl_inj:
  assumes "\<And>a b x. f a x = f b x \<Longrightarrow> a = b"
  shows "foldl f a xs = foldl f b xs \<longleftrightarrow> a = b"
  using assms by (induction xs arbitrary: a b) auto

end
