(* ===== verification/Siyi_Packet.thy ===== *)
theory Siyi_Packet
  imports AP_Prelude
begin

text \<open>
  The SIYI SDK packet codec, \<^verbatim>\<open>camera_app/src/protocol/siyi.c\<close> and
  \<^verbatim>\<open>camera_app/include/camera_app/siyi.h\<close>. A packet on the wire is
  \<^verbatim>\<open>55 66 control length16 sequence16 opcode payload crc16\<close>, little-endian, with the CRC over
  everything before it. Buffers are lists of bytes that are exactly as long as the length the
  code is given, so the null-pointer guards have no counterpart: a buffer that is not there is
  the empty one, and an output parameter is a component of the result.
\<close>

subsection \<open>The checksum\<close>

definition CA_SIYI_MIN_PACKET :: nat where "CA_SIYI_MIN_PACKET = 10"
definition CA_SIYI_MAX_PACKET :: nat where "CA_SIYI_MAX_PACKET = 2048"

text \<open>One turn of the inner loop, the eight turns for a byte, and the outer loop.\<close>

definition crc16_bit :: "u16 \<Rightarrow> u16" where
  "crc16_bit crc = (if crc AND 0x8000 \<noteq> 0 then push_bit 1 crc XOR 0x1021 else push_bit 1 crc)"

definition crc16_byte :: "u16 \<Rightarrow> u8 \<Rightarrow> u16" where
  "crc16_byte crc b = (crc16_bit ^^ 8) (crc XOR push_bit 8 (to16 b))"

definition ca_crc16 :: "bytes \<Rightarrow> u16" where
  "ca_crc16 data = foldl crc16_byte 0 data"

subsection \<open>Packets\<close>

record siyi_packet =
  control :: u8
  payload_length :: u16
  sequence :: u16
  opcode :: u8
  payload :: bytes
  raw :: bytes
  raw_length :: nat

text \<open>The return codes 0, -1 and 1 of \<^verbatim>\<open>ca_siyi_parse_one\<close>; only the last consumes.\<close>

datatype siyi_parse = Incomplete | Malformed | Parsed siyi_packet nat

definition ca_siyi_parse_one :: "bytes \<Rightarrow> siyi_parse" where
  "ca_siyi_parse_one data =
     (if length data < CA_SIYI_MIN_PACKET then Incomplete
      else if data ! 0 \<noteq> 0x55 \<or> data ! 1 \<noteq> 0x66 then Malformed
      else
        let plen = get_u16_le data 3;
            total = unat plen + CA_SIYI_MIN_PACKET
        in if CA_SIYI_MAX_PACKET < total then Malformed
           else if length data < total then Incomplete
           else if get_u16_le data (total - 2) \<noteq> ca_crc16 (take (total - 2) data) then Malformed
           else Parsed
             \<lparr>control = data ! 2, payload_length = plen, sequence = get_u16_le data 5,
              opcode = data ! 7, payload = take (unat plen) (drop 8 data),
              raw = take total data, raw_length = total\<rparr> total)"

text \<open>
  \<^verbatim>\<open>ca_siyi_build\<close> writes into the buffer \<^term>\<open>output\<close> and returns the packet's length, 0 when it
  does not fit. \<^term>\<open>None\<close> is the null payload, which leaves the payload bytes of the buffer alone.
\<close>

definition ca_siyi_build ::
  "bytes \<Rightarrow> u8 \<Rightarrow> u16 \<Rightarrow> u8 \<Rightarrow> bytes option \<Rightarrow> u16 \<Rightarrow> bytes \<times> nat" where
  "ca_siyi_build output ctl seq op data plen =
     (let total = unat plen + CA_SIYI_MIN_PACKET in
      if length output < total \<or> CA_SIYI_MAX_PACKET < total then (output, 0)
      else
        let o1 = output[0 := 0x55, 1 := 0x66, 2 := ctl];
            o2 = put_u16_le o1 3 plen;
            o3 = put_u16_le o2 5 seq;
            o4 = o3[7 := op];
            o5 = (case data of None \<Rightarrow> o4
                  | Some d \<Rightarrow> if plen \<noteq> 0 then blit o4 8 (take (unat plen) d) else o4)
        in (put_u16_le o5 (total - 2) (ca_crc16 (take (total - 2) o5)), total))"

definition ca_siyi_rewrite_payload_byte :: "bytes \<Rightarrow> nat \<Rightarrow> u8 \<Rightarrow> bytes \<times> bool" where
  "ca_siyi_rewrite_payload_byte packet payload_offset v =
     (case ca_siyi_parse_one packet of
        Parsed parsed consumed \<Rightarrow>
          if consumed \<noteq> length packet \<or> unat (payload_length parsed) \<le> payload_offset
          then (packet, False)
          else
            let p1 = packet[8 + payload_offset := v];
                n = length packet
            in (put_u16_le p1 (n - 2) (ca_crc16 (take (n - 2) p1)), True)
      | _ \<Rightarrow> (packet, False))"

definition siyi_known_opcodes :: "u8 list" where
  "siyi_known_opcodes =
     [0x00, 0x01, 0x02, 0x04, 0x05, 0x06, 0x07, 0x08, 0x0a, 0x0b, 0x0c, 0x0d, 0x0e, 0x0f,
      0x10, 0x11, 0x12, 0x13, 0x14, 0x15, 0x16, 0x17, 0x18, 0x19, 0x1a, 0x1b, 0x20, 0x21,
      0x22, 0x25, 0x26, 0x27, 0x28, 0x29, 0x2a, 0x30, 0x32, 0x33, 0x34, 0x35, 0x37, 0x38,
      0x39, 0x3a, 0x3b, 0x3c, 0x3e, 0x40, 0x42, 0x43, 0x44, 0x45, 0x46, 0x47, 0x48, 0x49,
      0x4d, 0x4e, 0x4f, 0x50, 0x51, 0x52, 0x53, 0x54, 0x55, 0x56, 0x57, 0x5f, 0x60, 0x61,
      0x62, 0x63, 0x71, 0x81, 0x82, 0x83, 0xfa, 0xfb, 0xfc, 0xfd, 0xfe]"

definition ca_siyi_opcode_known :: "u8 \<Rightarrow> bool" where
  "ca_siyi_opcode_known op \<longleftrightarrow> op \<in> set siyi_known_opcodes"

subsection \<open>The checksum sees every single-byte error\<close>

text \<open>The shift register step is reversible: its low bit is the bit that was shifted out.\<close>

lemma crc16_bit_bits:
  "bit (crc16_bit x) n \<longleftrightarrow>
     n < 16 \<and> ((0 < n \<and> bit x (n - 1)) \<noteq> (bit x 15 \<and> bit (0x1021 :: u16) n))"
proof -
  have top: "x AND 0x8000 \<noteq> 0 \<longleftrightarrow> bit x 15"
  proof -
    have "x AND 0x8000 = (if bit x 15 then 0x8000 else 0)"
    proof (rule bit_word_eqI)
      fix n assume "n < LENGTH(16)"
      have "bit (0x8000 :: u16) n \<longleftrightarrow> n = 15"
        using bit_exp_iff [of 15 n, where 'a = u16] \<open>n < LENGTH(16)\<close> by simp
      then show "bit (x AND 0x8000) n = bit (if bit x 15 then 0x8000 else 0 :: u16) n"
        by (auto simp: bit_simps)
    qed
    then show ?thesis by simp
  qed
  have shift: "bit (push_bit 1 x) n \<longleftrightarrow> n < 16 \<and> 0 < n \<and> bit x (n - 1)"
    by (simp only: bit_push_bit_iff possible_bit_word) auto
  show ?thesis
    unfolding crc16_bit_def top
    by (simp only: if_distrib [of "\<lambda>w. bit w n"] bit_xor_iff shift)
      (auto dest: bit_imp_le_length)
qed

lemma crc16_bit_inj: "crc16_bit x = crc16_bit y \<longleftrightarrow> x = y"
proof
  assume eq: "crc16_bit x = crc16_bit y"
  have b: "bit (0x1021 :: u16) 0" by simp
  have top: "bit x 15 = bit y 15"
    using crc16_bit_bits [of x 0] crc16_bit_bits [of y 0] eq b by simp
  show "x = y"
  proof (rule bit_word_eqI)
    fix n assume n: "n < LENGTH(16)"
    show "bit x n = bit y n"
    proof (cases "n = 15")
      case True
      with top show ?thesis by simp
    next
      case False
      with n have "Suc n < 16" by simp
      then show ?thesis
        using crc16_bit_bits [of x "Suc n"] crc16_bit_bits [of y "Suc n"] eq top by auto
    qed
  qed
qed simp

lemma crc16_bits_inj: "(crc16_bit ^^ k) x = (crc16_bit ^^ k) y \<longleftrightarrow> x = y"
  by (induction k) (simp_all add: crc16_bit_inj)

lemma xor_right_cancel: "(a XOR c = b XOR c) = (a = b)" for a b c :: "'a::len word"
  by (metis xor.assoc xor.right_neutral xor_self_eq)

lemma crc16_byte_state_inj: "crc16_byte a x = crc16_byte b x \<longleftrightarrow> a = b"
  by (simp add: crc16_byte_def crc16_bits_inj xor_right_cancel)

lemma crc16_byte_byte_inj: "crc16_byte a x = crc16_byte a y \<longleftrightarrow> x = y"
proof -
  have f: "bit (push_bit 8 (to16 z)) (n + 8) = bit z n" if "n < 8" for z :: u8 and n
    using that by (simp only: bit_push_bit_iff) (simp add: bit_simps)
  have "x = y" if e: "push_bit 8 (to16 x) = push_bit 8 (to16 y)" for x y :: u8
  proof (rule bit_word_eqI)
    fix n assume "n < LENGTH(8)"
    then show "bit x n = bit y n" using f [of n x] f [of n y] e by simp
  qed
  then show ?thesis
    by (auto simp: crc16_byte_def crc16_bits_inj xor.commute [of a] xor_right_cancel)
qed

lemma ca_crc16_single_byte:
  assumes "i < length data" and "x \<noteq> data ! i"
  shows "ca_crc16 (data[i := x]) \<noteq> ca_crc16 data"
proof -
  let ?l = "take i data" and ?r = "drop (Suc i) data"
  have d: "data = ?l @ data ! i # ?r" using assms(1) by (rule id_take_nth_drop)
  have u: "data[i := x] = ?l @ x # ?r" using assms(1) by (rule upd_conv_take_nth_drop)
  have "foldl crc16_byte (crc16_byte (foldl crc16_byte 0 ?l) x) ?r \<noteq>
        foldl crc16_byte (crc16_byte (foldl crc16_byte 0 ?l) (data ! i)) ?r"
    using assms(2) foldl_inj [of crc16_byte] by (simp add: crc16_byte_state_inj crc16_byte_byte_inj)
  then show ?thesis
    unfolding ca_crc16_def by (subst u, subst d) (simp only: foldl_append foldl.simps)
qed

subsection \<open>The wire format\<close>

text \<open>What a packet is on the wire, independently of how the code lays it out in a buffer.\<close>

definition siyi_body :: "u8 \<Rightarrow> u16 \<Rightarrow> u8 \<Rightarrow> bytes \<Rightarrow> bytes" where
  "siyi_body ctl seq op data =
     [0x55, 0x66, ctl] @ le16 (of_nat (length data)) @ le16 seq @ [op] @ data"

definition siyi_frame :: "u8 \<Rightarrow> u16 \<Rightarrow> u8 \<Rightarrow> bytes \<Rightarrow> bytes" where
  "siyi_frame ctl seq op data =
     siyi_body ctl seq op data @ le16 (ca_crc16 (siyi_body ctl seq op data))"

definition siyi_packet_of :: "u8 \<Rightarrow> u16 \<Rightarrow> u8 \<Rightarrow> bytes \<Rightarrow> siyi_packet" where
  "siyi_packet_of ctl seq op data =
     \<lparr>control = ctl, payload_length = of_nat (length data), sequence = seq, opcode = op,
      payload = data, raw = siyi_frame ctl seq op data, raw_length = length data + 10\<rparr>"

lemma length_siyi_body [simp]: "length (siyi_body ctl seq op data) = length data + 8"
  by (simp add: siyi_body_def)

lemma length_siyi_frame [simp]: "length (siyi_frame ctl seq op data) = length data + 10"
  by (simp add: siyi_frame_def)

lemma siyi_frame_fields:
  "siyi_frame ctl seq op data ! 0 = 0x55" "siyi_frame ctl seq op data ! 1 = 0x66"
  "siyi_frame ctl seq op data ! 2 = ctl" "siyi_frame ctl seq op data ! 7 = op"
  "take 2 (drop 3 (siyi_frame ctl seq op data)) = le16 (of_nat (length data))"
  "take 2 (drop 5 (siyi_frame ctl seq op data)) = le16 seq"
  "take (length data) (drop 8 (siyi_frame ctl seq op data)) = data"
  by (simp_all add: siyi_frame_def siyi_body_def le16_def)

lemma siyi_frame_parts:
  "take (length data + 8) (siyi_frame ctl seq op data) = siyi_body ctl seq op data"
  "drop (length data + 8) (siyi_frame ctl seq op data) =
     le16 (ca_crc16 (siyi_body ctl seq op data))"
  by (simp_all add: siyi_frame_def)

lemma ca_siyi_build_frame:
  assumes plen: "length data = unat plen" and fits: "unat plen + 10 \<le> length out"
    and small: "unat plen + 10 \<le> 2048"
  shows "ca_siyi_build out ctl seq op (Some data) plen =
           (blit out 0 (siyi_frame ctl seq op data), unat plen + 10)"
proof -
  have hdr: "out[0 := 0x55, 1 := 0x66, 2 := ctl] = blit out 0 [0x55, 0x66, ctl]"
  proof -
    have b0: "out[0 := 0x55] = blit out 0 [0x55]"
      using fits by (intro list_update_blit) linarith
    have b1: "(blit out 0 [0x55])[1 := 0x66] = blit out 0 [0x55, 0x66]"
      using fits list_update_start [of "[0x55]" out 1 "0x66"] by simp
    have b2: "(blit out 0 [0x55, 0x66])[2 := ctl] = blit out 0 [0x55, 0x66, ctl]"
      using fits list_update_start [of "[0x55, 0x66]" out 2 ctl] by simp
    show ?thesis by (simp only: b0 b1 b2)
  qed
  have pl: "plen = of_nat (length data)" by (simp add: plen)
  let ?o4 = "blit out 0 ([0x55, 0x66, ctl] @ le16 plen @ le16 seq @ [op])"
  have o4: "(put_u16_le (put_u16_le (out[0 := 0x55, 1 := 0x66, 2 := ctl]) 3 plen) 5 seq)[7 := op]
      = ?o4"
    using fits unfolding hdr by (simp add: put_u16_le_start list_update_start)
  have o5: "(if plen \<noteq> 0 then blit ?o4 8 (take (unat plen) data) else ?o4) =
      blit out 0 (siyi_body ctl seq op data)"
  proof (cases "plen = 0")
    case True
    with plen have "data = []" by simp
    with True show ?thesis by (simp add: siyi_body_def)
  next
    case False
    with fits plen show ?thesis by (simp add: blit_start siyi_body_def pl [symmetric])
  qed
  have tk: "take (unat plen + 8) (blit out 0 (siyi_body ctl seq op data)) = siyi_body ctl seq op data"
    using fits plen by (simp add: blit_def)
  have c: "(length out < unat plen + 10 \<or> 2048 < unat plen + 10) = False"
    using fits small by simp
  have n: "unat plen + 10 - 2 = unat plen + 8" by simp
  show ?thesis
    using fits plen
    unfolding ca_siyi_build_def CA_SIYI_MIN_PACKET_def CA_SIYI_MAX_PACKET_def Let_def option.case
      o4 o5 c if_False n tk
    by (simp add: put_u16_le_start siyi_frame_def)
qed

lemma ca_siyi_build_too_long:
  "length out < unat plen + 10 \<or> 2048 < unat plen + 10 \<Longrightarrow>
   ca_siyi_build out ctl seq op data plen = (out, 0)"
  by (auto simp: ca_siyi_build_def CA_SIYI_MIN_PACKET_def CA_SIYI_MAX_PACKET_def Let_def)

subsection \<open>Parsing inverts building\<close>

lemma siyi_parse_frame:
  assumes "length data \<le> 2038"
  shows "ca_siyi_parse_one (siyi_frame ctl seq op data @ rest) =
           Parsed (siyi_packet_of ctl seq op data) (length data + 10)"
proof -
  let ?f = "siyi_frame ctl seq op data"
  have un: "unat (of_nat (length data) :: u16) = length data"
    using assms by (simp add: unat_of_nat)
  have plen: "get_u16_le (?f @ rest) 3 = of_nat (length data)"
    using get_u16_le_le16 [OF siyi_frame_fields(5)] by (simp add: get_u16_le_append)
  have seqn: "get_u16_le (?f @ rest) 5 = seq"
    using get_u16_le_le16 [OF siyi_frame_fields(6)] by (simp add: get_u16_le_append)
  have crc: "get_u16_le (?f @ rest) (8 + length data) = ca_crc16 (siyi_body ctl seq op data)"
    using get_u16_le_le16 [of "length data + 8" ?f "ca_crc16 (siyi_body ctl seq op data)"]
    by (simp add: get_u16_le_append siyi_frame_parts add.commute)
  have body: "take (8 + length data) ?f = siyi_body ctl seq op data"
    using siyi_frame_parts(1) [of data ctl seq op] by (simp add: add.commute)
  have pay: "take (length data) (drop 8 (?f @ rest)) = data"
    using siyi_frame_fields(7) [of data ctl seq op] by simp
  have bytes: "(?f @ rest) ! 0 = 0x55" "(?f @ rest) ! Suc 0 = 0x66" "(?f @ rest) ! 2 = ctl"
    "(?f @ rest) ! 7 = op"
    using siyi_frame_fields(1-4) [of ctl seq op data] by (simp_all add: nth_append)
  show ?thesis
    using assms
    by (simp add: ca_siyi_parse_one_def CA_SIYI_MIN_PACKET_def CA_SIYI_MAX_PACKET_def Let_def
        bytes plen un crc seqn pay siyi_packet_of_def del: take_append drop_append)
      (simp add: body)
qed

lemma siyi_parse_sound:
  assumes "ca_siyi_parse_one data = Parsed p n"
  shows "n \<le> length data" "n \<le> 2048" "n = length (payload p) + 10"
    "take n data = siyi_frame (control p) (sequence p) (opcode p) (payload p)"
    "p = siyi_packet_of (control p) (sequence p) (opcode p) (payload p)"
proof -
  let ?l = "unat (get_u16_le data 3)"
  from assms have h: "10 \<le> length data" "data ! 0 = 0x55" "data ! 1 = 0x66" "?l + 10 \<le> 2048"
    "?l + 10 \<le> length data" "get_u16_le data (8 + ?l) = ca_crc16 (take (8 + ?l) data)"
    and n: "n = ?l + 10"
    and p: "p = \<lparr>control = data ! 2, payload_length = get_u16_le data 3,
        sequence = get_u16_le data 5, opcode = data ! 7, payload = take ?l (drop 8 data),
        raw = take n data, raw_length = n\<rparr>"
    by (auto simp: ca_siyi_parse_one_def CA_SIYI_MIN_PACKET_def CA_SIYI_MAX_PACKET_def Let_def
        not_less split: if_splits)
  have len: "length (payload p) = ?l" using h p by simp
  have split: "take (?l + 8) data = [data ! 0, data ! 1, data ! 2] @ take 2 (drop 3 data) @
      take 2 (drop 5 data) @ [data ! 7] @ take ?l (drop 8 data)"
  proof -
    have "take 8 data = [data ! 0, data ! 1, data ! 2, data ! 3, data ! 4, data ! 5, data ! 6, data ! 7]"
      using h(1) by (intro nth_equalityI) (auto simp: less_Suc_eq numeral_eq_Suc)
    moreover have "take 2 (drop 3 data) = [data ! 3, data ! 4]" "take 2 (drop 5 data) = [data ! 5, data ! 6]"
      using h(1) by (intro nth_equalityI; auto simp: less_Suc_eq numeral_eq_Suc)+
    ultimately show ?thesis
      using take_add [of 8 ?l data] by (simp add: add.commute)
  qed
  have body: "take (?l + 8) data = siyi_body (control p) (sequence p) (opcode p) (payload p)"
  proof -
    have "of_nat ?l = get_u16_le data 3" by simp
    then show ?thesis
      unfolding split siyi_body_def using h
      by (simp add: p len [unfolded p, simplified] le16_get_u16_le)
  qed
  have crc: "take 2 (drop (?l + 8) data) = le16 (ca_crc16 (take (?l + 8) data))"
    using h le16_get_u16_le [of "?l + 8" data] by (simp add: add.commute)
  have tk: "take n data = take (?l + 8) data @ take 2 (drop (?l + 8) data)"
    using take_add [of "?l + 8" 2 data] by (simp add: n add.commute)
  show "n \<le> length data" "n \<le> 2048" "n = length (payload p) + 10" using h n len by simp_all
  show fr: "take n data = siyi_frame (control p) (sequence p) (opcode p) (payload p)"
    unfolding tk crc siyi_frame_def body ..
  show "p = siyi_packet_of (control p) (sequence p) (opcode p) (payload p)"
    using p fr len n by (simp add: siyi_packet_of_def)
qed

text \<open>A verdict on a prefix is final: more input does not change it.\<close>

lemma siyi_parse_stable:
  assumes "ca_siyi_parse_one xs \<noteq> Incomplete"
  shows "ca_siyi_parse_one (xs @ ys) = ca_siyi_parse_one xs"
proof -
  let ?l = "unat (get_u16_le xs 3)"
  have ten: "10 \<le> length xs"
    using assms by (auto simp: ca_siyi_parse_one_def CA_SIYI_MIN_PACKET_def split: if_splits)
  have hd: "(xs @ ys) ! 0 = xs ! 0" "(xs @ ys) ! 1 = xs ! 1" "(xs @ ys) ! 2 = xs ! 2"
    "(xs @ ys) ! 7 = xs ! 7" "get_u16_le (xs @ ys) 3 = get_u16_le xs 3"
    "get_u16_le (xs @ ys) 5 = get_u16_le xs 5"
    using ten by (auto simp: nth_append get_u16_le_append)
  show ?thesis
  proof (cases "?l + 10 \<le> length xs")
    case True
    then have "get_u16_le (xs @ ys) (?l + 10 - 2) = get_u16_le xs (?l + 10 - 2)"
      "take (?l + 10 - 2) (xs @ ys) = take (?l + 10 - 2) xs"
      "take (?l + 10) (xs @ ys) = take (?l + 10) xs"
      "take ?l (drop 8 (xs @ ys)) = take ?l (drop 8 xs)"
      by (simp_all add: get_u16_le_append)
    with True ten show ?thesis
      unfolding ca_siyi_parse_one_def CA_SIYI_MIN_PACKET_def CA_SIYI_MAX_PACKET_def Let_def hd
      by simp
  next
    case False
    with assms ten have "xs ! 0 \<noteq> 0x55 \<or> xs ! 1 \<noteq> 0x66 \<or> 2048 < ?l + 10"
      unfolding ca_siyi_parse_one_def CA_SIYI_MIN_PACKET_def CA_SIYI_MAX_PACKET_def Let_def
      by (auto split: if_splits)
    with ten show ?thesis
      unfolding ca_siyi_parse_one_def CA_SIYI_MIN_PACKET_def CA_SIYI_MAX_PACKET_def Let_def hd
      by auto
  qed
qed

subsection \<open>The codec's contract\<close>

text \<open>C2: whatever \<^verbatim>\<open>ca_siyi_build\<close> writes for a payload that fits the buffer and the
  2048-byte limit, \<^verbatim>\<open>ca_siyi_parse_one\<close> reads back field by field, also when other bytes
  follow it, and it consumes exactly the packet; the rest of the buffer is untouched.\<close>

theorem siyi_build_parse:
  assumes "length data = unat plen" and "unat plen + 10 \<le> length out"
    and "unat plen + 10 \<le> 2048"
    and built: "ca_siyi_build out ctl seq op (Some data) plen = (out', n)"
  shows "n = length data + 10 \<and> drop n out' = drop n out \<and>
    ca_siyi_parse_one (take n out' @ rest) = Parsed (siyi_packet_of ctl seq op data) n"
proof -
  from built have o: "out' = blit out 0 (siyi_frame ctl seq op data)" "n = length data + 10"
    using ca_siyi_build_frame [OF assms(1-3)] assms(1) by simp_all
  then have "take n out' = siyi_frame ctl seq op data"
    using take_blit_end [of 0 "siyi_frame ctl seq op data" out] assms(1,2) by simp
  moreover have "drop n out' = drop n out"
    using o assms(1,2) by (simp add: blit_def)
  ultimately show ?thesis
    using siyi_parse_frame [of data ctl seq op rest] assms(1,3) o by simp
qed

theorem siyi_build_parse_witness:
  "ca_siyi_parse_one (take 11 (fst (ca_siyi_build (replicate 16 0) 1 7 0x19 (Some [2]) 1)) @ [9]) =
     Parsed (siyi_packet_of 1 7 0x19 [2]) 11"
  using siyi_build_parse [of "[2]" 1 "replicate 16 0" 1 7 "0x19"
      "fst (ca_siyi_build (replicate 16 0) 1 7 0x19 (Some [2]) 1)" 11 "[9]"]
    ca_siyi_build_frame [of "[2]" 1 "replicate 16 0" 1 7 "0x19"]
  by simp

text \<open>C3: \<^verbatim>\<open>ca_siyi_parse_one\<close> accepts exactly the inputs that start with a well-formed frame of at
  most 2048 bytes, consumes that frame, and returns its fields: nothing else is ever parsed.\<close>

theorem siyi_parse_exact:
  "ca_siyi_parse_one data = Parsed p n \<longleftrightarrow>
     (\<exists>ctl seq op pl rest. length pl + 10 \<le> 2048 \<and> n = length pl + 10 \<and>
        data = siyi_frame ctl seq op pl @ rest \<and> p = siyi_packet_of ctl seq op pl)"
  (is "?L \<longleftrightarrow> ?R")
proof
  assume L: ?L
  note s = siyi_parse_sound [OF L]
  have "data = take n data @ drop n data" by simp
  with s show ?R by (metis)
next
  assume ?R
  then show ?L using siyi_parse_frame by fastforce
qed

lemma siyi_parse_eq_frame:
  "ca_siyi_parse_one data = Parsed p (length data) \<Longrightarrow>
   data = siyi_frame (control p) (sequence p) (opcode p) (payload p)"
  using siyi_parse_sound(4) by fastforce

text \<open>C4: the CRC protects every packet against the corruption of any one byte: with a byte of
  the sync word, the control, sequence or opcode field, the payload or the checksum changed, the
  packet is rejected as malformed. (The two length bytes move the place of the checksum.)\<close>

theorem siyi_single_byte_error:
  assumes "length data + 10 \<le> 2048" and "i < length data + 10" and "i \<noteq> 3" and "i \<noteq> 4"
    and "x \<noteq> siyi_frame ctl seq op data ! i"
  shows "ca_siyi_parse_one ((siyi_frame ctl seq op data)[i := x]) = Malformed"
proof -
  let ?f = "siyi_frame ctl seq op data" and ?b = "siyi_body ctl seq op data"
  let ?n = "length data + 8"
  have len: "get_u16_le (?f[i := x]) 3 = of_nat (length data)"
    using get_u16_le_le16 [OF siyi_frame_fields(5)] assms(3,4)
    by (simp add: get_u16_le_def nth_list_update)
  have un: "unat (of_nat (length data) :: u16) = length data"
    using assms(1) by (simp add: unat_of_nat)
  have crc: "get_u16_le ?f ?n = ca_crc16 ?b"
    using get_u16_le_le16 [of ?n ?f] by (simp add: siyi_frame_parts)
  have bad: "get_u16_le (?f[i := x]) ?n \<noteq> ca_crc16 (take ?n (?f[i := x]))"
  proof (cases "i < ?n")
    case True
    then have "get_u16_le (?f[i := x]) ?n = ca_crc16 ?b"
      using crc by (simp add: get_u16_le_def nth_list_update)
    moreover have "take ?n (?f[i := x]) = ?b[i := x]"
      using True by (simp add: siyi_frame_def list_update_append)
    moreover have "x \<noteq> ?b ! i" using assms(5) True by (simp add: siyi_frame_def nth_append)
    ultimately show ?thesis
      using ca_crc16_single_byte [of i ?b x] True by simp
  next
    case False
    then have t: "take ?n (?f[i := x]) = ?b" by (simp add: siyi_frame_parts)
    have "le16 (get_u16_le (?f[i := x]) ?n) = take 2 (drop ?n (?f[i := x]))"
      by (intro le16_get_u16_le) simp
    moreover have "take 2 (drop ?n (?f[i := x])) = (le16 (ca_crc16 ?b))[i - ?n := x]"
      using False by (simp add: siyi_frame_def list_update_append)
    moreover have "(le16 (ca_crc16 ?b))[i - ?n := x] \<noteq> le16 (ca_crc16 ?b)"
    proof
      assume "(le16 (ca_crc16 ?b))[i - ?n := x] = le16 (ca_crc16 ?b)"
      then have "x = le16 (ca_crc16 ?b) ! (i - ?n)"
        using False assms(2) nth_list_update_eq [of "i - ?n" "le16 (ca_crc16 ?b)" x] by simp
      with assms(5) False show False by (simp add: siyi_frame_def nth_append)
    qed
    ultimately show ?thesis unfolding t by metis
  qed
  have n2: "length data + 10 - 2 = ?n" by simp
  show ?thesis
    using assms(1) bad
    unfolding ca_siyi_parse_one_def CA_SIYI_MIN_PACKET_def CA_SIYI_MAX_PACKET_def Let_def len un n2
    by simp
qed

theorem siyi_single_byte_error_witness:
  "ca_siyi_parse_one ((siyi_frame 1 7 0x07 [20, 0])[8 := 21]) = Malformed"
  using siyi_single_byte_error [of "[20, 0]" 8 21 1 7 "0x07"]
  by (simp add: siyi_frame_def siyi_body_def le16_def)

text \<open>\<^verbatim>\<open>ca_siyi_rewrite_payload_byte\<close> on a whole packet changes that one payload byte and
  re-seals the packet; on anything else, or past the payload, it refuses and changes nothing.\<close>

theorem siyi_rewrite_spec:
  "ca_siyi_rewrite_payload_byte pkt off v =
     (case ca_siyi_parse_one pkt of
        Parsed p n \<Rightarrow> if n = length pkt \<and> off < length (payload p)
          then (siyi_frame (control p) (sequence p) (opcode p) ((payload p)[off := v]), True)
          else (pkt, False)
      | _ \<Rightarrow> (pkt, False))"
proof (cases "ca_siyi_parse_one pkt")
  case (Parsed p n)
  note s = siyi_parse_sound [OF Parsed]
  have pl: "unat (payload_length p) = length (payload p)"
    using s(2,3) by (subst s(5)) (simp add: siyi_packet_of_def unat_of_nat)
  show ?thesis
  proof (cases "n = length pkt \<and> off < length (payload p)")
    case True
    then have f: "pkt = siyi_frame (control p) (sequence p) (opcode p) (payload p)"
      and len: "length pkt = length (payload p) + 10"
      using s(3,4) by simp_all
    let ?d = "(payload p)[off := v]" and ?m = "8 + length (payload p)"
    have b: "pkt[8 + off := v] = siyi_body (control p) (sequence p) (opcode p) ?d @
        le16 (ca_crc16 (siyi_body (control p) (sequence p) (opcode p) (payload p)))"
      using True by (subst f) (simp add: siyi_frame_def siyi_body_def list_update_append le16_def)
    have tk: "take ?m (pkt[8 + off := v]) = siyi_body (control p) (sequence p) (opcode p) ?d"
      by (subst b) simp
    have "put_u16_le (pkt[8 + off := v]) ?m w = take ?m (pkt[8 + off := v]) @ le16 w" for w
      using len by (simp add: put_u16_le_blit blit_def)
    then have "put_u16_le (pkt[8 + off := v]) ?m
        (ca_crc16 (take ?m (pkt[8 + off := v]))) =
        siyi_frame (control p) (sequence p) (opcode p) ?d"
      unfolding tk by (simp add: siyi_frame_def)
    with True len show ?thesis
      by (simp add: ca_siyi_rewrite_payload_byte_def Parsed pl Let_def)
  next
    case False
    then show ?thesis
      by (auto simp: ca_siyi_rewrite_payload_byte_def Parsed pl not_less)
  qed
qed (simp_all add: ca_siyi_rewrite_payload_byte_def)

end
