(* ===== verification/Stream_Parse.thy ===== *)
theory Stream_Parse
  imports AP_Prelude
begin

text \<open>
  Byte-stream framing, shared by the SIYI stream server, the MT11 private UART and the A8 link:
  a framing decision looks at the bytes received so far and either needs more, skips some (with
  a reason) or takes a frame. \<^verbatim>\<open>drain\<close> repeats the decision. The locale states what makes such
  a parser independent of how the stream is cut into reads, and proves it once.
\<close>

datatype ('f, 'e) verdict = Need | Skip nat 'e | Take nat 'f

function drain :: "(bytes \<Rightarrow> ('f, 'e) verdict) \<Rightarrow> bytes \<Rightarrow> ('e + 'f) list \<times> bytes" where
  "drain step xs =
     (case step xs of
        Need \<Rightarrow> ([], xs)
      | Skip n e \<Rightarrow> if 0 < n \<and> n \<le> length xs
          then (let (out, rest) = drain step (drop n xs) in (Inl e # out, rest)) else ([], xs)
      | Take n f \<Rightarrow> if 0 < n \<and> n \<le> length xs
          then (let (out, rest) = drain step (drop n xs) in (Inr f # out, rest)) else ([], xs))"
  by pat_completeness auto
termination by (relation "measure (\<lambda>(step, xs). length xs)") auto

declare drain.simps [simp del]

definition frames_of :: "('e + 'f) list \<Rightarrow> 'f list" where
  "frames_of out = [f. Inr f \<leftarrow> out]"

definition skips_of :: "('e + 'f) list \<Rightarrow> 'e list" where
  "skips_of out = [e. Inl e \<leftarrow> out]"

lemma frames_of_simps [simp]:
  "frames_of [] = []" "frames_of (Inl e # out) = frames_of out"
  "frames_of (Inr f # out) = f # frames_of out" "frames_of (xs @ ys) = frames_of xs @ frames_of ys"
  by (simp_all add: frames_of_def)

lemma skips_of_simps [simp]:
  "skips_of [] = []" "skips_of (Inl e # out) = e # skips_of out"
  "skips_of (Inr f # out) = skips_of out" "skips_of (xs @ ys) = skips_of xs @ skips_of ys"
  by (simp_all add: skips_of_def)

locale stream_parser =
  fixes step :: "bytes \<Rightarrow> ('f, 'e) verdict"
  assumes skip_progress: "step xs = Skip n e \<Longrightarrow> 0 < n \<and> n \<le> length xs"
    and take_progress: "step xs = Take n f \<Longrightarrow> 0 < n \<and> n \<le> length xs"
    and stable: "step xs \<noteq> Need \<Longrightarrow> step (xs @ ys) = step xs"
begin

lemma drain_need: "step xs = Need \<Longrightarrow> drain step xs = ([], xs)"
  by (simp add: drain.simps [of step xs])

lemma drain_skip:
  "step xs = Skip n e \<Longrightarrow>
   drain step xs = (Inl e # fst (drain step (drop n xs)), snd (drain step (drop n xs)))"
  using skip_progress by (simp add: drain.simps [of step xs] split: prod.splits)

lemma drain_take:
  "step xs = Take n f \<Longrightarrow>
   drain step xs = (Inr f # fst (drain step (drop n xs)), snd (drain step (drop n xs)))"
  using take_progress by (simp add: drain.simps [of step xs] split: prod.splits)

lemma drain_rest_needs: "step (snd (drain step xs)) = Need"
proof (induction xs rule: measure_induct_rule [where f = length])
  case (less xs)
  show ?case
  proof (cases "step xs")
    case Need
    then show ?thesis by (simp add: drain_need)
  next
    case (Skip n e)
    with skip_progress [OF Skip] less.IH [of "drop n xs"] show ?thesis by (auto simp: drain_skip)
  next
    case (Take n f)
    with take_progress [OF Take] less.IH [of "drop n xs"] show ?thesis by (auto simp: drain_take)
  qed
qed

text \<open>The frames do not depend on where the stream was cut.\<close>

lemma drain_append:
  "drain step (xs @ ys) =
     (fst (drain step xs) @ fst (drain step (snd (drain step xs) @ ys)),
      snd (drain step (snd (drain step xs) @ ys)))"
proof (induction xs rule: measure_induct_rule [where f = length])
  case (less xs)
  show ?case
  proof (cases "step xs")
    case Need
    then show ?thesis by (simp add: drain_need)
  next
    case (Skip n e)
    then have "step (xs @ ys) = Skip n e" using stable [of xs ys] by simp
    moreover have "drain step (drop n xs @ ys) =
       (fst (drain step (drop n xs)) @ fst (drain step (snd (drain step (drop n xs)) @ ys)),
        snd (drain step (snd (drain step (drop n xs)) @ ys)))"
      using skip_progress [OF Skip] by (intro less.IH) (simp, linarith)
    ultimately show ?thesis
      using skip_progress [OF Skip] by (simp add: drain_skip [OF Skip] drain_skip [of "xs @ ys"])
  next
    case (Take n f)
    then have "step (xs @ ys) = Take n f" using stable [of xs ys] by simp
    moreover have "drain step (drop n xs @ ys) =
       (fst (drain step (drop n xs)) @ fst (drain step (snd (drain step (drop n xs)) @ ys)),
        snd (drain step (snd (drain step (drop n xs)) @ ys)))"
      using take_progress [OF Take] by (intro less.IH) (simp, linarith)
    ultimately show ?thesis
      using take_progress [OF Take] by (simp add: drain_take [OF Take] drain_take [of "xs @ ys"])
  qed
qed

text \<open>A stream of frames that each parse on their own comes out as those frames.\<close>

lemma drain_frames:
  assumes "\<And>f. f \<in> set fs \<Longrightarrow> step (enc f) = Take (length (enc f)) (dec f)"
  shows "drain step (concat (map enc fs) @ ys) =
    (map (\<lambda>f. Inr (dec f)) fs @ fst (drain step ys), snd (drain step ys))"
  using assms
proof (induction fs)
  case Nil
  show ?case by simp
next
  case (Cons f fs)
  have "step (enc f) = Take (length (enc f)) (dec f)" using Cons.prems by simp
  then have "step (enc f @ concat (map enc fs) @ ys) = Take (length (enc f)) (dec f)"
    using stable [of "enc f" "concat (map enc fs) @ ys"] by simp
  with Cons show ?case by (simp add: drain_take)
qed

end

end
