(* ===== verification/Private_Uart.thy ===== *)
theory Private_Uart
  imports Siyi_Packet Stream_Parse
begin

text \<open>
  The MT11 gimbal link, \<^verbatim>\<open>camera_app/src/protocol/private_uart.c\<close> and its header: frames
  \<^verbatim>\<open>AA control 03 length16 crc8 sequence16 source destination link command payload crc16\<close> and
  an incremental parser with a bounded buffer that counts what it discards. The parser's
  \<^verbatim>\<open>data\<close> array is modelled by its valid prefix, whose length is the field \<^verbatim>\<open>length\<close>.
\<close>

definition CA_PRIVATE_MAX_PAYLOAD :: nat where "CA_PRIVATE_MAX_PAYLOAD = 4096"
definition CA_PRIVATE_MAX_FRAME :: nat where "CA_PRIVATE_MAX_FRAME = CA_PRIVATE_MAX_PAYLOAD + 14"

definition crc8_bit :: "u8 \<Rightarrow> u8" where
  "crc8_bit crc = (if crc AND 1 \<noteq> 0 then drop_bit 1 crc XOR 0x8c else drop_bit 1 crc)"

definition ca_crc8_maxim :: "bytes \<Rightarrow> u8" where
  "ca_crc8_maxim data = foldl (\<lambda>crc b. (crc8_bit ^^ 8) (crc XOR b)) 0 data"

record ca_private_frame =
  pf_control :: u8
  pf_sequence :: u16
  pf_source :: u8
  pf_destination :: u8
  pf_link :: u8
  pf_command :: u8
  pf_payload :: bytes
  pf_payload_length :: u16

record ca_private_parser =
  pp_data :: bytes
  discarded :: u32
  bad_header_crc :: u32
  bad_frame_crc :: u32

definition ca_private_build ::
  "bytes \<Rightarrow> u8 \<Rightarrow> u16 \<Rightarrow> u8 \<Rightarrow> u8 \<Rightarrow> u8 \<Rightarrow> u8 \<Rightarrow> bytes option \<Rightarrow> u16 \<Rightarrow> bytes \<times> nat" where
  "ca_private_build output ctl seq source destination link cmd data plen =
     (let total = unat plen + 14 in
      if length output < total \<or> CA_PRIVATE_MAX_PAYLOAD < unat plen then (output, 0)
      else
        let o1 = output[0 := 0xaa, 1 := ctl, 2 := 3];
            o2 = put_u16_le o1 3 plen;
            o3 = o2[5 := ca_crc8_maxim (take 5 o2)];
            o4 = put_u16_le o3 6 seq;
            o5 = o4[8 := source, 9 := destination, 10 := link, 11 := cmd];
            o6 = (case data of None \<Rightarrow> o5
                  | Some d \<Rightarrow> if plen \<noteq> 0 then blit o5 12 (take (unat plen) d) else o5)
        in (put_u16_le o6 (total - 2) (ca_crc16 (take (total - 2) o6)), total))"

definition ca_private_parser_init :: ca_private_parser where
  "ca_private_parser_init = \<lparr>pp_data = [], discarded = 0, bad_header_crc = 0, bad_frame_crc = 0\<rparr>"

definition discard_prefix :: "ca_private_parser \<Rightarrow> nat \<Rightarrow> ca_private_parser" where
  "discard_prefix p count =
     (if length (pp_data p) \<le> count then p\<lparr>pp_data := []\<rparr>
      else p\<lparr>pp_data := drop count (pp_data p)\<rparr>)"

text \<open>The inner loop of \<^verbatim>\<open>ca_private_parser_feed\<close>: the parser afterwards, and the frames handed
  to the callback, in order.\<close>

function private_scan :: "ca_private_parser \<Rightarrow> ca_private_parser \<times> ca_private_frame list" where
  "private_scan p0 =
     (if pp_data p0 = [] then (p0, [])
      else
        let sync = length (takeWhile (\<lambda>b. b \<noteq> 0xaa) (pp_data p0));
            p = (if sync \<noteq> 0
                 then discard_prefix (p0\<lparr>discarded := discarded p0 + of_nat sync\<rparr>) sync else p0);
            d = pp_data p
        in if length d < 6 then (p, [])
           else
             let plen = get_u16_le d 3 in
             if d ! 2 \<noteq> 3 \<or> CA_PRIVATE_MAX_PAYLOAD < unat plen
             then private_scan (discard_prefix (p\<lparr>discarded := discarded p + 1\<rparr>) 1)
             else
               let total = unat plen + 14 in
               if length d < total then (p, [])
               else if d ! 5 \<noteq> ca_crc8_maxim (take 5 d)
               then private_scan (discard_prefix (p\<lparr>bad_header_crc := bad_header_crc p + 1\<rparr>) 1)
               else if get_u16_le d (total - 2) \<noteq> ca_crc16 (take (total - 2) d)
               then private_scan (discard_prefix (p\<lparr>bad_frame_crc := bad_frame_crc p + 1\<rparr>) 1)
               else
                 let frame = \<lparr>pf_control = d ! 1, pf_sequence = get_u16_le d 6,
                       pf_source = d ! 8, pf_destination = d ! 9, pf_link = d ! 10,
                       pf_command = d ! 11, pf_payload = take (unat plen) (drop 12 d),
                       pf_payload_length = plen\<rparr>;
                     (p', frames) = private_scan (discard_prefix p total)
                 in (p', frame # frames))"
  by pat_completeness auto
termination
  by (relation "measure (\<lambda>p. length (pp_data p))")
    (auto simp: discard_prefix_def split: if_splits)

declare private_scan.simps [simp del]

text \<open>The outer loop: copy what fits, scan, go on. A full buffer loses its first byte.\<close>

function ca_private_parser_feed ::
  "ca_private_parser \<Rightarrow> bytes \<Rightarrow> ca_private_parser \<times> ca_private_frame list" where
  "ca_private_parser_feed p bs =
     (if bs = [] then (p, [])
      else
        let copy = min (CA_PRIVATE_MAX_FRAME * 2 - length (pp_data p)) (length bs) in
        if copy = 0
        then ca_private_parser_feed (discard_prefix (p\<lparr>discarded := discarded p + 1\<rparr>) 1) bs
        else
          let (p1, f1) = private_scan (p\<lparr>pp_data := pp_data p @ take copy bs\<rparr>);
              (p2, f2) = ca_private_parser_feed p1 (drop copy bs)
          in (p2, f1 @ f2))"
  by pat_completeness auto
termination
  by (relation "measures [\<lambda>(p, bs). length bs, \<lambda>(p, bs). length (pp_data p)]")
    (auto simp: discard_prefix_def CA_PRIVATE_MAX_FRAME_def CA_PRIVATE_MAX_PAYLOAD_def min_def
      split: if_splits)

declare ca_private_parser_feed.simps [simp del]

subsection \<open>The parser as a framing decision\<close>

datatype private_skip = Junk | BadHeader | BadFrame

definition private_step :: "bytes \<Rightarrow> (ca_private_frame, private_skip) verdict" where
  "private_step d =
     (if d = [] then Need
      else if hd d \<noteq> 0xaa then Skip 1 Junk
      else if length d < 6 then Need
      else if d ! 2 \<noteq> 3 \<or> 4096 < unat (get_u16_le d 3) then Skip 1 Junk
      else
        let n = unat (get_u16_le d 3) in
        if length d < n + 14 then Need
        else if d ! 5 \<noteq> ca_crc8_maxim (take 5 d) then Skip 1 BadHeader
        else if get_u16_le d (n + 12) \<noteq> ca_crc16 (take (n + 12) d) then Skip 1 BadFrame
        else Take (n + 14)
          \<lparr>pf_control = d ! 1, pf_sequence = get_u16_le d 6, pf_source = d ! 8,
           pf_destination = d ! 9, pf_link = d ! 10, pf_command = d ! 11,
           pf_payload = take n (drop 12 d), pf_payload_length = get_u16_le d 3\<rparr>)"

fun tally :: "private_skip \<Rightarrow> ca_private_parser \<Rightarrow> ca_private_parser" where
  "tally Junk p = p\<lparr>discarded := discarded p + 1\<rparr>"
| "tally BadHeader p = p\<lparr>bad_header_crc := bad_header_crc p + 1\<rparr>"
| "tally BadFrame p = p\<lparr>bad_frame_crc := bad_frame_crc p + 1\<rparr>"

lemma tally_data [simp]:
  "pp_data (tally e p) = pp_data p" "pp_data (fold tally es p) = pp_data p"
  "tally e (p\<lparr>pp_data := d\<rparr>) = (tally e p)\<lparr>pp_data := d\<rparr>"
  "fold tally es (p\<lparr>pp_data := d\<rparr>) = (fold tally es p)\<lparr>pp_data := d\<rparr>"
proof -
  show a: "pp_data (tally e p) = pp_data p" for e p by (cases e) simp_all
  show b: "tally e (p\<lparr>pp_data := d\<rparr>) = (tally e p)\<lparr>pp_data := d\<rparr>" for e p by (cases e) simp_all
  show "pp_data (fold tally es p) = pp_data p" by (induction es arbitrary: p) (simp_all add: a)
  show "fold tally es (p\<lparr>pp_data := d\<rparr>) = (fold tally es p)\<lparr>pp_data := d\<rparr>"
    by (induction es arbitrary: p) (simp_all add: b)
qed

lemma tally_junk: "fold tally (replicate n Junk) p = p\<lparr>discarded := discarded p + of_nat n\<rparr>"
  by (induction n arbitrary: p) (simp_all add: ac_simps)

lemma tally_junk_pow [simp]: "(tally Junk ^^ n) p = p\<lparr>discarded := discarded p + of_nat n\<rparr>"
  using tally_junk [of n p] by simp

lemma discard_prefix_drop: "discard_prefix p n = p\<lparr>pp_data := drop n (pp_data p)\<rparr>"
  by (simp add: discard_prefix_def)

text \<open>What the C loop does is to drain the decision and count the reasons.\<close>

interpretation pu: stream_parser private_step
proof
  show "0 < n \<and> n \<le> length xs" if "private_step xs = Skip n e" for xs n e
    using that by (auto simp: private_step_def Let_def Suc_le_eq split: if_splits)
  show "0 < n \<and> n \<le> length xs" if "private_step xs = Take n f" for xs n f
    using that by (auto simp: private_step_def Let_def split: if_splits)
  show "private_step (xs @ ys) = private_step xs" if h: "private_step xs \<noteq> Need" for xs ys
  proof (cases "length xs < 6 \<or> hd xs \<noteq> 0xaa")
    case True
    then show ?thesis
    proof (cases xs)
      case Nil
      with h show ?thesis by (simp add: private_step_def)
    next
      case (Cons b bs)
      with True h have "b \<noteq> 0xaa" by (auto simp: private_step_def)
      with Cons show ?thesis by (simp add: private_step_def)
    qed
  next
    case False
    let ?n = "unat (get_u16_le xs 3)"
    from False have x: "xs \<noteq> []" "6 \<le> length xs" "hd (xs @ ys) = hd xs"
      "(xs @ ys) ! 2 = xs ! 2" "(xs @ ys) ! 5 = xs ! 5" "(xs @ ys) ! 1 = xs ! 1"
      "get_u16_le (xs @ ys) 3 = get_u16_le xs 3" "take 5 (xs @ ys) = take 5 xs"
      by (auto simp: nth_append get_u16_le_append hd_append)
    show ?thesis
    proof (cases "?n + 14 \<le> length xs")
      case True
      then have "get_u16_le (xs @ ys) (?n + 12) = get_u16_le xs (?n + 12)"
        "take (?n + 12) (xs @ ys) = take (?n + 12) xs"
        "take ?n (drop 12 (xs @ ys)) = take ?n (drop 12 xs)"
        "(xs @ ys) ! 8 = xs ! 8" "(xs @ ys) ! 9 = xs ! 9" "(xs @ ys) ! 10 = xs ! 10"
        "(xs @ ys) ! 11 = xs ! 11" "get_u16_le (xs @ ys) 6 = get_u16_le xs 6"
        by (auto simp: nth_append get_u16_le_append)
      with True x show ?thesis by (simp add: private_step_def Let_def)
    next
      case False
      with h x show ?thesis by (auto simp: private_step_def Let_def split: if_splits)
    qed
  qed
qed

lemma drain_junk:
  "drain private_step d =
    (replicate (length (takeWhile (\<lambda>b. b \<noteq> 0xaa) d)) (Inl Junk) @
       fst (drain private_step (dropWhile (\<lambda>b. b \<noteq> 0xaa) d)),
     snd (drain private_step (dropWhile (\<lambda>b. b \<noteq> 0xaa) d)))"
proof (induction d)
  case (Cons b d)
  show ?case
  proof (cases "b = 0xaa")
    case False
    then have "private_step (b # d) = Skip 1 Junk" by (simp add: private_step_def)
    with False Cons show ?thesis by (simp add: pu.drain_skip)
  qed simp
qed simp

lemma skips_of_junk [simp]: "skips_of (replicate n (Inl e)) = replicate n e"
  by (induction n) simp_all

lemma frames_of_junk [simp]: "frames_of (replicate n (Inl e)) = []"
  by (induction n) simp_all

text \<open>One turn of the inner loop is one decision, once the parser is at a start byte.\<close>

lemma scan_turn:
  assumes "d = [] \<or> hd d = 0xaa" and "pp_data p = d"
  shows "(if length d < 6 then (p, [])
     else
       let plen = get_u16_le d 3 in
       if d ! 2 \<noteq> 3 \<or> CA_PRIVATE_MAX_PAYLOAD < unat plen
       then K (discard_prefix (p\<lparr>discarded := discarded p + 1\<rparr>) 1)
       else
         let total = unat plen + 14 in
         if length d < total then (p, [])
         else if d ! 5 \<noteq> ca_crc8_maxim (take 5 d)
         then K (discard_prefix (p\<lparr>bad_header_crc := bad_header_crc p + 1\<rparr>) 1)
         else if get_u16_le d (total - 2) \<noteq> ca_crc16 (take (total - 2) d)
         then K (discard_prefix (p\<lparr>bad_frame_crc := bad_frame_crc p + 1\<rparr>) 1)
         else
           let frame = \<lparr>pf_control = d ! 1, pf_sequence = get_u16_le d 6,
                 pf_source = d ! 8, pf_destination = d ! 9, pf_link = d ! 10,
                 pf_command = d ! 11, pf_payload = take (unat plen) (drop 12 d),
                       pf_payload_length = plen\<rparr>;
               (p', frames) = K (discard_prefix p total)
           in (p', frame # frames)) =
    (case private_step d of
       Need \<Rightarrow> (p, [])
     | Skip n e \<Rightarrow> K (tally e p\<lparr>pp_data := drop 1 d\<rparr>)
     | Take n f \<Rightarrow> (let (p', frames) = K (p\<lparr>pp_data := drop n d\<rparr>) in (p', f # frames)))"
proof (cases "length d < 6")
  case True
  with assms show ?thesis by (auto simp: private_step_def)
next
  case False
  let ?n = "unat (get_u16_le d 3)"
  from False assms have d: "d \<noteq> []" "hd d = 0xaa" by auto
  have t: "?n + 14 - 2 = ?n + 12" by simp
  show ?thesis
    using False d assms(2)
    by (simp add: private_step_def Let_def CA_PRIVATE_MAX_PAYLOAD_def discard_prefix_drop t
        del: One_nat_def)
qed

lemma private_scan_turn:
  fixes p0 :: ca_private_parser
  defines "d \<equiv> dropWhile (\<lambda>b. b \<noteq> 0xaa) (pp_data p0)"
  defines "p \<equiv> p0\<lparr>discarded := discarded p0 + of_nat (length (takeWhile (\<lambda>b. b \<noteq> 0xaa) (pp_data p0))),
                 pp_data := d\<rparr>"
  shows "private_scan p0 =
    (case private_step d of
       Need \<Rightarrow> (p, [])
     | Skip n e \<Rightarrow> private_scan (tally e p\<lparr>pp_data := drop 1 d\<rparr>)
     | Take n f \<Rightarrow> (let (p', frames) = private_scan (p\<lparr>pp_data := drop n d\<rparr>) in (p', f # frames)))"
proof (cases "pp_data p0 = []")
  case True
  then show ?thesis by (simp add: private_scan.simps [of p0] d_def p_def private_step_def)
next
  case False
  let ?sync = "length (takeWhile (\<lambda>b. b \<noteq> 0xaa) (pp_data p0))"
  have p: "(if ?sync \<noteq> 0 then discard_prefix (p0\<lparr>discarded := discarded p0 + of_nat ?sync\<rparr>) ?sync
            else p0) = p"
  proof (cases "?sync = 0")
    case True
    then have "takeWhile (\<lambda>b. b \<noteq> 0xaa) (pp_data p0) = []" by simp
    then have "d = pp_data p0" unfolding d_def by (metis append_Nil takeWhile_dropWhile_id)
    with True show ?thesis by (simp add: p_def)
  next
    case False
    then show ?thesis by (simp add: discard_prefix_drop dropWhile_eq_drop p_def d_def)
  qed
  have d: "d = [] \<or> hd d = 0xaa" "pp_data p = d"
    using hd_dropWhile [of "\<lambda>b. b \<noteq> 0xaa" "pp_data p0"] by (auto simp: d_def p_def)
  show ?thesis
    unfolding scan_turn [OF d, symmetric]
    by (subst private_scan.simps) (simp only: Let_def p d(2) False if_False)
qed

lemma private_scan_drain:
  "private_scan p =
     (let (out, rest) = drain private_step (pp_data p)
      in ((fold tally (skips_of out) p)\<lparr>pp_data := rest\<rparr>, frames_of out))"
proof (induction p rule: measure_induct_rule [where f = "\<lambda>p. length (pp_data p)"])
  case (less p0)
  define n d where "n = length (takeWhile (\<lambda>b. b \<noteq> 0xaa) (pp_data p0))"
    and "d = dropWhile (\<lambda>b. b \<noteq> 0xaa) (pp_data p0)"
  define p where "p = p0\<lparr>discarded := discarded p0 + of_nat n, pp_data := d\<rparr>"
  note turn = private_scan_turn [of p0, folded n_def d_def, folded p_def]
  have len: "length d \<le> length (pp_data p0)" by (simp add: d_def length_dropWhile_le)
  have again: "private_scan (q\<lparr>pp_data := drop k d\<rparr>) =
      ((fold tally (skips_of (fst (drain private_step (drop k d)))) q)
         \<lparr>pp_data := snd (drain private_step (drop k d))\<rparr>,
       frames_of (fst (drain private_step (drop k d))))" if "0 < k" "k \<le> length d" for q k
    using less.IH [of "q\<lparr>pp_data := drop k d\<rparr>"] that len by (auto split: prod.splits)
  have goal: "private_scan p0 =
    ((fold tally (skips_of (fst (drain private_step d))) p)\<lparr>pp_data := snd (drain private_step d)\<rparr>,
     frames_of (fst (drain private_step d)))"
  proof (cases "private_step d")
    case Need
    then show ?thesis by (simp add: turn pu.drain_need p_def)
  next
    case (Skip k e)
    then have "k = 1" "1 \<le> length d"
      using pu.skip_progress [OF Skip] by (auto simp: private_step_def Let_def split: if_splits)
    with Skip again [of 1] show ?thesis by (simp add: turn pu.drain_skip del: One_nat_def)
  next
    case (Take k f)
    with again [of k p] pu.take_progress [OF Take] show ?thesis
      by (simp add: turn pu.drain_take)
  qed
  show ?case
    unfolding goal
    by (simp add: drain_junk [of "pp_data p0", folded n_def d_def] tally_junk p_def)
qed

subsection \<open>Feeding is draining\<close>

definition private_ready :: "ca_private_parser \<Rightarrow> bool" where
  "private_ready p \<longleftrightarrow> private_step (pp_data p) = Need"

lemma private_need_short: "private_step d = Need \<Longrightarrow> length d < 4110"
  by (auto simp: private_step_def Let_def split: if_splits)

lemma private_feed_drain:
  assumes "private_ready p"
  shows "ca_private_parser_feed p bs =
     (let (out, rest) = drain private_step (pp_data p @ bs)
      in ((fold tally (skips_of out) p)\<lparr>pp_data := rest\<rparr>, frames_of out))"
  using assms
proof (induction bs arbitrary: p rule: measure_induct_rule [where f = length])
  case (less bs)
  have need: "private_step (pp_data p) = Need" using less.prems by (simp add: private_ready_def)
  show ?case
  proof (cases "bs = []")
    case True
    then show ?thesis
      by (simp add: ca_private_parser_feed.simps [of p "[]"] pu.drain_need [OF need])
  next
    case False
    define copy where "copy = min (CA_PRIVATE_MAX_FRAME * 2 - length (pp_data p)) (length bs)"
    have copy: "0 < copy"
      using private_need_short [OF need] False
      by (simp add: copy_def CA_PRIVATE_MAX_FRAME_def CA_PRIVATE_MAX_PAYLOAD_def)
    define D where "D = drain private_step (pp_data p @ take copy bs)"
    define p1 where "p1 = (fold tally (skips_of (fst D)) p)\<lparr>pp_data := snd D\<rparr>"
    have scan: "private_scan (p\<lparr>pp_data := pp_data p @ take copy bs\<rparr>) = (p1, frames_of (fst D))"
      by (simp add: private_scan_drain D_def p1_def split: prod.splits)
    have ready: "private_ready p1"
      using pu.drain_rest_needs by (simp add: private_ready_def p1_def D_def)
    have "length (drop copy bs) < length bs" using copy False by simp
    from less.IH [OF this ready]
    have rest: "ca_private_parser_feed p1 (drop copy bs) =
      (let (out, rest) = drain private_step (snd D @ drop copy bs)
       in ((fold tally (skips_of out) p1)\<lparr>pp_data := rest\<rparr>, frames_of out))"
      by (simp add: p1_def)
    have "pp_data p @ bs = (pp_data p @ take copy bs) @ drop copy bs" by simp
    then have whole: "drain private_step (pp_data p @ bs) =
        (fst D @ fst (drain private_step (snd D @ drop copy bs)),
         snd (drain private_step (snd D @ drop copy bs)))"
      unfolding D_def by (metis pu.drain_append)
    have "ca_private_parser_feed p bs =
        (let (p2, f2) = ca_private_parser_feed p1 (drop copy bs) in (p2, frames_of (fst D) @ f2))"
      using copy False scan by (subst ca_private_parser_feed.simps) (simp add: Let_def copy_def [symmetric])
    then show ?thesis
      unfolding rest whole by (simp add: p1_def split: prod.splits)
  qed
qed

lemma private_ready_feed: "private_ready p \<Longrightarrow> private_ready (fst (ca_private_parser_feed p bs))"
  using pu.drain_rest_needs [of "pp_data p @ bs"]
  by (cases "drain private_step (pp_data p @ bs)")
    (simp add: private_feed_drain, simp add: private_ready_def)

lemma private_ready_init [simp]: "private_ready ca_private_parser_init"
  by (simp add: private_ready_def ca_private_parser_init_def private_step_def)

subsection \<open>The wire format\<close>

definition private_header :: "u8 \<Rightarrow> u16 \<Rightarrow> bytes" where
  "private_header ctl plen = [0xaa, ctl, 3] @ le16 plen"

definition private_body :: "ca_private_frame \<Rightarrow> bytes" where
  "private_body f =
     private_header (pf_control f) (pf_payload_length f) @
     [ca_crc8_maxim (private_header (pf_control f) (pf_payload_length f))] @
     le16 (pf_sequence f) @ [pf_source f, pf_destination f, pf_link f, pf_command f] @
     pf_payload f"

definition private_wire :: "ca_private_frame \<Rightarrow> bytes" where
  "private_wire f = private_body f @ le16 (ca_crc16 (private_body f))"

definition private_frame_ok :: "ca_private_frame \<Rightarrow> bool" where
  "private_frame_ok f \<longleftrightarrow>
     length (pf_payload f) = unat (pf_payload_length f) \<and> length (pf_payload f) \<le> 4096"

lemma length_private_header [simp]: "length (private_header c n) = 5"
  by (simp add: private_header_def)

lemma length_private_body [simp]: "length (private_body f) = length (pf_payload f) + 12"
  by (simp add: private_body_def)

lemma length_private_wire [simp]: "length (private_wire f) = length (pf_payload f) + 14"
  by (simp add: private_wire_def)

lemma private_wire_fields:
  "hd (private_wire f) = 0xaa" "private_wire f \<noteq> []"
  "private_wire f ! 1 = pf_control f" "private_wire f ! 2 = 3"
  "private_wire f ! 5 = ca_crc8_maxim (private_header (pf_control f) (pf_payload_length f))"
  "private_wire f ! 8 = pf_source f" "private_wire f ! 9 = pf_destination f"
  "private_wire f ! 10 = pf_link f" "private_wire f ! 11 = pf_command f"
  "take 5 (private_wire f) = private_header (pf_control f) (pf_payload_length f)"
  "take 2 (drop 3 (private_wire f)) = le16 (pf_payload_length f)"
  "take 2 (drop 6 (private_wire f)) = le16 (pf_sequence f)"
  "take (length (pf_payload f)) (drop 12 (private_wire f)) = pf_payload f"
  by (simp_all add: private_wire_def private_body_def private_header_def le16_def)

lemma private_wire_parts:
  "take (length (pf_payload f) + 12) (private_wire f) = private_body f"
  "take 2 (drop (length (pf_payload f) + 12) (private_wire f)) = le16 (ca_crc16 (private_body f))"
  by (simp_all add: private_wire_def)

lemma private_step_wire:
  assumes "private_frame_ok f"
  shows "private_step (private_wire f) = Take (length (private_wire f)) f"
proof -
  have n: "unat (get_u16_le (private_wire f) 3) = length (pf_payload f)"
    using assms get_u16_le_le16 [OF private_wire_fields(11)] by (simp add: private_frame_ok_def)
  have small: "length (pf_payload f) \<le> 4096" using assms by (simp add: private_frame_ok_def)
  show ?thesis
    using small unfolding private_step_def Let_def n private_wire_parts
    by (simp add: private_wire_fields get_u16_le_le16 [OF private_wire_fields(11)]
        get_u16_le_le16 [OF private_wire_fields(12)] get_u16_le_le16 [OF private_wire_parts(2)]
        del: One_nat_def)
qed

lemma ca_private_build_wire:
  assumes ok: "private_frame_ok f" and fits: "length (private_wire f) \<le> length out"
  shows "ca_private_build out (pf_control f) (pf_sequence f) (pf_source f) (pf_destination f)
     (pf_link f) (pf_command f) (Some (pf_payload f)) (pf_payload_length f) =
     (blit out 0 (private_wire f), length (private_wire f))"
proof -
  let ?n = "pf_payload_length f" and ?h = "private_header (pf_control f) (pf_payload_length f)"
  have len: "unat ?n + 14 \<le> length out" "length (pf_payload f) = unat ?n" "unat ?n \<le> 4096"
    using assms by (simp_all add: private_frame_ok_def)
  have o1: "out[0 := 0xaa, 1 := pf_control f, 2 := 3] = blit out 0 [0xaa, pf_control f, 3]"
  proof -
    have b0: "out[0 := 0xaa] = blit out 0 [0xaa]"
      using len by (intro list_update_blit) linarith
    have b1: "(blit out 0 [0xaa])[1 := pf_control f] = blit out 0 [0xaa, pf_control f]"
      using len list_update_start [of "[0xaa]" out 1 "pf_control f"] by simp
    have b2: "(blit out 0 [0xaa, pf_control f])[2 := 3] = blit out 0 [0xaa, pf_control f, 3]"
      using len list_update_start [of "[0xaa, pf_control f]" out 2 3] by simp
    show ?thesis by (simp only: b0 b1 b2)
  qed
  have o2: "put_u16_le (out[0 := 0xaa, 1 := pf_control f, 2 := 3]) 3 ?n = blit out 0 ?h"
    using len unfolding o1 private_header_def by (simp add: put_u16_le_start)
  have t5: "take 5 (blit out 0 ?h) = ?h"
    using len take_blit_end [of 0 ?h out] by simp
  let ?g = "?h @ [ca_crc8_maxim ?h] @ le16 (pf_sequence f)"
  have o4: "put_u16_le ((blit out 0 ?h)[5 := ca_crc8_maxim ?h]) 6 (pf_sequence f) = blit out 0 ?g"
    using len by (simp add: list_update_start put_u16_le_start)
  have o5: "(blit out 0 ?g)[8 := pf_source f, 9 := pf_destination f, 10 := pf_link f,
      11 := pf_command f] =
      blit out 0 (?g @ [pf_source f, pf_destination f, pf_link f, pf_command f])"
    using len by (simp add: list_update_start)
  let ?o = "blit out 0 (?g @ [pf_source f, pf_destination f, pf_link f, pf_command f])"
  have o6: "(if ?n \<noteq> 0 then blit ?o 12 (take (unat ?n) (pf_payload f)) else ?o) =
      blit out 0 (private_body f)"
  proof (cases "?n = 0")
    case True
    with len show ?thesis by (simp add: private_body_def)
  next
    case False
    with len show ?thesis by (simp add: blit_start private_body_def)
  qed
  have tk: "take (unat ?n + 12) (blit out 0 (private_body f)) = private_body f"
    using len take_blit_end [of 0 "private_body f" out] by simp
  have c: "(length out < unat ?n + 14 \<or> 4096 < unat ?n) = False" using len by simp
  have m: "unat ?n + 14 - 2 = unat ?n + 12" by simp
  show ?thesis
    using len
    unfolding ca_private_build_def CA_PRIVATE_MAX_PAYLOAD_def Let_def option.case
      o2 t5 o4 o5 o6 c if_False m tk
    by (simp add: put_u16_le_start private_wire_def)
qed

subsection \<open>The link's contract\<close>

lemma private_feed_append:
  assumes "private_ready p"
  shows "ca_private_parser_feed p (xs @ ys) =
     (let (p1, f1) = ca_private_parser_feed p xs;
          (p2, f2) = ca_private_parser_feed p1 ys
      in (p2, f1 @ f2))"
  using pu.drain_append [of "pp_data p @ xs" ys] private_feed_drain [OF private_ready_feed [OF assms, of xs], of ys]
  by (simp add: private_feed_drain [OF assms] split: prod.splits)

lemma private_wires_fed:
  assumes "\<forall>f\<in>set fs. private_frame_ok f" and "0xaa \<notin> set noise"
  shows "ca_private_parser_feed ca_private_parser_init (noise @ concat (map private_wire fs)) =
     (ca_private_parser_init\<lparr>discarded := of_nat (length noise)\<rparr>, fs)"
proof -
  have noise: "drain private_step (noise @ concat (map private_wire fs)) =
      (replicate (length noise) (Inl Junk) @ map Inr fs, [])"
  proof (cases fs)
    case Nil
    from assms(2) have t: "takeWhile (\<lambda>b. b \<noteq> 0xaa) noise = noise"
      "dropWhile (\<lambda>b. b \<noteq> 0xaa) noise = []"
      by (auto simp: takeWhile_eq_all_conv)
    have "drain private_step [] = ([], [])"
      by (intro pu.drain_need) (simp add: private_step_def)
    then have "drain private_step noise = (replicate (length noise) (Inl Junk), [])"
      by (subst drain_junk) (simp only: t fst_conv snd_conv append_Nil2)
    with Nil show ?thesis by simp
  next
    case (Cons f gs)
    let ?s = "noise @ concat (map private_wire fs)"
    obtain w where "private_wire f = 0xaa # w"
      using private_wire_fields(1,2) [of f] by (metis list.collapse)
    then obtain r where r: "concat (map private_wire fs) = 0xaa # r" using Cons by simp
    have "\<forall>b\<in>set noise. b \<noteq> 0xaa" using assms(2) by auto
    then have "takeWhile (\<lambda>b. b \<noteq> 0xaa) ?s = noise"
      "dropWhile (\<lambda>b. b \<noteq> 0xaa) ?s = concat (map private_wire fs)"
      unfolding r by simp_all
    moreover have "drain private_step (concat (map private_wire fs) @ []) = (map Inr fs, [])"
      using pu.drain_frames [of fs private_wire "\<lambda>f. f" "[]"] private_step_wire assms(1)
        pu.drain_need [of "[]"] by (simp add: private_step_def)
    ultimately show ?thesis using drain_junk [of ?s] by simp
  qed
  have "frames_of (map Inr fs) = fs" "skips_of (map Inr fs :: (private_skip + _) list) = []"
    by (induction fs) simp_all
  then show ?thesis
    unfolding private_feed_drain [OF private_ready_init]
    using noise tally_junk [of "length noise" ca_private_parser_init]
    by (simp add: ca_private_parser_init_def)
qed

text \<open>The parser does not depend on how the serial port cuts the stream: feeding two chunks
  one after the other leaves the same parser, the same counters included, and delivers the same
  frames in the same order as feeding them at once, for every chunk size, and the state it leaves
  is again one for which this holds. The bounded buffer never overflows.\<close>

theorem private_feed_chunks:
  assumes "private_ready p"
  shows "ca_private_parser_feed p (xs @ ys) =
     (let (p1, f1) = ca_private_parser_feed p xs;
          (p2, f2) = ca_private_parser_feed p1 ys
      in (p2, f1 @ f2))
    \<and> private_ready (fst (ca_private_parser_feed p xs))
    \<and> length (pp_data (fst (ca_private_parser_feed p xs))) < CA_PRIVATE_MAX_FRAME"
proof (intro conjI)
  let ?p1 = "fst (ca_private_parser_feed p xs)"
  show r: "private_ready ?p1" by (rule private_ready_feed [OF assms])
  then show "length (pp_data ?p1) < CA_PRIVATE_MAX_FRAME"
    using private_need_short
    by (auto simp: private_ready_def CA_PRIVATE_MAX_FRAME_def CA_PRIVATE_MAX_PAYLOAD_def)
  show "ca_private_parser_feed p (xs @ ys) =
     (let (p1, f1) = ca_private_parser_feed p xs;
          (p2, f2) = ca_private_parser_feed p1 ys
      in (p2, f1 @ f2))"
    by (rule private_feed_append [OF assms])
qed

theorem private_feed_chunks_witness:
  "ca_private_parser_feed ca_private_parser_init ([0xaa, 1] @ [3, 0]) =
     (let (p1, f1) = ca_private_parser_feed ca_private_parser_init [0xaa, 1];
          (p2, f2) = ca_private_parser_feed p1 [3, 0] in (p2, f1 @ f2))"
  using private_feed_chunks [of ca_private_parser_init "[0xaa, 1]" "[3, 0]"] by simp

text \<open>C5: what \<^verbatim>\<open>ca_private_build\<close> writes for any list of frames, sent one after the other with
  line noise (no start byte) before them, is delivered by the parser as exactly those frames in
  order; the noise is counted as discarded, no checksum failure is counted and nothing is left in
  the buffer.\<close>

theorem private_link_roundtrip:
  assumes "\<forall>f\<in>set fs. private_frame_ok f" and "0xaa \<notin> set noise"
    and "\<forall>f\<in>set fs. length (private_wire f) \<le> length out"
  shows "ca_private_parser_feed ca_private_parser_init
      (noise @ concat (map (\<lambda>f.
         let (buf, n) = ca_private_build out (pf_control f) (pf_sequence f) (pf_source f)
               (pf_destination f) (pf_link f) (pf_command f) (Some (pf_payload f))
               (pf_payload_length f)
         in take n buf) fs)) =
     (ca_private_parser_init\<lparr>discarded := of_nat (length noise)\<rparr>, fs)"
proof -
  let ?built = "\<lambda>f. let (buf, n) = ca_private_build out (pf_control f) (pf_sequence f)
     (pf_source f) (pf_destination f) (pf_link f) (pf_command f) (Some (pf_payload f))
     (pf_payload_length f) in take n buf"
  have built: "map ?built fs = map private_wire fs"
    using assms(1,3) take_blit_end [of 0 "private_wire _" out]
    by (intro map_cong refl) (simp add: ca_private_build_wire)
  show ?thesis unfolding built by (rule private_wires_fed [OF assms(1,2)])
qed

theorem private_link_roundtrip_witness:
  "ca_private_parser_feed ca_private_parser_init
      ([1, 2] @ concat (map (\<lambda>f.
         let (buf, n) = ca_private_build (replicate 32 0) (pf_control f) (pf_sequence f) (pf_source f)
               (pf_destination f) (pf_link f) (pf_command f) (Some (pf_payload f))
               (pf_payload_length f)
         in take n buf)
       [\<lparr>pf_control = 1, pf_sequence = 9, pf_source = 2, pf_destination = 3, pf_link = 4,
          pf_command = 5, pf_payload = [7, 8], pf_payload_length = 2\<rparr>])) =
     (ca_private_parser_init\<lparr>discarded := of_nat (length [1 :: u8, 2])\<rparr>,
      [\<lparr>pf_control = 1, pf_sequence = 9, pf_source = 2, pf_destination = 3, pf_link = 4,
          pf_command = 5, pf_payload = [7, 8], pf_payload_length = 2\<rparr>])"
  by (rule private_link_roundtrip) (simp_all add: private_frame_ok_def)

end
