(* ===== verification/Byte_Queue.thy ===== *)
theory Byte_Queue
  imports AP_Prelude
begin

text \<open>
  The output window that the SIYI server keeps for every TCP client and for the UART
  (\<^verbatim>\<open>camera_app/src/protocol/siyi_server.c\<close>: the fields \<^verbatim>\<open>output\<close>, \<^verbatim>\<open>output_offset\<close> and
  \<^verbatim>\<open>output_length\<close>, filled by \<^verbatim>\<open>queue_client\<close>/\<^verbatim>\<open>queue_uart\<close> and emptied by
  \<^verbatim>\<open>flush_client\<close>/\<^verbatim>\<open>flush_uart\<close>), and the contract of a byte queue that it meets.
\<close>

text \<open>
  What one \<^verbatim>\<open>send\<close> or \<^verbatim>\<open>write\<close> of a non-blocking descriptor does: it takes some bytes (at least
  one, at most what is offered), returns 0 with \<^verbatim>\<open>errno\<close> as it stood, or fails. A descriptor's
  future is the list of these results; past its end the descriptor would block.
\<close>

datatype send_result = Sent nat | SentNothing errno | SendFail errno

record out_window =
  ow_buf :: bytes
  ow_offset :: nat
  ow_length :: nat

definition CA_SIYI_OUTPUT_BUFFER :: nat where "CA_SIYI_OUTPUT_BUFFER = 8192"

definition window_empty :: "out_window \<Rightarrow> out_window" where
  "window_empty w = w\<lparr>ow_offset := 0, ow_length := 0\<rparr>"

definition window_push :: "out_window \<Rightarrow> bytes \<Rightarrow> errno + out_window" where
  "window_push w packet =
     (if CA_SIYI_OUTPUT_BUFFER - ow_length w < length packet then Inl ENOBUFS
      else
        let w1 = (if ow_offset w \<noteq> 0 \<and>
                     CA_SIYI_OUTPUT_BUFFER < ow_offset w + ow_length w + length packet
                  then w\<lparr>ow_buf := blit (ow_buf w) 0 (take (ow_length w) (drop (ow_offset w) (ow_buf w))),
                         ow_offset := 0\<rparr>
                  else w)
        in Inr (w1\<lparr>ow_buf := blit (ow_buf w1) (ow_offset w1 + ow_length w1) packet,
                   ow_length := ow_length w1 + length packet\<rparr>))"

text \<open>The loop of the flush functions: the error it returns, the window, the descriptor's
  remaining future and the bytes handed to the descriptor.\<close>

fun window_flush ::
  "out_window \<Rightarrow> send_result list \<Rightarrow> errno option \<times> out_window \<times> send_result list \<times> bytes" where
  "window_flush w [] =
     (None, if ow_length w = 0 then w\<lparr>ow_offset := 0\<rparr> else w, [], [])"
| "window_flush w (r # rs) =
     (if ow_length w = 0 then (None, w\<lparr>ow_offset := 0\<rparr>, r # rs, [])
      else case r of
        Sent k \<Rightarrow>
          let n = max 1 (min k (ow_length w));
              (e, w', rs', out) =
                window_flush (w\<lparr>ow_offset := ow_offset w + n, ow_length := ow_length w - n\<rparr>) rs
          in (e, w', rs', take n (drop (ow_offset w) (ow_buf w)) @ out)
      | SentNothing e \<Rightarrow> (Some e, w, rs, [])
      | SendFail e \<Rightarrow>
          if e = EINTR then window_flush w rs
          else if e = EAGAIN then (None, w, rs, [])
          else (Some e, w, rs, []))"

subsection \<open>The contract of a byte queue\<close>

locale byte_queue =
  fixes content :: "'q \<Rightarrow> bytes"
    and push :: "'q \<Rightarrow> bytes \<Rightarrow> errno + 'q"
    and flush :: "'q \<Rightarrow> 's \<Rightarrow> errno option \<times> 'q \<times> 's \<times> bytes"
    and wf :: "'q \<Rightarrow> bool"
    and capacity :: nat
  assumes push_fits: "wf q \<Longrightarrow> length (content q) + length p \<le> capacity \<Longrightarrow>
      \<exists>q'. push q p = Inr q' \<and> wf q' \<and> content q' = content q @ p"
    and push_full: "wf q \<Longrightarrow> capacity < length (content q) + length p \<Longrightarrow> push q p = Inl ENOBUFS"
    and flush_sends: "wf q \<Longrightarrow> flush q s = (e, q', s', out) \<Longrightarrow>
      wf q' \<and> content q = out @ content q'"
begin

lemma push_Inr:
  assumes "wf q" and "push q p = Inr q'"
  shows "wf q' \<and> content q' = content q @ p \<and> length (content q) + length p \<le> capacity"
proof (cases "length (content q) + length p \<le> capacity")
  case True
  with push_fits [OF assms(1) True] assms(2) show ?thesis by auto
next
  case False
  with push_full [OF assms(1)] assms(2) show ?thesis by auto
qed

lemma push_Inl: "wf q \<Longrightarrow> push q p = Inl e \<Longrightarrow> e = ENOBUFS \<and> capacity < length (content q) + length p"
  using push_fits [of q p] push_full [of q p] by (cases "length (content q) + length p \<le> capacity") auto

text \<open>One call of the queue functions: push, then flush. The bytes that left the queue and the
  bytes still in it are, together and in order, the old content and the packet.\<close>

lemma push_then_flush:
  assumes "wf q" and "push q p = Inr q1" and "flush q1 s = (e, q2, s', out)"
  shows "wf q2 \<and> out @ content q2 = content q @ p"
  using push_Inr [OF assms(1,2)] flush_sends [of q1 s e q2 s' out] assms(3) by simp

end

subsection \<open>The window meets it\<close>

definition ow_content :: "out_window \<Rightarrow> bytes" where
  "ow_content w = take (ow_length w) (drop (ow_offset w) (ow_buf w))"

definition window_ok :: "out_window \<Rightarrow> bool" where
  "window_ok w \<longleftrightarrow> length (ow_buf w) = CA_SIYI_OUTPUT_BUFFER
     \<and> ow_offset w + ow_length w \<le> CA_SIYI_OUTPUT_BUFFER"

lemma length_ow_content: "window_ok w \<Longrightarrow> length (ow_content w) = ow_length w"
  by (auto simp: window_ok_def ow_content_def min_def)

lemma window_ok_empty [simp]: "window_ok w \<Longrightarrow> window_ok (window_empty w)"
  "ow_content (window_empty w) = []" "ow_length (window_empty w) = 0"
  by (simp_all add: window_ok_def window_empty_def ow_content_def)

lemma blit_content:
  assumes "off + n + length p \<le> length buf"
  shows "take (n + length p) (drop off (blit buf (off + n) p)) = take n (drop off buf) @ p"
  using assms by (simp add: blit_def drop_take take_drop [symmetric] add.commute)

lemma window_push_fits:
  assumes ok: "window_ok w" and room: "length (ow_content w) + length p \<le> CA_SIYI_OUTPUT_BUFFER"
  shows "\<exists>w'. window_push w p = Inr w' \<and> window_ok w' \<and> ow_content w' = ow_content w @ p"
proof -
  have len: "ow_length w + length p \<le> CA_SIYI_OUTPUT_BUFFER"
    using room length_ow_content [OF ok] by simp
  define w1 where "w1 = (if ow_offset w \<noteq> 0 \<and>
      CA_SIYI_OUTPUT_BUFFER < ow_offset w + ow_length w + length p
    then w\<lparr>ow_buf := blit (ow_buf w) 0 (ow_content w), ow_offset := 0\<rparr> else w)"
  have w1: "window_ok w1" "ow_content w1 = ow_content w" "ow_length w1 = ow_length w"
    "ow_offset w1 + ow_length w + length p \<le> CA_SIYI_OUTPUT_BUFFER"
    using ok len length_ow_content [OF ok]
    by (auto simp: w1_def window_ok_def ow_content_def blit_def not_less)
  let ?w' = "w1\<lparr>ow_buf := blit (ow_buf w1) (ow_offset w1 + ow_length w1) p,
      ow_length := ow_length w1 + length p\<rparr>"
  have "window_push w p = Inr ?w'"
    using len by (simp add: window_push_def w1_def ow_content_def Let_def)
  moreover have "window_ok ?w'" using w1 by (simp add: window_ok_def)
  moreover have "ow_content ?w' = ow_content w1 @ p"
    using w1 blit_content [of "ow_offset w1" "ow_length w1" p "ow_buf w1"]
    by (simp add: window_ok_def ow_content_def)
  ultimately show ?thesis using w1(2) by simp
qed

lemma window_push_full:
  "window_ok w \<Longrightarrow> CA_SIYI_OUTPUT_BUFFER < length (ow_content w) + length p \<Longrightarrow>
   window_push w p = Inl ENOBUFS"
  by (auto simp: window_push_def length_ow_content window_ok_def)

lemma window_flush_sends:
  "window_ok w \<Longrightarrow> window_flush w s = (e, w', s', out) \<Longrightarrow>
   window_ok w' \<and> ow_content w = out @ ow_content w'"
proof (induction w s arbitrary: e w' s' out rule: window_flush.induct)
  case (1 w)
  then show ?case by (auto simp: window_ok_def ow_content_def split: if_splits)
next
  case (2 w r rs)
  show ?case
  proof (cases "ow_length w = 0")
    case True
    with 2 show ?thesis by (auto simp: window_ok_def ow_content_def)
  next
    case False
    show ?thesis
    proof (cases r)
      case (Sent k)
      define n where "n = max 1 (min k (ow_length w))"
      let ?w = "w\<lparr>ow_offset := ow_offset w + n, ow_length := ow_length w - n\<rparr>"
      have n: "n \<le> ow_length w" using False by (simp add: n_def)
      obtain e1 w1 s1 out1 where f: "window_flush ?w rs = (e1, w1, s1, out1)"
        by (cases "window_flush ?w rs") auto
      have ok: "window_ok ?w" using 2(3) n by (simp add: window_ok_def)
      have "window_ok w1 \<and> ow_content ?w = out1 @ ow_content w1"
        by (rule 2(1) [OF False Sent n_def ok f])
      moreover have "ow_content w = take n (drop (ow_offset w) (ow_buf w)) @ ow_content ?w"
        using n take_add [of n "ow_length w - n" "drop (ow_offset w) (ow_buf w)"]
        by (simp add: ow_content_def add.commute)
      moreover have "w' = w1" "out = take n (drop (ow_offset w) (ow_buf w)) @ out1"
        using 2(4) False Sent f by (simp_all add: n_def Let_def)
      ultimately show ?thesis by simp
    next
      case (SentNothing e1)
      with 2 False show ?thesis by simp
    next
      case (SendFail e1)
      with 2 False show ?thesis by (auto split: if_splits)
    qed
  qed
qed

interpretation wq: byte_queue ow_content window_push window_flush window_ok CA_SIYI_OUTPUT_BUFFER
  by unfold_locales (fact window_push_fits window_push_full window_flush_sends)+

lemma window_flush_empty: "ow_length w = 0 \<Longrightarrow> window_flush w s = (None, w\<lparr>ow_offset := 0\<rparr>, s, [])"
  by (cases s) simp_all

end
