(* ===== verification/Siyi_Server.thy ===== *)
theory Siyi_Server
  imports Siyi_Packet Stream_Parse Byte_Queue
begin

text \<open>
  The SIYI transport server, \<^verbatim>\<open>camera_app/src/protocol/siyi_server.c\<close>: UDP datagrams, up to
  eight TCP clients and a UART carry SIYI packets to a request callback, and replies go back on
  the route of the request they answer.

  The record \<^verbatim>\<open>siyi_server\<close> is \<^verbatim>\<open>struct ca_siyi_server\<close>. An input array with its length is the list
  of its valid bytes, so the subtractions \<^verbatim>\<open>*input_length - total\<close> and \<^verbatim>\<open>--*input_length\<close> are tested
  and a wrap-around (a \<^verbatim>\<open>memmove\<close> of nearly 2 ^ 64 bytes) is the result \<^term>\<open>None\<close>, a memory
  fault. The kernel's side is explicit: what a descriptor will answer to the next writes, what
  \<^verbatim>\<open>ca_poll_change\<close> will return, the clock, and, as ghost state, the bytes each descriptor took.
  The request callback is a parameter: from its own state and a packet it yields a result, the
  packets it emits while it runs, in order, and its next state.
\<close>

subsection \<open>State\<close>

definition CA_SIYI_TCP_CLIENTS :: nat where "CA_SIYI_TCP_CLIENTS = 8"
definition CA_SIYI_STREAM_BUFFER :: nat where "CA_SIYI_STREAM_BUFFER = CA_SIYI_MAX_PACKET * 2"
definition CA_SIYI_PENDING :: nat where "CA_SIYI_PENDING = 64"
definition CA_SIYI_PENDING_MS :: u64 where "CA_SIYI_PENDING_MS = 2000"
definition CA_EVENT_UDP :: u64 where "CA_EVENT_UDP = 1"
definition CA_EVENT_LISTENER :: u64 where "CA_EVENT_LISTENER = 2"
definition CA_EVENT_UART :: u64 where "CA_EVENT_UART = 3"
definition CA_EVENT_CLIENT :: u64 where "CA_EVENT_CLIENT = 0x100"

type_synonym sockaddr = "u32 \<times> u16"

datatype route_kind = ROUTE_NONE | ROUTE_UDP | ROUTE_TCP | ROUTE_UART

record route =
  kind :: route_kind
  address :: sockaddr
  slot :: nat
  generation :: u32

definition no_route :: route where
  "no_route = \<lparr>kind = ROUTE_NONE, address = (0, 0), slot = 0, generation = 0\<rparr>"

definition tcp_route :: "nat \<Rightarrow> u32 \<Rightarrow> route" where
  "tcp_route i g = no_route\<lparr>kind := ROUTE_TCP, slot := i, generation := g\<rparr>"

definition udp_route :: "sockaddr \<Rightarrow> route" where
  "udp_route a = no_route\<lparr>kind := ROUTE_UDP, address := a\<rparr>"

definition uart_route :: route where
  "uart_route = no_route\<lparr>kind := ROUTE_UART\<rparr>"

record tcp_client =
  c_fd :: int
  c_generation :: u32
  c_input :: bytes
  c_output :: out_window
  c_peer :: "send_result list"
  c_sent :: bytes

record pending_route =
  used :: bool
  p_opcode :: u8
  p_route :: route
  order :: u64
  deadline_ms :: u64

record siyi_server =
  udp_fd :: int
  listener_fd :: int
  uart_fd :: int
  uart_input :: bytes
  uart_output :: out_window
  uart_peer :: "send_result list"
  uart_sent :: bytes
  clients :: "tcp_client list"
  active :: route
  active_valid :: bool
  active_emitted :: bool
  last_route :: "u8 \<Rightarrow> route option"
  last_udp :: "route option"
  pending :: "pending_route list"
  pending_order :: u64
  udp_peer :: "(errno + nat) list"
  udp_sent :: "(sockaddr \<times> bytes) list"
  poll_results :: "errno option list"
  clock :: "nat \<Rightarrow> u64"
  clock_reads :: nat

definition monotonic_ms :: "siyi_server \<Rightarrow> u64 \<times> siyi_server" where
  "monotonic_ms s = (clock s (clock_reads s), s\<lparr>clock_reads := clock_reads s + 1\<rparr>)"

definition poll_change :: "siyi_server \<Rightarrow> errno option \<times> siyi_server" where
  "poll_change s =
     (case poll_results s of [] \<Rightarrow> (None, s) | r # rs \<Rightarrow> (r, s\<lparr>poll_results := rs\<rparr>))"

definition client_event :: "nat \<Rightarrow> u32 \<Rightarrow> u64" where
  "client_event i g = CA_EVENT_CLIENT OR of_nat i OR push_bit 16 (to64 g)"

subsection \<open>Descriptors and queues\<close>

text \<open>A result \<^term>\<open>None\<close> is the return value 0, \<^term>\<open>Some e\<close> is -1 with \<^verbatim>\<open>errno\<close> = e.\<close>

definition route_valid :: "siyi_server \<Rightarrow> route \<Rightarrow> bool" where
  "route_valid s r =
     (if kind r = ROUTE_UDP then 0 \<le> udp_fd s
      else if kind r = ROUTE_UART then 0 \<le> uart_fd s
      else if kind r \<noteq> ROUTE_TCP \<or> CA_SIYI_TCP_CLIENTS \<le> slot r then False
      else 0 \<le> c_fd (clients s ! slot r) \<and> c_generation (clients s ! slot r) = generation r)"

definition set_client :: "siyi_server \<Rightarrow> nat \<Rightarrow> tcp_client \<Rightarrow> siyi_server" where
  "set_client s i c = s\<lparr>clients := (clients s)[i := c]\<rparr>"

definition disable_uart :: "siyi_server \<Rightarrow> siyi_server" where
  "disable_uart s =
     (if uart_fd s < 0 then s
      else (snd (poll_change s))\<lparr>uart_fd := -1, uart_input := [],
              uart_output := window_empty (uart_output s)\<rparr>)"

definition flush_uart :: "siyi_server \<Rightarrow> errno option \<times> siyi_server" where
  "flush_uart s =
     (let (e, w, peer, out) = window_flush (uart_output s) (uart_peer s);
          s1 = s\<lparr>uart_output := w, uart_peer := peer, uart_sent := uart_sent s @ out\<rparr>
      in case e of Some err \<Rightarrow> (Some err, s1) | None \<Rightarrow> poll_change s1)"

definition queue_uart :: "siyi_server \<Rightarrow> bytes \<Rightarrow> errno option \<times> siyi_server" where
  "queue_uart s packet =
     (case window_push (uart_output s) packet of
        Inl e \<Rightarrow> (Some e, s)
      | Inr w \<Rightarrow>
          (case flush_uart (s\<lparr>uart_output := w\<rparr>) of
             (None, s1) \<Rightarrow> (None, s1)
           | (Some e, s1) \<Rightarrow> (Some e, disable_uart s1)))"

definition close_client :: "siyi_server \<Rightarrow> nat \<Rightarrow> siyi_server" where
  "close_client s i =
     (let c = clients s ! i in
      if c_fd c < 0 then s
      else set_client (snd (poll_change s)) i
             (c\<lparr>c_fd := -1, c_input := [], c_output := window_empty (c_output c)\<rparr>))"

definition flush_client :: "siyi_server \<Rightarrow> nat \<Rightarrow> errno option \<times> siyi_server" where
  "flush_client s i =
     (let c = clients s ! i;
          (e, w, peer, out) = window_flush (c_output c) (c_peer c);
          s1 = set_client s i (c\<lparr>c_output := w, c_peer := peer, c_sent := c_sent c @ out\<rparr>)
      in case e of Some err \<Rightarrow> (Some err, s1) | None \<Rightarrow> poll_change s1)"

definition queue_client :: "siyi_server \<Rightarrow> nat \<Rightarrow> bytes \<Rightarrow> errno option \<times> siyi_server" where
  "queue_client s i packet =
     (let c = clients s ! i in
      case window_push (c_output c) packet of
        Inl e \<Rightarrow> (Some e, s)
      | Inr w \<Rightarrow> flush_client (set_client s i (c\<lparr>c_output := w\<rparr>)) i)"

text \<open>\<^verbatim>\<open>sendto\<close> takes the next answer of the UDP socket: an error, or the length it reports.\<close>

definition send_udp :: "siyi_server \<Rightarrow> sockaddr \<Rightarrow> bytes \<Rightarrow> errno option \<times> siyi_server" where
  "send_udp s a packet =
     (case udp_peer s of
        [] \<Rightarrow> (None, s\<lparr>udp_sent := udp_sent s @ [(a, packet)]\<rparr>)
      | Inl e # rs \<Rightarrow> (Some e, s\<lparr>udp_peer := rs\<rparr>)
      | Inr n # rs \<Rightarrow>
          (if n = length packet then None else Some EIO,
           s\<lparr>udp_peer := rs, udp_sent := udp_sent s @ [(a, take n packet)]\<rparr>))"

definition send_route :: "siyi_server \<Rightarrow> route \<Rightarrow> bytes \<Rightarrow> errno option \<times> siyi_server" where
  "send_route s r packet =
     (if \<not> route_valid s r then (Some ENOTCONN, s)
      else if kind r = ROUTE_UDP then send_udp s (address r) packet
      else if kind r = ROUTE_UART then queue_uart s packet
      else queue_client s (slot r) packet)"

subsection \<open>Requests that wait for a late reply\<close>

definition purge_pending :: "u64 \<Rightarrow> pending_route list \<Rightarrow> pending_route list" where
  "purge_pending now ps =
     map (\<lambda>p. if used p \<and> deadline_ms p \<le> now then p\<lparr>used := False\<rparr> else p) ps"

text \<open>The slot of a new entry: the first free one, else the one with the least order.\<close>

fun pending_slot :: "pending_route list \<Rightarrow> nat \<Rightarrow> nat \<Rightarrow> u64 \<Rightarrow> nat" where
  "pending_slot [] i selected oldest = selected"
| "pending_slot (p # ps) i selected oldest =
     (if \<not> used p then i
      else if order p < oldest then pending_slot ps (i + 1) i (order p)
      else pending_slot ps (i + 1) selected oldest)"

definition add_pending :: "siyi_server \<Rightarrow> u8 \<Rightarrow> route \<Rightarrow> siyi_server" where
  "add_pending s0 op r =
     (let (now, s) = monotonic_ms s0;
          ps = purge_pending now (pending s);
          selected = pending_slot ps 0 CA_SIYI_PENDING (-1);
          ord = pending_order s + 1
      in s\<lparr>pending := ps[selected := \<lparr>used = True, p_opcode = op, p_route = r, order = ord,
                           deadline_ms = now + CA_SIYI_PENDING_MS\<rparr>],
           pending_order := ord\<rparr>)"

fun pending_match ::
  "(route \<Rightarrow> bool) \<Rightarrow> u8 \<Rightarrow> pending_route list \<Rightarrow> nat \<Rightarrow> nat \<Rightarrow> u64 \<Rightarrow> nat" where
  "pending_match valid op [] i selected oldest = selected"
| "pending_match valid op (p # ps) i selected oldest =
     (if used p \<and> p_opcode p = op \<and> order p < oldest \<and> valid (p_route p)
      then pending_match valid op ps (i + 1) i (order p)
      else pending_match valid op ps (i + 1) selected oldest)"

definition take_pending :: "siyi_server \<Rightarrow> u8 \<Rightarrow> route option \<times> siyi_server" where
  "take_pending s0 op =
     (let (now, s1) = monotonic_ms s0;
          ps = purge_pending now (pending s1);
          s = s1\<lparr>pending := ps\<rparr>;
          selected = pending_match (route_valid s) op ps 0 CA_SIYI_PENDING (-1)
      in if selected = CA_SIYI_PENDING then (None, s)
         else (Some (p_route (ps ! selected)),
               s\<lparr>pending := ps[selected := (ps ! selected)\<lparr>used := False\<rparr>]\<rparr>))"

subsection \<open>Sending replies\<close>

definition broadcast_client :: "bytes \<Rightarrow> siyi_server \<Rightarrow> nat \<Rightarrow> siyi_server" where
  "broadcast_client packet s i =
     (if 0 \<le> c_fd (clients s ! i)
      then (case queue_client s i packet of
              (None, s1) \<Rightarrow> s1
            | (Some e, s1) \<Rightarrow> close_client s1 i)
      else s)"

definition broadcast_unmatched :: "siyi_server \<Rightarrow> bytes \<Rightarrow> siyi_server" where
  "broadcast_unmatched s packet =
     (let s1 = foldl (broadcast_client packet) s [0..<CA_SIYI_TCP_CLIENTS];
          s2 = (case last_udp s1 of None \<Rightarrow> s1 | Some r \<Rightarrow> snd (send_route s1 r packet))
      in if 0 \<le> uart_fd s2 then snd (send_route s2 uart_route packet) else s2)"

text \<open>The route of an emitted packet: the request being served, else the oldest request of the
  same opcode that waits, else the last request of that opcode.\<close>

definition emit_route :: "siyi_server \<Rightarrow> bytes \<Rightarrow> route option \<times> siyi_server" where
  "emit_route s packet =
     (if active_valid s then (Some (active s), s\<lparr>active_emitted := True\<rparr>)
      else case ca_siyi_parse_one packet of
        Parsed parsed consumed \<Rightarrow>
          if consumed \<noteq> length packet then (None, s)
          else (case take_pending s (opcode parsed) of
              (Some r, s1) \<Rightarrow> (Some r, s1)
            | (None, s1) \<Rightarrow>
                (case last_route s1 (opcode parsed) of
                   Some r \<Rightarrow> (if route_valid s1 r then Some r else None, s1)
                 | None \<Rightarrow> (None, s1)))
      | _ \<Rightarrow> (None, s))"

definition ca_siyi_server_emit :: "siyi_server \<Rightarrow> bytes \<Rightarrow> siyi_server" where
  "ca_siyi_server_emit s packet =
     (if packet = [] then s
      else case emit_route s packet of
        (Some r, s1) \<Rightarrow>
          (case send_route s1 r packet of
             (None, s2) \<Rightarrow> s2
           | (Some e, s2) \<Rightarrow>
               if kind r = ROUTE_TCP \<and> slot r < CA_SIYI_TCP_CLIENTS
               then close_client s2 (slot r) else s2)
      | (None, s1) \<Rightarrow> broadcast_unmatched s1 packet)"

subsection \<open>Requests\<close>

type_synonym 'b request = "'b \<Rightarrow> bytes \<Rightarrow> errno option \<times> bytes list \<times> 'b"

definition dispatch_packet ::
  "'b request \<Rightarrow> siyi_server \<Rightarrow> route \<Rightarrow> bytes \<Rightarrow> 'b \<Rightarrow> errno option \<times> siyi_server \<times> 'b" where
  "dispatch_packet request s r packet b =
     (case ca_siyi_parse_one packet of
        Parsed parsed consumed \<Rightarrow>
          if consumed \<noteq> length packet then (Some EPROTO, s, b)
          else if kind r = ROUTE_TCP \<and> opcode parsed = 0 \<and> payload_length parsed = 1 \<and>
                  payload parsed ! 0 = 0
          then (None, s, b)
          else
            let s1 = s\<lparr>last_route := (last_route s)(opcode parsed := Some r)\<rparr>;
                s2 = (if kind r = ROUTE_UDP then s1\<lparr>last_udp := Some r\<rparr> else s1);
                s3 = s2\<lparr>active := r, active_valid := True, active_emitted := False\<rparr>;
                (result, emits, b') = request b packet;
                s4 = foldl ca_siyi_server_emit s3 emits;
                s5 = s4\<lparr>active_valid := False\<rparr>;
                s6 = (if active_emitted s4 then s5 else add_pending s5 (opcode parsed) r)
            in (result, s6, b')
      | _ \<Rightarrow> (Some EPROTO, s, b))"

text \<open>The two streams, and the input array that \<^verbatim>\<open>process_stream\<close> is given for each.\<close>

datatype stream = Client nat | Uart

fun get_input :: "siyi_server \<Rightarrow> stream \<Rightarrow> bytes" where
  "get_input s (Client i) = (if i < length (clients s) then c_input (clients s ! i) else [])"
| "get_input s Uart = uart_input s"

fun set_input :: "siyi_server \<Rightarrow> stream \<Rightarrow> bytes \<Rightarrow> siyi_server" where
  "set_input s (Client i) d = set_client s i ((clients s ! i)\<lparr>c_input := d\<rparr>)"
| "set_input s Uart d = s\<lparr>uart_input := d\<rparr>"

fun stream_open :: "siyi_server \<Rightarrow> stream \<Rightarrow> bool" where
  "stream_open s (Client i) \<longleftrightarrow> i < length (clients s) \<and> 0 \<le> c_fd (clients s ! i)"
| "stream_open s Uart \<longleftrightarrow> 0 \<le> uart_fd s"

fun sync_start :: "bytes \<Rightarrow> nat" where
  "sync_start (a # b # d) = (if a = 0x55 \<and> b = 0x66 then 0 else Suc (sync_start (b # d)))"
| "sync_start d = 0"

end
