(* ===== verification/Siyi_Emit.thy ===== *)
theory Siyi_Emit
  imports Siyi_Server
begin

text \<open>
  What sending replies can do to the SIYI server: the state relation that every send keeps, which
  inputs it may clear, and that it does not look at them.
\<close>

subsection \<open>The invariant, and how replies change the state\<close>

definition client_ok :: "tcp_client \<Rightarrow> bool" where
  "client_ok c \<longleftrightarrow> window_ok (c_output c) \<and> (c_fd c < 0 \<longrightarrow> c_input c = [])
     \<and> length (c_input c) \<le> CA_SIYI_STREAM_BUFFER"

definition uart_ok :: "siyi_server \<Rightarrow> bool" where
  "uart_ok s \<longleftrightarrow> window_ok (uart_output s) \<and> (uart_fd s < 0 \<longrightarrow> uart_input s = [])
     \<and> length (uart_input s) \<le> CA_SIYI_STREAM_BUFFER"

definition siyi_ok :: "siyi_server \<Rightarrow> bool" where
  "siyi_ok s \<longleftrightarrow> length (clients s) = CA_SIYI_TCP_CLIENTS \<and> length (pending s) = CA_SIYI_PENDING
     \<and> list_all client_ok (clients s) \<and> uart_ok s"

definition client_evolves :: "tcp_client \<Rightarrow> tcp_client \<Rightarrow> bool" where
  "client_evolves c c' \<longleftrightarrow> c_generation c' = c_generation c
     \<and> (c_fd c' = c_fd c \<and> c_input c' = c_input c \<or> c_fd c' < 0 \<and> c_input c' = [])
     \<and> (client_ok c \<longrightarrow> client_ok c')"

definition evolves :: "siyi_server \<Rightarrow> siyi_server \<Rightarrow> bool" where
  "evolves s s' \<longleftrightarrow> list_all2 client_evolves (clients s) (clients s')
     \<and> length (pending s') = length (pending s)
     \<and> (uart_fd s' = uart_fd s \<and> uart_input s' = uart_input s \<or> uart_fd s' < 0 \<and> uart_input s' = [])
     \<and> (uart_ok s \<longrightarrow> uart_ok s')
     \<and> udp_fd s' = udp_fd s \<and> listener_fd s' = listener_fd s \<and> clock s' = clock s"

lemma client_evolves_refl [simp]: "client_evolves c c"
  by (simp add: client_evolves_def)

lemma client_evolves_trans: "client_evolves a b \<Longrightarrow> client_evolves b c \<Longrightarrow> client_evolves a c"
  by (auto simp: client_evolves_def)

lemma evolves_refl [simp]: "evolves s s"
  by (simp add: evolves_def list_all2_refl)

lemma evolves_trans [trans]: assumes "evolves a b" and "evolves b c" shows "evolves a c"
proof -
  have "list_all2 client_evolves (clients a) (clients c)"
    using assms by (simp add: evolves_def list_all2_conv_all_nth) (metis client_evolves_trans)
  with assms show ?thesis by (auto simp: evolves_def)
qed

lemma evolves_ok: "evolves s s' \<Longrightarrow> siyi_ok s \<Longrightarrow> siyi_ok s'"
  by (auto simp: evolves_def siyi_ok_def list_all2_conv_all_nth list_all_length client_evolves_def)

lemma evolves_foldl: "(\<And>s x. evolves s (f s x)) \<Longrightarrow> evolves s (foldl f s xs)"
  by (induction xs arbitrary: s) (auto intro: evolves_trans)

lemma evolves_set_client:
  "(i < length (clients s) \<Longrightarrow> client_evolves (clients s ! i) c) \<Longrightarrow> evolves s (set_client s i c)"
  unfolding evolves_def set_client_def
  by (cases "i < length (clients s)")
    (simp_all add: list_all2_conv_all_nth nth_list_update uart_ok_def)

lemma evolves_poll_change [simp]: "evolves s (snd (poll_change s))"
  by (auto simp: poll_change_def evolves_def uart_ok_def list_all2_refl split: list.splits)

lemma poll_change_simps [simp]:
  "clients (snd (poll_change s)) = clients s" "uart_fd (snd (poll_change s)) = uart_fd s"
  "uart_input (snd (poll_change s)) = uart_input s"
  "uart_output (snd (poll_change s)) = uart_output s"
  "uart_sent (snd (poll_change s)) = uart_sent s" "udp_sent (snd (poll_change s)) = udp_sent s"
  "udp_fd (snd (poll_change s)) = udp_fd s" "listener_fd (snd (poll_change s)) = listener_fd s"
  "active_valid (snd (poll_change s)) = active_valid s"
  "active (snd (poll_change s)) = active s" "pending (snd (poll_change s)) = pending s"
  "last_route (snd (poll_change s)) = last_route s" "last_udp (snd (poll_change s)) = last_udp s"
  "clock (snd (poll_change s)) = clock s" "clock_reads (snd (poll_change s)) = clock_reads s"
  by (simp_all add: poll_change_def split: list.splits)

lemma evolves_close_client [simp]: "evolves s (close_client s i)"
proof (cases "c_fd (clients s ! i) < 0")
  case False
  have "evolves (snd (poll_change s)) (set_client (snd (poll_change s)) i
      ((clients s ! i)\<lparr>c_fd := -1, c_input := [], c_output := window_empty (c_output (clients s ! i))\<rparr>))"
    by (rule evolves_set_client) (auto simp: client_evolves_def client_ok_def)
  with False show ?thesis
    using evolves_trans [OF evolves_poll_change] by (simp add: close_client_def Let_def)
qed (simp add: close_client_def)

lemma evolves_disable_uart [simp]: "evolves s (disable_uart s)"
  by (auto simp: disable_uart_def evolves_def list_all2_refl uart_ok_def)

lemma evolves_flush_uart [simp]: "evolves s (snd (flush_uart s))"
proof -
  obtain e w p out where f: "window_flush (uart_output s) (uart_peer s) = (e, w, p, out)"
    by (cases "window_flush (uart_output s) (uart_peer s)") auto
  let ?s = "s\<lparr>uart_output := w, uart_peer := p, uart_sent := uart_sent s @ out\<rparr>"
  have "evolves s ?s"
    using window_flush_sends [OF _ f] by (auto simp: evolves_def uart_ok_def list_all2_refl)
  then show ?thesis
    using evolves_trans [OF _ evolves_poll_change, of s ?s]
    by (auto simp: flush_uart_def f Let_def split: option.splits)
qed

lemma evolves_flush_client [simp]: "evolves s (snd (flush_client s i))"
proof -
  let ?c = "clients s ! i"
  obtain e w p out where f: "window_flush (c_output ?c) (c_peer ?c) = (e, w, p, out)"
    by (cases "window_flush (c_output ?c) (c_peer ?c)") auto
  let ?s = "set_client s i (?c\<lparr>c_output := w, c_peer := p, c_sent := c_sent ?c @ out\<rparr>)"
  have "evolves s ?s"
    using window_flush_sends [OF _ f]
    by (intro evolves_set_client) (auto simp: client_evolves_def client_ok_def)
  then show ?thesis
    using evolves_trans [OF _ evolves_poll_change, of s ?s]
    by (auto simp: flush_client_def f Let_def split: option.splits)
qed

lemma evolves_queue_uart [simp]: "evolves s (snd (queue_uart s p))"
proof (cases "window_push (uart_output s) p")
  case (Inl e)
  then show ?thesis by (simp add: queue_uart_def)
next
  case (Inr w)
  have a: "evolves s (s\<lparr>uart_output := w\<rparr>)"
    using wq.push_Inr [OF _ Inr] by (auto simp: evolves_def uart_ok_def list_all2_refl)
  obtain e s1 where f: "flush_uart (s\<lparr>uart_output := w\<rparr>) = (e, s1)"
    by (cases "flush_uart (s\<lparr>uart_output := w\<rparr>)")
  then have "evolves s s1" using a evolves_trans [OF a evolves_flush_uart] by simp
  then show ?thesis
    using evolves_trans [OF _ evolves_disable_uart, of s s1]
    by (auto simp: queue_uart_def Inr f split: option.splits)
qed

lemma evolves_queue_client [simp]: "evolves s (snd (queue_client s i p))"
proof (cases "window_push (c_output (clients s ! i)) p")
  case (Inl e)
  then show ?thesis by (simp add: queue_client_def)
next
  case (Inr w)
  have a: "evolves s (set_client s i ((clients s ! i)\<lparr>c_output := w\<rparr>))"
    using wq.push_Inr [OF _ Inr] by (intro evolves_set_client) (auto simp: client_evolves_def client_ok_def)
  show ?thesis using evolves_trans [OF a evolves_flush_client] by (simp add: queue_client_def Inr)
qed

lemma evolves_send_udp [simp]: "evolves s (snd (send_udp s a p))"
  by (simp add: send_udp_def evolves_def uart_ok_def list_all2_refl split: list.split sum.split)

lemma evolves_send_route [simp]: "evolves s (snd (send_route s r p))"
  by (simp add: send_route_def)

lemma evolves_take_pending [simp]: "evolves s (snd (take_pending s op))"
  by (auto simp: take_pending_def monotonic_ms_def evolves_def uart_ok_def list_all2_refl Let_def purge_pending_def)

lemma evolves_add_pending [simp]: "evolves s (add_pending s op r)"
  by (auto simp: add_pending_def monotonic_ms_def evolves_def uart_ok_def list_all2_refl Let_def purge_pending_def)

lemma evolves_broadcast [simp]: "evolves s (broadcast_unmatched s p)"
proof -
  have c: "evolves s (broadcast_client p s i)" for s i
  proof (cases "queue_client s i p")
    case (Pair e s1)
    then have "evolves s s1" using evolves_queue_client [of s i p] by simp
    then show ?thesis
      using evolves_trans [OF _ evolves_close_client, of s s1]
      by (auto simp: broadcast_client_def Pair split: option.splits)
  qed
  define s1 where "s1 = foldl (broadcast_client p) s [0..<CA_SIYI_TCP_CLIENTS]"
  define s2 where "s2 = (case last_udp s1 of None \<Rightarrow> s1 | Some r \<Rightarrow> snd (send_route s1 r p))"
  have "evolves s s1" unfolding s1_def by (rule evolves_foldl [OF c])
  also have "evolves s1 s2" by (simp add: s2_def split: option.splits)
  finally have "evolves s s2" .
  then show ?thesis
    using evolves_trans [OF _ evolves_send_route, of s s2]
    by (auto simp: broadcast_unmatched_def s1_def [symmetric] s2_def [symmetric] Let_def)
qed

lemma evolves_emit_route [simp]: "evolves s (snd (emit_route s p))"
proof (cases "ca_siyi_parse_one p")
  case (Parsed q n)
  obtain r s1 where t: "take_pending s (opcode q) = (r, s1)" by (cases "take_pending s (opcode q)")
  then have "evolves s s1" using evolves_take_pending [of s "opcode q"] by simp
  then show ?thesis
    by (auto simp: emit_route_def Parsed t evolves_def uart_ok_def list_all2_refl split: option.splits)
qed (auto simp: emit_route_def evolves_def uart_ok_def list_all2_refl)

lemma evolves_emit [simp]: "evolves s (ca_siyi_server_emit s p)"
proof -
  obtain r s1 where t: "emit_route s p = (r, s1)" by (cases "emit_route s p")
  then have a: "evolves s s1" using evolves_emit_route [of s p] by simp
  have b: "evolves s (snd (send_route s1 q p))" for q by (rule evolves_trans [OF a evolves_send_route])
  show ?thesis
    using evolves_trans [OF a evolves_broadcast] b evolves_trans [OF b evolves_close_client]
    by (auto simp: ca_siyi_server_emit_def t split: option.splits prod.splits)
      (metis snd_conv)+
qed

lemma evolves_dispatch [simp]: "evolves s (fst (snd (dispatch_packet request s r p b)))"
proof (cases "ca_siyi_parse_one p")
  case (Parsed q n)
  define s3 where "s3 = (let s1 = s\<lparr>last_route := (last_route s)(opcode q := Some r)\<rparr>;
      s2 = (if kind r = ROUTE_UDP then s1\<lparr>last_udp := Some r\<rparr> else s1)
    in s2\<lparr>active := r, active_valid := True, active_emitted := False\<rparr>)"
  obtain e emits b' where q: "request b p = (e, emits, b')" by (cases "request b p") auto
  define s4 where "s4 = foldl ca_siyi_server_emit s3 emits"
  define s5 where "s5 = s4\<lparr>active_valid := False\<rparr>"
  define s6 where "s6 = (if active_emitted s4 then s5 else add_pending s5 (opcode q) r)"
  have "evolves s s3" by (simp add: s3_def Let_def evolves_def uart_ok_def list_all2_refl)
  also have "evolves s3 s4" unfolding s4_def by (rule evolves_foldl) simp
  also have "evolves s4 s5" by (simp add: s5_def evolves_def uart_ok_def list_all2_refl)
  also have "evolves s5 s6" by (simp add: s6_def)
  finally show ?thesis
    by (auto simp: dispatch_packet_def Parsed q Let_def s3_def s4_def s5_def s6_def)
qed (simp_all add: dispatch_packet_def)

lemma evolves_input:
  assumes "evolves s s'"
  shows "stream_open s' st \<Longrightarrow> stream_open s st \<and> get_input s' st = get_input s st"
    and "stream_open s st \<Longrightarrow> \<not> stream_open s' st \<Longrightarrow> get_input s' st = []"
    and "get_input s' st = get_input s st \<or> get_input s' st = []"
  using assms by (cases st; force simp: evolves_def list_all2_conv_all_nth client_evolves_def)+

end
