(* ===== verification/Siyi_Stream.thy ===== *)
theory Siyi_Stream
  imports Siyi_Emit
begin

text \<open>
  The stream side of the SIYI server: \<^verbatim>\<open>process_stream\<close> and its readers. Its loop is shown to be
  the draining of a framing decision, packet by packet through \<^verbatim>\<open>dispatch_packet\<close>.
\<close>

lemma get_set_input [simp]:
  "get_input (set_input s st d) st = (case st of Client i \<Rightarrow> if i < length (clients s) then d else [] | Uart \<Rightarrow> d)"
  by (cases st) (simp_all add: set_client_def)

lemma length_get_set_input: "length (get_input (set_input s st d) st) \<le> length d"
  by (cases st) (simp_all add: set_client_def)

lemma length_set_input_less:
  "length d < n \<Longrightarrow> length (get_input (set_input s st d) st) < n"
  using length_get_set_input [of s st d] by simp

lemma sync_start_le: "sync_start d \<le> length d - 1"
  by (induction d rule: sync_start.induct) auto

text \<open>The loop, on the input of the stream \<^term>\<open>st\<close>. The two tests after \<^verbatim>\<open>dispatch_packet\<close> are
  the subtractions of the code on \<^verbatim>\<open>*input_length\<close>, which a reply sent meanwhile may have cleared.\<close>

function process_stream ::
  "'b request \<Rightarrow> siyi_server \<Rightarrow> stream \<Rightarrow> route \<Rightarrow> 'b \<Rightarrow> (siyi_server \<times> 'b) option" where
  "process_stream request s0 st r b =
     (if get_input s0 st = [] then Some (s0, b)
      else
        let start = sync_start (get_input s0 st);
            s = (if start \<noteq> 0 then set_input s0 st (drop start (get_input s0 st)) else s0);
            input = drop start (get_input s0 st)
        in if length input < CA_SIYI_MIN_PACKET then Some (s, b)
           else
             let total = unat (get_u16_le input 3) + CA_SIYI_MIN_PACKET in
             if CA_SIYI_MAX_PACKET < total
             then process_stream request (set_input s st (tl input)) st r b
             else if length input < total then Some (s, b)
             else (case dispatch_packet request s r (take total input) b of
               (result, s', b') \<Rightarrow>
                 let left = get_input s' st in
                 if result = Some EPROTO
                 then (if left = [] then None
                       else process_stream request (set_input s' st (tl left)) st r b')
                 else if length left < total then None
                 else process_stream request (set_input s' st (drop total left)) st r b'))"
  by pat_completeness auto

termination
proof (relation "measure (\<lambda>(request, s, st, r, b). length (get_input s st))", goal_cases)
  case 1
  show ?case by simp
next
  case (2 request s0 st r b start s input total)
  then show ?case
    by (auto intro!: length_set_input_less simp: CA_SIYI_MIN_PACKET_def simp del: get_set_input)
next
  case (3 request s0 st r b start s input total result y s' b' left)
  have i: "get_input s' st = get_input s st \<or> get_input s' st = []"
    using evolves_input(3) [OF evolves_dispatch] 3 by (metis fst_conv snd_conv)
  have "length (get_input s st) \<le> length (get_input s0 st)"
    using 3 by (auto simp del: get_set_input intro: order_trans [OF length_get_set_input])
  moreover have l: "left = get_input s' st" "left \<noteq> []" using 3 by simp_all
  moreover have "get_input s0 st \<noteq> []" using 3 by simp
  ultimately have "length left \<le> length (get_input s0 st)" "0 < length left"
    using i by auto
  then have "length (tl left) < length (get_input s0 st)" unfolding length_tl by linarith
  then show ?case by (simp del: get_set_input add: length_set_input_less)
next
  case (4 request s0 st r b start s input total result y s' b' left)
  have i: "get_input s' st = get_input s st \<or> get_input s' st = []"
    using evolves_input(3) [OF evolves_dispatch] 4 by (metis fst_conv snd_conv)
  have "length (get_input s st) \<le> length (get_input s0 st)"
    using 4 by (auto simp del: get_set_input intro: order_trans [OF length_get_set_input])
  moreover have l: "left = get_input s' st" "get_input s0 st \<noteq> []" using 4 by simp_all
  moreover have "0 < total" unfolding 4 CA_SIYI_MIN_PACKET_def by simp
  moreover from calculation have "length left \<le> length (get_input s0 st)" "0 < length (get_input s0 st)"
    using i by auto
  ultimately have "length (drop total left) < length (get_input s0 st)"
    unfolding length_drop by linarith
  then show ?case by (simp del: get_set_input add: length_set_input_less)
qed

declare process_stream.simps [simp del]

subsection \<open>Replies do not look at the inputs\<close>

text \<open>\<^verbatim>\<open>put\<close> replaces the input of a stream that is open.\<close>

definition put :: "stream \<Rightarrow> bytes \<Rightarrow> siyi_server \<Rightarrow> siyi_server" where
  "put st d s = (if stream_open s st then set_input s st d else s)"

lemma put_client_nth [simp]:
  "clients (put (Client i) d s) ! k =
     (if k = i \<and> stream_open s (Client i) then (clients s ! i)\<lparr>c_input := d\<rparr> else clients s ! k)"
  "clients (put Uart d s) = clients s" "length (clients (put st d s)) = length (clients s)"
  by (auto simp: put_def set_client_def) (cases st; simp add: set_client_def)

lemma put_open [simp]: "stream_open (put st d s) st' = stream_open s st'"
  by (cases st; cases st') (auto simp: put_def set_client_def nth_list_update)

lemma put_fields [simp]:
  "udp_fd (put st d s) = udp_fd s" "uart_fd (put st d s) = uart_fd s"
  "uart_output (put st d s) = uart_output s" "uart_peer (put st d s) = uart_peer s"
  "uart_sent (put st d s) = uart_sent s" "active (put st d s) = active s"
  "active_valid (put st d s) = active_valid s" "active_emitted (put st d s) = active_emitted s"
  "last_route (put st d s) = last_route s" "last_udp (put st d s) = last_udp s"
  "pending (put st d s) = pending s" "pending_order (put st d s) = pending_order s"
  "udp_peer (put st d s) = udp_peer s" "udp_sent (put st d s) = udp_sent s"
  "poll_results (put st d s) = poll_results s" "clock (put st d s) = clock s"
  "clock_reads (put st d s) = clock_reads s"
  "c_fd (clients (put st d s) ! k) = c_fd (clients s ! k)"
  "c_generation (clients (put st d s) ! k) = c_generation (clients s ! k)"
  "c_output (clients (put st d s) ! k) = c_output (clients s ! k)"
  "c_peer (clients (put st d s) ! k) = c_peer (clients s ! k)"
  "c_sent (clients (put st d s) ! k) = c_sent (clients s ! k)"
  by (cases st; auto simp: put_def set_client_def nth_list_update)+

text \<open>Updates of the other fields can be pulled out of \<^verbatim>\<open>put\<close>.\<close>

lemma put_updates [simp]:
  "(put st d s)\<lparr>pending := v1\<rparr> = put st d (s\<lparr>pending := v1\<rparr>)"
  "(put st d s)\<lparr>pending_order := v2\<rparr> = put st d (s\<lparr>pending_order := v2\<rparr>)"
  "(put st d s)\<lparr>clock_reads := v3\<rparr> = put st d (s\<lparr>clock_reads := v3\<rparr>)"
  "(put st d s)\<lparr>udp_peer := v4\<rparr> = put st d (s\<lparr>udp_peer := v4\<rparr>)"
  "(put st d s)\<lparr>udp_sent := v5\<rparr> = put st d (s\<lparr>udp_sent := v5\<rparr>)"
  "(put st d s)\<lparr>poll_results := v6\<rparr> = put st d (s\<lparr>poll_results := v6\<rparr>)"
  "(put st d s)\<lparr>active := v7\<rparr> = put st d (s\<lparr>active := v7\<rparr>)"
  "(put st d s)\<lparr>active_valid := v8\<rparr> = put st d (s\<lparr>active_valid := v8\<rparr>)"
  "(put st d s)\<lparr>active_emitted := v9\<rparr> = put st d (s\<lparr>active_emitted := v9\<rparr>)"
  "(put st d s)\<lparr>last_route := v10\<rparr> = put st d (s\<lparr>last_route := v10\<rparr>)"
  "(put st d s)\<lparr>last_udp := v11\<rparr> = put st d (s\<lparr>last_udp := v11\<rparr>)"
  "(put st d s)\<lparr>uart_output := v12\<rparr> = put st d (s\<lparr>uart_output := v12\<rparr>)"
  "(put st d s)\<lparr>uart_peer := v13\<rparr> = put st d (s\<lparr>uart_peer := v13\<rparr>)"
  "(put st d s)\<lparr>uart_sent := v14\<rparr> = put st d (s\<lparr>uart_sent := v14\<rparr>)"
  by (cases st; simp add: put_def set_client_def)+

lemma put_set_client_gen:
  assumes "c_fd c = c_fd (clients s ! i)"
  shows "set_client (put st d s) i (if st = Client i \<and> stream_open s st then c\<lparr>c_input := d\<rparr> else c) =
     put st d (set_client s i c)"
proof (cases st)
  case (Client k)
  show ?thesis
  proof (cases "k = i")
    case True
    with assms show ?thesis
      by (cases "i < length (clients s)") (simp_all add: Client put_def set_client_def)
  next
    case False
    then show ?thesis by (simp add: Client put_def set_client_def list_update_swap [OF False])
  qed
qed (simp add: put_def set_client_def)

lemma put_client_eq:
  "clients (put st d s) ! i =
     (if st = Client i \<and> stream_open s st then (clients s ! i)\<lparr>c_input := d\<rparr> else clients s ! i)"
  by (cases st) auto

lemma put_set_client [simp]:
  "set_client (put st d s) i ((clients (put st d s) ! i)\<lparr>c_output := w\<rparr>) =
     put st d (set_client s i ((clients s ! i)\<lparr>c_output := w\<rparr>))"
proof -
  have "(clients (put st d s) ! i)\<lparr>c_output := w\<rparr> = (if st = Client i \<and> stream_open s st
      then ((clients s ! i)\<lparr>c_output := w\<rparr>)\<lparr>c_input := d\<rparr> else (clients s ! i)\<lparr>c_output := w\<rparr>)"
    unfolding put_client_eq by (auto simp del: stream_open.simps)
  then show ?thesis by (simp only:) (rule put_set_client_gen, simp)
qed

lemma put_set_client3 [simp]:
  "set_client (put st d s) i ((clients (put st d s) ! i)\<lparr>c_output := w, c_peer := p, c_sent := x\<rparr>) =
     put st d (set_client s i ((clients s ! i)\<lparr>c_output := w, c_peer := p, c_sent := x\<rparr>))"
proof -
  have "(clients (put st d s) ! i)\<lparr>c_output := w, c_peer := p, c_sent := x\<rparr> =
    (if st = Client i \<and> stream_open s st
      then ((clients s ! i)\<lparr>c_output := w, c_peer := p, c_sent := x\<rparr>)\<lparr>c_input := d\<rparr>
      else (clients s ! i)\<lparr>c_output := w, c_peer := p, c_sent := x\<rparr>)"
    unfolding put_client_eq by (auto simp del: stream_open.simps)
  then show ?thesis by (simp only:) (rule put_set_client_gen, simp)
qed

lemma put_route_valid [simp]: "route_valid (put st d s) r = route_valid s r"
  by (simp add: route_valid_def)

lemma put_poll_change [simp]: "poll_change (put st d s) = map_prod id (put st d) (poll_change s)"
  by (simp add: poll_change_def split: list.split)

lemma put_set_closed:
  assumes "c_fd c < 0" "c_input c = []"
  shows "set_client (put st d s) i c = put st d (set_client s i c)"
proof (cases st)
  case (Client k)
  show ?thesis
  proof (cases "k = i")
    case True
    with assms show ?thesis
      by (cases "i < length (clients s)") (simp_all add: Client put_def set_client_def)
  next
    case False
    then show ?thesis by (simp add: Client put_def set_client_def list_update_swap [OF False])
  qed
qed (simp add: put_def set_client_def)

lemma put_client_closed [simp]:
  "(clients (put st d s) ! k)\<lparr>c_fd := a, c_input := b, c_output := w\<rparr> =
     (clients s ! k)\<lparr>c_fd := a, c_input := b, c_output := w\<rparr>"
  by (rule tcp_client.equality) simp_all

lemma put_close_client [simp]: "close_client (put st d s) i = put st d (close_client s i)"
  by (simp add: close_client_def Let_def put_set_closed del: put_client_nth)

lemma put_disable_uart [simp]: "disable_uart (put st d s) = put st d (disable_uart s)"
  by (cases st) (auto simp: disable_uart_def put_def set_client_def poll_change_def split: list.split)

lemma put_flush_uart [simp]: "flush_uart (put st d s) = map_prod id (put st d) (flush_uart s)"
  by (simp add: flush_uart_def Let_def split: prod.split option.split)

lemma put_flush_client [simp]:
  "flush_client (put st d s) i = map_prod id (put st d) (flush_client s i)"
  by (simp add: flush_client_def Let_def split: prod.split option.split)

lemma put_queue_uart [simp]: "queue_uart (put st d s) p = map_prod id (put st d) (queue_uart s p)"
  by (simp add: queue_uart_def split: sum.split prod.split option.split)

lemma put_queue_client [simp]:
  "queue_client (put st d s) i p = map_prod id (put st d) (queue_client s i p)"
  by (simp add: queue_client_def Let_def split: sum.split)

lemma put_send_udp [simp]: "send_udp (put st d s) a p = map_prod id (put st d) (send_udp s a p)"
  by (simp add: send_udp_def split: list.split sum.split)

lemma put_send_route [simp]:
  "send_route (put st d s) r p = map_prod id (put st d) (send_route s r p)"
  by (simp add: send_route_def)

lemma put_take_pending [simp]:
  "take_pending (put st d s) op = map_prod id (put st d) (take_pending s op)"
proof -
  have v: "route_valid (s1\<lparr>pending := ps\<rparr>) = route_valid s1" for s1 ps
    by (rule ext) (simp add: route_valid_def)
  have w: "route_valid (put st d s1) = route_valid s1" for s1 by (rule ext) simp
  show ?thesis by (simp add: take_pending_def monotonic_ms_def Let_def v w)
qed

lemma put_add_pending [simp]: "add_pending (put st d s) op r = put st d (add_pending s op r)"
  by (simp add: add_pending_def monotonic_ms_def Let_def)

lemma put_broadcast_client [simp]:
  "broadcast_client p (put st d s) i = put st d (broadcast_client p s i)"
  by (simp add: broadcast_client_def split: prod.split option.split)

lemma put_foldl: "(\<And>s x. f (put st d s) x = put st d (f s x)) \<Longrightarrow>
  foldl f (put st d s) xs = put st d (foldl f s xs)"
  by (induction xs arbitrary: s) simp_all

lemma put_broadcast [simp]: "broadcast_unmatched (put st d s) p = put st d (broadcast_unmatched s p)"
  by (simp add: broadcast_unmatched_def Let_def put_foldl split: option.split)

lemma put_emit_route [simp]: "emit_route (put st d s) p = map_prod id (put st d) (emit_route s p)"
  by (simp add: emit_route_def split: siyi_parse.split prod.split option.split)

lemma put_emit [simp]: "ca_siyi_server_emit (put st d s) p = put st d (ca_siyi_server_emit s p)"
proof -
  obtain r s1 where e: "emit_route s p = (r, s1)" by (cases "emit_route s p")
  show ?thesis
  proof (cases r)
    case (Some q)
    obtain x s2 where "send_route s1 q p = (x, s2)" by (cases "send_route s1 q p")
    with e Some show ?thesis by (cases x) (simp_all add: ca_siyi_server_emit_def)
  qed (simp add: ca_siyi_server_emit_def e)
qed

lemma put_dispatch:
  "dispatch_packet request (put st d s) r p b =
     map_prod id (map_prod (put st d) id) (dispatch_packet request s r p b)"
proof (cases "ca_siyi_parse_one p")
  case (Parsed q n)
  obtain e es b' where "request b p = (e, es, b')" by (cases "request b p") auto
  with Parsed show ?thesis by (simp add: dispatch_packet_def Let_def put_foldl)
qed (simp_all add: dispatch_packet_def)

subsection \<open>The framing decision\<close>

definition siyi_step :: "bytes \<Rightarrow> (bytes, unit) verdict" where
  "siyi_step d =
     (if length d < 2 then Need
      else if d ! 0 \<noteq> 0x55 \<or> d ! 1 \<noteq> 0x66 then Skip 1 ()
      else if length d < 10 then Need
      else
        let total = unat (get_u16_le d 3) + 10 in
        if 2048 < total then Skip 1 ()
        else if length d < total then Need
        else (case ca_siyi_parse_one (take total d) of
            Parsed p n \<Rightarrow> Take total (take total d)
          | _ \<Rightarrow> Skip 1 ()))"

lemma siyi_need_short: "siyi_step d = Need \<Longrightarrow> length d < 2048"
  by (auto simp: siyi_step_def Let_def split: if_splits siyi_parse.splits)

interpretation ss: stream_parser siyi_step
proof
  show "0 < n \<and> n \<le> length xs" if "siyi_step xs = Skip n e" for xs n e
    using that by (auto simp: siyi_step_def Let_def split: if_splits siyi_parse.splits)
  show "0 < n \<and> n \<le> length xs" if "siyi_step xs = Take n f" for xs n f
    using that by (auto simp: siyi_step_def Let_def split: if_splits siyi_parse.splits)
  show "siyi_step (xs @ ys) = siyi_step xs" if h: "siyi_step xs \<noteq> Need" for xs ys
  proof -
    have two: "2 \<le> length xs" using h by (cases "length xs < 2") (simp_all add: siyi_step_def)
    then have a: "(xs @ ys) ! 0 = xs ! 0" "(xs @ ys) ! 1 = xs ! 1" by (auto simp: nth_append)
    show ?thesis
    proof (cases "10 \<le> length xs")
      case True
      then have "get_u16_le (xs @ ys) 3 = get_u16_le xs 3" by (simp add: get_u16_le_append)
      with h True a show ?thesis
        by (auto simp: siyi_step_def Let_def split: if_splits siyi_parse.split)
    next
      case False
      with h two a show ?thesis by (auto simp: siyi_step_def Let_def split: if_splits)
    qed
  qed
qed

lemma sync_start_synced:
  "length (drop (sync_start d) d) < 2 \<or> drop (sync_start d) d ! 0 = 0x55 \<and> drop (sync_start d) d ! 1 = 0x66"
  by (induction d rule: sync_start.induct) auto

lemma drain_sync:
  "drain siyi_step d =
     (replicate (sync_start d) (Inl ()) @ fst (drain siyi_step (drop (sync_start d) d)),
      snd (drain siyi_step (drop (sync_start d) d)))"
proof (induction d rule: sync_start.induct)
  case (1 a b d)
  show ?case
  proof (cases "a = 0x55 \<and> b = 0x66")
    case False
    then have "siyi_step (a # b # d) = Skip 1 ()" by (auto simp: siyi_step_def)
    from ss.drain_skip [OF this] 1 [OF False] False show ?thesis
      by (simp del: de_Morgan_conj add: if_not_P [OF False])
  qed simp
qed simp_all

lemma parse_take_total:
  assumes "10 \<le> length d" and "t = unat (get_u16_le d 3) + 10" and "t \<le> length d"
    and p: "ca_siyi_parse_one (take t d) = Parsed p n"
  shows "n = t" and "length (take t d) = t"
proof -
  have g: "get_u16_le (take t d) 3 = get_u16_le d 3"
    using get_u16_le_append [of 3 "take t d" "drop t d"] assms(1-3) by simp
  have "length (take t d) = t" using assms(3) by simp
  with p show "n = t" "length (take t d) = t"
    unfolding ca_siyi_parse_one_def Let_def g
    by (auto simp: CA_SIYI_MIN_PACKET_def assms(2) split: if_splits)
qed

subsection \<open>The loop drains the decision\<close>

text \<open>The packets, served one after the other; a reply that closes the stream meanwhile is the
  fault of the loop.\<close>

fun serve_frames ::
  "'b request \<Rightarrow> stream \<Rightarrow> route \<Rightarrow> bytes list \<Rightarrow> siyi_server \<Rightarrow> 'b \<Rightarrow> (siyi_server \<times> 'b) option" where
  "serve_frames request st r [] s b = Some (s, b)"
| "serve_frames request st r (f # fs) s b =
     (case dispatch_packet request s r f b of
        (e, s', b') \<Rightarrow>
          if stream_open s' st then serve_frames request st r fs s' b' else None)"

text \<open>The loop as a function of the bytes still to be looked at: a decision, and for a packet its dispatch.
  A packet whose dispatch fails with EPROTO is taken for a malformed one, of which only the first byte is
  dropped.\<close>

function serve_stream ::
  "'b request \<Rightarrow> stream \<Rightarrow> route \<Rightarrow> bytes \<Rightarrow> siyi_server \<Rightarrow> 'b \<Rightarrow> (bytes \<times> siyi_server \<times> 'b) option" where
  "serve_stream request st r d s b =
     (case siyi_step d of
        Need \<Rightarrow> Some (d, s, b)
      | Skip n reason \<Rightarrow> serve_stream request st r (drop n d) s b
      | Take n f \<Rightarrow>
          (case dispatch_packet request s r f b of
             (e, s', b') \<Rightarrow>
               if \<not> stream_open s' st then None
               else serve_stream request st r (drop (if e = Some EPROTO then 1 else n) d) s' b'))"
  by pat_completeness auto
termination
proof (relation "measure (\<lambda>(request, st, r, d, s, b). length d)", goal_cases)
  case 1
  show ?case by simp
next
  case (2 request st r d s b n reason)
  from ss.skip_progress [OF 2] show ?case by auto
next
  case (3 request st r d s b n f)
  from ss.take_progress [OF 3(1)] show ?case by auto
qed

declare serve_stream.simps [simp del]

lemma put_same: "put st (get_input s st) s = s"
  by (cases st) (simp_all add: put_def set_client_def)

lemma put_put [simp]: "put st d (put st e s) = put st d s"
  by (cases st) (simp_all add: put_def set_client_def)

lemma get_put [simp]: "stream_open s st \<Longrightarrow> get_input (put st d s) st = d"
  by (cases st) (simp_all add: put_def set_client_def)

lemma set_input_put: "stream_open s st \<Longrightarrow> set_input s st d = put st d s"
  by (simp add: put_def)

lemma serve_stream_sync: "serve_stream request st r d s b = serve_stream request st r (drop (sync_start d) d) s b"
proof (induction d rule: sync_start.induct)
  case (1 x y d)
  show ?case
  proof (cases "x = 0x55 \<and> y = 0x66")
    case False
    then have "siyi_step (x # y # d) = Skip 1 ()" by (auto simp: siyi_step_def)
    then have "serve_stream request st r (x # y # d) s b = serve_stream request st r (y # d) s b"
      by (simp add: serve_stream.simps [of request st r "x # y # d"])
    with 1 [OF False] False show ?thesis by (simp del: de_Morgan_conj add: if_not_P [OF False])
  qed simp
qed simp_all

lemma process_stream_serves:
  assumes "stream_open s st"
  shows "process_stream request (put st d s) st r b =
     map_option (\<lambda>(rest, s', b'). (put st rest s', b')) (serve_stream request st r d s b)"
  using assms
proof (induction d arbitrary: s b rule: measure_induct_rule [where f = length])
  case (less d)
  define e where "e = drop (sync_start d) d"
  have op: "stream_open s st" by fact
  have srv: "serve_stream request st r d s b = serve_stream request st r e s b" unfolding e_def by (rule serve_stream_sync)
  have le: "length e \<le> length d" by (simp add: e_def)
  show ?case
  proof (cases "d = []")
    case True
    with op show ?thesis
      by (simp add: process_stream.simps [of request "put st [] s"] serve_stream.simps [of request st r "[]"] siyi_step_def)
  next
    case False
    let ?t = "unat (get_u16_le e 3) + 10"
    have s1: "(if sync_start d \<noteq> 0 then set_input (put st d s) st e else put st d s) = put st e s"
      using op by (simp add: e_def set_input_put)
    have synced: "10 \<le> length e \<Longrightarrow> e ! 0 = 0x55 \<and> e ! 1 = 0x66"
      using sync_start_synced [of d] by (simp add: e_def)
    define D where "D = dispatch_packet request (put st e s) r (take ?t e) b"
    have unfold: "process_stream request (put st d s) st r b =
      (if length e < 10 then Some (put st e s, b)
       else if 2048 < ?t then process_stream request (put st (tl e) s) st r b
       else if length e < ?t then Some (put st e s, b)
       else (case D of (result, s', b') \<Rightarrow>
          if result = Some EPROTO
          then (if get_input s' st = [] then None
                else process_stream request (set_input s' st (tl (get_input s' st))) st r b')
          else if length (get_input s' st) < ?t then None
          else process_stream request (set_input s' st (drop ?t (get_input s' st))) st r b'))"
      unfolding process_stream.simps [of request "put st d s"] get_put [OF op] Let_def
        e_def [symmetric] s1 D_def CA_SIYI_MIN_PACKET_def CA_SIYI_MAX_PACKET_def
      using False op by (simp add: set_input_put)
    have short: "siyi_step e = Need \<Longrightarrow> process_stream request (put st d s) st r b = Some (put st e s, b)
        \<Longrightarrow> ?thesis"
      unfolding srv by (simp add: serve_stream.simps [of request st r e])
    have tl: "?thesis" if "siyi_step e = Skip 1 ()"
      and "process_stream request (put st d s) st r b = process_stream request (put st (tl e) s) st r b"
      and "e \<noteq> []"
    proof -
      have "length (tl e) < length d" using le that(3) by (cases e) auto
      from less.IH [OF this op] that show ?thesis
        unfolding srv by (simp add: serve_stream.simps [of request st r e] drop_Suc)
    qed
    consider "length e < 10" | "10 \<le> length e" "2048 < ?t" | "10 \<le> length e" "?t \<le> 2048" "length e < ?t"
      | "10 \<le> length e" "?t \<le> 2048" "?t \<le> length e" by linarith
    then show ?thesis
    proof cases
      case 1
      then have "siyi_step e = Need"
        using sync_start_synced [of d] by (auto simp: siyi_step_def e_def [symmetric])
      with 1 short show ?thesis by (simp add: unfold)
    next
      case 2
      then have "siyi_step e = Skip 1 ()" using synced by (simp add: siyi_step_def Let_def)
      with 2 tl show ?thesis by (force simp: unfold)
    next
      case 3
      then have "siyi_step e = Need" using synced by (simp add: siyi_step_def Let_def)
      with 3 short show ?thesis by (simp add: unfold)
    next
      case 4
      show ?thesis
      proof (cases "ca_siyi_parse_one (take ?t e)")
        case (Parsed p n)
        note whole = parse_take_total [OF 4(1) refl 4(3) Parsed]
        obtain x s' b' where disp: "dispatch_packet request s r (take ?t e) b = (x, s', b')"
          by (cases "dispatch_packet request s r (take ?t e) b") auto
        then have D: "D = (x, put st e s', b')" by (simp add: D_def put_dispatch)
        have step: "siyi_step e = Take ?t (take ?t e)"
          using 4 synced Parsed by (simp add: siyi_step_def Let_def)
        have sv: "serve_stream request st r e s b =
           (if \<not> stream_open s' st then None
            else serve_stream request st r (drop (if x = Some EPROTO then 1 else ?t) e) s' b')"
          by (simp add: serve_stream.simps [of request st r e] step disp)
        show ?thesis
        proof (cases "stream_open s' st")
          case True
          have "length (drop (if x = Some EPROTO then 1 else ?t) e) < length d" using 4 le by auto
          note ih = less.IH [OF this True, of b']
          have ne: "e \<noteq> []" using 4 by auto
          show ?thesis
            unfolding srv sv unfold D
            using 4 True ih ne by (cases "x = Some EPROTO") (simp_all add: set_input_put drop_Suc)
        next
          case False
          have "evolves s s'" using evolves_dispatch [of s request r "take ?t e" b] disp by simp
          from evolves_input(2) [OF this op False] have "get_input (put st e s') st = []"
            using False by (simp add: put_def)
          then show ?thesis unfolding srv sv unfold D using 4 False by simp
        qed
      next
        case Incomplete
        then have "siyi_step e = Skip 1 ()" "D = (Some EPROTO, put st e s, b)" "e \<noteq> []"
          using 4 synced by (auto simp: siyi_step_def Let_def D_def dispatch_packet_def)
        with 4 tl op show ?thesis by (force simp: unfold set_input_put)
      next
        case Malformed
        then have "siyi_step e = Skip 1 ()" "D = (Some EPROTO, put st e s, b)" "e \<noteq> []"
          using 4 synced by (auto simp: siyi_step_def Let_def D_def dispatch_packet_def)
        with 4 tl op show ?thesis by (force simp: unfold set_input_put)
      qed
    qed
  qed
qed

text \<open>The rest needs more bytes; and while no packet of the stream fails with EPROTO, the packets served
  are those of the stream, each once and in order.\<close>

lemma serve_stream_rest: "serve_stream request st r d s b = Some (rest, s', b') \<Longrightarrow> siyi_step rest = Need"
proof (induction request st r d s b rule: serve_stream.induct)
  case (1 request st r d s b)
  show ?case
  proof (cases "siyi_step d")
    case (Take n f)
    obtain e s1 b1 where "dispatch_packet request s r f b = (e, s1, b1)"
      by (cases "dispatch_packet request s r f b") auto
    with 1 Take show ?thesis by (auto simp: serve_stream.simps [of request st r d] split: if_splits)
  qed (use 1 in \<open>auto simp: serve_stream.simps [of request st r d]\<close>)
qed

lemma step_take_parsed: "siyi_step d = Take n f \<Longrightarrow> \<exists>p. ca_siyi_parse_one f = Parsed p (length f)"
proof -
  assume h: "siyi_step d = Take n f"
  define t where "t = unat (get_u16_le d 3) + 10"
  have d: "10 \<le> length d" "t \<le> length d" "f = take t d" "\<exists>p k. ca_siyi_parse_one (take t d) = Parsed p k"
    using h by (auto simp: siyi_step_def Let_def t_def [symmetric] split: if_splits siyi_parse.splits)
  then obtain p k where p: "ca_siyi_parse_one (take t d) = Parsed p k" by blast
  from parse_take_total [OF d(1) t_def d(2) p] p d(3) show "\<exists>p. ca_siyi_parse_one f = Parsed p (length f)" by auto
qed

lemma dispatch_error:
  assumes "ca_siyi_parse_one f = Parsed p (length f)" "dispatch_packet request s r f b = (Some EPROTO, s', b')"
  shows "fst (request b f) = Some EPROTO"
  using assms by (auto simp: dispatch_packet_def Let_def split: if_splits prod.splits)

lemma serve_stream_frames:
  "\<forall>f\<in>set (frames_of (fst (drain siyi_step d))). \<forall>b. fst (request b f) \<noteq> Some EPROTO \<Longrightarrow>
   serve_stream request st r d s b =
     map_option (\<lambda>(s', b'). (snd (drain siyi_step d), s', b'))
       (serve_frames request st r (frames_of (fst (drain siyi_step d))) s b)"
proof (induction request st r d s b rule: serve_stream.induct)
  case (1 request st r d s b)
  show ?case
  proof (cases "siyi_step d")
    case Need
    then show ?thesis by (simp add: serve_stream.simps [of request st r d] ss.drain_need)
  next
    case (Skip n e)
    with 1 show ?thesis by (simp add: serve_stream.simps [of request st r d] ss.drain_skip)
  next
    case (Take n f)
    obtain e s1 b1 where d: "dispatch_packet request s r f b = (e, s1, b1)"
      by (cases "dispatch_packet request s r f b") auto
    obtain p where p: "ca_siyi_parse_one f = Parsed p (length f)" using step_take_parsed [OF Take] by blast
    have fr: "\<forall>f\<in>set (f # frames_of (fst (drain siyi_step (drop n d)))). \<forall>b. fst (request b f) \<noteq> Some EPROTO"
      using "1.prems" Take by (simp add: ss.drain_take)
    then have e: "e \<noteq> Some EPROTO" using dispatch_error [OF p] d by fastforce
    show ?thesis
    proof (cases "stream_open s1 st")
      case True
      have "serve_stream request st r (drop n d) s1 b1 =
         map_option (\<lambda>(s', b'). (snd (drain siyi_step (drop n d)), s', b'))
           (serve_frames request st r (frames_of (fst (drain siyi_step (drop n d)))) s1 b1)"
        using "1.IH"(2) [OF Take d [symmetric] refl] True e fr by simp
      with True e d Take show ?thesis by (simp add: serve_stream.simps [of request st r d] ss.drain_take)
    next
      case False
      with d Take show ?thesis by (simp add: serve_stream.simps [of request st r d] ss.drain_take)
    qed
  qed
qed

end
