(* ===== verification/Siyi_Handle.thy ===== *)
theory Siyi_Handle
  imports Siyi_Stream
begin

text \<open>
  The event handlers of the SIYI server: reading the descriptors, accepting clients, opening and
  closing the server, and \<^verbatim>\<open>ca_siyi_server_handle\<close>. An event carries what the kernel will
  answer to the reads it leads to; past the end of that list a read would block.
\<close>

definition EADDRINUSE :: errno where "EADDRINUSE = EOTHER 98"
definition EBADF :: errno where "EBADF = EOTHER 9"
definition ENOMEM :: errno where "ENOMEM = EOTHER 12"
definition CA_BIND_RETRY_ATTEMPTS :: nat where "CA_BIND_RETRY_ATTEMPTS = 50"

datatype recv_result = Received bytes | RecvFail errno
datatype udp_result = Datagram sockaddr bytes | UdpFail errno
datatype accept_result = Accepted int "send_result list" | AcceptFail errno

record poll_event =
  ev_token :: u64
  ev_in :: bool
  ev_out :: bool
  ev_err :: bool
  ev_hup :: bool
  ev_rdhup :: bool
  ev_recv :: "recv_result list"
  ev_udp :: "udp_result list"
  ev_accept :: "accept_result list"

subsection \<open>Reading the streams\<close>

definition recv_measure :: "recv_result list \<Rightarrow> nat" where
  "recv_measure rs = (\<Sum>r\<leftarrow>rs. case r of Received bs \<Rightarrow> 1 + length bs | RecvFail e \<Rightarrow> 1)"

text \<open>A read of at most \<^term>\<open>room\<close> bytes leaves the rest for the next read.\<close>

definition recv_rest :: "nat \<Rightarrow> bytes \<Rightarrow> recv_result list \<Rightarrow> recv_result list" where
  "recv_rest room bs rs = (if room < length bs then Received (drop room bs) # rs else rs)"

function read_client ::
  "'b request \<Rightarrow> nat \<Rightarrow> route \<Rightarrow> siyi_server \<Rightarrow> 'b \<Rightarrow> recv_result list \<Rightarrow>
   (errno option \<times> siyi_server \<times> 'b) option" where
  "read_client request i r s b rs =
     (case process_stream request s (Client i) r b of
        None \<Rightarrow> None
      | Some (s1, b1) \<Rightarrow>
          let input = get_input s1 (Client i) in
          if CA_SIYI_STREAM_BUFFER < length input then None
          else if length input = CA_SIYI_STREAM_BUFFER then Some (Some ENOBUFS, s1, b1)
          else if \<not> stream_open s1 (Client i) then Some (Some EBADF, s1, b1)
          else (case rs of
              [] \<Rightarrow> Some (None, s1, b1)
            | Received bs # rs' \<Rightarrow>
                if bs = [] then Some (Some ECONNRESET, s1, b1)
                else
                  let room = CA_SIYI_STREAM_BUFFER - length input
                  in read_client request i r (set_input s1 (Client i) (input @ take room bs)) b1
                       (recv_rest room bs rs')
            | RecvFail e # rs' \<Rightarrow>
                if e = EINTR then read_client request i r s1 b1 rs'
                else if e = EAGAIN then Some (None, s1, b1)
                else Some (Some e, s1, b1)))"
  by pat_completeness auto
termination
  by (relation "measure (\<lambda>(request, i, r, s, b, rs). recv_measure rs)")
    (auto simp: recv_measure_def recv_rest_def)

declare read_client.simps [simp del]

function read_uart ::
  "'b request \<Rightarrow> siyi_server \<Rightarrow> 'b \<Rightarrow> recv_result list \<Rightarrow> (errno option \<times> siyi_server \<times> 'b) option" where
  "read_uart request s b rs =
     (case process_stream request s Uart uart_route b of
        None \<Rightarrow> None
      | Some (s1, b1) \<Rightarrow>
          let input = get_input s1 Uart in
          if CA_SIYI_STREAM_BUFFER < length input then None
          else if length input = CA_SIYI_STREAM_BUFFER then Some (Some ENOBUFS, s1, b1)
          else if \<not> stream_open s1 Uart then Some (Some EBADF, s1, b1)
          else (case rs of
              [] \<Rightarrow> Some (None, s1, b1)
            | Received bs # rs' \<Rightarrow>
                if bs = [] then Some (None, s1, b1)
                else
                  let room = CA_SIYI_STREAM_BUFFER - length input
                  in read_uart request (set_input s1 Uart (input @ take room bs)) b1
                       (recv_rest room bs rs')
            | RecvFail e # rs' \<Rightarrow>
                if e = EINTR then read_uart request s1 b1 rs'
                else if e = EAGAIN then Some (None, s1, b1)
                else Some (Some e, s1, b1)))"
  by pat_completeness auto
termination
  by (relation "measure (\<lambda>(request, s, b, rs). recv_measure rs)")
    (auto simp: recv_measure_def recv_rest_def)

declare read_uart.simps [simp del]

subsection \<open>Datagrams\<close>

text \<open>The packets of one datagram, until one does not parse.\<close>

function udp_packets :: "'b request \<Rightarrow> route \<Rightarrow> siyi_server \<Rightarrow> 'b \<Rightarrow> bytes \<Rightarrow> siyi_server \<times> 'b" where
  "udp_packets request r s b d =
     (if d = [] then (s, b)
      else case ca_siyi_parse_one d of
        Parsed parsed consumed \<Rightarrow>
          (case dispatch_packet request s r (take consumed d) b of
             (result, s', b') \<Rightarrow> udp_packets request r s' b' (drop consumed d))
      | _ \<Rightarrow> (s, b))"
  by pat_completeness auto
termination
  by (relation "measure (\<lambda>(request, r, s, b, d). length d)") (auto dest: siyi_parse_sound)

declare udp_packets.simps [simp del]

fun handle_udp ::
  "'b request \<Rightarrow> siyi_server \<Rightarrow> 'b \<Rightarrow> udp_result list \<Rightarrow> errno option \<times> siyi_server \<times> 'b" where
  "handle_udp request s b [] = (None, s, b)"
| "handle_udp request s b (UdpFail e # rs) =
     (if e = EINTR then handle_udp request s b rs
      else if e = EAGAIN then (None, s, b) else (Some e, s, b))"
| "handle_udp request s b (Datagram a d # rs) =
     (case udp_packets request (udp_route a) s b (take 4096 d) of
        (s', b') \<Rightarrow> handle_udp request s' b' rs)"

subsection \<open>New clients\<close>

definition free_slot :: "siyi_server \<Rightarrow> nat" where
  "free_slot s = length (takeWhile (\<lambda>c. 0 \<le> c_fd c) (clients s))"

fun accept_clients :: "siyi_server \<Rightarrow> accept_result list \<Rightarrow> errno option \<times> siyi_server" where
  "accept_clients s [] = (None, s)"
| "accept_clients s (AcceptFail e # rs) =
     (if e = EINTR then accept_clients s rs
      else if e = EAGAIN then (None, s) else (Some e, s))"
| "accept_clients s (Accepted fd peer # rs) =
     (let i = free_slot s in
      if i = CA_SIYI_TCP_CLIENTS then accept_clients s rs
      else
        let c = clients s ! i;
            g = (if c_generation c + 1 = 0 then 1 else c_generation c + 1);
            s1 = set_client s i (c\<lparr>c_fd := fd, c_generation := g, c_input := [],
                   c_output := window_empty (c_output c), c_peer := peer, c_sent := []\<rparr>)
        in case poll_change s1 of
             (Some e, s2) \<Rightarrow> (Some e, close_client s2 i)
           | (None, s2) \<Rightarrow> accept_clients s2 rs)"

subsection \<open>Opening and closing\<close>

text \<open>The environment of \<^verbatim>\<open>bind_socket\<close>: what \<^verbatim>\<open>socket\<close> and \<^verbatim>\<open>bind\<close> return at each attempt. The
  second result lists the descriptors that were closed.\<close>

function bind_socket :: "(nat \<Rightarrow> (errno + int) \<times> errno option) \<Rightarrow> nat \<Rightarrow> (errno + int) \<times> int list" where
  "bind_socket env attempt =
     (if CA_BIND_RETRY_ATTEMPTS \<le> attempt then (Inl EADDRINUSE, [])
      else case env attempt of
        (Inl e, _) \<Rightarrow> (Inl e, [])
      | (Inr fd, None) \<Rightarrow> (Inr fd, [])
      | (Inr fd, Some e) \<Rightarrow>
          if e \<noteq> EADDRINUSE \<or> attempt + 1 = CA_BIND_RETRY_ATTEMPTS then (Inl e, [fd])
          else (case bind_socket env (attempt + 1) of (r, closed) \<Rightarrow> (r, fd # closed)))"
  by pat_completeness auto
termination
  by (relation "measure (\<lambda>(env, attempt). CA_BIND_RETRY_ATTEMPTS - attempt)") auto

declare bind_socket.simps [simp del]

definition ca_siyi_server_close :: "siyi_server \<Rightarrow> siyi_server \<times> int list" where
  "ca_siyi_server_close s =
     (foldl close_client s [0..<CA_SIYI_TCP_CLIENTS],
      [c_fd c. c \<leftarrow> clients s, 0 \<le> c_fd c] @ [fd. fd \<leftarrow> [listener_fd s, udp_fd s, uart_fd s], 0 \<le> fd])"

record open_env =
  oe_memory :: bool
  oe_udp :: "nat \<Rightarrow> (errno + int) \<times> errno option"
  oe_tcp :: "nat \<Rightarrow> (errno + int) \<times> errno option"
  oe_listen :: "errno option"
  oe_poll_open :: "errno option"
  oe_uart :: "(errno + int) option"
  oe_server :: siyi_server

text \<open>\<^verbatim>\<open>calloc\<close> and the loop over the clients: every descriptor is closed, every count is 0. The
  kernel's future (and the storage of the windows) is that of the environment.\<close>

definition fresh_window :: out_window where
  "fresh_window = \<lparr>ow_buf = replicate CA_SIYI_OUTPUT_BUFFER 0, ow_offset = 0, ow_length = 0\<rparr>"

definition fresh_server :: "siyi_server \<Rightarrow> siyi_server" where
  "fresh_server e =
     \<lparr>udp_fd = -1, listener_fd = -1, uart_fd = -1, uart_input = [], uart_output = fresh_window,
      uart_peer = uart_peer e, uart_sent = [],
      clients = replicate CA_SIYI_TCP_CLIENTS
        \<lparr>c_fd = -1, c_generation = 0, c_input = [], c_output = fresh_window, c_peer = [],
         c_sent = []\<rparr>,
      active = no_route, active_valid = False, active_emitted = False,
      last_route = (\<lambda>op. None), last_udp = None,
      pending = replicate CA_SIYI_PENDING
        \<lparr>used = False, p_opcode = 0, p_route = no_route, order = 0, deadline_ms = 0\<rparr>,
      pending_order = 0, udp_peer = udp_peer e, udp_sent = [], poll_results = poll_results e,
      clock = clock e, clock_reads = 0\<rparr>"

definition open_uart :: "siyi_server \<Rightarrow> (errno + int) option \<Rightarrow> siyi_server \<times> int list" where
  "open_uart s dev =
     (case dev of
        Some (Inr fd) \<Rightarrow>
          (case poll_change (s\<lparr>uart_fd := fd\<rparr>) of
             (None, s1) \<Rightarrow> (s1, [])
           | (Some e, s1) \<Rightarrow> (s1\<lparr>uart_fd := -1\<rparr>, [fd]))
      | _ \<Rightarrow> (s, []))"

text \<open>The result, and every descriptor closed on the way.\<close>

definition ca_siyi_server_open :: "open_env \<Rightarrow> nat \<Rightarrow> (errno + siyi_server) \<times> int list" where
  "ca_siyi_server_open env port =
     (if port = 0 \<or> 65535 < port then (Inl EINVAL, [])
      else if \<not> oe_memory env then (Inl ENOMEM, [])
      else
        let s0 = fresh_server (oe_server env) in
        case bind_socket (oe_udp env) 0 of
          (Inl e, cl) \<Rightarrow> (Inl e, cl @ snd (ca_siyi_server_close s0))
        | (Inr ufd, cl1) \<Rightarrow>
            let s1 = s0\<lparr>udp_fd := ufd\<rparr> in
            case bind_socket (oe_tcp env) 0 of
              (Inl e, cl) \<Rightarrow> (Inl e, cl1 @ cl @ snd (ca_siyi_server_close s1))
            | (Inr lfd, cl2) \<Rightarrow>
                let s2 = s1\<lparr>listener_fd := lfd\<rparr>; cl = cl1 @ cl2 in
                case oe_listen env of
                  Some e \<Rightarrow> (Inl e, cl @ snd (ca_siyi_server_close s2))
                | None \<Rightarrow>
                    (case oe_poll_open env of
                       Some e \<Rightarrow> (Inl e, cl @ snd (ca_siyi_server_close s2))
                     | None \<Rightarrow>
                         (case poll_change s2 of
                            (Some e, s3) \<Rightarrow> (Inl e, cl @ snd (ca_siyi_server_close s3))
                          | (None, s3) \<Rightarrow>
                              (case poll_change s3 of
                                 (Some e, s4) \<Rightarrow> (Inl e, cl @ snd (ca_siyi_server_close s4))
                               | (None, s4) \<Rightarrow>
                                   (case open_uart s4 (oe_uart env) of
                                      (s5, cl5) \<Rightarrow> (Inr s5, cl @ cl5))))))"

subsection \<open>Events\<close>

text \<open>A saved \<^verbatim>\<open>errno\<close> that is 0 counts as no error.\<close>

definition uart_error_of :: "errno option \<Rightarrow> errno option" where
  "uart_error_of e = (if e = Some (EOTHER 0) then None else e)"

definition uart_event ::
  "'b request \<Rightarrow> siyi_server \<Rightarrow> 'b \<Rightarrow> poll_event \<Rightarrow> (siyi_server \<times> 'b) option" where
  "uart_event request s b ev =
     (case (if ev_in ev then read_uart request s b (ev_recv ev) else Some (None, s, b)) of
        None \<Rightarrow> None
      | Some (e1, s1, b1) \<Rightarrow>
          let err1 = uart_error_of e1;
              (err2, s2) = (if err1 = None \<and> 0 \<le> uart_fd s1 \<and> ev_out ev
                            then (case flush_uart s1 of (e, s') \<Rightarrow> (uart_error_of e, s'))
                            else (err1, s1));
              err3 = (if 0 \<le> uart_fd s2 \<and> (ev_err ev \<or> ev_hup ev) \<and> err2 = None
                      then Some EIO else err2)
          in Some (if err3 = None then s2 else disable_uart s2, b1))"

definition client_event_ready ::
  "'b request \<Rightarrow> siyi_server \<Rightarrow> 'b \<Rightarrow> nat \<Rightarrow> poll_event \<Rightarrow> (siyi_server \<times> 'b) option" where
  "client_event_ready request s b i ev =
     (case (if ev_in ev
            then read_client request i (tcp_route i (c_generation (clients s ! i))) s b (ev_recv ev)
            else Some (None, s, b)) of
        None \<Rightarrow> None
      | Some (e1, s1, b1) \<Rightarrow>
          let failed1 = (e1 \<noteq> None);
              (failed2, s2) = (if \<not> failed1 \<and> 0 \<le> c_fd (clients s1 ! i) \<and> ev_out ev
                               then (case flush_client s1 i of (e, s') \<Rightarrow> (e \<noteq> None, s'))
                               else (failed1, s1));
              failed3 = (failed2 \<or> ev_err ev \<or> ev_hup ev \<or> ev_rdhup ev)
          in Some (if failed3 then close_client s2 i else s2, b1))"

definition handle_event ::
  "'b request \<Rightarrow> siyi_server \<Rightarrow> 'b \<Rightarrow> poll_event \<Rightarrow> (errno option \<times> siyi_server \<times> 'b) option" where
  "handle_event request s b ev =
     (let token = ev_token ev in
      if token = CA_EVENT_UDP then Some (handle_udp request s b (ev_udp ev))
      else if token = CA_EVENT_LISTENER
      then (case accept_clients s (ev_accept ev) of (e, s') \<Rightarrow> Some (e, s', b))
      else if token = CA_EVENT_UART
      then map_option (\<lambda>(s', b'). (None, s', b')) (uart_event request s b ev)
      else if token AND 0xff00 \<noteq> CA_EVENT_CLIENT then Some (None, s, b)
      else
        let i = unat (token AND 0xff); g = to32 (drop_bit 16 token) in
        if CA_SIYI_TCP_CLIENTS \<le> i \<or> c_fd (clients s ! i) < 0 \<or> c_generation (clients s ! i) \<noteq> g
        then Some (None, s, b)
        else map_option (\<lambda>(s', b'). (None, s', b')) (client_event_ready request s b i ev))"

fun handle_events ::
  "'b request \<Rightarrow> siyi_server \<Rightarrow> 'b \<Rightarrow> poll_event list \<Rightarrow> (errno option \<times> siyi_server \<times> 'b) option" where
  "handle_events request s b [] = Some (None, s, b)"
| "handle_events request s b (ev # evs) =
     (case handle_event request s b ev of
        None \<Rightarrow> None
      | Some (Some e, s', b') \<Rightarrow> Some (Some e, s', b')
      | Some (None, s', b') \<Rightarrow> handle_events request s' b' evs)"

text \<open>\<^verbatim>\<open>ca_poll_wait\<close> is called again while it is interrupted; it reports at most 16 events.\<close>

fun poll_wait :: "(errno + poll_event list) list \<Rightarrow> errno + poll_event list" where
  "poll_wait [] = Inr []"
| "poll_wait (Inl e # rs) = (if e = EINTR then poll_wait rs else Inl e)"
| "poll_wait (Inr evs # rs) = Inr (take 16 evs)"

definition ca_siyi_server_handle ::
  "'b request \<Rightarrow> siyi_server \<Rightarrow> 'b \<Rightarrow> (errno + poll_event list) list \<Rightarrow>
   (errno option \<times> siyi_server \<times> 'b) option" where
  "ca_siyi_server_handle request s b waits =
     (case poll_wait waits of
        Inl e \<Rightarrow> Some (Some e, s, b)
      | Inr evs \<Rightarrow> handle_events request s b evs)"

end
