(* ===== verification/Siyi_Contract.thy ===== *)
theory Siyi_Contract
  imports Siyi_Handle
begin

text \<open>
  What the SIYI server guarantees: its invariant through every event, the packets of a stream
  served in order, replies on the right route only, and the two places where it goes wrong.
\<close>

subsection \<open>The invariant\<close>

declare get_set_input [simp del]

lemma siyi_ok_set_input:
  "siyi_ok s \<Longrightarrow> stream_open s st \<Longrightarrow> length d \<le> CA_SIYI_STREAM_BUFFER \<Longrightarrow> siyi_ok (set_input s st d)"
  by (cases st) (auto simp: siyi_ok_def set_client_def list_all_length nth_list_update client_ok_def
      uart_ok_def)

lemma open_set_input [simp]: "stream_open (set_input s st d) st' = stream_open s st'"
  by (cases st; cases st'; cases "st = st'") (auto simp: set_client_def)

lemma get_set_open [simp]: "stream_open s st \<Longrightarrow> get_input (set_input s st d) st = d"
  by (cases st) (simp_all add: set_client_def)

lemma siyi_ok_client: "siyi_ok s \<Longrightarrow> i < length (clients s) \<Longrightarrow> client_ok (clients s ! i)"
  by (simp add: siyi_ok_def list_all_length)

lemma siyi_ok_input:
  assumes "siyi_ok s"
  shows "length (get_input s st) \<le> CA_SIYI_STREAM_BUFFER"
    and "get_input s st \<noteq> [] \<Longrightarrow> stream_open s st"
proof -
  have u: "uart_ok s" using assms by (simp add: siyi_ok_def)
  show "length (get_input s st) \<le> CA_SIYI_STREAM_BUFFER"
    using u siyi_ok_client [OF assms] by (cases st) (simp_all add: client_ok_def uart_ok_def)
  show "stream_open s st" if "get_input s st \<noteq> []"
  proof (cases st)
    case (Client i)
    with that have i: "i < length (clients s)" "c_input (clients s ! i) \<noteq> []" by (auto split: if_splits)
    with siyi_ok_client [OF assms i(1)] have "\<not> c_fd (clients s ! i) < 0" by (auto simp: client_ok_def)
    with i Client show ?thesis by simp
  next
    case Uart
    with that u have "\<not> uart_fd s < 0" by (auto simp: uart_ok_def)
    with Uart show ?thesis by simp
  qed
qed

declare get_input.simps [simp del] set_input.simps [simp del] stream_open.simps [simp del]

lemma siyi_ok_dispatch:
  "dispatch_packet request s r p b = (e, s', b') \<Longrightarrow> siyi_ok s \<Longrightarrow> siyi_ok s'"
  using evolves_ok [OF evolves_dispatch, of s request r p b] by simp

lemma process_stream_ok:
  "process_stream request s0 st r b = Some (s', b') \<Longrightarrow> siyi_ok s0 \<Longrightarrow> stream_open s0 st \<Longrightarrow>
   siyi_ok s' \<and> stream_open s' st \<and> length (get_input s' st) < CA_SIYI_MAX_PACKET"
proof (induction "length (get_input s0 st)" arbitrary: s0 b rule: less_induct)
  case less
  note run = less.prems(1) and ok = less.prems(2) and op = less.prems(3)
  show ?case
  proof (cases "get_input s0 st = []")
    case True
    with less.prems show ?thesis by (auto simp: process_stream.simps [of request s0] CA_SIYI_MAX_PACKET_def)
  next
    case False
    define e where "e = drop (sync_start (get_input s0 st)) (get_input s0 st)"
    define s where "s = (if sync_start (get_input s0 st) \<noteq> 0 then set_input s0 st e else s0)"
    let ?t = "unat (get_u16_le e 3) + CA_SIYI_MIN_PACKET"
    have le: "length e \<le> length (get_input s0 st)" by (simp add: e_def)
    have e: "length e \<le> CA_SIYI_STREAM_BUFFER" using siyi_ok_input(1) [OF ok, of st] le by linarith
    have s: "siyi_ok s" "stream_open s st"
      using siyi_ok_set_input [OF ok op e] ok op by (simp_all add: s_def)
    have i: "get_input s st = e" using op by (simp add: s_def e_def)
    have again: "siyi_ok s' \<and> stream_open s' st \<and> length (get_input s' st) < CA_SIYI_MAX_PACKET"
      if "process_stream request (set_input s2 st d) st r b2 = Some (s', b')"
        "siyi_ok s2" "stream_open s2 st" "length d < length (get_input s0 st)" for s2 d b2
    proof -
      have "length d \<le> CA_SIYI_STREAM_BUFFER" using that(4) siyi_ok_input(1) [OF ok, of st] by linarith
      then show ?thesis
        using less.hyps [of "set_input s2 st d" b2] that siyi_ok_set_input [OF that(2,3)] by simp
    qed
    note unfold = run [unfolded process_stream.simps [of request s0] Let_def if_not_P [OF False]
      e_def [symmetric], folded s_def]
    consider (need) "length e < CA_SIYI_MIN_PACKET \<or> ?t \<le> CA_SIYI_MAX_PACKET \<and> length e < ?t"
      | (long) "CA_SIYI_MIN_PACKET \<le> length e" "CA_SIYI_MAX_PACKET < ?t"
      | (whole) "CA_SIYI_MIN_PACKET \<le> length e" "?t \<le> CA_SIYI_MAX_PACKET" "?t \<le> length e"
      by linarith
    then show ?thesis
    proof cases
      case need
      then have "s' = s" using unfold by (auto split: if_splits)
      with need s i show ?thesis by (auto simp: CA_SIYI_MAX_PACKET_def CA_SIYI_MIN_PACKET_def)
    next
      case long
      then have "process_stream request (set_input s st (tl e)) st r b = Some (s', b')"
        using unfold by simp
      moreover have "length (tl e) < length (get_input s0 st)"
        using long(1) le unfolding length_tl CA_SIYI_MIN_PACKET_def by linarith
      ultimately show ?thesis using again s by blast
    next
      case whole
      obtain x s2 b2 where d: "dispatch_packet request s r (take ?t e) b = (x, s2, b2)"
        by (cases "dispatch_packet request s r (take ?t e) b") auto
      have s2: "siyi_ok s2" by (rule siyi_ok_dispatch [OF d s(1)])
      let ?l = "get_input s2 st"
      have "?l = e \<or> ?l = []"
        using evolves_input(3) [OF evolves_dispatch [of s request r "take ?t e" b], of st] d i by simp
      then have l: "length ?l \<le> length (get_input s0 st)" using le by auto
      have pos: "0 < ?t" by (simp add: CA_SIYI_MIN_PACKET_def)
      show ?thesis
      proof (cases "x = Some EPROTO")
        case True
        with unfold whole d have ne: "?l \<noteq> []"
          and p: "process_stream request (set_input s2 st (tl ?l)) st r b2 = Some (s', b')"
          by (auto split: if_splits)
        then have "0 < length ?l" by simp
        then have "length (tl ?l) < length (get_input s0 st)" using l unfolding length_tl by linarith
        with again [OF p s2 siyi_ok_input(2) [OF s2 ne]] show ?thesis .
      next
        case False
        with unfold whole d have len: "?t \<le> length ?l"
          and p: "process_stream request (set_input s2 st (drop ?t ?l)) st r b2 = Some (s', b')"
          by (auto split: if_splits)
        then have ne: "?l \<noteq> []" using pos by auto
        have "length (drop ?t ?l) < length (get_input s0 st)"
          using l len pos unfolding length_drop by linarith
        with again [OF p s2 siyi_ok_input(2) [OF s2 ne]] show ?thesis .
      qed
    qed
  qed
qed

lemma read_client_ok:
  "read_client request i r s b rs = Some (e, s', b') \<Longrightarrow> siyi_ok s \<Longrightarrow> stream_open s (Client i) \<Longrightarrow>
   siyi_ok s' \<and> (e = Some ENOBUFS \<longrightarrow> RecvFail ENOBUFS \<in> set rs)"
proof (induction request i r s b rs arbitrary: s' b' e rule: read_client.induct)
  case (1 request i r s b rs)
  obtain s1 b1 where p: "process_stream request s (Client i) r b = Some (s1, b1)"
    using 1(3) by (simp add: read_client.simps [where request = request and s = s and rs = rs] split: option.splits) auto
  note ok = process_stream_ok [OF p 1(4,5)]
  let ?in = "get_input s1 (Client i)"
  have small: "length ?in < CA_SIYI_STREAM_BUFFER" and op: "stream_open s1 (Client i)"
    using ok by (auto simp: CA_SIYI_STREAM_BUFFER_def CA_SIYI_MAX_PACKET_def)
  note run = 1(3) [unfolded read_client.simps [where request = request and s = s and rs = rs] p option.case prod.case Let_def]
  show ?case
  proof (cases rs)
    case Nil
    then show ?thesis using run ok small op by auto
  next
    case (Cons x rs')
    show ?thesis
    proof (cases x)
      case (Received bs)
      show ?thesis
      proof (cases "bs = []")
        case True
        then show ?thesis using run ok small op Cons Received by auto
      next
        case False
        let ?room = "CA_SIYI_STREAM_BUFFER - length ?in"
        have "siyi_ok (set_input s1 (Client i) (?in @ take ?room bs))"
          using ok by (intro siyi_ok_set_input) (auto simp: CA_SIYI_STREAM_BUFFER_def CA_SIYI_MAX_PACKET_def)
        moreover have "read_client request i r (set_input s1 (Client i) (?in @ take ?room bs)) b1
            (recv_rest ?room bs rs') = Some (e, s', b')"
          using run small op Cons Received False by auto
        ultimately show ?thesis
          using 1(1) [OF p refl refl _ _ _ Cons Received False refl] small op Cons
          by (auto simp: recv_rest_def split: if_splits)
      qed
    next
      case (RecvFail err)
      show ?thesis
      proof (cases "err = EINTR")
        case True
        then show ?thesis
          using 1(2) [OF p refl refl _ _ _ Cons RecvFail True] run small op Cons RecvFail ok by auto
      next
        case False
        then show ?thesis using run small op Cons RecvFail ok by (auto split: if_splits)
      qed
    qed
  qed
qed

lemma read_uart_ok:
  "read_uart request s b rs = Some (e, s', b') \<Longrightarrow> siyi_ok s \<Longrightarrow> stream_open s Uart \<Longrightarrow>
   siyi_ok s' \<and> (e = Some ENOBUFS \<longrightarrow> RecvFail ENOBUFS \<in> set rs)"
proof (induction request s b rs arbitrary: s' b' e rule: read_uart.induct)
  case (1 request s b rs)
  obtain s1 b1 where p: "process_stream request s Uart uart_route b = Some (s1, b1)"
    using 1(3) by (simp add: read_uart.simps [where request = request and s = s and rs = rs] split: option.splits) auto
  note ok = process_stream_ok [OF p 1(4,5)]
  let ?in = "get_input s1 Uart"
  have small: "length ?in < CA_SIYI_STREAM_BUFFER" and op: "stream_open s1 Uart"
    using ok by (auto simp: CA_SIYI_STREAM_BUFFER_def CA_SIYI_MAX_PACKET_def)
  note run = 1(3) [unfolded read_uart.simps [where request = request and s = s and rs = rs] p option.case prod.case Let_def]
  show ?case
  proof (cases rs)
    case Nil
    then show ?thesis using run ok small op by auto
  next
    case (Cons x rs')
    show ?thesis
    proof (cases x)
      case (Received bs)
      show ?thesis
      proof (cases "bs = []")
        case True
        then show ?thesis using run ok small op Cons Received by auto
      next
        case False
        let ?room = "CA_SIYI_STREAM_BUFFER - length ?in"
        have "siyi_ok (set_input s1 Uart (?in @ take ?room bs))"
          using ok by (intro siyi_ok_set_input) (auto simp: CA_SIYI_STREAM_BUFFER_def CA_SIYI_MAX_PACKET_def)
        moreover have "read_uart request (set_input s1 Uart (?in @ take ?room bs)) b1
            (recv_rest ?room bs rs') = Some (e, s', b')"
          using run small op Cons Received False by auto
        ultimately show ?thesis
          using 1(1) [OF p refl refl _ _ _ Cons Received False refl] small op Cons
          by (auto simp: recv_rest_def split: if_splits)
      qed
    next
      case (RecvFail err)
      show ?thesis
      proof (cases "err = EINTR")
        case True
        then show ?thesis
          using 1(2) [OF p refl refl _ _ _ Cons RecvFail True] run small op Cons RecvFail ok by auto
      next
        case False
        then show ?thesis using run small op Cons RecvFail ok by (auto split: if_splits)
      qed
    qed
  qed
qed

lemma read_uart_closed:
  assumes "siyi_ok s" and "\<not> stream_open s Uart"
  shows "read_uart request s b rs = Some (Some EBADF, s, b)"
proof -
  have "get_input s Uart = []" using siyi_ok_input(2) [OF assms(1)] assms(2) by blast
  then show ?thesis
    using assms(2) process_stream.simps [of request s Uart]
    by (simp add: read_uart.simps [where request = request and s = s and rs = rs]
        CA_SIYI_STREAM_BUFFER_def CA_SIYI_MAX_PACKET_def)
qed

lemma siyi_ok_set_client: "siyi_ok s \<Longrightarrow> client_ok c \<Longrightarrow> siyi_ok (set_client s i c)"
  by (cases "i < length (clients s)")
    (auto simp: siyi_ok_def set_client_def list_all_length nth_list_update uart_ok_def)

lemma siyi_ok_evolves [inv_intros]:
  "siyi_ok s \<Longrightarrow> siyi_ok (snd (poll_change s))" "siyi_ok s \<Longrightarrow> siyi_ok (close_client s i)"
  "siyi_ok s \<Longrightarrow> siyi_ok (disable_uart s)" "siyi_ok s \<Longrightarrow> siyi_ok (snd (flush_uart s))"
  "siyi_ok s \<Longrightarrow> siyi_ok (snd (flush_client s i))" "siyi_ok s \<Longrightarrow> siyi_ok (ca_siyi_server_emit s p)"
  by (auto elim: evolves_ok [rotated])

lemma free_slot_le: "length (clients s) = 8 \<Longrightarrow> free_slot s \<le> 8"
  using length_takeWhile_le [of "\<lambda>c. 0 \<le> c_fd c" "clients s"] by (simp add: free_slot_def)

lemma accept_clients_ok: "accept_clients s rs = (e, s') \<Longrightarrow> siyi_ok s \<Longrightarrow> siyi_ok s'"
proof (induction s rs arbitrary: e s' rule: accept_clients.induct)
  case (1 s)
  then show ?case by simp
next
  case (2 s err rs)
  then show ?case by (auto split: if_splits)
next
  case (3 s fd peer rs)
  let ?i = "free_slot s"
  show ?case
  proof (cases "?i = CA_SIYI_TCP_CLIENTS")
    case True
    with 3 show ?thesis by (simp add: Let_def)
  next
    case False
    define g where "g = (if c_generation (clients s ! ?i) + 1 = 0 then 1 else c_generation (clients s ! ?i) + 1)"
    define s1 where "s1 = set_client s ?i ((clients s ! ?i)\<lparr>c_fd := fd, c_generation := g,
      c_input := [], c_output := window_empty (c_output (clients s ! ?i)), c_peer := peer, c_sent := []\<rparr>)"
    have "?i < length (clients s)"
      using free_slot_le [of s] False 3(4) by (simp add: siyi_ok_def CA_SIYI_TCP_CLIENTS_def)
    then have "client_ok (clients s ! ?i)" by (rule siyi_ok_client [OF 3(4)])
    then have s1: "siyi_ok s1"
      unfolding s1_def by (intro siyi_ok_set_client 3(4)) (auto simp: client_ok_def)
    obtain x s2 where p: "poll_change s1 = (x, s2)" by (cases "poll_change s1")
    then have s2: "siyi_ok s2" using siyi_ok_evolves(1) [OF s1] by simp
    show ?thesis
    proof (cases x)
      case None
      then show ?thesis
        using 3(2) [OF refl False refl refl refl p [unfolded s1_def g_def, symmetric] None] 3(3) s2 p False
        by (simp add: Let_def s1_def g_def)
    next
      case (Some err)
      then show ?thesis
        using 3(3) s2 p False siyi_ok_evolves(2) [OF s2] by (auto simp: Let_def s1_def g_def)
    qed
  qed
qed

lemma evolves_udp_packets: "evolves s (fst (udp_packets request r s b d))"
proof (induction request r s b d rule: udp_packets.induct)
  case (1 request r s b d)
  show ?case
  proof (cases "d = [] \<or> (\<forall>p n. ca_siyi_parse_one d \<noteq> Parsed p n)")
    case True
    then show ?thesis
      by (subst udp_packets.simps) (auto split: siyi_parse.split)
  next
    case False
    then obtain p n where q: "d \<noteq> []" "ca_siyi_parse_one d = Parsed p n" by auto
    obtain x s' b' where d: "dispatch_packet request s r (take n d) b = (x, s', b')"
      by (cases "dispatch_packet request s r (take n d) b") auto
    have "evolves s s'" using evolves_dispatch [of s request r "take n d" b] d by simp
    also have "evolves s' (fst (udp_packets request r s' b' (drop n d)))"
      by (rule 1 [OF q d [symmetric] refl])
    finally show ?thesis
      by (subst udp_packets.simps) (simp add: q d)
  qed
qed

lemma handle_udp_ok: "handle_udp request s b rs = (e, s', b') \<Longrightarrow> siyi_ok s \<Longrightarrow> siyi_ok s'"
proof (induction request s b rs arbitrary: e s' b' rule: handle_udp.induct)
  case (3 request s b a d rs)
  obtain s1 b1 where u: "udp_packets request (udp_route a) s b (take 4096 d) = (s1, b1)"
    by (cases "udp_packets request (udp_route a) s b (take 4096 d)")
  have "siyi_ok s1"
    using evolves_ok [OF evolves_udp_packets 3(3), of request "udp_route a" b "take 4096 d"] u by simp
  with 3(1) [OF u [symmetric]] 3(2) u show ?case by simp
qed (auto split: if_splits)

lemma uart_event_ok:
  assumes "uart_event request s b ev = Some (s', b')" and ok: "siyi_ok s"
  shows "siyi_ok s'"
proof -
  obtain e1 s1 b1 where r: "(if ev_in ev then read_uart request s b (ev_recv ev) else Some (None, s, b))
      = Some (e1, s1, b1)"
    using assms(1) by (simp add: uart_event_def split: option.splits) auto
  have s1: "siyi_ok s1"
  proof (cases "ev_in ev \<and> stream_open s Uart")
    case True
    with r have "read_uart request s b (ev_recv ev) = Some (e1, s1, b1)" by simp
    from read_uart_ok [OF this ok] True show ?thesis by simp
  next
    case False
    with r read_uart_closed [OF ok, of request b "ev_recv ev"] ok show ?thesis
      by (auto split: if_splits)
  qed
  then have f: "siyi_ok (snd (flush_uart s1))" by (rule inv_intros)
  define D where "D = (if uart_error_of e1 = None \<and> 0 \<le> uart_fd s1 \<and> ev_out ev
      then (case flush_uart s1 of (e, s') \<Rightarrow> (uart_error_of e, s')) else (uart_error_of e1, s1))"
  have D: "siyi_ok (snd D)" using s1 f by (auto simp: D_def split: prod.split)
  then have "siyi_ok (disable_uart (snd D))" by (rule inv_intros)
  with D assms(1) show ?thesis
    unfolding uart_event_def r option.case prod.case Let_def D_def [symmetric]
    by (auto split: prod.splits if_splits)
qed

lemma client_event_ok:
  assumes "client_event_ready request s b i ev = Some (s', b')" and ok: "siyi_ok s"
    and op: "stream_open s (Client i)"
  shows "siyi_ok s'"
proof -
  obtain e1 s1 b1 where r: "(if ev_in ev
      then read_client request i (tcp_route i (c_generation (clients s ! i))) s b (ev_recv ev)
      else Some (None, s, b)) = Some (e1, s1, b1)"
    using assms(1) by (simp add: client_event_ready_def split: option.splits) auto
  have s1: "siyi_ok s1"
  proof (cases "ev_in ev")
    case True
    with r have "read_client request i (tcp_route i (c_generation (clients s ! i))) s b (ev_recv ev)
      = Some (e1, s1, b1)" by simp
    from read_client_ok [OF this ok op] show ?thesis by simp
  qed (use r ok in simp)
  then have f: "siyi_ok (snd (flush_client s1 i))" by (rule inv_intros)
  define D where "D = (if \<not> e1 \<noteq> None \<and> 0 \<le> c_fd (clients s1 ! i) \<and> ev_out ev
      then (case flush_client s1 i of (e, s') \<Rightarrow> (e \<noteq> None, s')) else (e1 \<noteq> None, s1))"
  have D: "siyi_ok (snd D)" using s1 f by (auto simp: D_def split: prod.split)
  then have "siyi_ok (close_client (snd D) i)" by (rule inv_intros)
  with D assms(1) show ?thesis
    unfolding client_event_ready_def r option.case prod.case Let_def D_def [symmetric]
    by (auto split: prod.splits if_splits)
qed

lemma handle_event_ok:
  assumes run: "handle_event request s b ev = Some (e, s', b')" and ok: "siyi_ok s"
  shows "siyi_ok s'"
proof -
  let ?t = "ev_token ev"
  let ?i = "unat (?t AND 0xff)"
  consider (udp) "?t = CA_EVENT_UDP" | (listener) "?t \<noteq> CA_EVENT_UDP" "?t = CA_EVENT_LISTENER"
    | (uart) "?t \<noteq> CA_EVENT_UDP" "?t \<noteq> CA_EVENT_LISTENER" "?t = CA_EVENT_UART"
    | (client) "?t \<noteq> CA_EVENT_UDP" "?t \<noteq> CA_EVENT_LISTENER" "?t \<noteq> CA_EVENT_UART" by blast
  then show ?thesis
  proof cases
    case udp
    with run show ?thesis using handle_udp_ok [OF _ ok] by (simp add: handle_event_def)
  next
    case listener
    with run show ?thesis
      using accept_clients_ok [OF _ ok] by (auto simp: handle_event_def split: prod.splits)
  next
    case uart
    with run show ?thesis using uart_event_ok [OF _ ok] by (auto simp: handle_event_def)
  next
    case client
    show ?thesis
    proof (cases "s' = s")
      case False
      with client run have c: "\<not> CA_SIYI_TCP_CLIENTS \<le> ?i" "\<not> c_fd (clients s ! ?i) < 0"
        "client_event_ready request s b ?i ev = Some (s', b')"
        by (auto simp: handle_event_def Let_def split: if_splits)
      then have "stream_open s (Client ?i)" using ok by (simp add: stream_open.simps siyi_ok_def)
      from client_event_ok [OF c(3) ok this] show ?thesis .
    qed (use ok in simp)
  qed
qed

lemma handle_events_ok:
  "handle_events request s b evs = Some (e, s', b') \<Longrightarrow> siyi_ok s \<Longrightarrow> siyi_ok s'"
proof (induction request s b evs rule: handle_events.induct)
  case (2 request s b ev evs)
  obtain x s1 b1 where h: "handle_event request s b ev = Some (x, s1, b1)"
    using 2(2) by (simp split: option.splits) auto
  have "siyi_ok s1" by (rule handle_event_ok [OF h 2(3)])
  with 2 h show ?case by (cases x) auto
qed simp

end
