(* ===== verification/Siyi_Claims.thy ===== *)
theory Siyi_Claims
  imports Siyi_Contract
begin

text \<open>
  The properties of the SIYI server: its reachable states, the service of a stream, the order of
  its output, the choice of the route of a reply, and the memory fault of its reader.
\<close>

subsection \<open>Reachable states\<close>

text \<open>
  The life of a server: it is opened, handles events, is asked to emit packets by a backend, and
  between these the kernel's future is whatever it is.
\<close>

inductive siyi_run :: "'b request \<Rightarrow> siyi_server \<Rightarrow> 'b \<Rightarrow> bool" for request where
  run_open: "ca_siyi_server_open env port = (Inr s, closed) \<Longrightarrow> siyi_run request s b"
| run_handle: "siyi_run request s b \<Longrightarrow>
    ca_siyi_server_handle request s b waits = Some (e, s', b') \<Longrightarrow> siyi_run request s' b'"
| run_emit: "siyi_run request s b \<Longrightarrow> siyi_run request (ca_siyi_server_emit s packet) b'"
| run_kernel: "siyi_run request s b \<Longrightarrow>
    siyi_run request (s\<lparr>uart_peer := up, udp_peer := dp, poll_results := pr, clock := ck,
      clients := map2 (\<lambda>c p. c\<lparr>c_peer := p\<rparr>) (clients s) (take 8 (peers @ replicate 8 []))\<rparr>) b"

lemma siyi_ok_fresh: "siyi_ok (fresh_server e)"
  by (simp add: siyi_ok_def fresh_server_def fresh_window_def client_ok_def uart_ok_def
      window_ok_def list_all_length)

lemma siyi_ok_fields [simp]:
  "siyi_ok (s\<lparr>udp_fd := a\<rparr>) = siyi_ok s" "siyi_ok (s\<lparr>listener_fd := a\<rparr>) = siyi_ok s"
  by (simp_all add: siyi_ok_def uart_ok_def)

lemma siyi_ok_open: "ca_siyi_server_open env port = (Inr s, closed) \<Longrightarrow> siyi_ok s"
proof -
  have u: "siyi_ok t" if "open_uart s4 dev = (t, cl)" "siyi_ok s4" "uart_input s4 = []" for t s4 dev cl
  proof -
    have a: "siyi_ok (s4\<lparr>uart_fd := fd\<rparr>)" for fd using that by (auto simp: siyi_ok_def uart_ok_def)
    have "siyi_ok ((snd (poll_change (s4\<lparr>uart_fd := fd\<rparr>)))\<lparr>uart_fd := - 1\<rparr>)" for fd
      using siyi_ok_evolves(1) [OF a [of fd]] that by (auto simp: siyi_ok_def uart_ok_def)
    then show ?thesis
      using that siyi_ok_evolves(1) [OF a] unfolding open_uart_def
      by (auto split: option.splits sum.splits prod.splits) (metis snd_conv)+
  qed
  let ?s2 = "\<lambda>u l. (fresh_server (oe_server env))\<lparr>udp_fd := u, listener_fd := l\<rparr>"
  have "siyi_ok (?s2 u l)" "uart_input (?s2 u l) = []" for u l
    using siyi_ok_fresh [of "oe_server env"] by (simp_all add: siyi_ok_def uart_ok_def fresh_server_def)
  then have k: "siyi_ok (snd (poll_change (snd (poll_change (?s2 u l)))))"
    "uart_input (snd (poll_change (snd (poll_change (?s2 u l))))) = []" for u l
    by (simp_all add: siyi_ok_evolves)
  assume "ca_siyi_server_open env port = (Inr s, closed)"
  then obtain u l s3 s4 cl where "poll_change (?s2 u l) = (None, s3)" "poll_change s3 = (None, s4)"
    "open_uart s4 (oe_uart env) = (s, cl)"
    unfolding ca_siyi_server_open_def Let_def
    by (auto split: if_splits prod.splits sum.splits option.splits)
  with u [of s4 _ s cl] k [of l u] show ?thesis by simp
qed

text \<open>C7: in every state the server can reach, whatever the peers, the kernel and the callback
  do, there are exactly eight client slots and 64 pending entries; each output window lies inside
  its 8192-byte buffer; each input is at most 4096 bytes long; and a closed descriptor has no
  input left.\<close>

theorem siyi_reachable_ok:
  assumes "siyi_run request s b"
  shows "length (clients s) = 8 \<and> length (pending s) = 64 \<and> siyi_ok s"
  using assms
proof (induction rule: siyi_run.induct)
  case (run_open env port s closed b)
  then show ?case
    using siyi_ok_open by (force simp: siyi_ok_def CA_SIYI_TCP_CLIENTS_def CA_SIYI_PENDING_def)
next
  case (run_handle s b waits e s' b')
  then have "siyi_ok s'"
    using handle_events_ok by (auto simp: ca_siyi_server_handle_def split: sum.splits)
  then show ?case by (simp add: siyi_ok_def CA_SIYI_TCP_CLIENTS_def CA_SIYI_PENDING_def)
next
  case (run_emit s b packet b')
  then have "siyi_ok (ca_siyi_server_emit s packet)" by (simp add: siyi_ok_evolves)
  then show ?case by (simp add: siyi_ok_def CA_SIYI_TCP_CLIENTS_def CA_SIYI_PENDING_def)
next
  case (run_kernel s b up dp pr ck peers)
  then show ?case
    by (auto simp: siyi_ok_def list_all_length client_ok_def uart_ok_def)
qed

text \<open>A concrete server for the witnesses: UDP, TCP and UART open, one TCP client.\<close>

definition sample_base :: siyi_server where
  "sample_base = \<lparr>udp_fd = -1, listener_fd = -1, uart_fd = -1, uart_input = [],
     uart_output = fresh_window, uart_peer = [], uart_sent = [], clients = [], active = no_route,
     active_valid = False, active_emitted = False, last_route = (\<lambda>op. None), last_udp = None,
     pending = [], pending_order = 0, udp_peer = [], udp_sent = [], poll_results = [],
     clock = (\<lambda>n. of_nat n), clock_reads = 0\<rparr>"

definition sample_env :: open_env where
  "sample_env = \<lparr>oe_memory = True, oe_udp = (\<lambda>n. (Inr 5, None)), oe_tcp = (\<lambda>n. (Inr 6, None)),
     oe_listen = None, oe_poll_open = None, oe_uart = Some (Inr 7), oe_server = sample_base\<rparr>"

definition sample_server :: siyi_server where
  "sample_server = (fresh_server sample_base)\<lparr>udp_fd := 5, listener_fd := 6, uart_fd := 7\<rparr>"

lemma sample_open: "ca_siyi_server_open sample_env 37260 = (Inr sample_server, [])"
  by (simp add: ca_siyi_server_open_def sample_env_def sample_server_def bind_socket.simps
      CA_BIND_RETRY_ATTEMPTS_def poll_change_def open_uart_def fresh_server_def sample_base_def)

theorem siyi_reachable_ok_witness:
  "length (clients (ca_siyi_server_emit sample_server [1])) = 8 \<and>
   length (pending (ca_siyi_server_emit sample_server [1])) = 64 \<and>
   siyi_ok (ca_siyi_server_emit sample_server [1])"
  by (rule siyi_reachable_ok [of "\<lambda>b p. (None, [], b)" _ "0::nat"],
      rule run_emit, rule run_open, rule sample_open)

subsection \<open>Serving a stream\<close>

lemma step_frame:
  assumes "length pl \<le> 2038"
  shows "siyi_step (siyi_frame ctl seq opc pl @ later) = Take (length pl + 10) (siyi_frame ctl seq opc pl)"
proof -
  let ?f = "siyi_frame ctl seq opc pl"
  have "get_u16_le (?f @ later) 3 = of_nat (length pl)"
    using get_u16_le_le16 [OF siyi_frame_fields(5)] by (simp add: get_u16_le_append)
  moreover have "unat (of_nat (length pl) :: u16) = length pl" using assms by (simp add: unat_of_nat)
  moreover have "(?f @ later) ! 0 = 0x55" "(?f @ later) ! 1 = 0x66" by (simp_all add: siyi_frame_def siyi_body_def)
  ultimately show ?thesis
    using siyi_parse_frame [OF assms, of ctl seq opc "[]"] assms by (simp add: siyi_step_def)
qed

lemma serve_short: "length d < 10 \<Longrightarrow> \<exists>rest. serve_stream request st r d s b = Some (rest, s, b)"
proof (induction d)
  case (Cons x d)
  then have "siyi_step (x # d) = Need \<or> siyi_step (x # d) = Skip 1 ()" by (auto simp: siyi_step_def)
  with Cons show ?case by (auto simp: serve_stream.simps [of request st r "x # d"])
qed (simp add: serve_stream.simps [of request st r "[]"] siyi_step_def)

text \<open>How the stream is cut up does not matter: serving two pieces one after the other, the second behind
  what the first has left, is serving both at once.\<close>

lemma serve_stream_cut:
  "serve_stream request st r (d @ later) s b =
     (case serve_stream request st r d s b of
        None \<Rightarrow> None
      | Some (rest, s', b') \<Rightarrow> serve_stream request st r (rest @ later) s' b')"
proof (induction request st r d s b rule: serve_stream.induct)
  case (1 request st r d s b)
  show ?case
  proof (cases "siyi_step d")
    case Need
    then show ?thesis by (simp add: serve_stream.simps [of request st r d])
  next
    case (Skip n e)
    then have "siyi_step (d @ later) = Skip n e" "n \<le> length d" using ss.stable [of d later] ss.skip_progress [OF Skip] by simp_all
    with Skip "1.IH"(1) [OF Skip] show ?thesis
      by (simp add: serve_stream.simps [of request st r d] serve_stream.simps [of request st r "d @ later"])
  next
    case (Take n f)
    then have t: "siyi_step (d @ later) = Take n f" "0 < n" "n \<le> length d"
      using ss.stable [of d later] ss.take_progress [OF Take] by simp_all
    obtain e s1 b1 where d: "dispatch_packet request s r f b = (e, s1, b1)"
      by (cases "dispatch_packet request s r f b") auto
    have k: "drop (if e = Some EPROTO then 1 else n) (d @ later) = drop (if e = Some EPROTO then 1 else n) d @ later"
      using t(2,3) by simp
    show ?thesis
    proof (cases "stream_open s1 st")
      case True
      from "1.IH"(2) [OF Take d [symmetric] refl] True have "serve_stream request st r (drop (if e = Some EPROTO then 1 else n) d @ later) s1 b1 =
          (case serve_stream request st r (drop (if e = Some EPROTO then 1 else n) d) s1 b1 of None \<Rightarrow> None
           | Some (rest, s', b') \<Rightarrow> serve_stream request st r (rest @ later) s' b')" by simp
      with True d Take t(1) k show ?thesis
        by (simp only: serve_stream.simps [of request st r d] serve_stream.simps [of request st r "d @ later"]
            verdict.case prod.case simp_thms if_False if_True)
    next
      case False
      with d Take t(1) show ?thesis
        by (simp add: serve_stream.simps [of request st r d] serve_stream.simps [of request st r "d @ later"])
    qed
  qed
qed

text \<open>C6: \<^verbatim>\<open>process_stream\<close> serves its input as this is specified by \<^verbatim>\<open>serve_stream\<close>, whatever the callback
  answers: it resynchronises after junk, long headers and bad checksums, hands each well-formed packet it
  meets to \<^verbatim>\<open>dispatch_packet\<close>, keeps the incomplete rest of fewer than 2048 bytes for the next read, and
  runs into a memory fault exactly when the reply to one of the packets closes the stream. How the stream is
  cut into reads does not matter. A packet whose callback fails with EPROTO is taken for a malformed one:
  one byte of it is dropped and what follows, its own payload first, is searched for packets again. A
  stream on whose packets the callback does not fail in this way is served packet by packet, each exactly
  once and in order.\<close>

theorem siyi_process_stream_serves:
  assumes "stream_open s st"
  shows "process_stream request s st r b =
     map_option (\<lambda>(rest, s', b'). (put st rest s', b')) (serve_stream request st r (get_input s st) s b)
    \<and> (\<forall>rest s' b'. serve_stream request st r (get_input s st) s b = Some (rest, s', b') \<longrightarrow>
          length rest < CA_SIYI_MAX_PACKET
          \<and> (\<forall>later. serve_stream request st r (get_input s st @ later) s b = serve_stream request st r (rest @ later) s' b'))
    \<and> (\<forall>n f s' b'. siyi_step (get_input s st) = Take n f \<and> dispatch_packet request s r f b = (Some EPROTO, s', b')
          \<and> stream_open s' st \<longrightarrow>
          process_stream request s st r b = process_stream request (put st (drop 1 (get_input s st)) s') st r b')
    \<and> (let (out, rest) = drain siyi_step (get_input s st) in
        (\<forall>f\<in>set (frames_of out). \<forall>b. fst (request b f) \<noteq> Some EPROTO) \<longrightarrow>
        serve_stream request st r (get_input s st) s b =
          map_option (\<lambda>(s', b'). (rest, s', b')) (serve_frames request st r (frames_of out) s b))"
proof -
  note whole = process_stream_serves [OF assms, of request "get_input s st" r b, unfolded put_same]
  have "process_stream request s st r b = process_stream request (put st (drop 1 (get_input s st)) s') st r b'"
    if "siyi_step (get_input s st) = Take n f \<and> dispatch_packet request s r f b = (Some EPROTO, s', b') \<and> stream_open s' st"
    for n f s' b'
    using that process_stream_serves [of s' st request "drop 1 (get_input s st)" r b']
    by (simp add: whole serve_stream.simps [of request st r "get_input s st"])
  moreover have "length rest < CA_SIYI_MAX_PACKET" if "serve_stream request st r (get_input s st) s b = Some (rest, s', b')"
    for rest s' b'
    using siyi_need_short [OF serve_stream_rest [OF that]] by (simp add: CA_SIYI_MAX_PACKET_def)
  moreover have "let (out, rest) = drain siyi_step (get_input s st) in
        (\<forall>f\<in>set (frames_of out). \<forall>b. fst (request b f) \<noteq> Some EPROTO) \<longrightarrow>
        serve_stream request st r (get_input s st) s b =
          map_option (\<lambda>(s', b'). (rest, s', b')) (serve_frames request st r (frames_of out) s b)"
    using serve_stream_frames [of "get_input s st" request st r s b] by (simp add: Let_def split: prod.splits)
  ultimately show ?thesis using whole serve_stream_cut [of request st r "get_input s st"] by auto
qed

theorem siyi_process_stream_serves_witness:
  "process_stream (\<lambda>b p. (None, [], b @ [p])) (sample_server\<lparr>uart_input := [1, 2]\<rparr>) Uart uart_route [] =
     map_option (\<lambda>(s', b'). (put Uart (snd (drain siyi_step [1, 2])) s', b'))
       (serve_frames (\<lambda>b p. (None, [], b @ [p])) Uart uart_route (frames_of (fst (drain siyi_step [1, 2])))
          (sample_server\<lparr>uart_input := [1, 2]\<rparr>) [])"
proof -
  define s where "s = sample_server\<lparr>uart_input := [1, 2]\<rparr>"
  have s: "stream_open s Uart" "get_input s Uart = [1, 2]" by (simp_all add: s_def sample_server_def stream_open.simps get_input.simps)
  note w = siyi_process_stream_serves [OF s(1), of "\<lambda>b p. (None, [], b @ [p])" uart_route "[]", unfolded s(2)]
  show ?thesis
    unfolding s_def [symmetric] using w by (simp add: Let_def case_prod_unfold option.map_comp comp_def)
qed

definition inner_packet :: bytes where "inner_packet = siyi_frame 1 7 0x19 []"

definition outer_packet :: bytes where "outer_packet = siyi_frame 1 0 0x0c inner_packet"

definition eproto_request :: "bytes list request" where
  "eproto_request b p = (if length p = 20 then Some EPROTO else None, [], b @ [p])"

lemma silent_dispatch:
  assumes "length pl \<le> 2038"
  shows "\<exists>s'. dispatch_packet eproto_request s uart_route (siyi_frame ctl seq opc pl) b
     = (if length pl = 10 then Some EPROTO else None, s', b @ [siyi_frame ctl seq opc pl])
     \<and> (stream_open s Uart \<longrightarrow> stream_open s' Uart)"
  using siyi_parse_frame [OF assms, of ctl seq opc "[]"]
  by (simp add: dispatch_packet_def eproto_request_def uart_route_def no_route_def Let_def add_pending_def monotonic_ms_def
      stream_open.simps)

lemma outer_bytes:
  obtains x y where "outer_packet = [0x55, 0x66, 1, 10, 0, 0, 0, 0x0c] @ inner_packet @ [x, y]"
proof -
  have l: "le16 (of_nat (length inner_packet)) = [10, 0]" "le16 0 = [0, 0 :: 8 word]"
    by (simp_all add: inner_packet_def le16_def)
  show ?thesis
    using l that by (simp add: outer_packet_def siyi_frame_def [of 1 0] siyi_body_def [of 1 0] le16_def)
qed

text \<open>What the EPROTO case means: a packet that carries another one as its payload is served, its callback
  fails with EPROTO, and then the payload is served as a packet of its own, which was never sent.\<close>

theorem siyi_eproto_rescan:
  assumes "stream_open s Uart"
  shows "map_option snd (process_stream eproto_request (put Uart outer_packet s) Uart uart_route []) = Some [outer_packet, inner_packet]"
proof -
  obtain x y where o: "outer_packet = [0x55, 0x66, 1, 10, 0, 0, 0, 0x0c] @ inner_packet @ [x, y]" by (rule outer_bytes)
  let ?serve = "serve_stream eproto_request Uart uart_route"
  have len: "length inner_packet = 10" by (simp add: inner_packet_def)
  have t1: "siyi_step outer_packet = Take 20 outer_packet"
    using step_frame [of inner_packet 1 0 "0x0c" "[]"] by (simp add: len outer_packet_def [symmetric])
  have t2: "siyi_step (inner_packet @ [x, y]) = Take 10 inner_packet"
    using step_frame [of "[]" 1 7 "0x19" "[x, y]"] by (simp add: inner_packet_def)
  obtain s1 where s1: "dispatch_packet eproto_request s uart_route outer_packet [] = (Some EPROTO, s1, [outer_packet])" "stream_open s1 Uart"
    using silent_dispatch [of inner_packet s 1 0 "0x0c" "[]"] assms len unfolding outer_packet_def by auto
  obtain s2 where s2: "dispatch_packet eproto_request s1 uart_route inner_packet [outer_packet] = (None, s2, [outer_packet, inner_packet])"
      "stream_open s2 Uart"
    using silent_dispatch [of "[]" s1 1 7 "0x19" "[outer_packet]"] s1(2) unfolding inner_packet_def by auto
  obtain d where first: "inner_packet = 0x55 # 0x66 # d" by (simp add: inner_packet_def siyi_frame_def siyi_body_def)
  have skips: "?serve (drop 1 outer_packet) s1 b = ?serve (inner_packet @ [x, y]) s1 b" for b
  proof -
    have "sync_start (drop 1 outer_packet) = 7"
      by (simp add: o first)
    then show ?thesis using serve_stream_sync [of eproto_request Uart uart_route "drop 1 outer_packet" s1 b] by (simp add: o)
  qed
  obtain rest where rest: "?serve [x, y] s2 [outer_packet, inner_packet] = Some (rest, s2, [outer_packet, inner_packet])"
    using serve_short [of "[x, y]" eproto_request Uart uart_route s2 "[outer_packet, inner_packet]"] by auto
  have "?serve (inner_packet @ [x, y]) s1 [outer_packet] = ?serve [x, y] s2 [outer_packet, inner_packet]"
    by (simp add: serve_stream.simps [of eproto_request Uart uart_route "inner_packet @ [x, y]"] t2 s2 len)
  moreover have "?serve outer_packet s [] = ?serve (drop 1 outer_packet) s1 [outer_packet]"
    by (simp add: serve_stream.simps [of eproto_request Uart uart_route outer_packet] t1 s1)
  ultimately have "?serve outer_packet s [] = Some (rest, s2, [outer_packet, inner_packet])" by (simp only: skips rest)
  then show ?thesis using process_stream_serves [OF assms, of eproto_request outer_packet uart_route "[]"] by simp
qed

text \<open>C8: the memory fault. A TCP client sends a request and does not read its replies; once its
  output window has less room than the reply, the reply closes the client, which clears the very
  input that \<^verbatim>\<open>process_stream\<close> is working on, and the loop then subtracts the packet's length (or
  1) from an input length of 0. Any callback that answers at once can be driven into this.\<close>

theorem siyi_reply_overflow_fault:
  assumes ok: "siyi_ok s" and op: "stream_open s (Client i)"
    and input: "get_input s (Client i) = siyi_frame ctl seq opc pl @ later"
    and fits: "length pl + 10 \<le> 2048" and cmd: "opc \<noteq> 0"
    and answer: "request b (siyi_frame ctl seq opc pl) = (result, [reply], b')" "reply \<noteq> []"
    and full: "CA_SIYI_OUTPUT_BUFFER < ow_length (c_output (clients s ! i)) + length reply"
  shows "process_stream request s (Client i) (tcp_route i (c_generation (clients s ! i))) b = None"
proof -
  let ?f = "siyi_frame ctl seq opc pl" and ?r = "tcp_route i (c_generation (clients s ! i))"
  have i: "i < CA_SIYI_TCP_CLIENTS" "i < length (clients s)" "0 \<le> c_fd (clients s ! i)"
    using op ok by (simp_all add: stream_open.simps siyi_ok_def)
  define s3 where "s3 = s\<lparr>last_route := (last_route s)(opc := Some ?r), active := ?r,
     active_valid := True, active_emitted := False\<rparr>"
  have cl: "clients s3 = clients s" by (simp add: s3_def)
  have win: "window_ok (c_output (clients s ! i))"
    using siyi_ok_client [OF ok i(2)] by (simp add: client_ok_def)
  have push: "window_push (c_output (clients s ! i)) reply = Inl ENOBUFS"
    using wq.push_full [OF win] full length_ow_content [OF win] by simp
  have valid: "route_valid (s3\<lparr>active_emitted := True\<rparr>) ?r"
    using i by (simp add: route_valid_def cl tcp_route_def no_route_def CA_SIYI_TCP_CLIENTS_def)
  have "send_route (s3\<lparr>active_emitted := True\<rparr>) ?r reply = (Some ENOBUFS, s3\<lparr>active_emitted := True\<rparr>)"
    using valid push
    by (simp add: send_route_def queue_client_def cl tcp_route_def no_route_def Let_def)
  then have emit: "ca_siyi_server_emit s3 reply = close_client (s3\<lparr>active_emitted := True\<rparr>) i"
    using answer(2) i by (simp add: ca_siyi_server_emit_def emit_route_def s3_def tcp_route_def no_route_def)
  define s4 where "s4 = close_client (s3\<lparr>active_emitted := True\<rparr>) i"
  have closed: "get_input (s4\<lparr>active_valid := False\<rparr>) (Client i) = []"
    "get_input (add_pending (s4\<lparr>active_valid := False\<rparr>) opc ?r) (Client i) = []"
    using i by (simp_all add: s4_def close_client_def cl get_input.simps set_client_def Let_def
        add_pending_def monotonic_ms_def)
  have parse: "ca_siyi_parse_one ?f = Parsed (siyi_packet_of ctl seq opc pl) (length pl + 10)"
    using siyi_parse_frame [of pl ctl seq opc "[]"] fits by simp
  have k: "kind ?r = ROUTE_TCP" by (simp add: tcp_route_def no_route_def)
  have opq: "opcode (siyi_packet_of ctl seq opc pl) = opc" by (simp add: siyi_packet_of_def)
  have disp: "get_input (fst (snd (dispatch_packet request s ?r ?f b))) (Client i) = []"
    using cmd emit closed k
    by (simp add: dispatch_packet_def parse opq answer(1) s3_def [symmetric] s4_def Let_def)
  have step: "sync_start (?f @ later) = 0"
    using siyi_frame_fields by (simp add: siyi_frame_def siyi_body_def)
  have len: "unat (get_u16_le (?f @ later) 3) = length pl"
    using get_u16_le_le16 [OF siyi_frame_fields(5)] fits
    by (simp add: get_u16_le_append unat_of_nat)
  have tk: "take (length pl + 10) (?f @ later) = ?f" by simp
  obtain x s' b2 where d: "dispatch_packet request s ?r ?f b = (x, s', b2)"
    by (cases "dispatch_packet request s ?r ?f b") auto
  have nonempty: "?f @ later \<noteq> []" by (simp add: siyi_frame_def siyi_body_def)
  show ?thesis
    using fits disp nonempty
    by (subst process_stream.simps)
      (simp add: input step len tk d Let_def CA_SIYI_MIN_PACKET_def CA_SIYI_MAX_PACKET_def)
qed

text \<open>A server whose first client has a full output window and one request waiting.\<close>

definition stuck_server :: siyi_server where
  "stuck_server = sample_server\<lparr>clients := (clients sample_server)[0 :=
     \<lparr>c_fd = 9, c_generation = 1, c_input = siyi_frame 1 0 1 [],
      c_output = fresh_window\<lparr>ow_length := CA_SIYI_OUTPUT_BUFFER\<rparr>, c_peer = [], c_sent = []\<rparr>]\<rparr>"

lemma stuck_ok: "siyi_ok stuck_server"
  using siyi_ok_fresh [of sample_base]
  by (simp add: stuck_server_def sample_server_def siyi_ok_def uart_ok_def list_all_length
      nth_list_update client_ok_def window_ok_def fresh_window_def siyi_frame_def siyi_body_def
      CA_SIYI_STREAM_BUFFER_def CA_SIYI_MAX_PACKET_def)

lemma stuck_client:
  "clients stuck_server ! 0 = \<lparr>c_fd = 9, c_generation = 1, c_input = siyi_frame 1 0 1 [],
      c_output = fresh_window\<lparr>ow_length := CA_SIYI_OUTPUT_BUFFER\<rparr>, c_peer = [], c_sent = []\<rparr>"
  "length (clients stuck_server) = 8"
  by (simp_all add: stuck_server_def sample_server_def fresh_server_def CA_SIYI_TCP_CLIENTS_def)

theorem siyi_reply_overflow_fault_witness:
  "process_stream (\<lambda>b p. (None, [p], b)) stuck_server (Client 0) (tcp_route 0 1) () = None"
  using siyi_reply_overflow_fault [OF stuck_ok, of 0 1 0 1 "[]" "[]" "\<lambda>b p. (None, [p], b)" "()"
      None "siyi_frame 1 0 1 []" "()"]
  by (simp add: stuck_client stream_open.simps get_input.simps siyi_frame_def siyi_body_def)

subsection \<open>Reading\<close>

text \<open>A client is never dropped because its input buffer is full: the parser leaves fewer than
  2048 of the 4096 bytes, so the ENOBUFS exit of \<^verbatim>\<open>read_client\<close> is taken only if the kernel itself
  reports that error, and the loop keeps the server's invariant.\<close>

theorem siyi_read_client_room:
  assumes "siyi_ok s" and "stream_open s (Client i)"
    and "read_client request i r s b rs = Some (e, s', b')"
  shows "siyi_ok s' \<and> (e = Some ENOBUFS \<longrightarrow> RecvFail ENOBUFS \<in> set rs)"
  by (rule read_client_ok [OF assms(3,1,2)])

theorem siyi_read_client_room_witness:
  "siyi_ok (close_client stuck_server 0) \<and> siyi_ok stuck_server"
  using siyi_read_client_room [of stuck_server 0 "\<lambda>b p. (None, [], b)" "tcp_route 0 1" "()" "[]"] stuck_ok
    siyi_ok_evolves(2) [OF stuck_ok] by simp

subsection \<open>Output order\<close>

text \<open>Replies to a TCP client form one FIFO byte stream: a packet that fits is appended whole
  behind the bytes already queued, what \<^verbatim>\<open>send\<close> takes is the front of the queue in order, and
  nothing of it is lost, repeated or reordered, whether or not the flush then fails; a packet that
  does not fit is refused and changes nothing.\<close>

theorem siyi_queue_client_fifo:
  assumes "siyi_ok s" and "i < 8"
  shows "(let c = clients s ! i; (e, s') = queue_client s i p; c' = clients s' ! i
     in if length (ow_content (c_output c)) + length p \<le> 8192
        then c_sent c' @ ow_content (c_output c') = c_sent c @ ow_content (c_output c) @ p
        else e = Some ENOBUFS \<and> s' = s)"
proof -
  let ?c = "clients s ! i"
  have i: "i < length (clients s)" using assms by (simp add: siyi_ok_def CA_SIYI_TCP_CLIENTS_def)
  have win: "window_ok (c_output ?c)" using siyi_ok_client [OF assms(1) i] by (simp add: client_ok_def)
  show ?thesis
  proof (cases "length (ow_content (c_output ?c)) + length p \<le> CA_SIYI_OUTPUT_BUFFER")
    case True
    then obtain w where w: "window_push (c_output ?c) p = Inr w" "window_ok w"
      "ow_content w = ow_content (c_output ?c) @ p"
      using wq.push_fits [OF win] by blast
    obtain e w' peer out where f: "window_flush w (c_peer ?c) = (e, w', peer, out)"
      by (cases "window_flush w (c_peer ?c)") auto
    have "out @ ow_content w' = ow_content (c_output ?c) @ p"
      using wq.push_then_flush [OF win w(1) f] by simp
    moreover have "c_sent (clients (snd (queue_client s i p)) ! i) = c_sent ?c @ out"
      "c_output (clients (snd (queue_client s i p)) ! i) = w'"
      using i by (simp_all add: queue_client_def w flush_client_def set_client_def f Let_def split: option.split)
    ultimately show ?thesis
      using True
      by (cases "queue_client s i p") (auto simp: CA_SIYI_OUTPUT_BUFFER_def Let_def)
  next
    case False
    then have "window_push (c_output ?c) p = Inl ENOBUFS" using wq.push_full [OF win] by simp
    with False show ?thesis by (simp add: CA_SIYI_OUTPUT_BUFFER_def queue_client_def)
  qed
qed

theorem siyi_queue_client_fifo_witness:
  "queue_client stuck_server 0 [1, 2] = (Some ENOBUFS, stuck_server)"
  using siyi_queue_client_fifo [OF stuck_ok, of 0 "[1, 2]"]
  by (simp add: stuck_client ow_content_def fresh_window_def CA_SIYI_OUTPUT_BUFFER_def split: prod.splits)

subsection \<open>The route of a reply\<close>

text \<open>The loop of \<^verbatim>\<open>take_pending\<close> finds the matching entry with the least order.\<close>

lemma pending_match_least:
  assumes "pending_match valid op ps i sel old = k" and "sel < i \<or> sel = n" and "length ps + i = n"
  shows "(k = sel \<and> (\<forall>p\<in>set ps. used p \<and> p_opcode p = op \<and> valid (p_route p) \<longrightarrow> old \<le> order p))
    \<or> (i \<le> k \<and> k < n \<and> used (ps ! (k - i)) \<and> p_opcode (ps ! (k - i)) = op \<and> valid (p_route (ps ! (k - i)))
       \<and> order (ps ! (k - i)) < old
       \<and> (\<forall>p\<in>set ps. used p \<and> p_opcode p = op \<and> valid (p_route p) \<longrightarrow> order (ps ! (k - i)) \<le> order p))"
  using assms
proof (induction ps arbitrary: i sel old)
  case (Cons p ps)
  show ?case
  proof (cases "used p \<and> p_opcode p = op \<and> order p < old \<and> valid (p_route p)")
    case True
    with Cons.prems Cons.IH [of "i + 1" i "order p"] show ?thesis
      by (auto simp: nth_Cons' not_less intro: order_trans less_imp_le)
  next
    case False
    with Cons.prems Cons.IH [of "i + 1" sel old] show ?thesis
      by (auto simp: nth_Cons' not_less intro: order_trans less_imp_le)
  qed
qed simp

definition pending_candidate :: "siyi_server \<Rightarrow> u8 \<Rightarrow> u64 \<Rightarrow> pending_route \<Rightarrow> bool" where
  "pending_candidate s op now p \<longleftrightarrow>
     used p \<and> p_opcode p = op \<and> now < deadline_ms p \<and> route_valid s (p_route p)"

lemma route_valid_pending [simp]:
  "route_valid (s\<lparr>pending := ps\<rparr>) = route_valid s" "route_valid (s\<lparr>clock_reads := n\<rparr>) = route_valid s"
  by (simp_all add: fun_eq_iff route_valid_def)

lemma nth_purge_pending:
  "k < length ps \<Longrightarrow> purge_pending now ps ! k =
     (if used (ps ! k) \<and> deadline_ms (ps ! k) \<le> now then (ps ! k)\<lparr>used := False\<rparr> else ps ! k)"
  by (simp add: purge_pending_def)

text \<open>A late reply goes to the oldest request that still waits for it: \<^verbatim>\<open>take_pending\<close> picks,
  among the entries in use with the reply's opcode, an unexpired deadline and a route that is
  still valid, one of least order, and frees exactly that entry (expired ones apart); it finds
  nothing only if there is no such entry.\<close>

theorem siyi_take_pending_oldest:
  assumes "length (pending s) = 64" and "\<forall>p\<in>set (pending s). order p \<noteq> -1"
  shows "(let now = clock s (clock_reads s); ps = pending s
     in case take_pending s op of
          (None, s') \<Rightarrow> \<not> (\<exists>p\<in>set ps. pending_candidate s op now p)
            \<and> pending s' = purge_pending now ps
        | (Some r, s') \<Rightarrow> (\<exists>k<64. pending_candidate s op now (ps ! k) \<and> r = p_route (ps ! k)
            \<and> (\<forall>p\<in>set ps. pending_candidate s op now p \<longrightarrow> order (ps ! k) \<le> order p)
            \<and> pending s' = (purge_pending now ps)[k := (ps ! k)\<lparr>used := False\<rparr>]))"
proof -
  define now where "now = clock s (clock_reads s)"
  let ?ps = "purge_pending now (pending s)"
  define k where "k = pending_match (route_valid s) op ?ps 0 64 (-1)"
  have len: "length ?ps = 64" using assms(1) by (simp add: purge_pending_def)
  have cand: "used (?ps ! j) \<and> p_opcode (?ps ! j) = op \<and> route_valid s (p_route (?ps ! j)) \<longleftrightarrow>
      pending_candidate s op now (pending s ! j)"
    and eq: "pending_candidate s op now (pending s ! j) \<Longrightarrow> ?ps ! j = pending s ! j" if "j < 64" for j
    using that assms(1) by (auto simp: nth_purge_pending pending_candidate_def not_le)
  have all: "(\<forall>p\<in>set ?ps. used p \<and> p_opcode p = op \<and> route_valid s (p_route p) \<longrightarrow> old \<le> order p) \<longleftrightarrow>
      (\<forall>p\<in>set (pending s). pending_candidate s op now p \<longrightarrow> old \<le> order p)" for old
    using cand eq len assms(1) by (simp add: all_set_conv_all_nth)
  have tk: "take_pending s op = (if k = 64 then None else Some (p_route (?ps ! k)),
      s\<lparr>clock_reads := clock_reads s + 1,
        pending := if k = 64 then ?ps else ?ps[k := (?ps ! k)\<lparr>used := False\<rparr>]\<rparr>)"
    by (simp add: take_pending_def monotonic_ms_def Let_def now_def k_def CA_SIYI_PENDING_def)
  have "(k = 64 \<and> (\<forall>p\<in>set (pending s). pending_candidate s op now p \<longrightarrow> -1 \<le> order p)) \<or>
      k < 64 \<and> used (?ps ! k) \<and> p_opcode (?ps ! k) = op \<and> route_valid s (p_route (?ps ! k)) \<and>
      (\<forall>p\<in>set (pending s). pending_candidate s op now p \<longrightarrow> order (?ps ! k) \<le> order p)"
    using pending_match_least [OF k_def [symmetric], of 64] len all by simp blast
  then show ?thesis
  proof (elim disjE conjE)
    assume k: "k = 64" and none: "\<forall>p\<in>set (pending s). pending_candidate s op now p \<longrightarrow> -1 \<le> order p"
    have "\<not> pending_candidate s op now p" if "p \<in> set (pending s)" for p
      using none assms(2) that by (metis max_word_wrap word_order.extremum_uniqueI)
    with k show ?thesis by (simp add: tk now_def Let_def)
  next
    assume k: "k < 64" "used (?ps ! k)" "p_opcode (?ps ! k) = op" "route_valid s (p_route (?ps ! k))"
      and least: "\<forall>p\<in>set (pending s). pending_candidate s op now p \<longrightarrow> order (?ps ! k) \<le> order p"
    then have c: "pending_candidate s op now (pending s ! k)" using cand [OF k(1)] by simp
    with least k eq [OF k(1) c] show ?thesis
      by (simp add: tk now_def Let_def) (rule exI [of _ k], simp)
  qed
qed

theorem siyi_take_pending_oldest_witness:
  "fst (take_pending sample_server 1) = None"
proof -
  have p: "length (pending sample_server) = 64" "\<forall>p\<in>set (pending sample_server). order p = 0 \<and> \<not> used p"
    by (simp_all add: sample_server_def fresh_server_def CA_SIYI_PENDING_def)
  then have "\<And>k. k < 64 \<Longrightarrow> \<not> used (pending sample_server ! k)" by (metis nth_mem)
  then show ?thesis
    using siyi_take_pending_oldest [of sample_server 1] p
    by (cases "take_pending sample_server 1")
      (auto simp: pending_candidate_def Let_def split: option.splits)
qed

lemma queue_client_others:
  assumes "i < length (clients s)"
  shows "clients (snd (queue_client s i p)) = (clients s)[i := clients (snd (queue_client s i p)) ! i]"
    and "uart_output (snd (queue_client s i p)) = uart_output s"
    and "uart_sent (snd (queue_client s i p)) = uart_sent s"
    and "udp_sent (snd (queue_client s i p)) = udp_sent s"
  using assms
  by (auto simp: queue_client_def flush_client_def set_client_def Let_def split: sum.split prod.split option.split)

lemma close_client_others:
  assumes "i < length (clients s)"
  shows "clients (close_client s i) = (clients s)[i := clients (close_client s i) ! i]"
    and "uart_output (close_client s i) = uart_output s" "uart_sent (close_client s i) = uart_sent s"
    and "udp_sent (close_client s i) = udp_sent s" "c_sent (clients (close_client s i) ! i) = c_sent (clients s ! i)"
  using assms by (auto simp: close_client_def set_client_def Let_def)

text \<open>A reply emitted while a TCP client's request is being served reaches no one else: every
  other client, the UART and the UDP peers keep their queues and what was sent to them, and if
  the client is gone meanwhile, nothing is sent at all.\<close>

theorem siyi_emit_isolated:
  assumes "siyi_ok s" and "active_valid s" and "active s = tcp_route i g" and "i < 8"
  shows "(let s' = ca_siyi_server_emit s p
     in (\<forall>j<8. j \<noteq> i \<longrightarrow> clients s' ! j = clients s ! j)
      \<and> uart_output s' = uart_output s \<and> uart_sent s' = uart_sent s \<and> udp_sent s' = udp_sent s
      \<and> (\<not> route_valid s (tcp_route i g) \<longrightarrow> c_sent (clients s' ! i) = c_sent (clients s ! i)))"
proof (cases "p = []")
  case False
  have i: "i < length (clients s)" "i < CA_SIYI_TCP_CLIENTS"
    using assms by (simp_all add: siyi_ok_def CA_SIYI_TCP_CLIENTS_def)
  have r: "kind (tcp_route i g) = ROUTE_TCP" "slot (tcp_route i g) = i"
    by (simp_all add: tcp_route_def no_route_def)
  let ?s1 = "s\<lparr>active_emitted := True\<rparr>"
  have rv: "route_valid ?s1 q = route_valid s q" for q by (simp add: route_valid_def)
  obtain x s2 where q: "send_route ?s1 (tcp_route i g) p = (x, s2)"
    by (cases "send_route ?s1 (tcp_route i g) p")
  have s2: "clients s2 = (clients s)[i := clients s2 ! i]" "uart_output s2 = uart_output s"
    "uart_sent s2 = uart_sent s" "udp_sent s2 = udp_sent s"
    "\<not> route_valid s (tcp_route i g) \<Longrightarrow> s2 = ?s1"
    using q queue_client_others [of i ?s1 p] i r rv
    by (auto simp: send_route_def split: if_splits)
  have len: "i < length (clients s2)" using i by (subst s2(1)) simp
  have emit: "ca_siyi_server_emit s p = (if x = None then s2 else close_client s2 i)"
    using False assms(2,3) q r i by (simp add: ca_siyi_server_emit_def emit_route_def split: option.split)
  have "clients s2 ! j = clients s ! j" if "j \<noteq> i" for j using that by (subst s2(1)) simp
  moreover have "clients (close_client s2 i) ! j = clients s2 ! j" if "j \<noteq> i" for j
    using that by (subst close_client_others(1) [OF len]) simp
  ultimately show ?thesis
    using s2 close_client_others [OF len] by (auto simp: emit Let_def)
qed (simp add: ca_siyi_server_emit_def)

theorem siyi_emit_isolated_witness:
  "uart_sent (ca_siyi_server_emit (stuck_server\<lparr>active := tcp_route 0 1, active_valid := True\<rparr>) [7]) =
   uart_sent stuck_server"
proof -
  have "siyi_ok (stuck_server\<lparr>active := tcp_route 0 1, active_valid := True\<rparr>)"
    using stuck_ok by (simp add: siyi_ok_def uart_ok_def)
  from siyi_emit_isolated [OF this, of 0 1 "[7]"] show ?thesis by (simp add: Let_def)
qed

text \<open>A slot that is given to a new client is never mistaken for the old one: routes recorded
  for the previous connection of the slot are no longer valid, so no late reply reaches the new
  client through them, while the routes of all other clients keep their validity.\<close>

theorem siyi_slot_reuse:
  assumes ok: "siyi_ok s" and free: "free_slot s < 8"
    and acc: "accept_clients s [Accepted fd peer] = (None, s')"
  shows "(let i = free_slot s
     in \<not> route_valid s' (tcp_route i (c_generation (clients s ! i)))
      \<and> (0 \<le> fd \<longrightarrow> route_valid s' (tcp_route i (c_generation (clients s' ! i))))
      \<and> c_sent (clients s' ! i) = [] \<and> c_input (clients s' ! i) = []
      \<and> (\<forall>j g. j \<noteq> i \<longrightarrow> route_valid s' (tcp_route j g) = route_valid s (tcp_route j g)))"
proof -
  let ?i = "free_slot s"
  let ?g = "c_generation (clients s ! ?i)"
  define g where "g = (if ?g + 1 = 0 then 1 else ?g + 1)"
  have len: "length (clients s) = 8" using ok by (simp add: siyi_ok_def CA_SIYI_TCP_CLIENTS_def)
  have new: "g \<noteq> ?g" by (auto simp: g_def)
  have "clients s' = (clients s)[?i := (clients s ! ?i)\<lparr>c_fd := fd, c_generation := g,
      c_input := [], c_output := window_empty (c_output (clients s ! ?i)), c_peer := peer, c_sent := []\<rparr>]"
    and "udp_fd s' = udp_fd s" "uart_fd s' = uart_fd s"
    using acc free
    by (auto simp: Let_def g_def CA_SIYI_TCP_CLIENTS_def set_client_def poll_change_def
        split: prod.splits option.splits list.splits if_splits)
  with free new len show ?thesis
    by (auto simp: Let_def route_valid_def tcp_route_def no_route_def CA_SIYI_TCP_CLIENTS_def nth_list_update)
qed

theorem siyi_slot_reuse_witness:
  "\<not> route_valid (snd (accept_clients stuck_server [Accepted 11 []])) (tcp_route 1 0)"
proof -
  have f: "free_slot stuck_server = 1"
    by (simp add: free_slot_def stuck_server_def sample_server_def fresh_server_def
        CA_SIYI_TCP_CLIENTS_def eval_nat_numeral)
  have p: "poll_results stuck_server = []"
    by (simp add: stuck_server_def sample_server_def fresh_server_def sample_base_def)
  have g: "c_generation (clients stuck_server ! 1) = 0"
    by (simp add: stuck_server_def sample_server_def fresh_server_def CA_SIYI_TCP_CLIENTS_def)
  have "fst (accept_clients stuck_server [Accepted 11 []]) = None"
    by (simp add: f p g CA_SIYI_TCP_CLIENTS_def Let_def set_client_def poll_change_def)
  then obtain s' where a: "accept_clients stuck_server [Accepted 11 []] = (None, s')"
    by (cases "accept_clients stuck_server [Accepted 11 []]") auto
  from siyi_slot_reuse [OF stuck_ok _ a] show ?thesis
    by (simp add: f g a Let_def del: accept_clients.simps One_nat_def)
qed

lemma push_low: "(push_bit 16 c AND 0xff :: u64) = 0" "(push_bit 16 c AND 0xff00 :: u64) = 0"
proof -
  have m: "(0xff :: u64) = mask 8" "(0xff00 :: u64) = push_bit 8 (mask 8)" by (simp_all add: mask_eq_exp_minus_1)
  show "(push_bit 16 c AND 0xff :: u64) = 0" unfolding m
    by (rule bit_word_eqI) (auto simp: bit_simps)
  show "(push_bit 16 c AND 0xff00 :: u64) = 0" unfolding m
    by (rule bit_word_eqI) (auto simp: bit_simps)
qed
lemma small_slot: 
  assumes "i < 8" shows "(of_nat i :: u64) AND 0xff = of_nat i" "(of_nat i :: u64) AND 0xff00 = 0"
  "drop_bit 16 (of_nat i :: u64) = 0"
proof -
  have "i \<in> {0,1,2,3,4,5,6,7}" using assms by auto
  then show "(of_nat i :: u64) AND 0xff = of_nat i" "(of_nat i :: u64) AND 0xff00 = 0" "drop_bit 16 (of_nat i :: u64) = 0" by auto
qed
lemma client_event_decode:
  assumes "i < 8"
  shows "client_event i g AND 0xff = of_nat i" "client_event i g AND 0xff00 = 0x100"
   "to32 (drop_bit 16 (client_event i g)) = g"
proof -
  show "client_event i g AND 0xff = of_nat i" "client_event i g AND 0xff00 = 0x100"
    using small_slot [OF assms]
    by (simp_all add: client_event_def CA_EVENT_CLIENT_def bit.conj_disj_distrib2 push_low)
  show "to32 (drop_bit 16 (client_event i g)) = g"
    using small_slot [OF assms]
    by (simp add: client_event_def CA_EVENT_CLIENT_def)
      (rule bit_word_eqI, auto simp: bit_simps dest: bit_imp_le_length)
qed

text \<open>The event token names the connection: it decodes to the slot and generation it was made
  from, is none of the fixed tokens, and an event for a connection that is closed, or whose slot
  has a new owner, is ignored.\<close>

theorem siyi_stale_event:
  assumes "i < 8" and "ev_token ev = client_event i g"
  shows "unat (ev_token ev AND 0xff) = i \<and> to32 (drop_bit 16 (ev_token ev)) = g
    \<and> ev_token ev \<notin> {CA_EVENT_UDP, CA_EVENT_LISTENER, CA_EVENT_UART}
    \<and> (\<not> route_valid s (tcp_route i g) \<longrightarrow> handle_event request s b ev = Some (None, s, b))"
proof (intro conjI impI)
  note d = client_event_decode [OF assms(1), of g]
  have n: "unat (of_nat i :: u64) = i" using assms(1) by (simp add: unat_of_nat)
  show "unat (ev_token ev AND 0xff) = i" using d n assms by simp
  show g: "to32 (drop_bit 16 (ev_token ev)) = g" using d assms by simp
  show k: "ev_token ev \<notin> {CA_EVENT_UDP, CA_EVENT_LISTENER, CA_EVENT_UART}"
    using d(2) assms(2) by (auto simp: CA_EVENT_UDP_def CA_EVENT_LISTENER_def CA_EVENT_UART_def)
  assume "\<not> route_valid s (tcp_route i g)"
  with k d n g assms show "handle_event request s b ev = Some (None, s, b)"
    by (auto simp: handle_event_def Let_def route_valid_def tcp_route_def no_route_def
        CA_SIYI_TCP_CLIENTS_def CA_EVENT_CLIENT_def)
qed

theorem siyi_stale_event_witness:
  "handle_event (\<lambda>b p. (None, [], b)) stuck_server ()
     \<lparr>ev_token = client_event 0 7, ev_in = True, ev_out = True, ev_err = True, ev_hup = True,
      ev_rdhup = True, ev_recv = [], ev_udp = [], ev_accept = []\<rparr> = Some (None, stuck_server, ())"
  using siyi_stale_event [of 0 "\<lparr>ev_token = client_event 0 7, ev_in = True, ev_out = True,
      ev_err = True, ev_hup = True, ev_rdhup = True, ev_recv = [], ev_udp = [], ev_accept = []\<rparr>"
      7 stuck_server "\<lambda>b p. (None, [], b)" "()"]
  by (simp add: route_valid_def tcp_route_def no_route_def stuck_client)

lemma poll_change_emitted [simp]: "active_emitted (snd (poll_change s)) = active_emitted s"
  by (simp add: poll_change_def split: list.split)

lemma active_kept [simp]:
  "active_valid (close_client s i) = active_valid s"
  "active_emitted (close_client s i) = active_emitted s"
  "active_valid (snd (send_route s r p)) = active_valid s"
  "active_emitted (snd (send_route s r p)) = active_emitted s"
proof -
  have f: "active_valid (snd (flush_client s i)) = active_valid s \<and> active_emitted (snd (flush_client s i)) = active_emitted s"
    "active_valid (snd (flush_uart s)) = active_valid s \<and> active_emitted (snd (flush_uart s)) = active_emitted s"
    "active_valid (disable_uart s) = active_valid s \<and> active_emitted (disable_uart s) = active_emitted s"
    for s i
    by (simp_all add: flush_client_def flush_uart_def disable_uart_def set_client_def Let_def
        split: prod.split option.split)
  have q: "active_valid (snd (queue_client s i p)) = active_valid s \<and>
      active_emitted (snd (queue_client s i p)) = active_emitted s" for s i
    using f by (simp add: queue_client_def set_client_def Let_def split: sum.split)
  have u: "active_valid (snd (queue_uart s p)) = active_valid s \<and>
      active_emitted (snd (queue_uart s p)) = active_emitted s" for s
  proof (cases "window_push (uart_output s) p")
    case (Inr w)
    obtain e s1 where g: "flush_uart (s\<lparr>uart_output := w\<rparr>) = (e, s1)"
      by (cases "flush_uart (s\<lparr>uart_output := w\<rparr>)")
    then have "active_valid s1 = active_valid s \<and> active_emitted s1 = active_emitted s"
      using f(2) [of "s\<lparr>uart_output := w\<rparr>"] by simp
    with f(3) [of s1] show ?thesis by (cases e) (simp_all add: queue_uart_def Inr g)
  qed (simp add: queue_uart_def)
  show "active_valid (close_client s i) = active_valid s"
    "active_emitted (close_client s i) = active_emitted s"
    by (simp_all add: close_client_def set_client_def Let_def)
  show "active_valid (snd (send_route s r p)) = active_valid s"
    "active_emitted (snd (send_route s r p)) = active_emitted s"
    using q u by (simp_all add: send_route_def send_udp_def split: list.split sum.split)
qed

lemma emit_active:
  assumes "active_valid s"
  shows "active_valid (ca_siyi_server_emit s p)"
    and "active_emitted (ca_siyi_server_emit s p) = (active_emitted s \<or> p \<noteq> [])"
proof -
  obtain x s2 where q: "send_route (s\<lparr>active_emitted := True\<rparr>) (active s) p = (x, s2)"
    by (cases "send_route (s\<lparr>active_emitted := True\<rparr>) (active s) p")
  have "active_valid s2" "active_emitted s2"
    using active_kept(3,4) [of "s\<lparr>active_emitted := True\<rparr>" "active s" p] q assms by simp_all
  then show "active_valid (ca_siyi_server_emit s p)"
    and "active_emitted (ca_siyi_server_emit s p) = (active_emitted s \<or> p \<noteq> [])"
    using assms q by (cases x; simp add: ca_siyi_server_emit_def emit_route_def)+
qed

lemma emits_active:
  "active_valid s \<Longrightarrow> active_emitted (foldl ca_siyi_server_emit s ps) =
     (active_emitted s \<or> (\<exists>p\<in>set ps. p \<noteq> []))"
  by (induction ps arbitrary: s) (auto simp: emit_active)

lemma emits_silent: "\<forall>p\<in>set ps. p = [] \<Longrightarrow> foldl ca_siyi_server_emit s ps = s"
  by (induction ps) (simp_all add: ca_siyi_server_emit_def)

text \<open>The one-byte keepalive of the vendor's TCP service is swallowed: it changes nothing and
  never reaches the callback, while the same packet on another transport does. Every other
  well-formed request is handed to the callback once, its route is remembered for its opcode, no
  reply is in progress afterwards, and exactly when it emitted nothing it is put on the list of
  requests that wait for a late reply.\<close>

theorem siyi_dispatch_spec:
  assumes "length pl + 10 \<le> 2048" and "request b (siyi_frame ctl seq opc pl) = (result, emits, b')"
  shows "dispatch_packet request s r (siyi_frame ctl seq opc pl) b =
     (if kind r = ROUTE_TCP \<and> opc = 0 \<and> pl = [0] then (None, s, b)
      else
        let s1 = s\<lparr>last_route := (last_route s)(opc \<mapsto> r),
                   last_udp := if kind r = ROUTE_UDP then Some r else last_udp s,
                   active := r, active_valid := True, active_emitted := False\<rparr>;
            s2 = foldl ca_siyi_server_emit s1 emits
        in (result,
            if \<exists>p\<in>set emits. p \<noteq> [] then s2\<lparr>active_valid := False\<rparr>
            else add_pending (s1\<lparr>active_valid := False\<rparr>) opc r, b'))"
proof -
  have parse: "ca_siyi_parse_one (siyi_frame ctl seq opc pl) =
      Parsed (siyi_packet_of ctl seq opc pl) (length pl + 10)"
    using siyi_parse_frame [of pl ctl seq opc "[]"] assms(1) by simp
  have fields: "opcode (siyi_packet_of ctl seq opc pl) = opc"
    "payload (siyi_packet_of ctl seq opc pl) = pl"
    "payload_length (siyi_packet_of ctl seq opc pl) = of_nat (length pl)"
    by (simp_all add: siyi_packet_of_def)
  have one: "(of_nat (length pl) = (1 :: u16) \<and> pl ! 0 = 0) = (pl = [0])"
  proof -
    have "(of_nat (length pl) = (1 :: u16)) = (length pl = 1)"
      using assms(1) by (auto simp: word_unat_eq_iff unat_of_nat)
    then show ?thesis by (auto simp: length_Suc_conv)
  qed
  show ?thesis
  proof (cases "kind r = ROUTE_TCP \<and> opc = 0 \<and> pl = [0]")
    case True
    then have "opcode (siyi_packet_of ctl seq opc pl) = 0"
      "payload_length (siyi_packet_of ctl seq opc pl) = 1" "payload (siyi_packet_of ctl seq opc pl) ! 0 = 0"
      using fields by simp_all
    with True show ?thesis
      unfolding dispatch_packet_def parse siyi_parse.case by (simp del: One_nat_def)
  next
    case False
    define s1 where "s1 = s\<lparr>last_route := (last_route s)(opc \<mapsto> r),
       last_udp := if kind r = ROUTE_UDP then Some r else last_udp s,
       active := r, active_valid := True, active_emitted := False\<rparr>"
    have s1: "(if kind r = ROUTE_UDP then s\<lparr>last_route := (last_route s)(opc \<mapsto> r), last_udp := Some r\<rparr>
        else s\<lparr>last_route := (last_route s)(opc \<mapsto> r)\<rparr>)
        \<lparr>active := r, active_valid := True, active_emitted := False\<rparr> = s1"
      by (simp add: s1_def)
    have f: "\<not> (kind r = ROUTE_TCP \<and> opc = 0 \<and> of_nat (length pl) = (1 :: u16) \<and> pl ! 0 = 0)"
      using False one by auto
    have e: "active_emitted (foldl ca_siyi_server_emit s1 emits) = (\<exists>p\<in>set emits. p \<noteq> [])"
      using emits_active [of s1 emits] by (simp add: s1_def)
    have sil: "\<not> (\<exists>p\<in>set emits. p \<noteq> []) \<Longrightarrow> foldl ca_siyi_server_emit s1 emits = s1"
      using emits_silent by blast
    show ?thesis
      unfolding if_not_P [OF False] s1_def [symmetric] Let_def
      using sil
      by (simp only: dispatch_packet_def parse fields siyi_parse.case if_not_P [OF f] Let_def
          assms(2) prod.case s1 e length_siyi_frame simp_thms if_False) auto
  qed
qed

theorem siyi_dispatch_spec_witness:
  "fst (dispatch_packet (\<lambda>b p. (Some EIO, [], b)) stuck_server uart_route (siyi_frame 1 2 0 [0]) ()) = Some EIO"
  using siyi_dispatch_spec [of "[0]" "\<lambda>b p. (Some EIO, [], b)" "()" 1 2 0 "Some EIO" "[]" "()"
      stuck_server uart_route]
  by (simp add: uart_route_def no_route_def Let_def)

end
