(* ===== verification/C_Strings.thy ===== *)
theory C_Strings
  imports AP_Prelude
begin

text \<open>
  C strings and the parts of the C library that the configuration code and the web server use, in
  the C locale. A C string is the list of its characters without the terminating NUL.
\<close>

abbreviation NUL :: char where "NUL \<equiv> CHR 0x00"
abbreviation TAB :: char where "TAB \<equiv> CHR 0x09"
abbreviation NL :: char where "NL \<equiv> CHR 0x0A"
abbreviation CR :: char where "CR \<equiv> CHR 0x0D"
abbreviation QUOTE :: char where "QUOTE \<equiv> CHR 0x22"

definition code :: "char \<Rightarrow> nat" where "code c = of_char c"

definition isspace :: "char \<Rightarrow> bool" where
  "isspace c \<longleftrightarrow> code c = 32 \<or> 9 \<le> code c \<and> code c \<le> 13"

definition iscntrl :: "char \<Rightarrow> bool" where
  "iscntrl c \<longleftrightarrow> code c < 32 \<or> code c = 127"

definition isdigit :: "char \<Rightarrow> bool" where
  "isdigit c \<longleftrightarrow> 48 \<le> code c \<and> code c \<le> 57"

definition isupper :: "char \<Rightarrow> bool" where
  "isupper c \<longleftrightarrow> 65 \<le> code c \<and> code c \<le> 90"

definition islower :: "char \<Rightarrow> bool" where
  "islower c \<longleftrightarrow> 97 \<le> code c \<and> code c \<le> 122"

definition isalnum :: "char \<Rightarrow> bool" where
  "isalnum c \<longleftrightarrow> isdigit c \<or> isupper c \<or> islower c"

definition tolower :: "char \<Rightarrow> char" where
  "tolower c = (if isupper c then char_of (code c + 32) else c)"

text \<open>The string that a character array holds.\<close>

definition c_str :: "string \<Rightarrow> string" where
  "c_str s = takeWhile (\<lambda>c. c \<noteq> NUL) s"

text \<open>\<^verbatim>\<open>strchr\<close>: what comes before the first occurrence and what comes after it.\<close>

definition split_at :: "char \<Rightarrow> string \<Rightarrow> (string \<times> string) option" where
  "split_at c s =
     (if c \<in> set s then Some (takeWhile (\<lambda>x. x \<noteq> c) s, tl (dropWhile (\<lambda>x. x \<noteq> c) s)) else None)"

definition rstrip :: "string \<Rightarrow> string" where
  "rstrip s = rev (dropWhile isspace (rev s))"

definition trim :: "string \<Rightarrow> string" where
  "trim s = rstrip (dropWhile isspace s)"

subsection \<open>Numbers\<close>

definition digit :: "nat \<Rightarrow> char" where "digit n = char_of (48 + n)"

fun dec_nat :: "nat \<Rightarrow> string" where
  "dec_nat n = (if n < 10 then [digit n] else dec_nat (n div 10) @ [digit (n mod 10)])"

declare dec_nat.simps [simp del]

text \<open>\<^verbatim>\<open>snprintf\<close> with \<^verbatim>\<open>%d\<close>.\<close>

definition dec_int :: "int \<Rightarrow> string" where
  "dec_int i = (if i < 0 then CHR ''-'' # dec_nat (nat (- i)) else dec_nat (nat i))"

definition digits_value :: "string \<Rightarrow> nat" where
  "digits_value ds = foldl (\<lambda>n c. 10 * n + (code c - 48)) 0 ds"

text \<open>
  \<^verbatim>\<open>strtol\<close> and \<^verbatim>\<open>strtoul\<close> in base 10 with a 64-bit \<^verbatim>\<open>long\<close>: \<^term>\<open>None\<close> when no digits are found
  (\<^verbatim>\<open>end == value\<close>), else the value, what follows it, and whether \<^verbatim>\<open>errno\<close> became ERANGE.
  \<^verbatim>\<open>strtoul\<close> accepts a minus sign and negates modulo 2 ^ 64.
\<close>

definition number_prefix :: "string \<Rightarrow> (bool \<times> nat \<times> string) option" where
  "number_prefix s0 =
     (let s = dropWhile isspace s0;
          neg = (s \<noteq> [] \<and> hd s = CHR ''-'');
          t = (if s \<noteq> [] \<and> (hd s = CHR ''-'' \<or> hd s = CHR ''+'') then tl s else s);
          ds = takeWhile isdigit t
      in if ds = [] then None else Some (neg, digits_value ds, drop (length ds) t))"

definition strtol :: "string \<Rightarrow> (int \<times> string \<times> bool) option" where
  "strtol s =
     map_option (\<lambda>(neg, n, rest).
       let v = (if neg then - int n else int n)
       in if v < - (2 ^ 63) then (- (2 ^ 63), rest, True)
          else if 2 ^ 63 - 1 < v then (2 ^ 63 - 1, rest, True) else (v, rest, False))
       (number_prefix s)"

definition strtoul :: "string \<Rightarrow> (nat \<times> string \<times> bool) option" where
  "strtoul s =
     map_option (\<lambda>(neg, n, rest).
       if 2 ^ 64 \<le> n then (2 ^ 64 - 1, rest, True)
       else (if neg then (2 ^ 64 - n) mod 2 ^ 64 else n, rest, False))
       (number_prefix s)"

text \<open>\<^verbatim>\<open>inet_pton(AF_INET, \<dots>)\<close>: four numbers up to 255 without leading zeros, separated by dots.\<close>

definition octet_ok :: "string \<Rightarrow> bool" where
  "octet_ok s \<longleftrightarrow> s \<noteq> [] \<and> list_all isdigit s \<and> digits_value s \<le> 255 \<and> (hd s = CHR ''0'' \<longrightarrow> s = ''0'')"

fun inet_parts :: "nat \<Rightarrow> string \<Rightarrow> bool" where
  "inet_parts 0 s = octet_ok s"
| "inet_parts (Suc n) s =
     (case split_at (CHR ''.'') s of None \<Rightarrow> False | Some (a, b) \<Rightarrow> octet_ok a \<and> inet_parts n b)"

definition inet_pton4 :: "string \<Rightarrow> bool" where
  "inet_pton4 s = inet_parts 3 s"

subsection \<open>Lemmas\<close>

lemma code_char_of [simp]: "n < 256 \<Longrightarrow> code (char_of n) = n"
  by (simp add: code_def)

lemma code_less [simp]: "code c < 256"
  by (simp add: code_def)

lemma code_eq_iff: "c = d \<longleftrightarrow> code c = code d"
  by (simp add: code_def)

lemma code_digit [simp]: "n < 10 \<Longrightarrow> code (digit n) = 48 + n" "n < 10 \<Longrightarrow> isdigit (digit n)"
  by (simp_all add: digit_def isdigit_def)

lemma digits_value_append [simp]: "digits_value (xs @ [c]) = 10 * digits_value xs + (code c - 48)"
  by (simp add: digits_value_def)

lemma dec_nat_value [simp]: "digits_value (dec_nat n) = n"
proof (induction n rule: dec_nat.induct)
  case (1 n)
  show ?case
  proof (cases "n < 10")
    case True
    then show ?thesis by (simp add: dec_nat.simps [of n] digits_value_def)
  next
    case False
    with 1 show ?thesis by (simp add: dec_nat.simps [of n])
  qed
qed

lemma dec_nat_digits: "list_all isdigit (dec_nat n)" "dec_nat n \<noteq> []"
proof -
  show "list_all isdigit (dec_nat n)"
  proof (induction n rule: dec_nat.induct)
    case (1 n)
    then show ?case by (cases "n < 10") (simp_all add: dec_nat.simps [of n])
  qed
  show "dec_nat n \<noteq> []" by (simp add: dec_nat.simps [of n])
qed

lemma isdigit_not: "isdigit c \<Longrightarrow> \<not> isspace c \<and> c \<noteq> CHR ''-'' \<and> c \<noteq> CHR ''+''"
  by (auto simp: isdigit_def isspace_def code_def)

lemma takeWhile_all: "list_all P xs \<Longrightarrow> takeWhile P xs = xs"
  by (simp add: list_all_iff takeWhile_eq_all_conv)

lemma dec_nat_Cons: "\<exists>c cs. dec_nat n = c # cs \<and> isdigit c"
  using dec_nat_digits [of n] by (cases "dec_nat n") auto

lemma number_prefix_dec: "number_prefix (dec_int i) = Some (i < 0, nat \<bar>i\<bar>, [])"
proof (cases "i < 0")
  case True
  have m: "\<not> isspace (CHR ''-'')" by (simp add: isspace_def code_def)
  from True show ?thesis
    using dec_nat_digits [of "nat (- i)"]
    by (simp add: number_prefix_def dec_int_def m takeWhile_all Let_def)
next
  case False
  obtain c cs where d: "dec_nat (nat i) = c # cs" "isdigit c" using dec_nat_Cons by blast
  have "takeWhile isdigit (c # cs) = c # cs"
    using dec_nat_digits(1) [of "nat i"] d by (simp add: takeWhile_all)
  moreover have "digits_value (c # cs) = nat i" using dec_nat_value [of "nat i"] d by simp
  ultimately show ?thesis
    using False d(1) isdigit_not [OF d(2)] by (simp add: number_prefix_def dec_int_def Let_def)
qed

lemma strtol_dec: "\<bar>i\<bar> < 2 ^ 62 \<Longrightarrow> strtol (dec_int i) = Some (i, [], False)"
  by (cases "i < 0") (simp_all add: strtol_def number_prefix_dec Let_def)

lemma strtoul_dec: "0 \<le> i \<Longrightarrow> i < 2 ^ 62 \<Longrightarrow> strtoul (dec_int i) = Some (nat i, [], False)"
  by (simp add: strtoul_def number_prefix_dec nat_less_iff)

lemma strtoul_dec_neg:
  "i < 0 \<Longrightarrow> - (2 ^ 62) < i \<Longrightarrow> strtoul (dec_int i) = Some (2 ^ 64 - nat (- i), [], False)"
  by (simp add: strtoul_def number_prefix_dec)

end
