(* ===== verification/Config_Model.thy ===== *)
theory Config_Model
  imports Complex_Main C_Strings
begin

text \<open>
  The camera's configuration, \<^verbatim>\<open>camera_app/src/config.c\<close> and \<^verbatim>\<open>config.h\<close>: the table of fields
  that drives loading, validation and the MAVLink parameters, the defaults, and \<^verbatim>\<open>set_field\<close>.

  The table addresses \<^verbatim>\<open>struct ca_config\<close> by offset and size; an offset is the name of the member
  at it, and a configuration maps each member to its value. What the build takes from
  \<^verbatim>\<open>include/apcam/target_*.h\<close> is the parameter \<^term>\<open>t\<close>, a record with one value per target.
\<close>

subsection \<open>Enumerations\<close>

definition CA_PHOTO_SCOPE_THERMAL :: int where "CA_PHOTO_SCOPE_THERMAL = 0"
definition CA_PHOTO_SCOPE_ALL :: int where "CA_PHOTO_SCOPE_ALL = 1"
definition CA_MOUNT_AUTO :: int where "CA_MOUNT_AUTO = 0"
definition CA_MOUNT_UPRIGHT :: int where "CA_MOUNT_UPRIGHT = 1"
definition CA_MOUNT_INVERTED :: int where "CA_MOUNT_INVERTED = 2"
definition CA_UART_NONE :: int where "CA_UART_NONE = 0"
definition CA_UART_SIYI :: int where "CA_UART_SIYI = 1"
definition CA_UART_MAVLINK :: int where "CA_UART_MAVLINK = 2"
definition CA_VIDEO_720P :: int where "CA_VIDEO_720P = 0"
definition CA_VIDEO_1080P :: int where "CA_VIDEO_1080P = 1"
definition CA_VIDEO_2160P :: int where "CA_VIDEO_2160P = 2"
definition CA_VIDEO_1440P :: int where "CA_VIDEO_1440P = 3"
definition CA_VIDEO_H264 :: int where "CA_VIDEO_H264 = 0"
definition CA_VIDEO_H265 :: int where "CA_VIDEO_H265 = 1"
definition CA_PALETTE_WHITE_HOT :: int where "CA_PALETTE_WHITE_HOT = 0"
definition CA_PALETTE_SEPIA :: int where "CA_PALETTE_SEPIA = 2"
definition CA_PALETTE_IRONBOW :: int where "CA_PALETTE_IRONBOW = 3"
definition CA_PALETTE_RAINBOW :: int where "CA_PALETTE_RAINBOW = 4"
definition CA_PALETTE_NIGHT :: int where "CA_PALETTE_NIGHT = 5"
definition CA_PALETTE_AURORA :: int where "CA_PALETTE_AURORA = 6"
definition CA_PALETTE_RED_HOT :: int where "CA_PALETTE_RED_HOT = 7"
definition CA_PALETTE_JUNGLE :: int where "CA_PALETTE_JUNGLE = 8"
definition CA_PALETTE_MEDICAL :: int where "CA_PALETTE_MEDICAL = 9"
definition CA_PALETTE_BLACK_HOT :: int where "CA_PALETTE_BLACK_HOT = 10"
definition CA_PALETTE_GLORY_HOT :: int where "CA_PALETTE_GLORY_HOT = 11"
definition CA_ISO_AUTO :: int where "CA_ISO_AUTO = 0"
definition CA_ISO_100 :: int where "CA_ISO_100 = 1"
definition CA_ISO_200 :: int where "CA_ISO_200 = 2"
definition CA_ISO_400 :: int where "CA_ISO_400 = 3"
definition CA_ISO_800 :: int where "CA_ISO_800 = 4"
definition CA_ISO_1600 :: int where "CA_ISO_1600 = 5"
definition CA_ISO_3200 :: int where "CA_ISO_3200 = 6"
definition CA_SHUTTER_AUTO :: int where "CA_SHUTTER_AUTO = 0"
definition CA_SHUTTER_1_30 :: int where "CA_SHUTTER_1_30 = 1"
definition CA_SHUTTER_1_50 :: int where "CA_SHUTTER_1_50 = 2"
definition CA_SHUTTER_1_100 :: int where "CA_SHUTTER_1_100 = 3"
definition CA_SHUTTER_1_250 :: int where "CA_SHUTTER_1_250 = 4"
definition CA_SHUTTER_1_500 :: int where "CA_SHUTTER_1_500 = 5"
definition CA_SHUTTER_1_750 :: int where "CA_SHUTTER_1_750 = 6"
definition CA_SHUTTER_1_1000 :: int where "CA_SHUTTER_1_1000 = 7"
definition CA_SHUTTER_1_2000 :: int where "CA_SHUTTER_1_2000 = 8"
definition CA_METERING_AVERAGE :: int where "CA_METERING_AVERAGE = 0"
definition CA_METERING_CENTER :: int where "CA_METERING_CENTER = 1"
definition CA_METERING_SPOT :: int where "CA_METERING_SPOT = 2"
definition CA_WB_AUTO :: int where "CA_WB_AUTO = 0"
definition CA_WB_DAYLIGHT :: int where "CA_WB_DAYLIGHT = 1"
definition CA_WB_CLOUDY :: int where "CA_WB_CLOUDY = 2"
definition CA_WB_FLUORESCENT :: int where "CA_WB_FLUORESCENT = 3"
definition CA_WB_INCANDESCENT :: int where "CA_WB_INCANDESCENT = 4"
definition CA_AUTORECORD_DISABLED :: int where "CA_AUTORECORD_DISABLED = 0"
definition CA_AUTORECORD_ENABLED :: int where "CA_AUTORECORD_ENABLED = 1"
definition CA_AUTORECORD_WHILE_ARMED :: int where "CA_AUTORECORD_WHILE_ARMED = 2"
definition CA_TRACK_ANGLE :: int where "CA_TRACK_ANGLE = 0"
definition CA_TRACK_RATE :: int where "CA_TRACK_RATE = 1"

lemmas config_enum_defs =
  CA_PHOTO_SCOPE_THERMAL_def CA_PHOTO_SCOPE_ALL_def CA_MOUNT_AUTO_def
  CA_MOUNT_UPRIGHT_def CA_MOUNT_INVERTED_def CA_UART_NONE_def
  CA_UART_SIYI_def CA_UART_MAVLINK_def CA_VIDEO_720P_def
  CA_VIDEO_1080P_def CA_VIDEO_2160P_def CA_VIDEO_1440P_def
  CA_VIDEO_H264_def CA_VIDEO_H265_def CA_PALETTE_WHITE_HOT_def
  CA_PALETTE_SEPIA_def CA_PALETTE_IRONBOW_def CA_PALETTE_RAINBOW_def
  CA_PALETTE_NIGHT_def CA_PALETTE_AURORA_def CA_PALETTE_RED_HOT_def
  CA_PALETTE_JUNGLE_def CA_PALETTE_MEDICAL_def CA_PALETTE_BLACK_HOT_def
  CA_PALETTE_GLORY_HOT_def CA_ISO_AUTO_def CA_ISO_100_def
  CA_ISO_200_def CA_ISO_400_def CA_ISO_800_def
  CA_ISO_1600_def CA_ISO_3200_def CA_SHUTTER_AUTO_def
  CA_SHUTTER_1_30_def CA_SHUTTER_1_50_def CA_SHUTTER_1_100_def
  CA_SHUTTER_1_250_def CA_SHUTTER_1_500_def CA_SHUTTER_1_750_def
  CA_SHUTTER_1_1000_def CA_SHUTTER_1_2000_def CA_METERING_AVERAGE_def
  CA_METERING_CENTER_def CA_METERING_SPOT_def CA_WB_AUTO_def
  CA_WB_DAYLIGHT_def CA_WB_CLOUDY_def CA_WB_FLUORESCENT_def
  CA_WB_INCANDESCENT_def CA_AUTORECORD_DISABLED_def CA_AUTORECORD_ENABLED_def
  CA_AUTORECORD_WHILE_ARMED_def CA_TRACK_ANGLE_def CA_TRACK_RATE_def

subsection \<open>Targets\<close>

record apcam_target =
  have_external_uart :: bool
  main_resolutions :: nat
  sub_resolutions :: nat
  recording_resolutions :: nat
  stream_codecs :: nat
  default_main_resolution :: int
  default_sub_resolution :: int
  default_recording_resolution :: int
  default_system_id :: u32
  default_position_targeting :: bool
  default_orientation :: int
  default_photo_scope :: int
  default_timezone :: string

definition target_mt11 :: apcam_target where
  "target_mt11 = \<lparr>have_external_uart = True, main_resolutions = 7, sub_resolutions = 7,
     recording_resolutions = 7, stream_codecs = 3, default_main_resolution = 1,
     default_sub_resolution = 0, default_recording_resolution = 1, default_system_id = 0,
     default_position_targeting = True, default_orientation = 0, default_photo_scope = 1,
     default_timezone = ''GMT-10''\<rparr>"

definition target_a8 :: apcam_target where
  "target_a8 = \<lparr>have_external_uart = True, main_resolutions = 7, sub_resolutions = 7,
     recording_resolutions = 7, stream_codecs = 3, default_main_resolution = 1,
     default_sub_resolution = 0, default_recording_resolution = 1, default_system_id = 0,
     default_position_targeting = True, default_orientation = 0, default_photo_scope = 1,
     default_timezone = ''GMT-10''\<rparr>"

definition target_zr10 :: apcam_target where
  "target_zr10 = \<lparr>have_external_uart = True, main_resolutions = 11, sub_resolutions = 11,
     recording_resolutions = 11, stream_codecs = 3, default_main_resolution = 0,
     default_sub_resolution = 0, default_recording_resolution = 0, default_system_id = 0,
     default_position_targeting = True, default_orientation = 0, default_photo_scope = 1,
     default_timezone = ''GMT-10''\<rparr>"

definition target_z1mini :: apcam_target where
  "target_z1mini = \<lparr>have_external_uart = False, main_resolutions = 2, sub_resolutions = 2,
     recording_resolutions = 6, stream_codecs = 1, default_main_resolution = 1,
     default_sub_resolution = 1, default_recording_resolution = 1, default_system_id = 0,
     default_position_targeting = False, default_orientation = 1, default_photo_scope = 1,
     default_timezone = ''UTC0''\<rparr>"

definition apcam_targets :: "apcam_target list" where
  "apcam_targets = [target_mt11, target_a8, target_zr10, target_z1mini]"

subsection \<open>The table\<close>

type_synonym config_option = "string \<times> int"

definition photo_scope_options :: "config_option list" where
  "photo_scope_options =
     [(''thermal'', CA_PHOTO_SCOPE_THERMAL),
      (''all'', CA_PHOTO_SCOPE_ALL)]"

definition autorecord_options :: "config_option list" where
  "autorecord_options =
     [(''false'', CA_AUTORECORD_DISABLED),
      (''true'', CA_AUTORECORD_ENABLED),
      (''while_armed'', CA_AUTORECORD_WHILE_ARMED)]"

definition orientation_options :: "config_option list" where
  "orientation_options =
     [(''auto'', CA_MOUNT_AUTO),
      (''upright'', CA_MOUNT_UPRIGHT),
      (''inverted'', CA_MOUNT_INVERTED)]"

definition palette_options :: "config_option list" where
  "palette_options =
     [(''white_hot'', CA_PALETTE_WHITE_HOT),
      (''sepia'', CA_PALETTE_SEPIA),
      (''ironbow'', CA_PALETTE_IRONBOW),
      (''rainbow'', CA_PALETTE_RAINBOW),
      (''night'', CA_PALETTE_NIGHT),
      (''aurora'', CA_PALETTE_AURORA),
      (''red_hot'', CA_PALETTE_RED_HOT),
      (''jungle'', CA_PALETTE_JUNGLE),
      (''medical'', CA_PALETTE_MEDICAL),
      (''black_hot'', CA_PALETTE_BLACK_HOT),
      (''glory_hot'', CA_PALETTE_GLORY_HOT)]"

definition iso_options :: "config_option list" where
  "iso_options =
     [(''auto'', CA_ISO_AUTO),
      (''100'', CA_ISO_100),
      (''200'', CA_ISO_200),
      (''400'', CA_ISO_400),
      (''800'', CA_ISO_800),
      (''1600'', CA_ISO_1600),
      (''3200'', CA_ISO_3200)]"

definition shutter_options :: "config_option list" where
  "shutter_options =
     [(''auto'', CA_SHUTTER_AUTO),
      (''1/30'', CA_SHUTTER_1_30),
      (''1/50'', CA_SHUTTER_1_50),
      (''1/100'', CA_SHUTTER_1_100),
      (''1/250'', CA_SHUTTER_1_250),
      (''1/500'', CA_SHUTTER_1_500),
      (''1/750'', CA_SHUTTER_1_750),
      (''1/1000'', CA_SHUTTER_1_1000),
      (''1/2000'', CA_SHUTTER_1_2000)]"

definition metering_options :: "config_option list" where
  "metering_options =
     [(''average'', CA_METERING_AVERAGE),
      (''center'', CA_METERING_CENTER),
      (''spot'', CA_METERING_SPOT)]"

definition wb_options :: "config_option list" where
  "wb_options =
     [(''auto'', CA_WB_AUTO),
      (''daylight'', CA_WB_DAYLIGHT),
      (''cloudy'', CA_WB_CLOUDY),
      (''fluorescent'', CA_WB_FLUORESCENT),
      (''incandescent'', CA_WB_INCANDESCENT)]"

definition tracking_options :: "config_option list" where
  "tracking_options =
     [(''angle'', CA_TRACK_ANGLE),
      (''rate'', CA_TRACK_RATE)]"

definition uart_protocol_options :: "apcam_target \<Rightarrow> config_option list" where
  "uart_protocol_options t =
     [(''none'', CA_UART_NONE)] @
     (if have_external_uart t then [(''siyi'', CA_UART_SIYI)] else []) @
     [(''mavlink'', CA_UART_MAVLINK)]"

text \<open>The three resolution tables differ in the mask they test.\<close>

definition resolution_options :: "nat \<Rightarrow> config_option list" where
  "resolution_options supported =
     (if bit supported 0 then [(''1280x720'', CA_VIDEO_720P)] else []) @
     (if bit supported 1 then [(''1920x1080'', CA_VIDEO_1080P)] else []) @
     (if bit supported 3 then [(''2560x1440'', CA_VIDEO_1440P)] else []) @
     (if bit supported 2 then [(''3840x2160'', CA_VIDEO_2160P)] else [])"

definition main_resolution_options :: "apcam_target \<Rightarrow> config_option list" where
  "main_resolution_options t = resolution_options (main_resolutions t)"

definition sub_resolution_options :: "apcam_target \<Rightarrow> config_option list" where
  "sub_resolution_options t = resolution_options (sub_resolutions t)"

definition recording_resolution_options :: "apcam_target \<Rightarrow> config_option list" where
  "recording_resolution_options t = resolution_options (recording_resolutions t)"

definition codec_options :: "apcam_target \<Rightarrow> config_option list" where
  "codec_options t =
     [(''h264'', CA_VIDEO_H264)] @ (if bit (stream_codecs t) 1 then [(''h265'', CA_VIDEO_H265)] else [])"

datatype config_value_kind = CONFIG_TIMEZONE | CONFIG_STRING | CONFIG_ENUM | CONFIG_INT
  | CONFIG_BOOL | CONFIG_UINT

datatype config_member =
    M_log_disarmed | M_timezone | M_photo_scope | M_orientation
  | M_uart_protocol | M_thermal_palette | M_autorecord | M_recording_resolution
  | M_main_resolution | M_main_codec | M_sub_resolution | M_sub_codec
  | M_brightness | M_saturation | M_contrast | M_exposure_compensation
  | M_iso | M_shutter | M_metering | M_white_balance
  | M_position_targeting | M_tracking_method | M_mavlink_tcp_port | M_mavlink_udp_port
  | M_mavlink_system_id | M_mavlink_camera_component_id | M_support_enabled | M_support_host
  | M_support_mavlink_port | M_support_signing | M_support_signing_passphrase | M_support_signing_link_id
  | M_support_video1_port | M_support_video2_port | M_support_video1_name | M_support_video2_name
  | M_support_publish_password | M_support_network_interface | M_support_network_address | M_support_network_gateway

record config_field =
  f_section :: string
  f_key :: string
  f_kind :: config_value_kind
  f_member :: config_member
  f_size :: nat
  f_options :: "config_option list"
  f_minimum :: int
  f_maximum :: int
  f_param_name :: "string option"

definition config_row ::
  "string \<Rightarrow> string \<Rightarrow> config_value_kind \<Rightarrow> config_member \<Rightarrow> nat \<Rightarrow> config_option list \<Rightarrow> int \<Rightarrow> int \<Rightarrow>
   string option \<Rightarrow> config_field" where
  "config_row section key knd member sz options minimum maximum name =
     \<lparr>f_section = section, f_key = key, f_kind = knd, f_member = member, f_size = sz,
      f_options = options, f_minimum = minimum, f_maximum = maximum, f_param_name = name\<rparr>"

definition config_fields :: "apcam_target \<Rightarrow> config_field list" where
  "config_fields t =
    [config_row ''logging'' ''disarmed'' CONFIG_BOOL M_log_disarmed 1 [] 0 0 (Some ''LOG_DISARMED''),
     config_row ''general'' ''timezone'' CONFIG_TIMEZONE M_timezone 128 [] 0 0 None,
     config_row ''capture'' ''photo_scope'' CONFIG_ENUM M_photo_scope 4 photo_scope_options 0 0 (Some ''PHOTO_SCOPE''),
     config_row ''mount'' ''orientation'' CONFIG_ENUM M_orientation 4 orientation_options 0 0 (Some ''MOUNT_ORIENT''),
     config_row ''uart'' ''protocol'' CONFIG_ENUM M_uart_protocol 4 (uart_protocol_options t) 0 0 (Some ''UART_PROTOCOL''),
     config_row ''thermal'' ''palette'' CONFIG_ENUM M_thermal_palette 4 palette_options 0 0 (Some ''THERMAL_PALETTE''),
     config_row ''recording'' ''autorecord'' CONFIG_ENUM M_autorecord 4 autorecord_options 0 0 (Some ''REC_AUTOSTART''),
     config_row ''recording'' ''resolution'' CONFIG_ENUM M_recording_resolution 4 (recording_resolution_options t) 0 0 (Some ''REC_RESOLUTION''),
     config_row ''stream.main'' ''resolution'' CONFIG_ENUM M_main_resolution 4 (main_resolution_options t) 0 0 (Some ''VIDEO_MAIN_RES''),
     config_row ''stream.main'' ''codec'' CONFIG_ENUM M_main_codec 4 (codec_options t) 0 0 (Some ''VIDEO_MAIN_CODEC''),
     config_row ''stream.sub'' ''resolution'' CONFIG_ENUM M_sub_resolution 4 (sub_resolution_options t) 0 0 (Some ''VIDEO_SUB_RES''),
     config_row ''stream.sub'' ''codec'' CONFIG_ENUM M_sub_codec 4 (codec_options t) 0 0 (Some ''VIDEO_SUB_CODEC''),
     config_row ''image'' ''brightness'' CONFIG_INT M_brightness 4 [] 0 100 (Some ''IMG_BRIGHTNESS''),
     config_row ''image'' ''saturation'' CONFIG_INT M_saturation 4 [] 0 100 (Some ''IMG_SATURATION''),
     config_row ''image'' ''contrast'' CONFIG_INT M_contrast 4 [] 0 100 (Some ''IMG_CONTRAST''),
     config_row ''image'' ''exposure_compensation'' CONFIG_INT M_exposure_compensation 4 [] (-10) 10 (Some ''IMG_EXPOSURE''),
     config_row ''image'' ''iso'' CONFIG_ENUM M_iso 4 iso_options 0 0 (Some ''IMG_ISO''),
     config_row ''image'' ''shutter'' CONFIG_ENUM M_shutter 4 shutter_options 0 0 (Some ''IMG_SHUTTER''),
     config_row ''image'' ''metering'' CONFIG_ENUM M_metering 4 metering_options 0 0 (Some ''IMG_METERING''),
     config_row ''image'' ''white_balance'' CONFIG_ENUM M_white_balance 4 wb_options 0 0 (Some ''IMG_WHITE_BAL''),
     config_row ''mavlink'' ''position_targeting'' CONFIG_BOOL M_position_targeting 1 [] 0 0 (Some ''MAV_POS_TARGET''),
     config_row ''mavlink'' ''tracking_method'' CONFIG_ENUM M_tracking_method 4 tracking_options 0 0 (Some ''TRACK_METHOD''),
     config_row ''mavlink'' ''tcp_port'' CONFIG_UINT M_mavlink_tcp_port 4 [] 0 65535 (Some ''MAV_TCP_PORT''),
     config_row ''mavlink'' ''udp_port'' CONFIG_UINT M_mavlink_udp_port 4 [] 0 65535 (Some ''MAV_UDP_PORT''),
     config_row ''mavlink'' ''system_id'' CONFIG_UINT M_mavlink_system_id 4 [] 0 255 (Some ''MAV_SYSID''),
     config_row ''mavlink'' ''camera_component_id'' CONFIG_UINT M_mavlink_camera_component_id 4 [] 100 105 (Some ''MAV_CAM_COMP_ID''),
     config_row ''support_proxy'' ''enabled'' CONFIG_BOOL M_support_enabled 1 [] 0 1 (Some ''PROXY_ENABLE''),
     config_row ''support_proxy'' ''host'' CONFIG_STRING M_support_host 128 [] 0 127 None,
     config_row ''support_proxy'' ''mavlink_port'' CONFIG_UINT M_support_mavlink_port 4 [] 0 65535 (Some ''PROXY_MAV_PORT''),
     config_row ''support_proxy'' ''signing'' CONFIG_BOOL M_support_signing 1 [] 0 1 (Some ''PROXY_SIGN''),
     config_row ''support_proxy'' ''signing_passphrase'' CONFIG_STRING M_support_signing_passphrase 128 [] 0 127 None,
     config_row ''support_proxy'' ''signing_link_id'' CONFIG_UINT M_support_signing_link_id 4 [] 0 255 (Some ''PROXY_SIGN_ID''),
     config_row ''support_proxy'' ''video1_port'' CONFIG_UINT M_support_video1_port 4 [] 0 65535 (Some ''PROXY_VID1_PORT''),
     config_row ''support_proxy'' ''video2_port'' CONFIG_UINT M_support_video2_port 4 [] 0 65535 (Some ''PROXY_VID2_PORT''),
     config_row ''support_proxy'' ''video1_name'' CONFIG_STRING M_support_video1_name 64 [] 0 63 None,
     config_row ''support_proxy'' ''video2_name'' CONFIG_STRING M_support_video2_name 64 [] 0 63 None,
     config_row ''support_proxy'' ''publish_password'' CONFIG_STRING M_support_publish_password 128 [] 0 127 None,
     config_row ''support_proxy'' ''network_interface'' CONFIG_STRING M_support_network_interface 16 [] 1 15 None,
     config_row ''support_proxy'' ''network_address'' CONFIG_STRING M_support_network_address 32 [] 0 31 None,
     config_row ''support_proxy'' ''network_gateway'' CONFIG_STRING M_support_network_gateway 16 [] 0 15 None]"

subsection \<open>Values\<close>

datatype config_value = CV_str string | CV_int int | CV_bool bool | CV_uint u32

type_synonym ca_config = "config_member \<Rightarrow> config_value"

fun cv_str :: "config_value \<Rightarrow> string" where "cv_str (CV_str s) = s" | "cv_str _ = []"
fun cv_int :: "config_value \<Rightarrow> int" where "cv_int (CV_int i) = i" | "cv_int _ = 0"
fun cv_bool :: "config_value \<Rightarrow> bool" where "cv_bool (CV_bool b) = b" | "cv_bool _ = False"
fun cv_uint :: "config_value \<Rightarrow> u32" where "cv_uint (CV_uint u) = u" | "cv_uint _ = 0"

definition support_valid :: "ca_config \<Rightarrow> bool" where
  "support_valid c \<longleftrightarrow>
     \<not> cv_bool (c M_support_enabled) \<or>
     (cv_str (c M_support_host) \<noteq> [] \<and>
      (\<not> cv_bool (c M_support_signing) \<or> cv_str (c M_support_signing_passphrase) \<noteq> []) \<and>
      (cv_uint (c M_support_video1_port) = 0 \<or> cv_str (c M_support_video1_name) \<noteq> []) \<and>
      (cv_uint (c M_support_video2_port) = 0 \<or> cv_str (c M_support_video2_name) \<noteq> []) \<and>
      (cv_uint (c M_support_video1_port) = 0 \<or>
       cv_uint (c M_support_video1_port) \<noteq> cv_uint (c M_support_video2_port)))"

definition CA_CONFIG_TIMEZONE_MAX :: nat where "CA_CONFIG_TIMEZONE_MAX = 128"

definition valid_timezone :: "string \<Rightarrow> bool" where
  "valid_timezone s \<longleftrightarrow> s \<noteq> [] \<and> length s < CA_CONFIG_TIMEZONE_MAX \<and>
     list_all (\<lambda>c. \<not> iscntrl c \<and> \<not> isspace c) s"

text \<open>The checks of \<^verbatim>\<open>set_field\<close> on a string, in the order of the code.\<close>

definition valid_network_address :: "string \<Rightarrow> bool" where
  "valid_network_address v =
     (case split_at (CHR ''/'') (take 31 v) of
        None \<Rightarrow> False
      | Some (address, prefix_text) \<Rightarrow>
          (case strtol prefix_text of
             None \<Rightarrow> False
           | Some (prefix, rest, erange) \<Rightarrow>
               rest = [] \<and> 1 \<le> prefix \<and> prefix \<le> 32 \<and> inet_pton4 address))"

definition valid_config_string :: "config_field \<Rightarrow> string \<Rightarrow> bool" where
  "valid_config_string f v \<longleftrightarrow>
     length v < f_size f \<and> f_minimum f \<le> int (length v) \<and>
     list_all (\<lambda>c. 32 \<le> code c \<and> code c \<le> 126 \<and> c \<noteq> QUOTE) v \<and>
     (f_key f = ''host'' \<or> f_key f = ''network_interface'' \<longrightarrow>
        list_all (\<lambda>c. isalnum c \<or> c = CHR ''.'' \<or> c = CHR ''-'' \<or> c = CHR ''_'') v) \<and>
     (v \<noteq> [] \<and> f_key f = ''network_gateway'' \<longrightarrow> inet_pton4 v) \<and>
     (v \<noteq> [] \<and> f_key f = ''network_address'' \<longrightarrow> valid_network_address v)"

text \<open>The first option with the given name.\<close>

definition option_named :: "config_option list \<Rightarrow> string \<Rightarrow> int option" where
  "option_named opts name = map_option snd (find (\<lambda>opt. fst opt = name) opts)"

text \<open>The value that \<^verbatim>\<open>set_field\<close> would store; \<^term>\<open>None\<close> is the return value -1.\<close>

definition parse_field :: "config_field \<Rightarrow> string \<Rightarrow> config_value option" where
  "parse_field f v =
     (case f_kind f of
        CONFIG_STRING \<Rightarrow> if valid_config_string f v then Some (CV_str v) else None
      | CONFIG_TIMEZONE \<Rightarrow> if valid_timezone v \<and> length v < f_size f then Some (CV_str v) else None
      | CONFIG_ENUM \<Rightarrow>
          if f_size f = 4 then map_option CV_int (option_named (f_options f) v) else None
      | CONFIG_INT \<Rightarrow>
          (case strtol v of
             Some (parsed, [], False) \<Rightarrow>
               if f_size f = 4 \<and> f_minimum f \<le> parsed \<and> parsed \<le> f_maximum f
               then Some (CV_int parsed) else None
           | _ \<Rightarrow> None)
      | CONFIG_BOOL \<Rightarrow>
          if f_size f \<noteq> 1 then None
          else if v = ''true'' then Some (CV_bool True)
          else if v = ''false'' then Some (CV_bool False) else None
      | CONFIG_UINT \<Rightarrow>
          (case strtoul v of
             Some (parsed, [], False) \<Rightarrow>
               if f_size f = 4 \<and> f_minimum f \<le> int parsed \<and> int parsed \<le> f_maximum f
               then Some (CV_uint (of_nat parsed)) else None
           | _ \<Rightarrow> None))"

definition set_field :: "ca_config \<Rightarrow> config_field \<Rightarrow> string \<Rightarrow> ca_config option" where
  "set_field c f v = map_option (\<lambda>x. c(f_member f := x)) (parse_field f v)"

subsection \<open>Defaults\<close>

text \<open>\<^verbatim>\<open>memset\<close> leaves 0, false and the empty string in the members that are not named.\<close>

fun ca_config_defaults :: "apcam_target \<Rightarrow> ca_config" where
  "ca_config_defaults t M_timezone = CV_str (default_timezone t)"
| "ca_config_defaults t M_photo_scope = CV_int (default_photo_scope t)"
| "ca_config_defaults t M_orientation = CV_int (default_orientation t)"
| "ca_config_defaults t M_uart_protocol = CV_int CA_UART_NONE"
| "ca_config_defaults t M_thermal_palette = CV_int CA_PALETTE_WHITE_HOT"
| "ca_config_defaults t M_autorecord = CV_int CA_AUTORECORD_DISABLED"
| "ca_config_defaults t M_main_resolution = CV_int (default_main_resolution t)"
| "ca_config_defaults t M_sub_resolution = CV_int (default_sub_resolution t)"
| "ca_config_defaults t M_recording_resolution = CV_int (default_recording_resolution t)"
| "ca_config_defaults t M_main_codec = CV_int CA_VIDEO_H264"
| "ca_config_defaults t M_sub_codec = CV_int CA_VIDEO_H264"
| "ca_config_defaults t M_brightness = CV_int 50"
| "ca_config_defaults t M_saturation = CV_int 50"
| "ca_config_defaults t M_contrast = CV_int 50"
| "ca_config_defaults t M_exposure_compensation = CV_int 0"
| "ca_config_defaults t M_iso = CV_int CA_ISO_AUTO"
| "ca_config_defaults t M_shutter = CV_int CA_SHUTTER_AUTO"
| "ca_config_defaults t M_metering = CV_int CA_METERING_AVERAGE"
| "ca_config_defaults t M_white_balance = CV_int CA_WB_AUTO"
| "ca_config_defaults t M_position_targeting = CV_bool (default_position_targeting t)"
| "ca_config_defaults t M_tracking_method = CV_int CA_TRACK_ANGLE"
| "ca_config_defaults t M_log_disarmed = CV_bool False"
| "ca_config_defaults t M_mavlink_system_id = CV_uint (default_system_id t)"
| "ca_config_defaults t M_mavlink_camera_component_id = CV_uint 100"
| "ca_config_defaults t M_mavlink_tcp_port = CV_uint 14550"
| "ca_config_defaults t M_mavlink_udp_port = CV_uint 14550"
| "ca_config_defaults t M_support_enabled = CV_bool False"
| "ca_config_defaults t M_support_host = CV_str []"
| "ca_config_defaults t M_support_mavlink_port = CV_uint 10001"
| "ca_config_defaults t M_support_signing = CV_bool False"
| "ca_config_defaults t M_support_signing_passphrase = CV_str []"
| "ca_config_defaults t M_support_signing_link_id = CV_uint 1"
| "ca_config_defaults t M_support_video1_port = CV_uint 0"
| "ca_config_defaults t M_support_video2_port = CV_uint 0"
| "ca_config_defaults t M_support_video1_name = CV_str ''video1''"
| "ca_config_defaults t M_support_video2_name = CV_str ''video2''"
| "ca_config_defaults t M_support_publish_password = CV_str []"
| "ca_config_defaults t M_support_network_interface = CV_str ''eth0''"
| "ca_config_defaults t M_support_network_address = CV_str []"
| "ca_config_defaults t M_support_network_gateway = CV_str []"

subsection \<open>Names\<close>

definition ca_mount_orientation_name :: "int \<Rightarrow> string" where
  "ca_mount_orientation_name orientation =
     (if orientation = CA_MOUNT_UPRIGHT then ''upright''
      else if orientation = CA_MOUNT_INVERTED then ''inverted'' else ''auto'')"

definition ca_uart_protocol_name :: "int \<Rightarrow> string" where
  "ca_uart_protocol_name protocol =
     (if protocol = CA_UART_SIYI then ''siyi''
      else if protocol = CA_UART_MAVLINK then ''mavlink'' else ''none'')"

definition ca_video_resolution_name :: "int \<Rightarrow> string" where
  "ca_video_resolution_name resolution =
     (if resolution = CA_VIDEO_720P then ''1280x720''
      else if resolution = CA_VIDEO_1440P then ''2560x1440''
      else if resolution = CA_VIDEO_2160P then ''3840x2160'' else ''1920x1080'')"

definition ca_video_resolution_size :: "int \<Rightarrow> nat \<times> nat" where
  "ca_video_resolution_size resolution =
     (if resolution = CA_VIDEO_720P then (1280, 720)
      else if resolution = CA_VIDEO_1440P then (2560, 1440)
      else if resolution = CA_VIDEO_2160P then (3840, 2160) else (1920, 1080))"

definition ca_video_codec_name :: "int \<Rightarrow> string" where
  "ca_video_codec_name codec = (if codec = CA_VIDEO_H265 then ''h265'' else ''h264'')"

definition ca_thermal_palette_name :: "int \<Rightarrow> string" where
  "ca_thermal_palette_name palette =
     (case find (\<lambda>opt. snd opt = palette) palette_options of
        Some opt \<Rightarrow> fst opt | None \<Rightarrow> ''white_hot'')"

definition ca_photo_scope_name :: "int \<Rightarrow> string" where
  "ca_photo_scope_name scope = (if scope = CA_PHOTO_SCOPE_ALL then ''all'' else ''thermal'')"

end
