(* ===== verification/Config_Params.thy ===== *)
theory Config_Params
  imports Config_Model
begin

text \<open>
  The numeric parameters of the configuration (\<^verbatim>\<open>ca_config_param_*\<close> in
  \<^verbatim>\<open>camera_app/src/config.c\<close>), which MAVLink clients read and write by index, and the invariant that
  every member of a configuration holds a value its field accepts.
\<close>

text \<open>A \<^verbatim>\<open>float\<close> argument: NaN, an infinity (negative if True) or a finite value.\<close>

datatype c_float = FNaN | FInf bool | FFin rat

definition param_field :: "apcam_target \<Rightarrow> nat \<Rightarrow> config_field option" where
  "param_field t index =
     (let fs = filter (\<lambda>f. f_param_name f \<noteq> None) (config_fields t)
      in if index < length fs then Some (fs ! index) else None)"

definition ca_config_param_count :: "apcam_target \<Rightarrow> nat" where
  "ca_config_param_count t = length (filter (\<lambda>f. f_param_name f \<noteq> None) (config_fields t))"

definition ca_config_param_name :: "apcam_target \<Rightarrow> nat \<Rightarrow> string option" where
  "ca_config_param_name t index =
     (case param_field t index of None \<Rightarrow> None | Some f \<Rightarrow> f_param_name f)"

definition ca_config_param_find :: "apcam_target \<Rightarrow> string \<Rightarrow> int" where
  "ca_config_param_find t name =
     (case find (\<lambda>i. ca_config_param_name t i = Some name) [0..<ca_config_param_count t] of
        Some i \<Rightarrow> int i | None \<Rightarrow> -1)"

definition ca_config_param_options :: "apcam_target \<Rightarrow> nat \<Rightarrow> config_option list \<times> int \<times> int" where
  "ca_config_param_options t index =
     (case param_field t index of
        None \<Rightarrow> ([], 0, 0)
      | Some f \<Rightarrow> (f_options f, f_minimum f, if f_kind f = CONFIG_BOOL then 1 else f_maximum f))"

definition ca_config_param_get :: "apcam_target \<Rightarrow> ca_config \<Rightarrow> nat \<Rightarrow> int" where
  "ca_config_param_get t c index =
     (case param_field t index of
        None \<Rightarrow> 0
      | Some f \<Rightarrow>
          if f_kind f = CONFIG_BOOL then (if cv_bool (c (f_member f)) then 1 else 0)
          else if f_kind f = CONFIG_UINT then sint (cv_uint (c (f_member f)))
          else cv_int (c (f_member f)))"

text \<open>The tests on the float, and its value as an \<^verbatim>\<open>int\<close>.\<close>

definition float_selected :: "c_float \<Rightarrow> int option" where
  "float_selected v =
     (case v of
        FFin r \<Rightarrow> if r < -65535 \<or> 65535 < r \<or> r \<noteq> of_int \<lfloor>r\<rfloor> then None else Some \<lfloor>r\<rfloor>
      | _ \<Rightarrow> None)"

text \<open>The text given to \<^verbatim>\<open>set_field\<close>: for an enumeration, the last option with the value.\<close>

definition param_text :: "config_field \<Rightarrow> int \<Rightarrow> string option" where
  "param_text f selected =
     (case f_kind f of
        CONFIG_ENUM \<Rightarrow> map_option fst (find (\<lambda>opt. snd opt = selected) (rev (f_options f)))
      | CONFIG_BOOL \<Rightarrow>
          if selected = 0 then Some ''false'' else if selected = 1 then Some ''true'' else None
      | _ \<Rightarrow> Some (dec_int selected))"

definition ca_config_param_assign ::
  "apcam_target \<Rightarrow> ca_config \<Rightarrow> nat \<Rightarrow> c_float \<Rightarrow> errno + ca_config" where
  "ca_config_param_assign t c index v =
     (case (param_field t index, float_selected v) of
        (Some f, Some selected) \<Rightarrow>
          (case param_text f selected of
             None \<Rightarrow> Inl EINVAL
           | Some text \<Rightarrow>
               (case set_field c f text of
                  None \<Rightarrow> Inl EINVAL
                | Some updated \<Rightarrow> if support_valid updated then Inr updated else Inl EINVAL))
      | _ \<Rightarrow> Inl EINVAL)"

definition image_members :: "config_member list" where
  "image_members = [M_brightness, M_saturation, M_contrast, M_exposure_compensation, M_iso,
     M_shutter, M_metering, M_white_balance]"

definition ca_config_image_equal :: "ca_config \<Rightarrow> ca_config \<Rightarrow> bool" where
  "ca_config_image_equal a b \<longleftrightarrow> list_all (\<lambda>m. a m = b m) image_members"

definition ca_config_copy_image :: "ca_config \<Rightarrow> ca_config \<Rightarrow> ca_config" where
  "ca_config_copy_image destination source = (\<lambda>m. if m \<in> set image_members then source m else destination m)"

subsection \<open>What a field accepts\<close>

fun value_ok :: "config_field \<Rightarrow> config_value \<Rightarrow> bool" where
  "value_ok f (CV_str s) \<longleftrightarrow>
     f_kind f = CONFIG_STRING \<and> valid_config_string f s \<or>
     f_kind f = CONFIG_TIMEZONE \<and> valid_timezone s \<and> length s < f_size f"
| "value_ok f (CV_int i) \<longleftrightarrow>
     f_kind f = CONFIG_ENUM \<and> i \<in> snd ` set (f_options f) \<or>
     f_kind f = CONFIG_INT \<and> f_minimum f \<le> i \<and> i \<le> f_maximum f"
| "value_ok f (CV_bool b) \<longleftrightarrow> f_kind f = CONFIG_BOOL"
| "value_ok f (CV_uint u) \<longleftrightarrow> f_kind f = CONFIG_UINT \<and> f_minimum f \<le> uint u \<and> uint u \<le> f_maximum f"

definition config_ok :: "apcam_target \<Rightarrow> ca_config \<Rightarrow> bool" where
  "config_ok t c \<longleftrightarrow> list_all (\<lambda>f. value_ok f (c (f_member f))) (config_fields t)"

text \<open>What the table must be like, and is, for every target.\<close>

definition field_ok :: "config_field \<Rightarrow> bool" where
  "field_ok f \<longleftrightarrow>
     (case f_kind f of
        CONFIG_ENUM \<Rightarrow> f_size f = 4 \<and> distinct (map fst (f_options f)) \<and> distinct (map snd (f_options f))
      | CONFIG_INT \<Rightarrow> f_size f = 4 \<and> -65535 \<le> f_minimum f \<and> f_maximum f \<le> 65535
      | CONFIG_UINT \<Rightarrow> f_size f = 4 \<and> 0 \<le> f_minimum f \<and> f_maximum f \<le> 65535
      | CONFIG_BOOL \<Rightarrow> f_size f = 1
      | _ \<Rightarrow> f_param_name f = None \<and> f_size f \<le> 128)"

lemma table_ok:
  "list_all (\<lambda>t. list_all field_ok (config_fields t)) apcam_targets"
  by code_simp

lemma table_distinct:
  "list_all (\<lambda>t. distinct (map f_member (config_fields t))) apcam_targets"
  by code_simp

lemma table_keys:
  "list_all (\<lambda>t. distinct (map (\<lambda>f. (f_section f, f_key f)) (config_fields t))) apcam_targets"
  by code_simp

lemma table_names:
  "list_all (\<lambda>t. distinct (map f_param_name (filter (\<lambda>f. f_param_name f \<noteq> None) (config_fields t)))) apcam_targets"
  by code_simp

lemma defaults_ok:
  "list_all (\<lambda>t. config_ok t (ca_config_defaults t)) apcam_targets"
  by code_simp

lemma defaults_support:
  "list_all (\<lambda>t. support_valid (ca_config_defaults t)) apcam_targets"
  by code_simp

lemma table_facts:
  assumes "t \<in> set apcam_targets"
  shows "\<And>f. f \<in> set (config_fields t) \<Longrightarrow> field_ok f"
    and "distinct (map f_member (config_fields t))"
    and "distinct (map (\<lambda>f. (f_section f, f_key f)) (config_fields t))"
    and "distinct (map f_param_name (filter (\<lambda>f. f_param_name f \<noteq> None) (config_fields t)))"
    and "config_ok t (ca_config_defaults t)"
    and "support_valid (ca_config_defaults t)"
  using assms table_ok table_distinct table_keys table_names defaults_ok defaults_support
  by (auto simp: list_all_iff)

subsection \<open>Setting a field\<close>

lemma option_named_distinct:
  assumes "distinct (map fst opts)" and "(n, i) \<in> set opts"
  shows "option_named opts n = Some i"
proof -
  have "find (\<lambda>opt. fst opt = n) opts = Some (n, i)"
    using assms by (induction opts) force+
  then show ?thesis by (simp add: option_named_def)
qed

lemma find_mem: "find P xs = Some x \<Longrightarrow> x \<in> set xs \<and> P x"
  by (induction xs) (auto split: if_splits)

lemma find_none: "find P xs = None \<longleftrightarrow> (\<forall>x\<in>set xs. \<not> P x)"
  by (induction xs) auto

lemma option_named_mem: "option_named opts n = Some i \<Longrightarrow> (n, i) \<in> set opts"
  unfolding option_named_def using find_mem [of "\<lambda>opt. fst opt = n" opts] by auto

lemma find_value_rev:
  "find (\<lambda>opt. snd opt = i) (rev opts) = Some opt \<Longrightarrow> opt \<in> set opts \<and> snd opt = i"
  "find (\<lambda>opt. snd opt = i) (rev opts) = None \<longleftrightarrow> i \<notin> snd ` set opts"
  using find_mem [of "\<lambda>opt. snd opt = i" "rev opts" opt] by (auto simp: find_none)

lemma parse_field_ok: "field_ok f \<Longrightarrow> parse_field f v = Some x \<Longrightarrow> value_ok f x"
proof -
  assume f: "field_ok f" and p: "parse_field f v = Some x"
  show ?thesis
  proof (cases "f_kind f")
    case CONFIG_ENUM
    with p obtain i where "option_named (f_options f) v = Some i" "x = CV_int i"
      by (auto simp: parse_field_def split: if_splits)
    with option_named_mem CONFIG_ENUM show ?thesis by force
  next
    case CONFIG_UINT
    with p obtain n where n: "x = CV_uint (of_nat n)" "f_minimum f \<le> int n" "int n \<le> f_maximum f"
      by (auto simp: parse_field_def split: option.splits prod.splits list.splits bool.splits if_splits)
    with f CONFIG_UINT have "int n \<le> 65535" by (simp add: field_ok_def)
    then have "uint (of_nat n :: u32) = int n" by (simp add: uint_nat unat_of_nat)
    with n CONFIG_UINT show ?thesis by simp
  qed (use p in \<open>auto simp: parse_field_def split: option.splits prod.splits list.splits bool.splits if_splits\<close>)
qed

lemma config_ok_update:
  assumes "t \<in> set apcam_targets" and "f \<in> set (config_fields t)" and "config_ok t c" and "value_ok f x"
  shows "config_ok t (c(f_member f := x))"
  unfolding config_ok_def list_all_iff
proof
  fix g assume g: "g \<in> set (config_fields t)"
  have "f_member g = f_member f \<Longrightarrow> g = f"
    using table_facts(2) [OF assms(1)] g assms(2) by (auto simp: distinct_map inj_on_def)
  with assms g show "value_ok g ((c(f_member f := x)) (f_member g))"
    by (auto simp: config_ok_def list_all_iff)
qed

text \<open>\<^verbatim>\<open>set_field\<close> never stores a value its field does not accept: from a configuration whose
  members all hold acceptable values (text shorter than its buffer and of the permitted characters,
  numbers in range, enumerators of the table) every successful call leads to another such
  configuration and changes no other member. The defaults of every target are such a configuration.\<close>

theorem config_set_field_ok:
  assumes "t \<in> set apcam_targets" and "f \<in> set (config_fields t)"
  shows "config_ok t (ca_config_defaults t) \<and> support_valid (ca_config_defaults t)
    \<and> (config_ok t c \<and> set_field c f v = Some c' \<longrightarrow>
         config_ok t c' \<and> (\<forall>m. m \<noteq> f_member f \<longrightarrow> c' m = c m))"
  using table_facts(5,6) [OF assms(1)] config_ok_update [OF assms] parse_field_ok
    table_facts(1) [OF assms]
  by (auto simp: set_field_def)

theorem config_set_field_ok_witness:
  "config_ok target_mt11 (ca_config_defaults target_mt11)"
  using config_set_field_ok [of target_mt11 "hd (config_fields target_mt11)"]
  by (simp add: apcam_targets_def config_fields_def)

subsection \<open>Assigning parameters\<close>

definition acceptable :: "config_field \<Rightarrow> int \<Rightarrow> bool" where
  "acceptable f i \<longleftrightarrow>
     (case f_kind f of
        CONFIG_ENUM \<Rightarrow> i \<in> snd ` set (f_options f)
      | CONFIG_BOOL \<Rightarrow> i = 0 \<or> i = 1
      | _ \<Rightarrow> f_minimum f \<le> i \<and> i \<le> f_maximum f)"

definition value_of :: "config_field \<Rightarrow> int \<Rightarrow> config_value" where
  "value_of f i =
     (case f_kind f of CONFIG_BOOL \<Rightarrow> CV_bool (i = 1) | CONFIG_UINT \<Rightarrow> CV_uint (of_int i) | _ \<Rightarrow> CV_int i)"

lemma param_field_facts:
  "param_field t i = Some f \<Longrightarrow> f \<in> set (config_fields t) \<and> f_param_name f \<noteq> None"
proof -
  assume "param_field t i = Some f"
  then have "f \<in> set (filter (\<lambda>f. f_param_name f \<noteq> None) (config_fields t))"
    using nth_mem [of i "filter (\<lambda>f. f_param_name f \<noteq> None) (config_fields t)"]
    by (simp add: param_field_def Let_def split: if_split_asm)
  then show ?thesis by simp
qed

lemma parse_param_text:
  assumes f: "field_ok f" "f_param_name f \<noteq> None" and i: "-65535 \<le> i" "i \<le> 65535"
  shows "(case param_text f i of None \<Rightarrow> None | Some s \<Rightarrow> parse_field f s) =
     (if acceptable f i then Some (value_of f i) else None)"
proof (cases "f_kind f")
  case CONFIG_ENUM
  show ?thesis
  proof (cases "find (\<lambda>opt. snd opt = i) (rev (f_options f))")
    case None
    then show ?thesis
      using find_value_rev(2) [of i "f_options f"] CONFIG_ENUM by (simp add: param_text_def acceptable_def)
  next
    case (Some opt)
    note o = find_value_rev(1) [OF this]
    then have "option_named (f_options f) (fst opt) = Some i"
      using f(1) CONFIG_ENUM by (intro option_named_distinct) (auto simp: field_ok_def)
    with Some o f(1) CONFIG_ENUM show ?thesis
      by (auto simp: param_text_def parse_field_def field_ok_def acceptable_def value_of_def)
  qed
next
  case CONFIG_BOOL
  with f(1) show ?thesis
    by (simp add: param_text_def parse_field_def field_ok_def acceptable_def value_of_def)
next
  case CONFIG_INT
  have "strtol (dec_int i) = Some (i, [], False)" using i by (intro strtol_dec) simp
  with CONFIG_INT f(1) show ?thesis
    by (simp add: param_text_def parse_field_def field_ok_def acceptable_def value_of_def)
next
  case CONFIG_UINT
  show ?thesis
  proof (cases "0 \<le> i")
    case True
    then have "strtoul (dec_int i) = Some (nat i, [], False)" using i by (intro strtoul_dec) simp_all
    with CONFIG_UINT f(1) True show ?thesis
      by (simp add: param_text_def parse_field_def field_ok_def acceptable_def value_of_def)
  next
    case False
    then have "strtoul (dec_int i) = Some (2 ^ 64 - nat (- i), [], False)"
      using i by (intro strtoul_dec_neg) simp_all
    moreover have "65535 < int (2 ^ 64 - nat (- i))" using False i by simp
    ultimately show ?thesis
      using CONFIG_UINT f(1) False
      by (auto simp: param_text_def parse_field_def field_ok_def acceptable_def value_of_def)
  qed
qed (use f in \<open>simp_all add: field_ok_def\<close>)

lemma get_value_of:
  assumes "field_ok f" "f_param_name f \<noteq> None" "acceptable f i" "param_field t k = Some f" "c (f_member f) = value_of f i"
  shows "ca_config_param_get t c k = i"
proof (cases "f_kind f")
  case CONFIG_UINT
  with assms have "0 \<le> i" "i \<le> 65535" by (auto simp: field_ok_def acceptable_def)
  then have "sint (of_int i :: u32) = i"
    by (simp add: signed_of_int signed_take_bit_int_eq_self)
  with assms CONFIG_UINT show ?thesis by (simp add: ca_config_param_get_def value_of_def)
qed (use assms in \<open>auto simp: ca_config_param_get_def value_of_def acceptable_def field_ok_def\<close>)

text \<open>C9: assigning a parameter stores exactly the number given or refuses: the call succeeds just
  when the value is a whole number the field accepts (an enumerator, 0 or 1, or in range; NaN,
  infinities and fractions never) and the support settings stay consistent; reading the parameter
  then returns the value that was written, and no other member changes. Otherwise the error is
  EINVAL.\<close>

theorem config_assign_get:
  assumes "t \<in> set apcam_targets"
  shows "(case (param_field t k, float_selected v) of
       (Some f, Some i) \<Rightarrow>
         if acceptable f i \<and> support_valid (c(f_member f := value_of f i))
         then ca_config_param_assign t c k v = Inr (c(f_member f := value_of f i))
           \<and> v = FFin (of_int i) \<and> ca_config_param_get t (c(f_member f := value_of f i)) k = i
           \<and> (config_ok t c \<longrightarrow> config_ok t (c(f_member f := value_of f i)))
         else ca_config_param_assign t c k v = Inl EINVAL
     | _ \<Rightarrow> ca_config_param_assign t c k v = Inl EINVAL)"
proof (cases "param_field t k")
  case (Some f)
  note fs = param_field_facts [OF this]
  have f: "field_ok f" using table_facts(1) [OF assms] fs by blast
  show ?thesis
  proof (cases "float_selected v")
    case None
    with Some show ?thesis by (simp add: ca_config_param_assign_def)
  next
    case i: (Some i)
    then have r: "-65535 \<le> i" "i \<le> 65535" "v = FFin (of_int i)"
      by (auto simp: float_selected_def split: c_float.splits if_splits)
    note p = parse_param_text [OF f _ r(1,2)]
    have set: "(case param_text f i of None \<Rightarrow> None | Some text \<Rightarrow> set_field c f text) =
        (if acceptable f i then Some (c(f_member f := value_of f i)) else None)"
      using p fs by (auto simp: set_field_def split: option.splits if_splits)
    have ok: "acceptable f i \<Longrightarrow> value_ok f (value_of f i)"
      using p fs parse_field_ok [OF f] by (auto split: option.splits)
    show ?thesis
      using Some i r(3) fs set get_value_of [OF f _ _ Some] config_ok_update [OF assms _ _ ok]
      by (auto simp: ca_config_param_assign_def split: option.splits if_splits)
  qed
qed (simp add: ca_config_param_assign_def)

theorem config_assign_get_witness:
  "ca_config_param_assign target_mt11 (ca_config_defaults target_mt11) 12 FNaN = Inl EINVAL"
  using config_assign_get [where t = target_mt11 and k = 12 and v = FNaN
      and c = "ca_config_defaults target_mt11"]
  by (auto simp: apcam_targets_def float_selected_def split: option.splits)

lemma number_prefix_neg: "number_prefix (CHR ''-'' # dec_nat n) = Some (True, n, [])"
proof -
  have m: "\<not> isspace (CHR ''-'')" by (simp add: isspace_def code_def)
  show ?thesis
    using dec_nat_digits [of n] by (simp add: number_prefix_def m takeWhile_all Let_def)
qed

text \<open>An unsigned setting accepts a negative text: \<^verbatim>\<open>strtoul\<close> negates modulo 2 ^ 64 without an
  error, so for every positive n in the field's range the text ``-'' followed by 2 ^ 64 - n is
  stored as n instead of being rejected.\<close>

theorem config_uint_accepts_negative:
  assumes "t \<in> set apcam_targets" and "f \<in> set (config_fields t)" and "f_kind f = CONFIG_UINT"
    and "0 < n" and "f_minimum f \<le> int n" and "int n \<le> f_maximum f"
  shows "set_field c f (CHR ''-'' # dec_nat (2 ^ 64 - n)) = Some (c(f_member f := CV_uint (of_nat n)))"
proof -
  have f: "field_ok f" by (rule table_facts(1) [OF assms(1,2)])
  then have n: "n \<le> 65535" using assms(3,6) by (simp add: field_ok_def)
  then have "strtoul (CHR ''-'' # dec_nat (2 ^ 64 - n)) = Some (n, [], False)"
    using assms(4) by (simp add: strtoul_def number_prefix_neg)
  with f assms(3,5,6) show ?thesis by (simp add: set_field_def parse_field_def field_ok_def)
qed

theorem config_uint_accepts_negative_witness:
  "\<exists>f \<in> set (config_fields target_mt11). f_key f = ''tcp_port'' \<and>
     set_field (ca_config_defaults target_mt11) f (CHR ''-'' # dec_nat (2 ^ 64 - 80)) =
       Some ((ca_config_defaults target_mt11)(M_mavlink_tcp_port := CV_uint 80))"
proof -
  define f where "f = config_row ''mavlink'' ''tcp_port'' CONFIG_UINT M_mavlink_tcp_port 4 [] 0 65535
    (Some ''MAV_TCP_PORT'')"
  have m: "f \<in> set (config_fields target_mt11)" by (simp add: f_def config_fields_def)
  show ?thesis
    using m config_uint_accepts_negative [of target_mt11 f 80 "ca_config_defaults target_mt11"]
    by (intro bexI [of _ f]) (simp_all add: f_def config_row_def apcam_targets_def)
qed

text \<open>Parameter names and indices agree on every target: every index below the count has a
  name, and looking that name up gives the index back; there is no name beyond the count.\<close>

theorem config_param_index:
  assumes "t \<in> set apcam_targets"
  shows "(if k < ca_config_param_count t
     then (case ca_config_param_name t k of None \<Rightarrow> False | Some name \<Rightarrow> ca_config_param_find t name = int k)
     else ca_config_param_name t k = None)"
proof (cases "k < ca_config_param_count t")
  case True
  define fs where "fs = filter (\<lambda>f. f_param_name f \<noteq> None) (config_fields t)"
  have name: "ca_config_param_name t i = f_param_name (fs ! i)" if "i < length fs" for i
    using that by (simp add: ca_config_param_name_def param_field_def fs_def Let_def)
  have len: "ca_config_param_count t = length fs" by (simp add: ca_config_param_count_def fs_def)
  have "fs ! k \<in> set fs" using True len by simp
  then have "f_param_name (fs ! k) \<noteq> None" unfolding fs_def by simp
  then obtain n where n: "f_param_name (fs ! k) = Some n" by blast
  have inj: "i = k" if "i < length fs" "f_param_name (fs ! i) = Some n" for i
    using table_facts(4) [OF assms] nth_eq_iff_index_eq [of "map f_param_name fs" i k] that True n len
    by (simp add: fs_def)
  have "find (\<lambda>i. ca_config_param_name t i = Some n) [0..<length fs] = Some k"
    unfolding find_Some_iff
  proof (intro exI [of _ k] conjI allI impI)
    show "k < length [0..<length fs]" "k = [0..<length fs] ! k" using True len by simp_all
    show "ca_config_param_name t ([0..<length fs] ! k) = Some n" using True len name n by simp
    show "ca_config_param_name t ([0..<length fs] ! j) \<noteq> Some n" if "j < k" for j
      using that True len name [of j] inj [of j] by auto
  qed
  then show ?thesis
    using True len n name by (simp add: ca_config_param_find_def)
qed (simp add: ca_config_param_name_def param_field_def ca_config_param_count_def Let_def)

theorem config_param_index_witness:
  "ca_config_param_name target_mt11 400 = None \<or> 400 < ca_config_param_count target_mt11"
  using config_param_index [of target_mt11 400] by (auto simp: apcam_targets_def split: if_splits)

text \<open>The naming functions used in logs and replies say what the configuration file says: for
  every enumerator in the tables of orientation, protocol, resolution, codec, palette and photo
  scope, on every target, the function returns the text that sets it, and the size of a resolution
  is the one its text spells out.\<close>

theorem config_names_agree:
  "list_all (\<lambda>(n, v). ca_mount_orientation_name v = n) orientation_options
   \<and> list_all (\<lambda>(n, v). ca_thermal_palette_name v = n) palette_options
   \<and> list_all (\<lambda>(n, v). ca_photo_scope_name v = n) photo_scope_options
   \<and> list_all (\<lambda>t. list_all (\<lambda>(n, v). ca_uart_protocol_name v = n) (uart_protocol_options t)
        \<and> list_all (\<lambda>(n, v). ca_video_codec_name v = n) (codec_options t)
        \<and> list_all (\<lambda>(n, v). ca_video_resolution_name v = n \<and>
             (n, ca_video_resolution_size v) \<in> set [(''1280x720'', (1280, 720)), (''1920x1080'', (1920, 1080)),
               (''2560x1440'', (2560, 1440)), (''3840x2160'', (3840, 2160))])
            (main_resolution_options t @ sub_resolution_options t @ recording_resolution_options t))
      apcam_targets"
  by code_simp

end
