(* ===== verification/File_System.thy ===== *)
theory File_System
  imports Main
begin

text \<open>
  The file system under the camera application and the web server, as far as their saving of files relies
  on it: names, contents, and what a loss of power leaves. Data written to a file is safe only after
  \<^verbatim>\<open>fsync\<close>, a new name only after the \<^verbatim>\<open>fsync\<close> of its directory; \<^verbatim>\<open>rename\<close> is atomic. An operation is the
  list of the states that follow its calls, so that a statement about all of them is one about every
  crash.
\<close>

type_synonym path = string

text \<open>A file has contents, and whether they are on the disk; the names a running program sees may be
  ahead of those on the disk.\<close>

type_synonym fs_file = "(string \<times> bool) option"

record disk =
  visible :: "path \<Rightarrow> fs_file"
  durable :: "path \<Rightarrow> fs_file"

definition poss :: "fs_file \<Rightarrow> string option \<Rightarrow> bool" where
  "poss f c \<longleftrightarrow> (case f of None \<Rightarrow> c = None | Some (t, on_disk) \<Rightarrow> if on_disk then c = Some t else c \<noteq> None)"

text \<open>What may be under a name after a loss of power.\<close>

definition after_crash :: "disk \<Rightarrow> path \<Rightarrow> string option \<Rightarrow> bool" where
  "after_crash d p c \<longleftrightarrow> poss (durable d p) c \<or> poss (visible d p) c"

definition fs_unlink :: "path \<Rightarrow> disk \<Rightarrow> disk" where
  "fs_unlink p d = d\<lparr>visible := (visible d)(p := None)\<rparr>"

definition fs_write :: "path \<Rightarrow> string \<Rightarrow> disk \<Rightarrow> disk" where
  "fs_write p t d = d\<lparr>visible := (visible d)(p := Some (t, False))\<rparr>"

definition fs_sync :: "path \<Rightarrow> disk \<Rightarrow> disk" where
  "fs_sync p d = d\<lparr>visible := (visible d)(p := map_option (\<lambda>(t, b). (t, True)) (visible d p))\<rparr>"

definition fs_rename :: "path \<Rightarrow> path \<Rightarrow> disk \<Rightarrow> disk" where
  "fs_rename a b d = d\<lparr>visible := (visible d)(b := visible d a, a := None)\<rparr>"

definition fs_sync_dir :: "disk \<Rightarrow> disk" where
  "fs_sync_dir d = d\<lparr>durable := visible d\<rparr>"

lemmas fs_defs = fs_unlink_def fs_write_def fs_sync_def fs_rename_def fs_sync_dir_def

subsection \<open>What the calls leave alone\<close>

lemma fs_visible [simp]: "visible (fs_unlink q d) p = (if p = q then None else visible d p)"
  "visible (fs_write q t d) p = (if p = q then Some (t, False) else visible d p)"
  "visible (fs_sync q d) p = (if p = q then map_option (\<lambda>(t, b). (t, True)) (visible d q) else visible d p)"
  "visible (fs_rename a b d) p = (if p = a then None else if p = b then visible d a else visible d p)"
  "visible (fs_sync_dir d) = visible d"
  "durable (fs_unlink q d) = durable d" "durable (fs_write q t d) = durable d" "durable (fs_sync q d) = durable d"
  "durable (fs_rename a b d) = durable d" "durable (fs_sync_dir d) = visible d"
  by (simp_all add: fs_defs)

text \<open>A state differs from another only in the file tmp.\<close>

definition only_temp :: "path \<Rightarrow> disk \<Rightarrow> disk \<Rightarrow> bool" where
  "only_temp tmp d0 d \<longleftrightarrow> durable d = durable d0 \<and> (\<forall>p. p \<noteq> tmp \<longrightarrow> visible d p = visible d0 p)"

lemma only_temp_last: "list_all (only_temp tmp d) ds \<Longrightarrow> only_temp tmp d (last (d # ds))"
  by (cases ds rule: rev_cases) (auto simp: only_temp_def)

text \<open>A file that is safe: what is seen is on the disk, under its name.\<close>

definition safe_file :: "disk \<Rightarrow> path \<Rightarrow> string option \<Rightarrow> bool" where
  "safe_file d p c \<longleftrightarrow> visible d p = map_option (\<lambda>t. (t, True)) c \<and> durable d p = map_option (\<lambda>t. (t, True)) c"

lemma poss_safe [simp]: "poss (map_option (\<lambda>t. (t, True)) c) c' \<longleftrightarrow> c' = c" "poss (Some (t, True)) c' \<longleftrightarrow> c' = Some t"
  by (cases c) (auto simp: poss_def)

lemma contents_safe [simp]: "map_option fst (map_option (\<lambda>t. (t, True)) c) = c"
  by (cases c) simp_all

lemma safe_file_crash: "safe_file d p c \<Longrightarrow> after_crash d p c' \<longleftrightarrow> c' = c"
  by (auto simp: safe_file_def after_crash_def)

end
