(* ===== verification/Config_File.thy ===== *)
theory Config_File
  imports Config_Params File_System
begin

text \<open>
  Reading and writing \<^verbatim>\<open>camera.ini\<close>: \<^verbatim>\<open>ca_config_load\<close>, \<^verbatim>\<open>save_field\<close> and
  \<^verbatim>\<open>ca_config_param_save\<close> of \<^verbatim>\<open>camera_app/src/config.c\<close>. To the loader a file is its text, missing, or
  unreadable. Saving goes through the calls of the code one by one, on the file system of
  \<^verbatim>\<open>File_System\<close>, which may lose power after each of them.
\<close>

definition CONFIG_LINE_MAX :: nat where "CONFIG_LINE_MAX = 512"

datatype config_file = Missing | Unreadable errno | Broken errno string | Content string

datatype load_error = Open_failed errno | Line_too_long nat | Invalid_section nat
  | Invalid_section_name nat | Not_key_value nat | Invalid_field nat string | Read_failed errno
  | Support_invalid

record load_state =
  ls_section :: string
  ls_seen :: "bool list"
  ls_parsed :: ca_config

text \<open>\<^verbatim>\<open>fgets\<close> into a buffer of \<^verbatim>\<open>CONFIG_LINE_MAX\<close> bytes: up to 511 characters, at most one line.\<close>

definition fgets_line :: "string \<Rightarrow> string" where
  "fgets_line s =
     (let l = takeWhile (\<lambda>c. c \<noteq> NL) s
      in take (CONFIG_LINE_MAX - 1) (if length l < length s then l @ [NL] else l))"

text \<open>\<^verbatim>\<open>feof\<close> holds once a read has met the end of the file.\<close>

definition fgets_eof :: "string \<Rightarrow> bool" where
  "fgets_eof s \<longleftrightarrow> NL \<notin> set s \<and> length s < CONFIG_LINE_MAX - 1"

fun field_index :: "string \<Rightarrow> string \<Rightarrow> config_field list \<Rightarrow> nat \<Rightarrow> nat option" where
  "field_index section key [] i = None"
| "field_index section key (f # fs) i =
     (if section \<noteq> f_section f \<or> key \<noteq> f_key f then field_index section key fs (i + 1) else Some i)"

definition unquote :: "string \<Rightarrow> string \<Rightarrow> string" where
  "unquote section v =
     (if 2 \<le> length v \<and> hd v = QUOTE \<and> last v = QUOTE
      then let inner = tl (butlast v) in if section = ''support_proxy'' then inner else trim inner
      else v)"

definition load_key :: "apcam_target \<Rightarrow> nat \<Rightarrow> string \<Rightarrow> string \<Rightarrow> load_state \<Rightarrow> load_error + load_state" where
  "load_key t n key v st =
     (case field_index (ls_section st) key (config_fields t) 0 of
        None \<Rightarrow> Inr st
      | Some i \<Rightarrow>
          let f = config_fields t ! i in
          if ls_seen st ! i then Inl (Invalid_field n (f_key f))
          else (case set_field (ls_parsed st) f v of
              None \<Rightarrow> Inl (Invalid_field n (f_key f))
            | Some parsed \<Rightarrow> Inr (st\<lparr>ls_parsed := parsed, ls_seen := (ls_seen st)[i := True]\<rparr>)))"

text \<open>One turn of the loop of \<^verbatim>\<open>ca_config_load\<close> on a line.\<close>

definition load_line :: "apcam_target \<Rightarrow> nat \<Rightarrow> bool \<Rightarrow> string \<Rightarrow> load_state \<Rightarrow> load_error + load_state" where
  "load_line t n eof line0 st =
     (let line = c_str line0; text = trim line in
      if line \<noteq> [] \<and> last line \<noteq> NL \<and> \<not> eof then Inl (Line_too_long n)
      else if text = [] \<or> hd text = CHR ''#'' \<or> hd text = CHR '';'' then Inr st
      else if hd text = CHR ''['' then
        (case split_at (CHR '']'') (tl text) of
           None \<Rightarrow> Inl (Invalid_section n)
         | Some (inside, after) \<Rightarrow>
             if trim after \<noteq> [] then Inl (Invalid_section n)
             else
               let name = trim inside in
               if name = [] \<or> 64 \<le> length name then Inl (Invalid_section_name n)
               else Inr (st\<lparr>ls_section := name\<rparr>))
      else
        (case split_at (CHR ''='') text of
           None \<Rightarrow> Inl (Not_key_value n)
         | Some (k, v) \<Rightarrow> load_key t n (trim k) (unquote (ls_section st) (trim v)) st))"

lemma fgets_line_nonempty: "s \<noteq> [] \<Longrightarrow> 0 < length (fgets_line s)"
  by (cases s) (auto simp: fgets_line_def Let_def CONFIG_LINE_MAX_def)

function load_text :: "apcam_target \<Rightarrow> nat \<Rightarrow> string \<Rightarrow> load_state \<Rightarrow> load_error + load_state" where
  "load_text t n s st =
     (if s = [] then Inr st
      else
        case load_line t (n + 1) (fgets_eof s) (fgets_line s) st of
          Inl e \<Rightarrow> Inl e
        | Inr st' \<Rightarrow> load_text t (n + 1) (drop (length (fgets_line s)) s) st')"
  by pat_completeness auto
termination
  by (relation "measure (\<lambda>(t, n, s, st). length s)") (auto intro!: diff_less fgets_line_nonempty)

declare load_text.simps [simp del]

definition load_start :: "apcam_target \<Rightarrow> ca_config \<Rightarrow> load_state" where
  "load_start t c =
     \<lparr>ls_section = [], ls_seen = replicate (length (config_fields t)) False, ls_parsed = c\<rparr>"

text \<open>A file that breaks off is read up to the error, which is then reported.\<close>

definition ca_config_load :: "apcam_target \<Rightarrow> ca_config \<Rightarrow> config_file \<Rightarrow> load_error + ca_config" where
  "ca_config_load t c file =
     (case file of
        Missing \<Rightarrow> Inl (Open_failed ENOENT)
      | Unreadable e \<Rightarrow> Inl (Open_failed e)
      | Broken e s \<Rightarrow>
          (case load_text t 0 s (load_start t c) of Inl err \<Rightarrow> Inl err | Inr st \<Rightarrow> Inl (Read_failed e))
      | Content s \<Rightarrow>
          (case load_text t 0 s (load_start t c) of
             Inl err \<Rightarrow> Inl err
           | Inr st \<Rightarrow> if support_valid (ls_parsed st) then Inr (ls_parsed st) else Inl Support_invalid))"

subsection \<open>Saving one field\<close>

text \<open>\<^verbatim>\<open>getline\<close>: whole lines with their newline.\<close>

function getlines :: "string \<Rightarrow> string list" where
  "getlines s =
     (if s = [] then []
      else if NL \<in> set s
      then (takeWhile (\<lambda>c. c \<noteq> NL) s @ [NL]) # getlines (tl (dropWhile (\<lambda>c. c \<noteq> NL) s))
      else [s])"
  by pat_completeness auto
termination
proof (relation "measure length", goal_cases)
  case 1
  show ?case by simp
next
  case (2 s)
  have "length (dropWhile (\<lambda>c. c \<noteq> NL) s) \<le> length s" by (rule length_dropWhile_le)
  moreover have "length (tl (dropWhile (\<lambda>c. c \<noteq> NL) s)) < length s"
    using 2 calculation by (cases "dropWhile (\<lambda>c. c \<noteq> NL) s") auto
  ultimately show ?case by simp
qed

declare getlines.simps [simp del]

text \<open>What a line is to \<^verbatim>\<open>save_field\<close>: a section header (ours or not), a line that sets the key, or
  any other line.\<close>

datatype save_line = Section bool | Key | Other

definition classify_line :: "config_field \<Rightarrow> bool \<Rightarrow> string \<Rightarrow> save_line" where
  "classify_line f in_section line =
     (let text = trim (c_str line) in
      if text \<noteq> [] \<and> hd text = CHR ''['' then
        (case split_at (CHR '']'') (tl text) of
           None \<Rightarrow> Section False
         | Some (inside, after) \<Rightarrow> Section (trim inside = f_section f))
      else if in_section \<and> \<not> (text \<noteq> [] \<and> (hd text = CHR ''#'' \<or> hd text = CHR '';'')) then
        (case split_at (CHR ''='') text of
           None \<Rightarrow> Other
         | Some (k, v) \<Rightarrow> if trim k = f_key f then Key else Other)
      else Other)"

fun key_present :: "config_field \<Rightarrow> bool \<Rightarrow> string list \<Rightarrow> bool" where
  "key_present f in_section [] \<longleftrightarrow> False"
| "key_present f in_section (l # ls) \<longleftrightarrow>
     (case classify_line f in_section l of
        Section b \<Rightarrow> key_present f b ls
      | Key \<Rightarrow> True
      | Other \<Rightarrow> key_present f in_section ls)"

definition setting_line :: "config_field \<Rightarrow> string \<Rightarrow> string" where
  "setting_line f v = f_key f @ '' = '' @ v @ [NL]"

text \<open>A line is copied up to a NUL; a missing final newline is added.\<close>

definition copied_line :: "string \<Rightarrow> string" where
  "copied_line l =
     (let s = c_str l in if s \<noteq> [] \<and> last s \<noteq> NL then s @ [NL] else s)"

fun save_lines :: "config_field \<Rightarrow> string \<Rightarrow> bool \<Rightarrow> bool \<Rightarrow> bool \<Rightarrow> string list \<Rightarrow> string" where
  "save_lines f v present in_section written [] =
     (if written then []
      else (if in_section then [] else [NL] @ ''['' @ f_section f @ '']'' @ [NL]) @ setting_line f v)"
| "save_lines f v present in_section written (l # ls) =
     (case classify_line f in_section l of
        Section b \<Rightarrow>
          (if in_section \<and> \<not> written \<and> \<not> present
           then setting_line f v @ copied_line l @ save_lines f v present b True ls
           else copied_line l @ save_lines f v present b written ls)
      | Key \<Rightarrow> setting_line f v @ save_lines f v present in_section True ls
      | Other \<Rightarrow> copied_line l @ save_lines f v present in_section written ls)"

definition save_text :: "config_field \<Rightarrow> string \<Rightarrow> string \<Rightarrow> string" where
  "save_text f v s =
     (let ls = getlines s in save_lines f v (key_present f False ls) False False ls)"

text \<open>The calls on the way: the error of each that fails. Reading breaks off after some characters. The
  stream library writes when it likes, so the temporary file goes through any contents until \<^verbatim>\<open>fflush\<close>
  succeeds; \<^verbatim>\<open>suffix\<close> is what \<^verbatim>\<open>mkstemp\<close> puts for the X's.\<close>

record save_calls =
  load_open :: "errno option"
  load_break :: "(errno \<times> nat) option"
  save_open :: "errno option"
  scan_fault :: "errno option"
  name_fault :: "errno option"
  suffix :: string
  temp_fault :: "errno option"
  stream_fault :: "errno option"
  mode_fault :: "errno option"
  copy_fault :: "errno option"
  drained :: "string list"
  write_fault :: "errno option"
  sync_fault :: "errno option"
  close_fault :: "errno option"
  rename_fault :: "errno option"

definition config_fopen :: "errno option \<Rightarrow> path \<Rightarrow> disk \<Rightarrow> errno + string" where
  "config_fopen fault p d =
     (case fault of
        Some e \<Rightarrow> Inl e
      | None \<Rightarrow> (case visible d p of None \<Rightarrow> Inl ENOENT | Some (t, on_disk) \<Rightarrow> Inr t))"

text \<open>The file as \<^verbatim>\<open>ca_config_load\<close> finds it.\<close>

definition config_view :: "save_calls \<Rightarrow> path \<Rightarrow> disk \<Rightarrow> config_file" where
  "config_view k p d =
     (case config_fopen (load_open k) p d of
        Inl e \<Rightarrow> if e = ENOENT then Missing else Unreadable e
      | Inr s \<Rightarrow> (case load_break k of None \<Rightarrow> Content s | Some (e, n) \<Rightarrow> Broken e (take n s)))"

definition config_temp :: "path \<Rightarrow> save_calls \<Rightarrow> path" where
  "config_temp p k = p @ ''.'' @ suffix k"

text \<open>From \<^verbatim>\<open>mkstemp\<close> to \<^verbatim>\<open>rename\<close>: the error that ends it, if any, and the states after the calls.
  The mode is only copied, and the old lines only read, when there is an old file.\<close>

definition replace_file :: "save_calls \<Rightarrow> path \<Rightarrow> bool \<Rightarrow> string \<Rightarrow> disk \<Rightarrow> errno option \<times> disk list" where
  "replace_file k p old_file contents d0 =
     (let tmp = config_temp p k in
      case temp_fault k of Some e \<Rightarrow> (Some e, [])
      | None \<Rightarrow>
          let d1 = fs_write tmp [] d0 in
          case stream_fault k of Some e \<Rightarrow> (Some e, [d1])
          | None \<Rightarrow>
              case if old_file then mode_fault k else None of Some e \<Rightarrow> (Some e, [d1])
              | None \<Rightarrow>
                  let ds = d1 # map (\<lambda>t. fs_write tmp t d1) (drained k) in
                  case if old_file then copy_fault k else None of Some e \<Rightarrow> (Some e, ds)
                  | None \<Rightarrow>
                      case write_fault k of Some e \<Rightarrow> (Some e, ds)
                      | None \<Rightarrow>
                          let d2 = fs_write tmp contents d1 in
                          case sync_fault k of Some e \<Rightarrow> (Some e, ds @ [d2])
                          | None \<Rightarrow>
                              let d3 = fs_sync tmp d2 in
                              case close_fault k of Some e \<Rightarrow> (Some e, ds @ [d2, d3])
                              | None \<Rightarrow>
                                  case rename_fault k of Some e \<Rightarrow> (Some e, ds @ [d2, d3])
                                  | None \<Rightarrow> (None, ds @ [d2, d3, fs_rename tmp p d3]))"

text \<open>The clean-up at \<^verbatim>\<open>done\<close> removes the temporary name, also after success, when there is none.\<close>

definition save_field :: "save_calls \<Rightarrow> path \<Rightarrow> config_field \<Rightarrow> string \<Rightarrow> disk \<Rightarrow> errno option \<times> disk list" where
  "save_field k p f v d0 =
     (case config_fopen (save_open k) p d0 of
        Inl e \<Rightarrow>
          if e \<noteq> ENOENT then (Some e, [])
          else
            (case name_fault k of Some e \<Rightarrow> (Some e, [])
             | None \<Rightarrow>
                 case replace_file k p False (save_text f v []) d0 of
                   (r, ds) \<Rightarrow> (r, ds @ [fs_unlink (config_temp p k) (last (d0 # ds))]))
      | Inr s \<Rightarrow>
          (case scan_fault k of Some e \<Rightarrow> (Some e, [])
           | None \<Rightarrow>
               case name_fault k of Some e \<Rightarrow> (Some e, [])
               | None \<Rightarrow>
                   case replace_file k p True (save_text f v s) d0 of
                     (r, ds) \<Rightarrow> (r, ds @ [fs_unlink (config_temp p k) (last (d0 # ds))])))"

definition load_errno :: "load_error \<Rightarrow> errno" where
  "load_errno e = (case e of Open_failed x \<Rightarrow> x | Read_failed x \<Rightarrow> x | _ \<Rightarrow> EINVAL)"

text \<open>Validating the text on the loaded configuration and writing it: the result, the
  configuration in memory and the states of the disk.\<close>

definition store_param ::
  "save_calls \<Rightarrow> path \<Rightarrow> ca_config \<Rightarrow> ca_config \<Rightarrow> config_field \<Rightarrow> string option \<Rightarrow> disk \<Rightarrow>
   errno option \<times> ca_config \<times> disk list" where
  "store_param k p c updated f text d =
     (case text of
        None \<Rightarrow> (Some EINVAL, c, [])
      | Some s \<Rightarrow>
          (case set_field updated f s of
             None \<Rightarrow> (Some EINVAL, c, [])
           | Some u \<Rightarrow>
               if \<not> support_valid u then (Some EINVAL, c, [])
               else (case save_field k p f s d of
                   (Some e, ds) \<Rightarrow> (Some e, c, ds)
                 | (None, ds) \<Rightarrow> (None, u, ds))))"

text \<open>A file that cannot be loaded stops the call, except that a missing file stands for the
  defaults.\<close>

definition ca_config_param_save ::
  "apcam_target \<Rightarrow> save_calls \<Rightarrow> ca_config \<Rightarrow> path \<Rightarrow> nat \<Rightarrow> c_float \<Rightarrow> disk \<Rightarrow>
   errno option \<times> ca_config \<times> disk list" where
  "ca_config_param_save t k c p index v d =
     (case (param_field t index, float_selected v) of
        (Some f, Some selected) \<Rightarrow>
          (case ca_config_load t (ca_config_defaults t) (config_view k p d) of
             Inr u \<Rightarrow> store_param k p c u f (param_text f selected) d
           | Inl e \<Rightarrow>
               if load_errno e \<noteq> ENOENT then (Some (load_errno e), c, [])
               else store_param k p c (ca_config_defaults t) f (param_text f selected) d)
      | _ \<Rightarrow> (Some EINVAL, c, []))"

subsection \<open>Loading\<close>

lemma field_index_some:
  "field_index section key fs i = Some j \<Longrightarrow>
   i \<le> j \<and> j < i + length fs \<and> f_section (fs ! (j - i)) = section \<and> f_key (fs ! (j - i)) = key"
proof (induction fs arbitrary: i)
  case (Cons f fs)
  show ?case
  proof (cases "section \<noteq> f_section f \<or> key \<noteq> f_key f")
    case True
    with Cons.prems have "field_index section key fs (i + 1) = Some j" by simp
    from Cons.IH [OF this] show ?thesis by (auto simp: nth_Cons')
  next
    case False
    with Cons.prems show ?thesis by auto
  qed
qed simp

lemma load_line_ok:
  assumes "t \<in> set apcam_targets" and "load_line t n eof l st = Inr st'" and "config_ok t (ls_parsed st)"
  shows "config_ok t (ls_parsed st')"
proof -
  have key: "config_ok t (ls_parsed st')" if "load_key t n k v st = Inr st'" for k v
  proof (cases "field_index (ls_section st) k (config_fields t) 0")
    case None
    with that assms(3) show ?thesis by (simp add: load_key_def)
  next
    case (Some i)
    then have f: "config_fields t ! i \<in> set (config_fields t)"
      using field_index_some [OF Some] by simp
    from that Some obtain x where "parse_field (config_fields t ! i) v = Some x"
      and eq: "ls_parsed st' = (ls_parsed st)(f_member (config_fields t ! i) := x)"
      by (auto simp: load_key_def set_field_def Let_def split: if_splits option.splits)
    from parse_field_ok [OF table_facts(1) [OF assms(1) f] this(1)]
    have "value_ok (config_fields t ! i) x" .
    from config_ok_update [OF assms(1) f assms(3) this] eq show ?thesis by simp
  qed
  show ?thesis
    using assms(2,3) key
    by (auto simp: load_line_def Let_def split: if_splits option.splits)
qed

lemma load_text_ok:
  "load_text t n s st = Inr st' \<Longrightarrow> t \<in> set apcam_targets \<Longrightarrow> config_ok t (ls_parsed st) \<Longrightarrow>
   config_ok t (ls_parsed st')"
proof (induction t n s st rule: load_text.induct)
  case (1 t n s st)
  show ?case
  proof (cases "s = []")
    case True
    with 1 show ?thesis by (simp add: load_text.simps [of t n "[]"])
  next
    case False
    then obtain st1 where st1: "load_line t (n + 1) (fgets_eof s) (fgets_line s) st = Inr st1"
      and rest: "load_text t (n + 1) (drop (length (fgets_line s)) s) st1 = Inr st'"
      using 1(2) by (auto simp: load_text.simps [of t n s] split: sum.splits)
    show ?thesis by (rule 1(1) [OF False st1 rest 1(3) load_line_ok [OF 1(3) st1 1(4)]])
  qed
qed

lemma load_line_errno: "load_line t n eof l st = Inl e \<Longrightarrow> load_errno e = EINVAL"
  by (auto simp: load_line_def load_key_def load_errno_def Let_def split: if_splits option.splits)

lemma load_text_errno: "load_text t n s st = Inl e \<Longrightarrow> load_errno e = EINVAL"
proof (induction t n s st rule: load_text.induct)
  case (1 t n s st)
  show ?case
  proof (cases "s = []")
    case True
    with 1 show ?thesis by (simp add: load_text.simps [of t n "[]"])
  next
    case False
    show ?thesis
    proof (cases "load_line t (n + 1) (fgets_eof s) (fgets_line s) st")
      case (Inl err)
      with 1(2) False load_line_errno [OF Inl] show ?thesis by (simp add: load_text.simps [of t n s])
    next
      case (Inr st1)
      with 1(2) False 1(1) [OF False Inr] show ?thesis by (simp add: load_text.simps [of t n s])
    qed
  qed
qed

text \<open>C10: loading never yields a bad configuration: when \<^verbatim>\<open>ca_config_load\<close> succeeds on an
  acceptable configuration, whatever the file holds, every member again holds a value its field
  accepts and the support settings are consistent; and a file that exists and can be read is never
  taken for a missing one: each of its defects is reported as EINVAL.\<close>

theorem config_load_ok:
  assumes "t \<in> set apcam_targets" and "config_ok t c"
  shows "(case ca_config_load t c ini of
       Inr c' \<Rightarrow> config_ok t c' \<and> support_valid c' \<and> (\<exists>s. ini = Content s)
     | Inl e \<Rightarrow> (\<exists>s. ini = Content s) \<longrightarrow> load_errno e = EINVAL)"
proof (cases ini)
  case (Content s)
  show ?thesis
  proof (cases "load_text t 0 s (load_start t c)")
    case (Inr st)
    from load_text_ok [OF Inr assms(1)] assms(2) have "config_ok t (ls_parsed st)"
      by (simp add: load_start_def)
    with Content Inr show ?thesis by (auto simp: ca_config_load_def load_errno_def)
  next
    case (Inl e)
    with Content load_text_errno [OF Inl] show ?thesis by (simp add: ca_config_load_def)
  qed
qed (auto simp: ca_config_load_def split: sum.splits)

theorem config_load_ok_witness:
  "config_ok target_mt11 (ca_config_defaults target_mt11) \<and>
   (\<exists>e. ca_config_load target_mt11 (ca_config_defaults target_mt11) (Content ''x'') = Inl e \<and>
        load_errno e = EINVAL)"
proof -
  have "(case ca_config_load target_mt11 (ca_config_defaults target_mt11) (Content ''x'') of
      Inl e \<Rightarrow> e = Not_key_value 1 | Inr c \<Rightarrow> False)"
    by code_simp
  then obtain e where
    "ca_config_load target_mt11 (ca_config_defaults target_mt11) (Content ''x'') = Inl e"
    by (auto split: sum.splits)
  then show ?thesis
    using config_load_ok [of target_mt11 "ca_config_defaults target_mt11" "Content ''x''"]
      table_facts(5) [of target_mt11] by (simp add: apcam_targets_def)
qed

subsection \<open>Saving\<close>

lemma config_temp_neq [simp]: "config_temp p k \<noteq> p" "p \<noteq> config_temp p k"
  by (simp_all add: config_temp_def)

text \<open>Until the name changes, only the temporary file does; then it holds everything and is on the disk.\<close>

lemma replace_file_states:
  assumes "replace_file k p old_file contents d0 = (r, ds)"
  shows "(case r of
      Some e \<Rightarrow> list_all (only_temp (config_temp p k) d0) ds
    | None \<Rightarrow> \<exists>ds1 d. ds = ds1 @ [fs_rename (config_temp p k) p d] \<and> list_all (only_temp (config_temp p k) d0) ds1
        \<and> only_temp (config_temp p k) d0 d \<and> visible d (config_temp p k) = Some (contents, True))"
proof -
  let ?tmp = "config_temp p k"
  have w: "only_temp ?tmp d0 (fs_write ?tmp t (fs_write ?tmp u d0))" "only_temp ?tmp d0 (fs_write ?tmp t d0)"
    "only_temp ?tmp d0 (fs_sync ?tmp (fs_write ?tmp t (fs_write ?tmp u d0)))" for t u
    by (simp_all add: only_temp_def)
  have m: "list_all (only_temp ?tmp d0) (fs_write ?tmp [] d0 # map (\<lambda>t. fs_write ?tmp t (fs_write ?tmp [] d0)) (drained k))"
    by (simp add: list_all_iff w)
  show ?thesis
  proof (cases r)
    case (Some e)
    with assms m show ?thesis
      by (auto simp: replace_file_def Let_def w split: option.splits if_splits)
  next
    case None
    let ?ds = "fs_write ?tmp [] d0 # map (\<lambda>t. fs_write ?tmp t (fs_write ?tmp [] d0)) (drained k)"
    let ?d2 = "fs_write ?tmp contents (fs_write ?tmp [] d0)"
    have "ds = (?ds @ [?d2, fs_sync ?tmp ?d2]) @ [fs_rename ?tmp p (fs_sync ?tmp ?d2)]"
      using assms None by (auto simp: replace_file_def Let_def split: option.splits if_splits)
    moreover have "list_all (only_temp ?tmp d0) (?ds @ [?d2, fs_sync ?tmp ?d2])" using m w by simp
    ultimately show ?thesis using None w by fastforce
  qed
qed

text \<open>What saving promises: whatever fails, and after every call, also when the power fails then, the file
  holds what it could hold before; only a save that succeeds puts the whole new text in its place.\<close>

definition untouched :: "path \<Rightarrow> disk \<Rightarrow> disk \<Rightarrow> bool" where
  "untouched p d0 d \<longleftrightarrow> visible d p = visible d0 p \<and> durable d p = durable d0 p"

definition file_saved :: "path \<Rightarrow> string \<Rightarrow> disk \<Rightarrow> disk list \<Rightarrow> bool" where
  "file_saved p contents d0 ds \<longleftrightarrow>
     visible (last (d0 # ds)) p = Some (contents, True)
     \<and> (\<forall>d\<in>set ds. \<forall>x. after_crash d p x \<longrightarrow> after_crash d0 p x \<or> x = Some contents)"

lemma untouched_crash: "untouched p d0 d \<Longrightarrow> after_crash d p x \<longleftrightarrow> after_crash d0 p x"
  by (simp add: untouched_def after_crash_def)

lemma only_temp_untouched: "only_temp tmp d0 d \<Longrightarrow> q \<noteq> tmp \<Longrightarrow> untouched q d0 d"
  by (simp add: only_temp_def untouched_def)

lemma replace_file_atomic:
  assumes "replace_file k p old_file contents d0 = (r, ds)"
  defines "ds' \<equiv> ds @ [fs_unlink (config_temp p k) (last (d0 # ds))]"
  shows "(case r of Some e \<Rightarrow> \<forall>d\<in>set ds'. untouched p d0 d | None \<Rightarrow> file_saved p contents d0 ds')"
    and "visible (last ds') (config_temp p k) = None"
    and "q \<noteq> p \<Longrightarrow> q \<noteq> config_temp p k \<Longrightarrow> \<forall>d\<in>set ds'. untouched q d0 d"
proof -
  let ?tmp = "config_temp p k"
  note s = replace_file_states [OF assms(1)]
  have unl: "untouched x d0 d \<Longrightarrow> x \<noteq> ?tmp \<Longrightarrow> untouched x d0 (fs_unlink ?tmp d)" for x d by (simp add: untouched_def)
  show "(case r of Some e \<Rightarrow> \<forall>d\<in>set ds'. untouched p d0 d | None \<Rightarrow> file_saved p contents d0 ds')"
  proof (cases r)
    case (Some e)
    then have all: "list_all (only_temp ?tmp d0) ds" using s by simp
    have "\<forall>d\<in>set ds. untouched p d0 d" using all only_temp_untouched [of ?tmp d0 _ p] by (simp add: list_all_iff)
    moreover have "untouched p d0 (last (d0 # ds))" by (rule only_temp_untouched [OF only_temp_last [OF all]]) simp
    ultimately show ?thesis using Some unl by (auto simp: ds'_def)
  next
    case None
    then obtain ds1 d where ds: "ds = ds1 @ [fs_rename ?tmp p d]" "list_all (only_temp ?tmp d0) ds1" "only_temp ?tmp d0 d"
      "visible d ?tmp = Some (contents, True)" using s by auto
    have before: "after_crash d' p x \<longrightarrow> after_crash d0 p x" if "d' \<in> set ds1" for d' x
      using that ds(2) untouched_crash [OF only_temp_untouched [of ?tmp d0 d' p]] by (simp add: list_all_iff)
    have moved: "visible (fs_rename ?tmp p d) p = Some (contents, True)" "durable (fs_rename ?tmp p d) p = durable d0 p"
      using ds(3,4) by (simp_all add: only_temp_def)
    then have "after_crash d' p x \<longrightarrow> after_crash d0 p x \<or> x = Some contents"
      if "d' \<in> {fs_rename ?tmp p d, fs_unlink ?tmp (fs_rename ?tmp p d)}" for d' x
      using that by (auto simp: after_crash_def)
    then show ?thesis using before moved None by (auto simp: file_saved_def ds'_def ds(1))
  qed
  show "visible (last ds') ?tmp = None" by (simp add: ds'_def)
  show "\<forall>d\<in>set ds'. untouched q d0 d" if q: "q \<noteq> p" "q \<noteq> ?tmp"
  proof (cases r)
    case (Some e)
    then have all: "list_all (only_temp ?tmp d0) ds" using s by simp
    then show ?thesis
      using only_temp_untouched [OF only_temp_last [OF all] q(2)] only_temp_untouched [of ?tmp d0 _ q] unl [of q] q(2)
      by (auto simp: ds'_def list_all_iff)
  next
    case None
    then obtain ds1 d where ds: "ds = ds1 @ [fs_rename ?tmp p d]" "list_all (only_temp ?tmp d0) ds1" "only_temp ?tmp d0 d"
      using s by auto
    have "untouched q d0 (fs_rename ?tmp p d)" using ds(3) q by (simp add: untouched_def only_temp_def)
    then show ?thesis
      using ds(2) only_temp_untouched [of ?tmp d0 _ q] unl [of q] q(2) by (auto simp: ds'_def ds(1) list_all_iff)
  qed
qed

text \<open>\<^verbatim>\<open>fopen\<close> says ENOENT only of a file that is not there, and reading never says it.\<close>

definition honest :: "save_calls \<Rightarrow> bool" where
  "honest k \<longleftrightarrow> load_open k \<noteq> Some ENOENT \<and> save_open k \<noteq> Some ENOENT \<and> (\<forall>n. load_break k \<noteq> Some (ENOENT, n))"

definition old_text :: "string option \<Rightarrow> string" where
  "old_text c = (case c of None \<Rightarrow> [] | Some s \<Rightarrow> s)"

lemma save_field_atomic:
  assumes "save_field k p f v d0 = (r, ds)" "honest k" "visible d0 p = map_option (\<lambda>t. (t, True)) c"
  shows "(case r of Some e \<Rightarrow> \<forall>d\<in>set ds. untouched p d0 d | None \<Rightarrow> file_saved p (save_text f v (old_text c)) d0 ds)"
    and "visible (last (d0 # ds)) (config_temp p k) = None \<or> ds = []"
    and "q \<noteq> p \<Longrightarrow> q \<noteq> config_temp p k \<Longrightarrow> \<forall>d\<in>set ds. untouched q d0 d"
proof -
  have cases: "r \<noteq> None \<and> ds = [] \<or>
     (\<exists>b ds'. replace_file k p b (save_text f v (old_text c)) d0 = (r, ds') \<and> ds = ds' @ [fs_unlink (config_temp p k) (last (d0 # ds'))])"
    using assms(1,2,3)
    by (cases c) (auto simp: save_field_def config_fopen_def honest_def old_text_def split: option.splits prod.splits if_splits,
        (metis option.exhaust)+)
  show "(case r of Some e \<Rightarrow> \<forall>d\<in>set ds. untouched p d0 d | None \<Rightarrow> file_saved p (save_text f v (old_text c)) d0 ds)"
    using cases
  proof (elim disjE exE conjE)
    fix b ds'
    assume h: "replace_file k p b (save_text f v (old_text c)) d0 = (r, ds')" "ds = ds' @ [fs_unlink (config_temp p k) (last (d0 # ds'))]"
    show ?thesis using replace_file_atomic(1) [OF h(1)] unfolding h(2) .
  qed auto
  show "visible (last (d0 # ds)) (config_temp p k) = None \<or> ds = []"
    using cases by auto
  show "\<forall>d\<in>set ds. untouched q d0 d" if q: "q \<noteq> p" "q \<noteq> config_temp p k"
    using cases
  proof (elim disjE exE conjE)
    fix b ds'
    assume h: "replace_file k p b (save_text f v (old_text c)) d0 = (r, ds')" "ds = ds' @ [fs_unlink (config_temp p k) (last (d0 # ds'))]"
    show ?thesis using replace_file_atomic(3) [OF h(1) q] unfolding h(2) .
  qed auto
qed

text \<open>What a saved parameter is: the configuration that was loaded, or the defaults when there was no
  file, with exactly this field set, acceptable and consistent; the new text is the old one with the
  field's line.\<close>

definition param_stored ::
  "apcam_target \<Rightarrow> nat \<Rightarrow> c_float \<Rightarrow> string option \<Rightarrow> config_field \<Rightarrow> string \<Rightarrow> ca_config \<Rightarrow> bool" where
  "param_stored t index v old f text c' \<longleftrightarrow> (\<exists>i base. param_field t index = Some f \<and> v = FFin (of_int i) \<and> acceptable f i
     \<and> c' = base(f_member f := value_of f i) \<and> set_field base f text = Some c' \<and> config_ok t c' \<and> support_valid c'
     \<and> (case old of None \<Rightarrow> base = ca_config_defaults t | Some s \<Rightarrow> ca_config_load t (ca_config_defaults t) (Content s) = Inr base))"

lemma store_param_result:
  assumes "t \<in> set apcam_targets" "param_field t index = Some f" "-65535 \<le> i" "i \<le> 65535" "config_ok t base"
    and "store_param k p c base f (param_text f i) d0 = (r, c', ds)"
  shows "r \<noteq> None \<and> c' = c \<and> ds = [] \<or>
     (\<exists>text u. save_field k p f text d0 = (r, ds) \<and> c' = (if r = None then u else c) \<and> acceptable f i
       \<and> u = base(f_member f := value_of f i) \<and> set_field base f text = Some u \<and> config_ok t u \<and> support_valid u)"
proof (cases "param_text f i")
  case (Some s)
  note fs = param_field_facts [OF assms(2)]
  have f: "field_ok f" using table_facts(1) [OF assms(1)] fs by blast
  have q: "parse_field f s = (if acceptable f i then Some (value_of f i) else None)"
    using parse_param_text [OF f _ assms(3,4)] fs Some by simp
  have ok: "acceptable f i \<Longrightarrow> config_ok t (base(f_member f := value_of f i))"
    using parse_field_ok [OF f, of s] q by (intro config_ok_update [OF assms(1) _ assms(5)]) (use fs in simp_all)
  obtain r' ds' where sf: "save_field k p f s d0 = (r', ds')" by fastforce
  show ?thesis
    using assms(6) q ok sf by (auto simp: store_param_def Some set_field_def split: option.splits if_splits)
qed (use assms(6) in \<open>auto simp: store_param_def\<close>)

text \<open>The configuration on which a parameter is set is the one in the file, or the defaults.\<close>

lemma load_base:
  assumes "t \<in> set apcam_targets" "honest k" "visible d0 p = map_option (\<lambda>t. (t, True)) c"
  shows "(case ca_config_load t (ca_config_defaults t) (config_view k p d0) of
      Inr base \<Rightarrow> config_ok t base
        \<and> (case c of None \<Rightarrow> base = ca_config_defaults t | Some s \<Rightarrow> ca_config_load t (ca_config_defaults t) (Content s) = Inr base)
    | Inl e \<Rightarrow> load_errno e = ENOENT \<longrightarrow> c = None)"
proof -
  note ok = config_load_ok [OF assms(1) table_facts(5) [OF assms(1)]]
  show ?thesis
  proof (cases c)
    case None
    with assms(2,3) ok [of "config_view k p d0"] show ?thesis
      by (auto simp: config_view_def config_fopen_def ca_config_load_def split: sum.splits option.splits if_splits)
  next
    case (Some s)
    have "load_errno e = ENOENT \<longrightarrow> False" if "ca_config_load t (ca_config_defaults t) (config_view k p d0) = Inl e" for e
      using that assms(2,3) Some ok [of "config_view k p d0"] load_text_errno
      by (auto simp: config_view_def config_fopen_def honest_def ca_config_load_def load_errno_def split: sum.splits option.splits if_splits)
    moreover have "config_view k p d0 = Content s" if "ca_config_load t (ca_config_defaults t) (config_view k p d0) = Inr base" for base
      using that assms(3) Some ok [of "config_view k p d0"]
      by (auto simp: config_view_def config_fopen_def ca_config_load_def split: sum.splits option.splits if_splits)
    ultimately show ?thesis using ok [of "config_view k p d0"] Some by (auto split: sum.splits)
  qed
qed

lemma param_save_atomic:
  assumes "t \<in> set apcam_targets" "honest k" "visible d0 p = map_option (\<lambda>s. (s, True)) old"
    and "ca_config_param_save t k c p index v d0 = (r, c', ds)"
  shows "r \<noteq> None \<and> c' = c \<and> ds = [] \<or>
     (\<exists>f text u. save_field k p f text d0 = (r, ds) \<and> c' = (if r = None then u else c) \<and> param_stored t index v old f text u)"
proof (cases "param_field t index")
  case (Some f)
  show ?thesis
  proof (cases "float_selected v")
    case i: (Some i)
    then have r: "-65535 \<le> i" "i \<le> 65535" "v = FFin (of_int i)"
      by (auto simp: float_selected_def split: c_float.splits if_splits)
    note b = load_base [OF assms(1,2,3)]
    have stored: ?thesis if sp: "store_param k p c base f (param_text f i) d0 = (r, c', ds)" and ok: "config_ok t base"
        and from_file: "case old of None \<Rightarrow> base = ca_config_defaults t | Some s \<Rightarrow> ca_config_load t (ca_config_defaults t) (Content s) = Inr base" for base
      using store_param_result [OF assms(1) Some r(1,2) ok sp] from_file Some r(3) unfolding param_stored_def by blast
    show ?thesis
    proof (cases "ca_config_load t (ca_config_defaults t) (config_view k p d0)")
      case (Inl e)
      show ?thesis
      proof (cases "load_errno e = ENOENT")
        case True
        then have "store_param k p c (ca_config_defaults t) f (param_text f i) d0 = (r, c', ds)" "old = None"
          using assms(4) b Some i Inl by (simp_all add: ca_config_param_save_def)
        then show ?thesis using stored table_facts(5) [OF assms(1)] by simp
      next
        case False
        with assms(4) Some i Inl show ?thesis by (auto simp: ca_config_param_save_def)
      qed
    next
      case (Inr base)
      then have "store_param k p c base f (param_text f i) d0 = (r, c', ds)"
        using assms(4) Some i by (simp add: ca_config_param_save_def)
      with b Inr show ?thesis using stored by simp
    qed
  qed (use assms(4) Some in \<open>auto simp: ca_config_param_save_def\<close>)
qed (use assms(4) in \<open>auto simp: ca_config_param_save_def\<close>)

text \<open>C11: saving a parameter is all or nothing, in the file and in memory. Whatever call fails, however
  the stream is written out, and whenever the power fails: while an error is returned, neither the
  configuration in memory nor the file has changed, not even for a moment; and on success the name holds
  the whole new text, synced, and after a loss of power at any time the old file or the whole new one.
  Then the configuration in memory is the one loaded from the file (the defaults if there is none) with
  exactly this field set to the value, acceptable and with consistent support settings. No temporary file
  stays behind and no other file is touched. (The directory is not synced, so that a success may still be
  undone by a loss of power; that is all it may.)\<close>

theorem config_save_atomic:
  assumes "t \<in> set apcam_targets" and "honest k" and "visible d0 p = map_option (\<lambda>s. (s, True)) old"
    and "ca_config_param_save t k c p index v d0 = (r, c', ds)"
  shows "(case r of
       Some e \<Rightarrow> c' = c \<and> (\<forall>d\<in>set ds. untouched p d0 d)
     | None \<Rightarrow> \<exists>f text. param_stored t index v old f text c' \<and> file_saved p (save_text f text (old_text old)) d0 ds)
   \<and> (ds = [] \<or> visible (last ds) (config_temp p k) = None)
   \<and> (\<forall>q. q \<noteq> p \<and> q \<noteq> config_temp p k \<longrightarrow> (\<forall>d\<in>set ds. untouched q d0 d))"
proof (cases "r \<noteq> None \<and> c' = c \<and> ds = []")
  case False
  then obtain f tx u where s: "save_field k p f tx d0 = (r, ds)" "c' = (if r = None then u else c)" "param_stored t index v old f tx u"
    using param_save_atomic [OF assms] by blast
  note a = save_field_atomic [OF s(1) assms(2,3)]
  have first: "case r of Some e \<Rightarrow> c' = c \<and> (\<forall>d\<in>set ds. untouched p d0 d)
     | None \<Rightarrow> \<exists>f text. param_stored t index v old f text c' \<and> file_saved p (save_text f text (old_text old)) d0 ds"
  proof (cases r)
    case None
    then have "file_saved p (save_text f tx (old_text old)) d0 ds" "param_stored t index v old f tx c'" using a(1) s by simp_all
    with None show ?thesis by auto
  next
    case (Some e)
    with a(1) s show ?thesis by simp
  qed
  have "ds = [] \<or> visible (last ds) (config_temp p k) = None" using a(2) by (cases "ds = []") simp_all
  with first a(3) show ?thesis by blast
qed auto

definition quiet_calls :: "string list \<Rightarrow> save_calls" where
  "quiet_calls ts = \<lparr>load_open = None, load_break = None, save_open = None, scan_fault = None, name_fault = None,
     suffix = ''k3Fz9q'', temp_fault = None, stream_fault = None, mode_fault = None, copy_fault = None, drained = ts,
     write_fault = None, sync_fault = None, close_fault = None, rename_fault = None\<rparr>"

definition camera_disk :: disk where
  "camera_disk = \<lparr>visible = [''camera.ini'' \<mapsto> (''# mine'', True)], durable = [''camera.ini'' \<mapsto> (''# mine'', True)]\<rparr>"

theorem config_save_atomic_witness:
  "(case ca_config_param_save target_mt11 (quiet_calls [''#'']) (ca_config_defaults target_mt11) ''camera.ini'' 12 (FFin 60) camera_disk of
      (r, c', ds) \<Rightarrow> r = None \<and> support_valid c' \<and> (\<forall>d\<in>set ds. after_crash d ''camera.ini'' None \<longrightarrow> after_crash camera_disk ''camera.ini'' None))
   \<and> (case ca_config_param_save target_mt11 ((quiet_calls [''#''])\<lparr>rename_fault := Some EIO\<rparr>) (ca_config_defaults target_mt11)
        ''camera.ini'' 12 (FFin 60) camera_disk of
      (r, c', ds) \<Rightarrow> r = Some EIO \<and> (\<forall>d\<in>set ds. visible d ''camera.ini'' = Some (''# mine'', True)))"
proof -
  have p: "target_mt11 \<in> set apcam_targets" "honest (quiet_calls ts)" "honest ((quiet_calls ts)\<lparr>rename_fault := Some EIO\<rparr>)"
    "visible camera_disk ''camera.ini'' = map_option (\<lambda>s. (s, True)) (Some ''# mine'')" for ts
    by (simp_all add: apcam_targets_def honest_def quiet_calls_def camera_disk_def)
  have e: "fst (ca_config_param_save target_mt11 (quiet_calls [''#'']) (ca_config_defaults target_mt11) ''camera.ini'' 12 (FFin 60) camera_disk) = None"
    by code_simp
  have f: "fst (ca_config_param_save target_mt11 ((quiet_calls [''#''])\<lparr>rename_fault := Some EIO\<rparr>) (ca_config_defaults target_mt11)
        ''camera.ini'' 12 (FFin 60) camera_disk) = Some EIO"
    by code_simp
  obtain c1 ds1 where s1: "ca_config_param_save target_mt11 (quiet_calls [''#'']) (ca_config_defaults target_mt11) ''camera.ini'' 12 (FFin 60) camera_disk
      = (None, c1, ds1)" using e by (metis prod.collapse)
  obtain c2 ds2 where s2: "ca_config_param_save target_mt11 ((quiet_calls [''#''])\<lparr>rename_fault := Some EIO\<rparr>) (ca_config_defaults target_mt11)
        ''camera.ini'' 12 (FFin 60) camera_disk = (Some EIO, c2, ds2)" using f by (metis prod.collapse)
  have "\<exists>f tx. param_stored target_mt11 12 (FFin 60) (Some ''# mine'') f tx c1
         \<and> file_saved ''camera.ini'' (save_text f tx (old_text (Some ''# mine''))) camera_disk ds1"
    using config_save_atomic [OF p(1,2,4) s1] by simp
  then obtain f tx where w: "support_valid c1" "file_saved ''camera.ini'' (save_text f tx (old_text (Some ''# mine''))) camera_disk ds1"
    unfolding param_stored_def by auto
  have "\<forall>d\<in>set ds1. after_crash d ''camera.ini'' None \<longrightarrow> after_crash camera_disk ''camera.ini'' None"
    using w(2) unfolding file_saved_def by auto
  moreover have "\<forall>d\<in>set ds2. untouched ''camera.ini'' camera_disk d"
    using config_save_atomic [OF p(1,3,4) s2] by simp
  then have "\<forall>d\<in>set ds2. visible d ''camera.ini'' = Some (''# mine'', True)" using p(4) by (simp add: untouched_def)
  ultimately show ?thesis unfolding s1 s2 using w(1) by simp
qed

end
