(* ===== verification/Support_Mavlink.thy ===== *)
theory Support_Mavlink
  imports AP_Prelude "HOL-Library.Sublist"
begin

text \<open>
  The SupportProxy MAVLink relay, \<^verbatim>\<open>camera_app/src/protocol/support_mavlink.c\<close>: two ring queues
  of 128 messages that drop their oldest entry when full, and the relay thread that signs and
  forwards what is queued and queues what it receives. Messages, the MAVLink parser and the
  functions that restamp and serialise a message are parameters: they belong to the generated
  MAVLink library. One turn of the thread's loop is one step; the lock makes each queue operation
  atomic.
\<close>

definition QUEUE_SIZE :: nat where "QUEUE_SIZE = 128"

record 'm message_queue =
  messages :: "'m list"
  first :: nat
  count :: nat

definition pop :: "'m message_queue \<Rightarrow> ('m \<times> 'm message_queue) option" where
  "pop q =
     (if count q = 0 then None
      else Some (messages q ! first q,
             q\<lparr>first := (first q + 1) mod QUEUE_SIZE, count := count q - 1\<rparr>))"

definition push :: "'m message_queue \<Rightarrow> 'm \<Rightarrow> 'm message_queue" where
  "push q m =
     (let q1 = (if count q = QUEUE_SIZE
                then q\<lparr>first := (first q + 1) mod QUEUE_SIZE, count := count q - 1\<rparr> else q)
      in q1\<lparr>messages := (messages q1)[(first q1 + count q1) mod QUEUE_SIZE := m],
            count := count q1 + 1\<rparr>)"

subsection \<open>A FIFO that keeps the newest\<close>

locale newest_fifo =
  fixes contents :: "'q \<Rightarrow> 'm list"
    and put_in :: "'q \<Rightarrow> 'm \<Rightarrow> 'q"
    and take_out :: "'q \<Rightarrow> ('m \<times> 'q) option"
    and wf :: "'q \<Rightarrow> bool"
    and room :: nat
  assumes bounded: "wf q \<Longrightarrow> length (contents q) \<le> room"
    and positive: "0 < room"
    and put_wf: "wf q \<Longrightarrow> wf (put_in q m)"
    and put_contents: "wf q \<Longrightarrow> contents (put_in q m) =
      (if length (contents q) = room then tl (contents q) else contents q) @ [m]"
    and take_none: "wf q \<Longrightarrow> take_out q = None \<longleftrightarrow> contents q = []"
    and take_some: "wf q \<Longrightarrow> take_out q = Some (m, q') \<Longrightarrow> wf q' \<and> contents q = m # contents q'"
begin

definition newest :: "'m list \<Rightarrow> 'm list" where
  "newest xs = drop (length xs - room) xs"

lemma put_all:
  "wf q \<Longrightarrow> wf (foldl put_in q ms) \<and> contents (foldl put_in q ms) = newest (contents q @ ms)"
proof (induction ms arbitrary: q)
  case Nil
  then show ?case using bounded [of q] by (simp add: newest_def)
next
  case (Cons m ms)
  have "newest (contents (put_in q m) @ ms) = newest (contents q @ m # ms)"
    using bounded [OF Cons.prems] positive
    by (auto simp: newest_def put_contents [OF Cons.prems] drop_Suc [symmetric] Suc_diff_le)
  with Cons.IH [OF put_wf [OF Cons.prems]] show ?case by simp
qed

end

subsection \<open>The ring\<close>

definition ring_ok :: "'m message_queue \<Rightarrow> bool" where
  "ring_ok q \<longleftrightarrow> length (messages q) = QUEUE_SIZE \<and> first q < QUEUE_SIZE \<and> count q \<le> QUEUE_SIZE"

definition ring_contents :: "'m message_queue \<Rightarrow> 'm list" where
  "ring_contents q = map (\<lambda>i. messages q ! ((first q + i) mod QUEUE_SIZE)) [0..<count q]"

lemma length_ring_contents [simp]: "length (ring_contents q) = count q"
  by (simp add: ring_contents_def)

lemma ring_pop:
  assumes "ring_ok q" and "pop q = Some (m, q')"
  shows "ring_ok q' \<and> ring_contents q = m # ring_contents q'"
proof -
  from assms have q': "count q \<noteq> 0" "m = messages q ! first q"
    "q' = q\<lparr>first := (first q + 1) mod QUEUE_SIZE, count := count q - 1\<rparr>"
    by (auto simp: pop_def split: if_splits)
  have "[0..<count q] = 0 # map Suc [0..<count q - 1]"
    using q'(1) by (simp add: map_Suc_upt upt_conv_Cons)
  then have "ring_contents q = messages q ! (first q mod QUEUE_SIZE) #
      map (\<lambda>i. messages q ! ((first q + Suc i) mod QUEUE_SIZE)) [0..<count q - 1]"
    by (simp add: ring_contents_def)
  moreover have "ring_contents q' = map (\<lambda>i. messages q ! ((first q + Suc i) mod QUEUE_SIZE)) [0..<count q - 1]"
    using q'(3) by (simp add: ring_contents_def mod_simps)
  ultimately show ?thesis
    using assms(1) q' by (auto simp: ring_ok_def QUEUE_SIZE_def)
qed

lemma ring_append:
  assumes "ring_ok q" and "count q < QUEUE_SIZE"
  shows "ring_contents (q\<lparr>messages := (messages q)[(first q + count q) mod QUEUE_SIZE := m],
      count := count q + 1\<rparr>) = ring_contents q @ [m]"
proof -
  have ne: "(first q + i) mod QUEUE_SIZE \<noteq> (first q + count q) mod QUEUE_SIZE" if "i < count q" for i
  proof
    assume "(first q + i) mod QUEUE_SIZE = (first q + count q) mod QUEUE_SIZE"
    then have "QUEUE_SIZE dvd count q - i"
      using mod_eq_dvd_iff_nat [of "first q + i" "first q + count q" QUEUE_SIZE] that by simp
    then have "QUEUE_SIZE \<le> count q - i" using that by (intro dvd_imp_le) simp_all
    with assms(2) show False by linarith
  qed
  have "(first q + count q) mod QUEUE_SIZE < length (messages q)"
    using assms(1) by (simp add: ring_ok_def QUEUE_SIZE_def)
  then show ?thesis
    using not_sym [OF ne] by (simp add: ring_contents_def nth_list_update)
qed

lemma ring_push:
  assumes "ring_ok q"
  shows "ring_ok (push q m)" and "ring_contents (push q m) =
    (if length (ring_contents q) = QUEUE_SIZE then tl (ring_contents q) else ring_contents q) @ [m]"
proof -
  define q1 where "q1 = (if count q = QUEUE_SIZE
     then q\<lparr>first := (first q + 1) mod QUEUE_SIZE, count := count q - 1\<rparr> else q)"
  have pop: "count q = QUEUE_SIZE \<Longrightarrow> pop q = Some (messages q ! first q, q1)"
    by (simp add: pop_def q1_def QUEUE_SIZE_def)
  have q1: "ring_ok q1 \<and> ring_contents q1 = (if count q = QUEUE_SIZE then tl (ring_contents q) else ring_contents q)"
    using ring_pop [OF assms pop] assms by (auto simp: q1_def)
  have room: "count q1 < QUEUE_SIZE"
    using assms by (auto simp: q1_def ring_ok_def QUEUE_SIZE_def)
  have p: "push q m = q1\<lparr>messages := (messages q1)[(first q1 + count q1) mod QUEUE_SIZE := m],
      count := count q1 + 1\<rparr>"
    by (simp add: push_def q1_def Let_def)
  show "ring_ok (push q m)" using q1 room by (simp add: p ring_ok_def)
  show "ring_contents (push q m) =
    (if length (ring_contents q) = QUEUE_SIZE then tl (ring_contents q) else ring_contents q) @ [m]"
    using ring_append [of q1 m] q1 room by (simp add: p)
qed

lemma pop_none: "pop q = None \<longleftrightarrow> ring_contents q = []"
  by (simp add: pop_def ring_contents_def)

interpretation rq: newest_fifo ring_contents push pop ring_ok QUEUE_SIZE
proof
  fix q q' :: "'a message_queue" and m
  show "ring_ok q \<Longrightarrow> length (ring_contents q) \<le> QUEUE_SIZE" by (simp add: ring_ok_def)
  show "0 < QUEUE_SIZE" by (simp add: QUEUE_SIZE_def)
  show "ring_ok q \<Longrightarrow> ring_ok (push q m)" by (rule ring_push)
  show "ring_ok q \<Longrightarrow> ring_contents (push q m) =
      (if length (ring_contents q) = QUEUE_SIZE then tl (ring_contents q) else ring_contents q) @ [m]"
    by (rule ring_push)
  show "ring_ok q \<Longrightarrow> (pop q = None) = (ring_contents q = [])" by (rule pop_none)
  show "ring_ok q \<Longrightarrow> pop q = Some (m, q') \<Longrightarrow> ring_ok q' \<and> ring_contents q = m # ring_contents q'"
    by (rule ring_pop)
qed

subsection \<open>The relay\<close>

text \<open>What \<^verbatim>\<open>clock_gettime(CLOCK_REALTIME)\<close> gives: an error, or seconds and nanoseconds.\<close>

definition signing_time :: "(nat \<times> nat) option \<Rightarrow> u64" where
  "signing_time now =
     (case now of
        None \<Rightarrow> 1
      | Some (sec, nsec) \<Rightarrow>
          if sec < 1420070400 then 1
          else of_nat (sec - 1420070400) * 100000 + of_nat (nsec div 10000))"

record ('m, 'p) support_mavlink =
  signing :: bool
  outgoing :: "'m message_queue"
  incoming :: "'m message_queue"
  parser :: 'p
  timestamp :: u64
  link_open :: bool
  retry :: nat
  wire :: "bytes list"

text \<open>
  The functions of the MAVLink library: \<^verbatim>\<open>ca_mavlink_restamp\<close> with the message's own sequence
  number, signed with the given time or unsigned, which gives the message and the signing time it
  leaves; \<^verbatim>\<open>ca_mavlink_to_wire\<close>; and \<^verbatim>\<open>ca_mavlink_parse_byte\<close>, which may advance the signing time
  to that of a message it verified.
\<close>

record ('m, 'p) mavlink_library =
  restamp :: "u64 option \<Rightarrow> 'm \<Rightarrow> 'm \<times> u64"
  to_wire :: "'m \<Rightarrow> bytes"
  parse_byte :: "'p \<Rightarrow> u64 \<Rightarrow> u8 \<Rightarrow> 'p \<times> u64 \<times> 'm option"

definition soft_error :: "errno \<Rightarrow> bool" where
  "soft_error e \<longleftrightarrow> e = EAGAIN \<or> e = EINTR"

definition relay_message :: "('m, 'p) mavlink_library \<Rightarrow> bool \<Rightarrow> u64 \<Rightarrow> 'm \<Rightarrow> bytes" where
  "relay_message lib sign ts m = to_wire lib (fst (restamp lib (if sign then Some ts else None) m))"

text \<open>One pass of the sending loop after a successful pop: the new state, and whether the loop goes
  on; \<^term>\<open>result\<close> is the error \<^verbatim>\<open>send\<close> reported, if any.\<close>

definition relay_one ::
  "('m, 'p) mavlink_library \<Rightarrow> (nat \<times> nat) option \<Rightarrow> errno option \<Rightarrow> 'm \<Rightarrow> 'm message_queue \<Rightarrow>
   ('m, 'p) support_mavlink \<Rightarrow> bool \<times> ('m, 'p) support_mavlink" where
  "relay_one lib now result m q s =
     (let ts = (if timestamp s < signing_time now then signing_time now else timestamp s);
          s1 = s\<lparr>outgoing := q,
                 timestamp := (if signing s then snd (restamp lib (Some ts) m) else ts)\<rparr>
      in case result of
           None \<Rightarrow> (True, s1\<lparr>wire := wire s1 @ [relay_message lib (signing s) ts m]\<rparr>)
         | Some e \<Rightarrow>
             if soft_error e then (True, s1) else (False, s1\<lparr>link_open := False, retry := 40\<rparr>))"

text \<open>The sending loop: at most 128 messages, each taken from the queue before it is sent; \<^term>\<open>rs\<close>
  holds for each the clock and what \<^verbatim>\<open>send\<close> reports.\<close>

fun relay_send ::
  "('m, 'p) mavlink_library \<Rightarrow> nat \<Rightarrow> ((nat \<times> nat) option \<times> errno option) list \<Rightarrow>
   ('m, 'p) support_mavlink \<Rightarrow> ('m, 'p) support_mavlink" where
  "relay_send lib 0 rs s = s"
| "relay_send lib (Suc n) rs s =
     (case pop (outgoing s) of
        None \<Rightarrow> s
      | Some (m, q) \<Rightarrow>
          let (now, result) = (if rs = [] then (None, None) else hd rs);
              (go, s1) = relay_one lib now result m q s
          in if go then relay_send lib n (tl rs) s1 else s1)"

fun relay_receive ::
  "('m, 'p) mavlink_library \<Rightarrow> bytes \<Rightarrow> ('m, 'p) support_mavlink \<Rightarrow> ('m, 'p) support_mavlink" where
  "relay_receive lib [] s = s"
| "relay_receive lib (b # bs) s =
     (case parse_byte lib (parser s) (timestamp s) b of
        (p, t, None) \<Rightarrow> relay_receive lib bs (s\<lparr>parser := p, timestamp := t\<rparr>)
      | (p, t, Some m) \<Rightarrow>
          relay_receive lib bs
            (s\<lparr>parser := p, timestamp := t, incoming := push (incoming s) (fst (restamp lib None m))\<rparr>))"

record relay_events =
  connects :: bool
  sends :: "((nat \<times> nat) option \<times> errno option) list"
  readable :: bool
  received :: "errno + bytes"

definition relay_turn ::
  "('m, 'p) mavlink_library \<Rightarrow> relay_events \<Rightarrow> ('m, 'p) support_mavlink \<Rightarrow> ('m, 'p) support_mavlink" where
  "relay_turn lib ev s =
     (if \<not> link_open s \<and> 0 < retry s then s\<lparr>retry := retry s - 1\<rparr>
      else if \<not> link_open s \<and> \<not> connects ev then s\<lparr>retry := 40\<rparr>
      else
        let s1 = relay_send lib QUEUE_SIZE (sends ev) (s\<lparr>link_open := True\<rparr>) in
        if \<not> link_open s1 \<or> \<not> readable ev then s1
        else case received ev of
               Inl e \<Rightarrow> if soft_error e then s1 else s1\<lparr>link_open := False, retry := 40\<rparr>
             | Inr packet \<Rightarrow> relay_receive lib (take 4096 packet) s1)"

definition empty_queue :: "'m \<Rightarrow> 'm message_queue" where
  "empty_queue m0 = \<lparr>messages = replicate QUEUE_SIZE m0, first = 0, count = 0\<rparr>"

text \<open>\<^verbatim>\<open>calloc\<close> zeroes the queues' storage (\<^term>\<open>m0\<close>); no relay runs unless it is enabled and has a
  port.\<close>

definition ca_support_mavlink_open ::
  "bool \<Rightarrow> u32 \<Rightarrow> bool \<Rightarrow> (nat \<times> nat) option \<Rightarrow> 'm \<Rightarrow> 'p \<Rightarrow> errno option \<Rightarrow>
   errno + ('m, 'p) support_mavlink option" where
  "ca_support_mavlink_open enabled port sign now m0 p0 failure =
     (if \<not> enabled \<or> port = 0 then Inr None
      else case failure of
        Some e \<Rightarrow> Inl e
      | None \<Rightarrow> Inr (Some \<lparr>signing = sign, outgoing = empty_queue m0, incoming = empty_queue m0,
          parser = p0, timestamp = (if sign then signing_time now else 0), link_open = False,
          retry = 0, wire = []\<rparr>))"

definition ca_support_mavlink_send ::
  "('m, 'p) support_mavlink option \<Rightarrow> 'm \<Rightarrow> ('m, 'p) support_mavlink option" where
  "ca_support_mavlink_send s m = map_option (\<lambda>s. s\<lparr>outgoing := push (outgoing s) m\<rparr>) s"

definition ca_support_mavlink_receive ::
  "('m, 'p) support_mavlink option \<Rightarrow> ('m \<times> ('m, 'p) support_mavlink) option" where
  "ca_support_mavlink_receive s =
     (case s of
        None \<Rightarrow> None
      | Some s \<Rightarrow> map_option (\<lambda>(m, q). (m, s\<lparr>incoming := q\<rparr>)) (pop (incoming s)))"

subsection \<open>Properties\<close>

text \<open>C12: each ring queue is a FIFO that keeps the newest 128 messages: after any sequence of pushes
  it holds, in order, the last 128 of the old contents followed by the new messages; a pop returns
  the oldest one and leaves the others; and it fails exactly when nothing is queued.\<close>

theorem support_queue_newest:
  assumes "ring_ok q"
  shows "ring_ok (foldl push q ms)
    \<and> ring_contents (foldl push q ms) =
        (let all = ring_contents q @ ms in drop (length all - 128) all)
    \<and> (case pop q of
         None \<Rightarrow> ring_contents q = []
       | Some (m, q') \<Rightarrow> ring_ok q' \<and> ring_contents q = m # ring_contents q')"
proof -
  have "ring_contents (foldl push q ms) = drop (length (ring_contents q @ ms) - QUEUE_SIZE) (ring_contents q @ ms)"
    using rq.put_all [OF assms, of ms] by (simp only: rq.newest_def)
  then show ?thesis
    using rq.put_all [OF assms, of ms] pop_none [of q] ring_pop [OF assms]
    by (auto simp: QUEUE_SIZE_def Let_def split: option.split)
qed

lemma empty_queue_ok: "ring_ok (empty_queue m)" "ring_contents (empty_queue m) = []"
  by (simp_all add: ring_ok_def empty_queue_def ring_contents_def, simp add: QUEUE_SIZE_def)

theorem support_queue_newest_witness:
  "ring_contents (foldl push (empty_queue 0) [1, 2, 3 :: nat]) = [1, 2, 3]"
  using support_queue_newest [OF empty_queue_ok(1), of 0 "[1, 2, 3 :: nat]"]
  by (simp add: empty_queue_ok(2) Let_def del: foldl_Cons)

lemma relay_one_facts:
  assumes "relay_one lib now result m q s = (go, s1)"
  obtains sent where "outgoing s1 = q" "incoming s1 = incoming s" "signing s1 = signing s"
    "wire s1 = wire s @ map (\<lambda>(t, m). relay_message lib (signing s) t m) sent"
    "sent = [] \<or> sent = [(max (timestamp s) (signing_time now), m)]"
    "timestamp s1 = (if signing s then snd (restamp lib (Some (max (timestamp s) (signing_time now))) m)
       else max (timestamp s) (signing_time now))"
proof -
  have ts: "(if timestamp s < signing_time now then signing_time now else timestamp s)
      = max (timestamp s) (signing_time now)" by (simp add: max_def not_less antisym)
  show thesis
  proof (cases result)
    case None
    with assms show ?thesis
      by (intro that [of "[(max (timestamp s) (signing_time now), m)]"])
        (auto simp: relay_one_def Let_def ts)
  next
    case (Some e)
    with assms show ?thesis
      by (intro that [of "[]"]) (auto simp: relay_one_def Let_def ts split: if_splits)
  qed
qed

lemma max_succ_u64:
  fixes a b :: u64
  assumes "unat a \<le> B" "unat b \<le> B" "B + 1 < 2 ^ 64"
  shows "unat (max a b + 1) \<le> B + 1" and "a < max a b + 1" and "max a b < max a b + 1"
proof -
  have m: "unat (max a b) \<le> B" using assms by (simp add: max_def)
  then have "unat (max a b + 1) = unat (max a b) + 1"
    using assms(3) by (simp add: unat_word_ariths)
  then show "unat (max a b + 1) \<le> B + 1" "max a b < max a b + 1"
    using m by (simp_all add: word_less_nat_alt)
  then show "a < max a b + 1" using max.cobounded1 [of a b] by (rule_tac le_less_trans)
qed

lemma relay_send_order:
  "ring_ok (outgoing s) \<Longrightarrow>
   \<exists>taken sent. ring_contents (outgoing s) = taken @ ring_contents (outgoing (relay_send lib n rs s))
      \<and> length taken \<le> n
      \<and> incoming (relay_send lib n rs s) = incoming s
      \<and> wire (relay_send lib n rs s) = wire s @ map (\<lambda>(t, m). relay_message lib (signing s) t m) sent
      \<and> subseq (map snd sent) taken
      \<and> (signing s \<longrightarrow> (\<forall>t m. snd (restamp lib (Some t) m) = t + 1) \<longrightarrow>
          1 \<le> B \<and> unat (timestamp s) \<le> B \<and> (\<forall>r\<in>set rs. unat (signing_time (fst r)) \<le> B) \<and> B + n < 2 ^ 64 \<longrightarrow>
          sorted_wrt (<) (map fst sent) \<and> (\<forall>t\<in>set (map fst sent). timestamp s \<le> t))"
proof (induction n arbitrary: rs s B)
  case 0
  show ?case by (intro exI [of _ "[]"]) simp
next
  case (Suc n)
  show ?case
  proof (cases "pop (outgoing s)")
    case None
    then show ?thesis by (intro exI [of _ "[]"]) simp
  next
    case (Some mq)
    obtain m q where "mq = (m, q)" by (cases mq)
    with Some have p: "pop (outgoing s) = Some (m, q)" by simp
    note q = ring_pop [OF Suc.prems p]
    obtain now result where r: "(if rs = [] then (None, None) else hd rs) = (now, result)"
      by (cases "if rs = [] then (None, None) else hd rs")
    obtain go s1 where one: "relay_one lib now result m q s = (go, s1)"
      by (cases "relay_one lib now result m q s")
    have step: "relay_send lib (Suc n) rs s = (if go then relay_send lib n (tl rs) s1 else s1)"
      by (simp only: relay_send.simps p option.case prod.case r Let_def one)
    define ts where "ts = max (timestamp s) (signing_time now)"
    obtain sent1 where s1: "outgoing s1 = q" "incoming s1 = incoming s" "signing s1 = signing s"
      "wire s1 = wire s @ map (\<lambda>(t, m). relay_message lib (signing s) t m) sent1"
      "sent1 = [] \<or> sent1 = [(ts, m)]"
      "timestamp s1 = (if signing s then snd (restamp lib (Some ts) m) else ts)"
      by (rule relay_one_facts [OF one]) (simp add: ts_def)
    have order1: "sorted_wrt (<) (map fst sent1)" "\<forall>t\<in>set (map fst sent1). timestamp s \<le> t"
      using s1(5) by (auto simp: ts_def)
    show ?thesis
    proof (cases go)
      case False
      with step have "relay_send lib (Suc n) rs s = s1" by simp
      then show ?thesis
        using s1 q order1 by (intro exI [of _ "[m]"] exI [of _ sent1]) auto
    next
      case True
      with step have step': "relay_send lib (Suc n) rs s = relay_send lib n (tl rs) s1" by simp
      from s1(1) q have "ring_ok (outgoing s1)" by simp
      from Suc.IH [OF this, of "tl rs" "B + 1"] obtain taken sent where
        IH: "ring_contents q = taken @ ring_contents (outgoing (relay_send lib n (tl rs) s1))"
        "length taken \<le> n" "incoming (relay_send lib n (tl rs) s1) = incoming s"
        "wire (relay_send lib n (tl rs) s1) = wire s1 @ map (\<lambda>(t, m). relay_message lib (signing s) t m) sent"
        "subseq (map snd sent) taken"
        and stamps: "signing s \<longrightarrow> (\<forall>t m. snd (restamp lib (Some t) m) = t + 1) \<longrightarrow>
          1 \<le> B + 1 \<and> unat (timestamp s1) \<le> B + 1 \<and> (\<forall>r\<in>set (tl rs). unat (signing_time (fst r)) \<le> B + 1) \<and>
          B + 1 + n < 2 ^ 64 \<longrightarrow>
          sorted_wrt (<) (map fst sent) \<and> (\<forall>t\<in>set (map fst sent). timestamp s1 \<le> t)"
        unfolding s1(1-3) by (elim exE conjE) (rule that; assumption)
      have "sorted_wrt (<) (map fst (sent1 @ sent)) \<and> (\<forall>t\<in>set (map fst (sent1 @ sent)). timestamp s \<le> t)"
        if sg: "signing s" and lib: "\<forall>t m. snd (restamp lib (Some t) m) = t + 1"
          and B: "1 \<le> B" "unat (timestamp s) \<le> B" "B + Suc n < 2 ^ 64"
            "\<forall>r\<in>set rs. unat (signing_time (fst r)) \<le> B"
      proof -
        have now: "unat (signing_time now) \<le> B"
          using r B(1,4) by (cases rs) (auto simp: signing_time_def split: if_splits)
        have room: "B + 1 < 2 ^ 64" using B(3) by linarith
        note t1 = max_succ_u64 [OF B(2) now room, folded ts_def]
        have s1t: "timestamp s1 = ts + 1" using s1(6) sg lib by simp
        have tl: "\<forall>r\<in>set (tl rs). unat (signing_time (fst r)) \<le> B + 1"
          using B(4) by (cases rs) auto
        have "sorted_wrt (<) (map fst sent) \<and> (\<forall>t\<in>set (map fst sent). timestamp s1 \<le> t)"
          by (rule stamps [rule_format, OF sg]) (use lib tl t1(1) s1t B(3) in simp_all)
        then have sent: "sorted_wrt (<) (map fst sent)" "\<forall>t\<in>set (map fst sent). ts < t"
          "\<forall>t\<in>set (map fst sent). timestamp s \<le> t"
          using s1t t1(2,3) less_le_trans less_imp_le by metis+
        then show ?thesis using s1(5) order1 by auto
      qed
      then show ?thesis
        unfolding step' using IH s1(4,5) q
        by (intro exI [of _ "m # taken"] exI [of _ "sent1 @ sent"]) auto
    qed
  qed
qed

text \<open>The relay forwards in order: one run of the sending loop takes at most 128 messages from the
  front of the queue and puts on the wire, in their order, a subsequence of them (those whose send
  did not fail); what is queued for the local link is untouched.\<close>

theorem support_relay_order:
  assumes "ring_ok (outgoing s)"
  shows "let s' = relay_send lib QUEUE_SIZE rs s in
    \<exists>taken sent. ring_contents (outgoing s) = taken @ ring_contents (outgoing s')
      \<and> length taken \<le> 128 \<and> incoming s' = incoming s
      \<and> wire s' = wire s @ map (\<lambda>(t, m). relay_message lib (signing s) t m) sent
      \<and> subseq (map snd sent) taken"
  using relay_send_order [OF assms, of lib QUEUE_SIZE rs]
  unfolding Let_def QUEUE_SIZE_def by blast

lemma example_relay:
  fixes s :: "(u8, unit) support_mavlink"
  defines "s \<equiv> \<lparr>signing = True, outgoing = empty_queue 0, incoming = empty_queue 0, parser = (),
         timestamp = 0, link_open = True, retry = 0, wire = []\<rparr>"
  shows "ring_ok (outgoing s)" "timestamp s = 0" "signing s" "incoming s = empty_queue 0"
    "wire s = []"
  by (simp_all add: s_def empty_queue_ok)

theorem support_relay_order_witness:
  "incoming (relay_send \<lparr>restamp = (\<lambda>t m. (m, 0)), to_wire = (\<lambda>m. [m]), parse_byte = (\<lambda>p t b. (p, t, Some b))\<rparr>
       QUEUE_SIZE [] \<lparr>signing = True, outgoing = empty_queue 0, incoming = empty_queue 0, parser = (),
         timestamp = 0, link_open = True, retry = 0, wire = []\<rparr>) = empty_queue (0 :: u8)"
proof -
  let ?lib = "\<lparr>restamp = (\<lambda>t m. (m, 0)), to_wire = (\<lambda>m. [m]), parse_byte = (\<lambda>p t b. (p, t, Some b))\<rparr>"
  from support_relay_order [OF example_relay(1), of ?lib "[]"] show ?thesis
    by (auto simp: Let_def simp del: relay_send.simps)
qed

subsection \<open>Signing times\<close>

text \<open>Everything that happens to a relay after it is opened: a turn of its thread, and the calls of the
  camera application, which queue a message or take one.\<close>

datatype 'm relay_op = Turn relay_events | Queue_message 'm | Take_message

fun relay_do :: "('m, 'p) mavlink_library \<Rightarrow> 'm relay_op \<Rightarrow> ('m, 'p) support_mavlink \<Rightarrow> ('m, 'p) support_mavlink" where
  "relay_do lib (Turn ev) s = relay_turn lib ev s"
| "relay_do lib (Queue_message m) s = (case ca_support_mavlink_send (Some s) m of Some s' \<Rightarrow> s' | None \<Rightarrow> s)"
| "relay_do lib Take_message s = (case ca_support_mavlink_receive (Some s) of Some (m, s') \<Rightarrow> s' | None \<Rightarrow> s)"

text \<open>The documented laws of the library: signing a message advances the signing time by one; a verified
  message may only raise it, to the 48 bits of its own time.\<close>

definition signing_laws :: "('m, 'p) mavlink_library \<Rightarrow> bool" where
  "signing_laws lib \<longleftrightarrow> (\<forall>t m. snd (restamp lib (Some t) m) = t + 1) \<and>
     (\<forall>p t b. let t' = fst (snd (parse_byte lib p t b)) in t \<le> t' \<and> unat t' \<le> max (unat t) (2 ^ 48))"

definition clock_sane :: "'m relay_op \<Rightarrow> bool" where
  "clock_sane x \<longleftrightarrow> (case x of Turn ev \<Rightarrow> list_all (\<lambda>r. unat (signing_time (fst r)) \<le> 2 ^ 63) (sends ev) | _ \<Rightarrow> True)"

text \<open>From one state to another the messages put on the wire carry strictly increasing times, none before
  the first state's signing time, all before the second's; the time grows by at most n above 2 to the 63.\<close>

definition stamped ::
  "('m, 'p) mavlink_library \<Rightarrow> nat \<Rightarrow> ('m, 'p) support_mavlink \<Rightarrow> ('m, 'p) support_mavlink \<Rightarrow> bool" where
  "stamped lib n s s' \<longleftrightarrow> signing s' = signing s \<and> timestamp s \<le> timestamp s' \<and>
     unat (timestamp s') \<le> max (unat (timestamp s)) (2 ^ 63) + n \<and>
     (\<exists>sent. wire s' = wire s @ map (\<lambda>(t, m). relay_message lib True t m) sent \<and>
        sorted_wrt (<) (map fst sent) \<and> (\<forall>t\<in>set (map fst sent). timestamp s \<le> t \<and> t < timestamp s'))"

lemma stamped_quiet:
  "signing s' = signing s \<Longrightarrow> timestamp s' = timestamp s \<Longrightarrow> wire s' = wire s \<Longrightarrow> stamped lib n s s'"
  by (simp add: stamped_def)

lemma stamped_mono: "stamped lib n s s' \<Longrightarrow> n \<le> m \<Longrightarrow> stamped lib m s s'"
  by (auto simp: stamped_def)

lemma stamped_trans:
  assumes "stamped lib n s s1" "stamped lib m s1 s2"
  shows "stamped lib (n + m) s s2"
proof -
  obtain xs where x: "wire s1 = wire s @ map (\<lambda>(t, m). relay_message lib True t m) xs" "sorted_wrt (<) (map fst xs)"
    "\<forall>t\<in>set (map fst xs). timestamp s \<le> t \<and> t < timestamp s1" using assms(1) by (auto simp: stamped_def)
  obtain ys where y: "wire s2 = wire s1 @ map (\<lambda>(t, m). relay_message lib True t m) ys" "sorted_wrt (<) (map fst ys)"
    "\<forall>t\<in>set (map fst ys). timestamp s1 \<le> t \<and> t < timestamp s2" using assms(2) by (auto simp: stamped_def)
  have t: "timestamp s \<le> timestamp s1" "timestamp s1 \<le> timestamp s2" using assms by (simp_all add: stamped_def)
  have "\<forall>t\<in>set (map fst (xs @ ys)). timestamp s \<le> t \<and> t < timestamp s2"
    using x(3) y(3) t by (auto intro: order_trans less_le_trans)
  moreover have "sorted_wrt (<) (map fst (xs @ ys))"
    using x(2,3) y(2,3) by (auto simp: sorted_wrt_append intro: less_le_trans)
  moreover have "unat (timestamp s2) \<le> max (unat (timestamp s)) (2 ^ 63) + (n + m)"
    using assms by (auto simp: stamped_def)
  moreover have "wire s2 = wire s @ map (\<lambda>(t, m). relay_message lib True t m) (xs @ ys)" by (simp add: x(1) y(1))
  moreover have "signing s2 = signing s" using assms by (simp add: stamped_def)
  ultimately show ?thesis unfolding stamped_def using order_trans [OF t] by blast
qed

lemma relay_one_stamped:
  assumes "relay_one lib now result m q s = (go, s1)" "signing_laws lib" "signing s"
    and "unat (timestamp s) \<le> 2 ^ 63 + k" "k < 2 ^ 62" "unat (signing_time now) \<le> 2 ^ 63"
  shows "stamped lib 1 s s1"
proof -
  define ts where "ts = max (timestamp s) (signing_time now)"
  obtain sent where f: "signing s1 = signing s"
    "wire s1 = wire s @ map (\<lambda>(t, m). relay_message lib (signing s) t m) sent"
    "sent = [] \<or> sent = [(ts, m)]"
    "timestamp s1 = (if signing s then snd (restamp lib (Some ts) m) else ts)"
    unfolding ts_def by (rule relay_one_facts [OF assms(1)])
  have o: "signing s1 = signing s" "wire s1 = wire s @ map (\<lambda>(t, m). relay_message lib True t m) sent"
    "sent = [] \<or> sent = [(ts, m)]" "timestamp s1 = ts + 1"
    using f assms(2,3) by (simp_all add: signing_laws_def)
  have t: "unat ts \<le> max (unat (timestamp s)) (2 ^ 63)" using assms(6) by (auto simp: ts_def max_def)
  have "unat ts + 1 < 2 ^ 64" using t assms(4,5) by simp
  then have u: "unat (ts + 1) = unat ts + 1" by (simp add: unat_word_ariths)
  then have lt: "ts < ts + 1" by (simp add: word_less_nat_alt)
  have le: "timestamp s \<le> ts" by (simp add: ts_def)
  have "timestamp s \<le> timestamp s1" using le lt o(4) by simp
  moreover have "unat (timestamp s1) \<le> max (unat (timestamp s)) (2 ^ 63) + 1" using o(4) u t by simp
  moreover have "sorted_wrt (<) (map fst sent) \<and> (\<forall>t\<in>set (map fst sent). timestamp s \<le> t \<and> t < timestamp s1)"
    using o(3,4) le lt by auto
  ultimately show ?thesis unfolding stamped_def using o(1,2) by blast
qed

lemma relay_send_stamped:
  "signing_laws lib \<Longrightarrow> signing s \<Longrightarrow> unat (timestamp s) \<le> 2 ^ 63 + k \<Longrightarrow> k + n < 2 ^ 62 \<Longrightarrow>
   list_all (\<lambda>r. unat (signing_time (fst r)) \<le> 2 ^ 63) rs \<Longrightarrow> stamped lib n s (relay_send lib n rs s)"
proof (induction n arbitrary: rs s k)
  case 0
  show ?case by (simp add: stamped_quiet)
next
  case (Suc n)
  show ?case
  proof (cases "pop (outgoing s)")
    case None
    then show ?thesis by (simp add: stamped_quiet)
  next
    case (Some mq)
    obtain m q where p: "pop (outgoing s) = Some (m, q)" using Some by (cases mq) simp
    obtain now result where r: "(if rs = [] then (None, None) else hd rs) = (now, result)"
      by (cases "if rs = [] then (None, None) else hd rs")
    obtain go s1 where one: "relay_one lib now result m q s = (go, s1)" by (cases "relay_one lib now result m q s")
    have step: "relay_send lib (Suc n) rs s = (if go then relay_send lib n (tl rs) s1 else s1)"
      by (simp only: relay_send.simps p option.case prod.case r Let_def one)
    have c: "unat (signing_time now) \<le> 2 ^ 63" "list_all (\<lambda>r. unat (signing_time (fst r)) \<le> 2 ^ 63) (tl rs)"
      using r Suc.prems(5) by (cases rs; auto simp: signing_time_def split: if_splits)+
    have k: "k < 2 ^ 62" using Suc.prems(4) by linarith
    note s1 = relay_one_stamped [OF one Suc.prems(1-3) k c(1)]
    have b: "unat (timestamp s1) \<le> 2 ^ 63 + (k + 1)" "signing s1"
      using s1 Suc.prems(2,3) by (auto simp: stamped_def)
    have "stamped lib n s1 (relay_send lib n (tl rs) s1)"
      using Suc.IH [OF Suc.prems(1) b(2,1) _ c(2)] Suc.prems(4) by simp
    then show ?thesis using stamped_trans [OF s1] stamped_mono [OF s1, of "Suc n"] step by simp
  qed
qed

lemma relay_receive_stamped:
  "signing_laws lib \<Longrightarrow> stamped lib 0 s (relay_receive lib bs s)"
proof (induction bs arbitrary: s)
  case Nil
  show ?case by (simp add: stamped_quiet)
next
  case (Cons b bs)
  obtain p t x where r: "parse_byte lib (parser s) (timestamp s) b = (p, t, x)"
    by (cases "parse_byte lib (parser s) (timestamp s) b") auto
  have "fst (snd (parse_byte lib (parser s) (timestamp s) b)) = t" by (simp add: r)
  then have t: "timestamp s \<le> t" "unat t \<le> max (unat (timestamp s)) (2 ^ 48)"
    using Cons.prems unfolding signing_laws_def Let_def by metis+
  have t63: "unat t \<le> max (unat (timestamp s)) (2 ^ 63)" using t(2) by (rule order_trans) (simp add: max_def)
  define s1 where "s1 = s\<lparr>parser := p, timestamp := t,
     incoming := (case x of None \<Rightarrow> incoming s | Some m \<Rightarrow> push (incoming s) (fst (restamp lib None m)))\<rparr>"
  have s1: "stamped lib 0 s s1" using t(1) t63 by (simp add: s1_def stamped_def)
  have "relay_receive lib (b # bs) s = relay_receive lib bs s1" by (cases x) (simp_all add: r s1_def)
  with stamped_trans [OF s1 Cons.IH [OF Cons.prems, of s1]] show ?case by simp
qed

lemma relay_do_stamped:
  assumes "signing_laws lib" "signing s" "unat (timestamp s) \<le> 2 ^ 63 + k" "k + QUEUE_SIZE < 2 ^ 62" "clock_sane x"
  shows "stamped lib QUEUE_SIZE s (relay_do lib x s)"
proof (cases x)
  case (Turn ev)
  let ?s = "s\<lparr>link_open := True\<rparr>"
  have f: "stamped lib 0 s ?s" by (simp add: stamped_quiet)
  have "stamped lib QUEUE_SIZE ?s (relay_send lib QUEUE_SIZE (sends ev) ?s)"
    using assms Turn by (intro relay_send_stamped) (simp_all add: clock_sane_def)
  note sent = stamped_trans [OF f this]
  note got = stamped_trans [OF sent relay_receive_stamped [OF assms(1)]]
  have "stamped lib 0 s1 (s1\<lparr>link_open := False, retry := 40\<rparr>)" for s1 :: "('a, 'b) support_mavlink"
    by (simp add: stamped_quiet)
  note lost = stamped_trans [OF sent this]
  show ?thesis
    using sent got lost by (auto simp: Turn relay_turn_def Let_def stamped_quiet split: sum.split)
next
  case (Queue_message m)
  then show ?thesis by (simp add: ca_support_mavlink_send_def stamped_quiet)
next
  case Take_message
  then show ?thesis by (auto simp: ca_support_mavlink_receive_def intro: stamped_quiet split: option.split)
qed

lemma relay_run_stamped:
  "signing_laws lib \<Longrightarrow> signing s \<Longrightarrow> unat (timestamp s) \<le> 2 ^ 63 + k \<Longrightarrow> k + QUEUE_SIZE * length xs < 2 ^ 62 \<Longrightarrow>
   list_all clock_sane xs \<Longrightarrow> stamped lib (QUEUE_SIZE * length xs) s (fold (relay_do lib) xs s)"
proof (induction xs arbitrary: s k)
  case Nil
  show ?case by (simp add: stamped_quiet)
next
  case (Cons x xs)
  let ?s1 = "relay_do lib x s"
  have s1: "stamped lib QUEUE_SIZE s ?s1" using Cons.prems by (intro relay_do_stamped [of _ _ k]) simp_all
  have "stamped lib (QUEUE_SIZE * length xs) ?s1 (fold (relay_do lib) xs ?s1)"
    using Cons.prems s1 by (intro Cons.IH [of _ "k + QUEUE_SIZE"]) (auto simp: stamped_def)
  from stamped_trans [OF s1 this] show ?case by (simp add: add.commute)
qed

text \<open>C13: signing times are never reused. Over any run of a signing relay, with any sequence of turns of
  its thread, whatever is queued, received or fails, connections that break and are made again included,
  and whatever the clock does, the messages put on the wire carry strictly increasing times, none
  before the time the run started with; and the signing time at its end lies beyond all of them, so that
  the same holds for whatever is sent later. (The library advances the signing time by one for each
  message it signs, and a received message only raises it; the run is shorter than 2 to the 55
  operations.)\<close>

theorem support_stamps_increase:
  assumes "signing_laws lib" and "signing s" and "unat (timestamp s) \<le> 2 ^ 63"
    and "list_all clock_sane xs" and "length xs < 2 ^ 55"
  shows "let s' = fold (relay_do lib) xs s in
     \<exists>sent. wire s' = wire s @ map (\<lambda>(t, m). relay_message lib True t m) sent
      \<and> sorted_wrt (<) (map fst sent)
      \<and> list_all (\<lambda>t. timestamp s \<le> t \<and> t < timestamp s') (map fst sent)
      \<and> timestamp s \<le> timestamp s' \<and> signing s'"
proof -
  have "stamped lib (QUEUE_SIZE * length xs) s (fold (relay_do lib) xs s)"
    using assms by (intro relay_run_stamped [of _ _ 0]) (simp_all add: QUEUE_SIZE_def)
  then show ?thesis using assms(2) by (simp add: stamped_def Let_def list_all_iff)
qed

definition example_library :: "(u8, unit) mavlink_library" where
  "example_library = \<lparr>restamp = (\<lambda>t m. (m, case t of None \<Rightarrow> 0 | Some t \<Rightarrow> t + 1)), to_wire = (\<lambda>m. [m]),
     parse_byte = (\<lambda>p t b. (p, t, Some b))\<rparr>"

definition example_run :: "u8 relay_op list" where
  "example_run = [Queue_message 1, Queue_message 2,
     Turn \<lparr>connects = True, sends = [(Some (1420070401, 0), None), (None, Some ECONNRESET)], readable = False, received = Inr []\<rparr>,
     Queue_message 3, Turn \<lparr>connects = True, sends = [], readable = True, received = Inr [9]\<rparr>]"

theorem support_stamps_increase_witness:
  "\<exists>sent. wire (fold (relay_do example_library) example_run \<lparr>signing = True, outgoing = empty_queue 0, incoming = empty_queue 0,
         parser = (), timestamp = 0, link_open = False, retry = 0, wire = []\<rparr>) = map (\<lambda>(t, m). [m]) sent
      \<and> sorted_wrt (<) (map fst (sent :: (u64 \<times> u8) list))"
proof -
  have l: "signing_laws example_library" by (simp add: signing_laws_def example_library_def Let_def)
  have c: "list_all clock_sane example_run" by (simp add: example_run_def clock_sane_def signing_time_def)
  show ?thesis
    using support_stamps_increase [OF l _ _ c, of "\<lparr>signing = True, outgoing = empty_queue 0, incoming = empty_queue 0,
         parser = (), timestamp = 0, link_open = False, retry = 0, wire = []\<rparr>"]
    by (auto simp: relay_message_def example_library_def Let_def) (auto simp: example_run_def)
qed

end
