(* ===== verification/Autofocus.thy ===== *)
theory Autofocus
  imports AP_Prelude
begin

text \<open>
  The contrast autofocus search, \<^verbatim>\<open>camera_app/src/media/autofocus.c\<close>: a coarse pass over the lens
  range, a fine pass around its best position, and a move to the best position of the fine pass.
  The lens is a parameter, its two operations and the state they work on. Positions are integers;
  where C computes a signed sum or difference that may leave the 32-bit range the model tests it
  and stops with \<^verbatim>\<open>Fault\<close>, since the behaviour is undefined there. The coarse loop is written
  without a bound, so that it returns is a theorem.
\<close>

record 's autofocus_ops =
  move :: "int \<Rightarrow> 's \<Rightarrow> errno option \<times> 's"
  measure :: "'s \<Rightarrow> (errno + u64) \<times> 's"

record autofocus_result =
  position :: int
  score :: u64
  samples :: u32

record 's autofocus =
  best_score :: u64
  best_position :: int
  have_best :: bool
  sampled :: u32
  lens :: 's

datatype stop = Fault | Failed errno

definition int_ok :: "int \<Rightarrow> bool" where
  "int_ok i \<longleftrightarrow> - (2 ^ 31) \<le> i \<and> i < 2 ^ 31"

definition better :: "u64 \<Rightarrow> int \<Rightarrow> u64 \<Rightarrow> int \<Rightarrow> int \<Rightarrow> bool \<Rightarrow> bool" where
  "better sc pos bscore bpos initial have =
     (if \<not> have \<or> bscore < sc then True
      else if sc < bscore then False
      else abs (pos - initial) < abs (bpos - initial))"

definition sample_position ::
  "'s autofocus_ops \<Rightarrow> int \<Rightarrow> int \<Rightarrow> 's autofocus \<Rightarrow> stop option \<times> 's autofocus" where
  "sample_position ops pos initial s =
     (case move ops pos (lens s) of
        (Some e, d) \<Rightarrow> (Some (Failed e), s\<lparr>lens := d\<rparr>)
      | (None, d) \<Rightarrow>
          (case measure ops d of
             (Inl e, d') \<Rightarrow> (Some (Failed e), s\<lparr>lens := d'\<rparr>)
           | (Inr sc, d') \<Rightarrow>
               let s1 = s\<lparr>lens := d', sampled := sampled s + 1\<rparr> in
               (None, if better sc pos (best_score s) (best_position s) initial (have_best s)
                      then s1\<lparr>best_score := sc, best_position := pos, have_best := True\<rparr> else s1)))"

partial_function (option) coarse_pass ::
  "'s autofocus_ops \<Rightarrow> int \<Rightarrow> int \<Rightarrow> int \<Rightarrow> int \<Rightarrow> 's autofocus \<Rightarrow> (stop option \<times> 's autofocus) option" where
  "coarse_pass ops maximum step initial pos s =
     (let (failure, s1) = sample_position ops pos initial s in
      if failure \<noteq> None then Some (failure, s1)
      else if pos = maximum then Some (None, s1)
      else if \<not> int_ok (maximum - pos) then Some (Some Fault, s1)
      else coarse_pass ops maximum step initial (if maximum - pos \<le> step then maximum else pos + step) s1)"

function fine_pass ::
  "'s autofocus_ops \<Rightarrow> int \<Rightarrow> int \<Rightarrow> int \<Rightarrow> 's autofocus \<Rightarrow> stop option \<times> 's autofocus" where
  "fine_pass ops refine_max initial pos s =
     (if refine_max < pos then (None, s)
      else
        let (failure, s1) = sample_position ops pos initial s in
        if failure \<noteq> None then (failure, s1)
        else if \<not> int_ok (pos + 1) then (Some Fault, s1)
        else fine_pass ops refine_max initial (pos + 1) s1)"
  by pat_completeness auto
termination by (relation "Wellfounded.measure (\<lambda>(ops, m, i, p, s). nat (m + 1 - p))") auto

declare fine_pass.simps [simp del]

text \<open>The exit of the function: on a failure the lens goes back, whatever that move answers.\<close>

definition search_fail :: "'s autofocus_ops \<Rightarrow> int \<Rightarrow> stop \<Rightarrow> 's \<Rightarrow> (stop + autofocus_result) \<times> 's" where
  "search_fail ops initial failure d = (Inl failure, if failure = Fault then d else snd (move ops initial d))"

text \<open>\<^term>\<open>pointers\<close> says that \<^verbatim>\<open>ops\<close>, its two functions and \<^verbatim>\<open>result\<close> are not null. The value is
  None exactly when the function does not return.\<close>

definition ca_autofocus_search ::
  "int \<Rightarrow> int \<Rightarrow> int \<Rightarrow> u32 \<Rightarrow> bool \<Rightarrow> 's autofocus_ops \<Rightarrow> 's \<Rightarrow> ((stop + autofocus_result) \<times> 's) option" where
  "ca_autofocus_search minimum maximum initial coarse_step pointers ops d =
     (let span = maximum - minimum + 1; step = uint coarse_step in
      if maximum < minimum \<or> initial < minimum \<or> maximum < initial \<or> coarse_step = 0 \<or> span < step
         \<or> 2 ^ 31 - 1 < step \<or> \<not> pointers
      then Some (Inl (Failed EINVAL), d)
      else
        case coarse_pass ops maximum step initial minimum
          \<lparr>best_score = 0, best_position = initial, have_best = False, sampled = 0, lens = d\<rparr> of
          None \<Rightarrow> None
        | Some (Some failure, s) \<Rightarrow> Some (search_fail ops initial failure (lens s))
        | Some (None, s) \<Rightarrow>
            let refine_min = best_position s - step; refine_max = best_position s + step in
            if \<not> int_ok refine_min \<or> \<not> int_ok refine_max then Some (Inl Fault, lens s)
            else
              (case fine_pass ops (if maximum < refine_max then maximum else refine_max) initial
                 (if refine_min < minimum then minimum else refine_min) (s\<lparr>have_best := False\<rparr>) of
                 (Some failure, s) \<Rightarrow> Some (search_fail ops initial failure (lens s))
               | (None, s) \<Rightarrow>
                   (case move ops (best_position s) (lens s) of
                      (Some e, d) \<Rightarrow> Some (search_fail ops initial (Failed e) d)
                    | (None, d) \<Rightarrow>
                        Some (Inr \<lparr>position = best_position s, score = best_score s, samples = sampled s\<rparr>, d))))"

subsection \<open>The two passes\<close>

lemma uint_positive: "(w :: u32) \<noteq> 0 \<Longrightarrow> 0 < uint w"
  using uint_ge_0 [of w] by (metis order_le_less unsigned_eq_0_iff)

text \<open>What a pass keeps: no fault, and a best position among those visited.\<close>

definition best_in :: "int set \<Rightarrow> 's autofocus \<Rightarrow> bool" where
  "best_in P s \<longleftrightarrow> (have_best s \<longrightarrow> best_position s \<in> P)"

lemma sample_position_cases:
  obtains e s1 where "sample_position ops pos initial s = (Some (Failed e), s1)"
  | s1 where "sample_position ops pos initial s = (None, s1)" "have_best s1"
      "best_position s1 = pos \<or> have_best s \<and> best_position s1 = best_position s"
proof -
  obtain m d where m: "move ops pos (lens s) = (m, d)" by (cases "move ops pos (lens s)")
  obtain r d' where r: "measure ops d = (r, d')" by (cases "measure ops d")
  show thesis
  proof (cases m)
    case (Some e)
    with m show ?thesis by (intro that(1)) (simp add: sample_position_def)
  next
    case None
    show ?thesis
    proof (cases r)
      case (Inl e)
      with m r None show ?thesis by (intro that(1)) (simp add: sample_position_def)
    next
      case (Inr sc)
      with m r None show ?thesis
        by (intro that(2)) (auto simp: sample_position_def Let_def better_def split: if_splits)
    qed
  qed
qed

lemma coarse_pass_returns:
  assumes "0 < step" "minimum \<le> pos" "pos \<le> maximum" "maximum - minimum < 2 ^ 31"
    and "best_in {minimum..maximum} s"
  shows "\<exists>r s'. coarse_pass ops maximum step initial pos s = Some (r, s') \<and> r \<noteq> Some Fault
    \<and> (r = None \<longrightarrow> best_position s' \<in> {minimum..maximum})"
  using assms(2,3,5)
proof (induction "nat (maximum - pos)" arbitrary: pos s rule: less_induct)
  case less
  have ok: "int_ok (maximum - pos)" using less.prems assms(4) by (simp add: int_ok_def)
  show ?case
  proof (cases rule: sample_position_cases [of ops pos initial s])
    case (1 e s1)
    then show ?thesis by (subst coarse_pass.simps) simp
  next
    case (2 s1)
    have b: "best_in {minimum..maximum} s1" "best_position s1 \<in> {minimum..maximum}"
      using 2(2,3) less.prems by (auto simp: best_in_def)
    show ?thesis
    proof (cases "pos = maximum")
      case True
      with 2 b show ?thesis by (subst coarse_pass.simps) simp
    next
      case False
      let ?next = "if maximum - pos \<le> step then maximum else pos + step"
      have n: "minimum \<le> ?next" "?next \<le> maximum" "nat (maximum - ?next) < nat (maximum - pos)"
        using less.prems False assms(1) by auto
      have "coarse_pass ops maximum step initial pos s = coarse_pass ops maximum step initial ?next s1"
        using 2 False ok by (subst coarse_pass.simps) simp
      with less.hyps [OF n(3,1,2) b(1)] show ?thesis by simp
    qed
  qed
qed

lemma fine_pass_safe:
  assumes "refine_max < 2 ^ 31 - 1" "- (2 ^ 31) \<le> pos" "lo \<le> pos"
    and "best_in {lo..refine_max} s" "have_best s \<or> pos \<le> refine_max"
  shows "fst (fine_pass ops refine_max initial pos s) \<noteq> Some Fault
    \<and> (fst (fine_pass ops refine_max initial pos s) = None \<longrightarrow>
        best_position (snd (fine_pass ops refine_max initial pos s)) \<in> {lo..refine_max})"
  using assms
proof (induction ops refine_max initial pos s rule: fine_pass.induct)
  case (1 ops refine_max initial pos s)
  show ?case
  proof (cases "refine_max < pos")
    case True
    then show ?thesis using 1(6,5) by (simp add: fine_pass.simps best_in_def)
  next
    case False
    have ok: "int_ok (pos + 1)" using False 1(2,3) by (simp add: int_ok_def)
    show ?thesis
    proof (cases rule: sample_position_cases [of ops pos initial s])
      case (1 e s1)
      then show ?thesis using False by (subst (1 2 3) fine_pass.simps) simp
    next
      case (2 s1)
      have step: "fine_pass ops refine_max initial pos s = fine_pass ops refine_max initial (pos + 1) s1"
        using False 2 ok by (subst fine_pass.simps) simp
      have "best_in {lo..refine_max} s1" using 2 1(4,5) False by (auto simp: best_in_def)
      then show ?thesis
        unfolding step using 1(1) [OF False refl 2(1) [symmetric]] 1(2-4) ok 2 by simp
    qed
  qed
qed

subsection \<open>A lens whose sharpness depends on its position only\<close>

definition still_lens :: "(int \<Rightarrow> u64) \<Rightarrow> int autofocus_ops" where
  "still_lens f = \<lparr>move = (\<lambda>p _. (None, p)), measure = (\<lambda>p. (Inr (f p), p))\<rparr>"

definition best_of :: "(int \<Rightarrow> u64) \<Rightarrow> int set \<Rightarrow> 's autofocus \<Rightarrow> bool" where
  "best_of f P s \<longleftrightarrow> have_best s = (P \<noteq> {})
     \<and> (P \<noteq> {} \<longrightarrow> best_position s \<in> P \<and> best_score s = f (best_position s) \<and> (\<forall>p\<in>P. f p \<le> best_score s))"

lemma sample_still:
  assumes "best_of f P s"
  shows "\<exists>s'. sample_position (still_lens f) p initial s = (None, s') \<and> best_of f (insert p P) s'
    \<and> sampled s' = sampled s + 1"
  using assms
  by (auto simp: sample_position_def still_lens_def Let_def better_def best_of_def intro: order_trans less_imp_le)

lemma coarse_pass_still:
  assumes "0 < step" "p \<le> maximum" "maximum - p < 2 ^ 31" "best_of f P s"
  shows "\<exists>s' Q. coarse_pass (still_lens f) maximum step initial p s = Some (None, s') \<and> best_of f (P \<union> Q) s'
    \<and> Q \<subseteq> {p..maximum} \<and> (\<forall>q\<in>{p..maximum}. \<exists>a\<in>Q. \<exists>b\<in>Q. a \<le> q \<and> q \<le> b \<and> b - a \<le> step)"
  using assms(2-4)
proof (induction "nat (maximum - p)" arbitrary: p s P rule: less_induct)
  case less
  obtain s1 where s1: "sample_position (still_lens f) p initial s = (None, s1)" "best_of f (insert p P) s1"
    using sample_still [OF less.prems(3)] by blast
  show ?case
  proof (cases "p = maximum")
    case True
    with s1 have "coarse_pass (still_lens f) maximum step initial p s = Some (None, s1)"
      by (subst coarse_pass.simps) simp
    with s1 True assms(1) show ?thesis
      by (intro exI [of _ s1] exI [of _ "{p}"]) auto
  next
    case False
    let ?next = "if maximum - p \<le> step then maximum else p + step"
    have n: "nat (maximum - ?next) < nat (maximum - p)" "?next \<le> maximum" "p < ?next" "?next - p \<le> step"
      using less.prems False assms(1) by auto
    have room: "maximum - ?next < 2 ^ 31" using n less.prems by linarith
    obtain s' Q where IH: "coarse_pass (still_lens f) maximum step initial ?next s1 = Some (None, s')"
      "best_of f (insert p P \<union> Q) s'" "Q \<subseteq> {?next..maximum}"
      "\<forall>q\<in>{?next..maximum}. \<exists>a\<in>Q. \<exists>b\<in>Q. a \<le> q \<and> q \<le> b \<and> b - a \<le> step"
      using less.hyps [OF n(1,2) room s1(2)] by blast
    have "coarse_pass (still_lens f) maximum step initial p s = Some (None, s')"
      using s1(1) False IH(1) less.prems by (subst coarse_pass.simps) (simp add: int_ok_def)
    moreover have "\<exists>a\<in>insert p Q. \<exists>b\<in>insert p Q. a \<le> q \<and> q \<le> b \<and> b - a \<le> step"
      if "q \<in> {p..maximum}" for q
    proof (cases "?next \<le> q")
      case True
      with that IH(4) show ?thesis by auto
    next
      case q: False
      have "?next \<in> {?next..maximum}" using n(2) by simp
      with IH(4) obtain a where "a \<in> Q" "a \<le> ?next" by blast
      with IH(3) have "?next \<in> Q" by (auto dest: subsetD intro: antisym)
      with q that n(3,4) show ?thesis by (intro bexI [of _ p] bexI [of _ ?next]) auto
    qed
    moreover have "insert p Q \<subseteq> {p..maximum}" using IH(3) n less.prems(1) by force
    ultimately show ?thesis
      using IH(2) by (intro exI [of _ s'] exI [of _ "insert p Q"]) auto
  qed
qed

lemma fine_pass_still:
  assumes "best_of f P s" "refine_max < 2 ^ 31 - 1" "- (2 ^ 31) \<le> p"
  shows "\<exists>s'. fine_pass (still_lens f) refine_max initial p s = (None, s') \<and> best_of f (P \<union> {p..refine_max}) s'"
  using assms(1,3)
proof (induction "nat (refine_max + 1 - p)" arbitrary: p s P rule: less_induct)
  case less
  show ?case
  proof (cases "refine_max < p")
    case True
    with less.prems show ?thesis by (intro exI [of _ s]) (simp add: fine_pass.simps)
  next
    case False
    obtain s1 where s1: "sample_position (still_lens f) p initial s = (None, s1)" "best_of f (insert p P) s1"
      using sample_still [OF less.prems(1)] by blast
    have n: "nat (refine_max + 1 - (p + 1)) < nat (refine_max + 1 - p)" "- (2 ^ 31) \<le> p + 1"
      using False less.prems by auto
    have "fine_pass (still_lens f) refine_max initial p s = fine_pass (still_lens f) refine_max initial (p + 1) s1"
      using False s1(1) less.prems assms(2) by (subst fine_pass.simps) (simp add: int_ok_def)
    moreover have "insert p P \<union> {p + 1..refine_max} = P \<union> {p..refine_max}" using False by auto
    ultimately show ?thesis using less.hyps [OF n(1) s1(2) n(2)] by simp
  qed
qed

definition single_peaked :: "(int \<Rightarrow> u64) \<Rightarrow> int \<Rightarrow> int \<Rightarrow> int \<Rightarrow> bool" where
  "single_peaked f lo peak hi \<longleftrightarrow> lo \<le> peak \<and> peak \<le> hi
     \<and> (\<forall>a b. lo \<le> a \<and> a < b \<and> b \<le> peak \<longrightarrow> f a < f b)
     \<and> (\<forall>a b. peak \<le> a \<and> a < b \<and> b \<le> hi \<longrightarrow> f b < f a)"

lemma best_near_peak:
  assumes peak: "single_peaked f lo peak hi" and best: "best_of f Q s" and Q: "Q \<subseteq> {lo..hi}"
    and dense: "\<forall>q\<in>{lo..hi}. \<exists>a\<in>Q. \<exists>b\<in>Q. a \<le> q \<and> q \<le> b \<and> b - a \<le> step"
  shows "abs (peak - best_position s) \<le> step" and "best_position s \<in> {lo..hi}"
proof -
  have "peak \<in> {lo..hi}" using peak by (simp add: single_peaked_def)
  with dense obtain a b where ab: "a \<in> Q" "b \<in> Q" "a \<le> peak" "peak \<le> b" "b - a \<le> step" by blast
  let ?c = "best_position s"
  have c: "?c \<in> Q" "f a \<le> f ?c" "f b \<le> f ?c" using best ab by (auto simp: best_of_def)
  then show "?c \<in> {lo..hi}" using Q by blast
  then have "lo \<le> ?c" "?c \<le> hi" by auto
  then have "a \<le> ?c" "?c \<le> b"
    using peak c ab unfolding single_peaked_def by (meson not_le)+
  with ab show "abs (peak - ?c) \<le> step" by linarith
qed

lemma best_is_peak:
  assumes "single_peaked f lo peak hi" and "best_of f P s" and "P \<subseteq> {lo..hi}" and "peak \<in> P"
  shows "best_position s = peak"
proof -
  have c: "best_position s \<in> P" "f peak \<le> f (best_position s)" using assms(2,4) by (auto simp: best_of_def)
  then have "lo \<le> best_position s" "best_position s \<le> hi" using assms(3) by auto
  with assms(1) c show ?thesis
    unfolding single_peaked_def by (meson linorder_neq_iff not_le order_refl)
qed

subsection \<open>Properties\<close>

text \<open>C14: the search finds the sharpest position: on a range of less than 2^29 either side of
  zero, for every starting position and coarse step it accepts, and a lens whose sharpness rises
  strictly up to one position and falls strictly after it, it succeeds, reports exactly that
  position with its sharpness, and leaves the lens there.\<close>

theorem autofocus_finds_peak:
  assumes "single_peaked f minimum peak maximum" and "minimum \<le> initial" and "initial \<le> maximum"
    and "- (2 ^ 29) \<le> minimum" and "maximum < 2 ^ 29"
    and "coarse_step \<noteq> 0" and "uint coarse_step \<le> maximum - minimum + 1"
  shows "\<exists>n. ca_autofocus_search minimum maximum initial coarse_step True (still_lens f) d =
    Some (Inr \<lparr>position = peak, score = f peak, samples = n\<rparr>, peak)"
proof -
  let ?step = "uint coarse_step"
  let ?s0 = "\<lparr>best_score = 0, best_position = initial, have_best = False, sampled = 0, lens = d\<rparr> :: int autofocus"
  have step: "0 < ?step" using assms(6) by (rule uint_positive)
  have "best_of f {} ?s0" by (simp add: best_of_def)
  then obtain s Q where coarse: "coarse_pass (still_lens f) maximum ?step initial minimum ?s0 = Some (None, s)"
    "best_of f Q s" "Q \<subseteq> {minimum..maximum}"
    "\<forall>q\<in>{minimum..maximum}. \<exists>a\<in>Q. \<exists>b\<in>Q. a \<le> q \<and> q \<le> b \<and> b - a \<le> ?step"
    using coarse_pass_still [OF step, of minimum maximum f "{}" ?s0 initial] assms(2-5) by auto
  note near = best_near_peak [OF assms(1) coarse(2-4)]
  let ?lo = "if best_position s - ?step < minimum then minimum else best_position s - ?step"
  let ?hi = "if maximum < best_position s + ?step then maximum else best_position s + ?step"
  have ok: "int_ok (best_position s - ?step)" "int_ok (best_position s + ?step)"
    using near(2) assms(4,5,7) step by (auto simp: int_ok_def)
  have "best_of f {} (s\<lparr>have_best := False\<rparr>)" by (simp add: best_of_def)
  moreover have "?hi < 2 ^ 31 - 1" "- (2 ^ 31) \<le> ?lo" using assms(4,5) by auto
  ultimately obtain s' where fine: "fine_pass (still_lens f) ?hi initial ?lo (s\<lparr>have_best := False\<rparr>) = (None, s')"
    "best_of f {?lo..?hi} s'"
    using fine_pass_still [of f "{}" "s\<lparr>have_best := False\<rparr>" ?hi ?lo initial] by auto
  have range: "{?lo..?hi} \<subseteq> {minimum..maximum}" by auto
  have "minimum \<le> peak" "peak \<le> maximum" using assms(1) by (simp_all add: single_peaked_def)
  then have "peak \<in> {?lo..?hi}" using near(1) by auto
  note best = best_is_peak [OF assms(1) fine(2) range this]
  have "best_score s' = f peak" using fine(2) best \<open>peak \<in> {?lo..?hi}\<close> by (auto simp: best_of_def)
  moreover have "autofocus_ops.move (still_lens f) peak (lens s') = (None, peak)"
    by (simp add: still_lens_def)
  ultimately show ?thesis
    using coarse(1) fine(1) ok best assms(2-7)
    by (simp add: ca_autofocus_search_def Let_def)
qed

theorem autofocus_finds_peak_witness:
  "\<exists>n. ca_autofocus_search 59 68 62 3 True (still_lens (\<lambda>p. of_nat (100 - nat (abs (p - 65))))) 62 =
    Some (Inr \<lparr>position = 65, score = 100, samples = n\<rparr>, 65)"
proof -
  let ?f = "\<lambda>p. of_nat (100 - nat (abs (p - 65))) :: u64"
  have "single_peaked ?f 59 65 68"
    by (auto simp: single_peaked_def word_less_nat_alt unat_of_nat)
  then show ?thesis using autofocus_finds_peak [of ?f 59 65 68 62 3 62] by simp
qed

text \<open>C15: the search always ends and fails safely: for every lens, whatever its operations answer, it
  returns; on a range of less than 2^29 either side of zero it never overflows; a success reports
  a position inside the range; and after a failure of the lens its last command is a move back to
  the starting position.\<close>

theorem autofocus_safe:
  assumes "- (2 ^ 29) \<le> minimum" and "maximum < 2 ^ 29"
  shows "\<exists>r d'. ca_autofocus_search minimum maximum initial coarse_step pointers ops d = Some (r, d')
    \<and> (case r of
         Inl Fault \<Rightarrow> False
       | Inl (Failed e) \<Rightarrow>
           e = EINVAL \<and> d' = d \<or> (\<exists>d1. d' = snd (move ops initial d1))
       | Inr found \<Rightarrow> minimum \<le> position found \<and> position found \<le> maximum)"
proof -
  let ?step = "uint coarse_step"
  let ?s0 = "\<lparr>best_score = 0, best_position = initial, have_best = False, sampled = 0, lens = d\<rparr>"
  let ?bad = "maximum < minimum \<or> initial < minimum \<or> maximum < initial \<or> coarse_step = 0
    \<or> maximum - minimum + 1 < ?step \<or> 2 ^ 31 - 1 < ?step \<or> \<not> pointers"
  show ?thesis
  proof (cases ?bad)
    case True
    then have "ca_autofocus_search minimum maximum initial coarse_step pointers ops d = Some (Inl (Failed EINVAL), d)"
      unfolding ca_autofocus_search_def Let_def by (simp only: if_True)
    then show ?thesis by simp
  next
    case False
    then have range: "minimum \<le> maximum" "0 < ?step" "?step \<le> maximum - minimum + 1"
      using uint_positive [of coarse_step] by auto
    obtain r s where coarse: "coarse_pass ops maximum ?step initial minimum ?s0 = Some (r, s)" "r \<noteq> Some Fault"
      "r = None \<Longrightarrow> best_position s \<in> {minimum..maximum}"
      using coarse_pass_returns [OF range(2) order.refl range(1), of ?s0 ops initial] assms
      by (auto simp: best_in_def)
    note start = ca_autofocus_search_def [of minimum maximum initial coarse_step pointers ops d, unfolded Let_def if_not_P [OF False] coarse(1)]
    show ?thesis
    proof (cases r)
      case (Some failure)
      with coarse(2) start show ?thesis by (cases failure) (auto simp: search_fail_def)
    next
      case None
      with coarse(3) have b: "minimum \<le> best_position s" "best_position s \<le> maximum" by auto
      let ?lo = "if best_position s - ?step < minimum then minimum else best_position s - ?step"
      let ?hi = "if maximum < best_position s + ?step then maximum else best_position s + ?step"
      have ok: "int_ok (best_position s - ?step)" "int_ok (best_position s + ?step)"
        using b assms range by (auto simp: int_ok_def)
      obtain r' s' where fine: "fine_pass ops ?hi initial ?lo (s\<lparr>have_best := False\<rparr>) = (r', s')"
        by (cases "fine_pass ops ?hi initial ?lo (s\<lparr>have_best := False\<rparr>)")
      have "?hi < 2 ^ 31 - 1" "- (2 ^ 31) \<le> ?lo" "?lo \<le> ?hi" using assms b range by auto
      then have safe: "r' \<noteq> Some Fault" "r' = None \<longrightarrow> best_position s' \<in> {?lo..?hi}"
        using fine_pass_safe [of ?hi ?lo ?lo "s\<lparr>have_best := False\<rparr>" ops initial] fine
        by (simp_all add: best_in_def)
      have sub: "{?lo..?hi} \<subseteq> {minimum..maximum}" by auto
      note start' = start [unfolded None, simplified ok fine option.case prod.case simp_thms if_False]
      show ?thesis
      proof (cases r')
        case (Some failure)
        with safe(1) start' show ?thesis by (cases failure) (auto simp: search_fail_def)
      next
        case r': None
        with safe(2) sub have "best_position s' \<in> {minimum..maximum}" by blast
        then show ?thesis
          using start' r'
          by (cases "move ops (best_position s') (lens s')"; cases "fst (move ops (best_position s') (lens s'))")
            (auto simp: search_fail_def)
      qed
    qed
  qed
qed

theorem autofocus_safe_witness:
  "\<exists>r d'. ca_autofocus_search 0 9 4 3 True \<lparr>move = (\<lambda>p n. (if n = 5 then Some EIO else None, n + 1)),
     measure = (\<lambda>n. (Inr 7, n))\<rparr> (0 :: nat) = Some (r, d') \<and> r \<noteq> Inl Fault"
proof -
  let ?ops = "\<lparr>move = (\<lambda>p n. (if n = 5 then Some EIO else None, n + 1)), measure = (\<lambda>n. (Inr 7, n))\<rparr>
    :: nat autofocus_ops"
  obtain r d' where *: "ca_autofocus_search 0 9 4 3 True ?ops 0 = Some (r, d')"
    "case r of Inl Fault \<Rightarrow> False | Inl (Failed e) \<Rightarrow> True | Inr found \<Rightarrow> True"
    using autofocus_safe [of 0 9 4 3 True ?ops 0] by (fastforce split: sum.splits stop.splits)
  then have "r \<noteq> Inl Fault" by (auto split: sum.splits stop.splits)
  with * show ?thesis by blast
qed

text \<open>The signed differences are not guarded: on the widest range the argument checks accept, from
  the smallest to the largest int, the search overflows after its first sample, whatever the
  sharpness.\<close>

theorem autofocus_range_overflow:
  "ca_autofocus_search (- (2 ^ 31)) (2 ^ 31 - 1) 0 1 True (still_lens f) d = Some (Inl Fault, - (2 ^ 31))"
  by (simp add: ca_autofocus_search_def Let_def, subst coarse_pass.simps)
    (simp add: sample_position_def still_lens_def better_def int_ok_def search_fail_def)

end
