(* ===== verification/Manual_Control.thy ===== *)
theory Manual_Control
  imports AP_Prelude Complex_Main
begin

text \<open>
  The web server's manual gimbal control, \<^verbatim>\<open>camera_app/src/protocol/manual_control.c\<close> with the
  packet of \<^verbatim>\<open>include/apcam/manual_control.h\<close>: a lease with a random token, pulses that stop by
  themselves, and the loop that serves the loopback socket. The monotonic clock, the answers of the
  camera backend and \<^verbatim>\<open>/dev/urandom\<close> are parameters, read by the number of the call; the calls to
  the backend are recorded in a trace. A float is its exact rational value, None when it is
  infinite or not a number, and the one multiplication the code does is rounded as IEEE single
  precision rounds it on the range of its results.
\<close>

definition APCAM_MANUAL_MAGIC :: u32 where "APCAM_MANUAL_MAGIC = 0x4d434131"
definition APCAM_MANUAL_LEASE_MS :: u64 where "APCAM_MANUAL_LEASE_MS = 5000"
definition APCAM_MANUAL_PULSE_MS :: u64 where "APCAM_MANUAL_PULSE_MS = 180"

definition APCAM_MANUAL_ACQUIRE :: u32 where "APCAM_MANUAL_ACQUIRE = 1"
definition APCAM_MANUAL_RENEW :: u32 where "APCAM_MANUAL_RENEW = 2"
definition APCAM_MANUAL_RELEASE :: u32 where "APCAM_MANUAL_RELEASE = 3"
definition APCAM_MANUAL_LEFT :: u32 where "APCAM_MANUAL_LEFT = 4"
definition APCAM_MANUAL_RIGHT :: u32 where "APCAM_MANUAL_RIGHT = 5"
definition APCAM_MANUAL_UP :: u32 where "APCAM_MANUAL_UP = 6"
definition APCAM_MANUAL_DOWN :: u32 where "APCAM_MANUAL_DOWN = 7"
definition APCAM_MANUAL_CENTER :: u32 where "APCAM_MANUAL_CENTER = 8"
definition APCAM_MANUAL_ZOOM :: u32 where "APCAM_MANUAL_ZOOM = 9"

lemmas manual_actions = APCAM_MANUAL_ACQUIRE_def APCAM_MANUAL_RENEW_def APCAM_MANUAL_RELEASE_def
  APCAM_MANUAL_LEFT_def APCAM_MANUAL_RIGHT_def APCAM_MANUAL_UP_def APCAM_MANUAL_DOWN_def
  APCAM_MANUAL_CENTER_def APCAM_MANUAL_ZOOM_def

record manual_packet =
  magic :: u32
  action :: u32
  p_token :: bytes
  p_value :: "rat option"
  result :: int

datatype backend_call = SetRates rat rat | SetNeutral | SetZoom rat | Suspend

record manual_control =
  fd_open :: bool
  active :: bool
  executing :: bool
  token :: bytes
  expires_ms :: u64
  stop_ms :: u64
  calls :: nat
  trace :: "(backend_call \<times> int) list"

record environment =
  clock :: "nat \<Rightarrow> u64"
  answer :: "nat \<Rightarrow> int"
  urandom :: "nat \<Rightarrow> (errno + bytes) list option"
  zoom_max :: rat

definition now_ms :: "environment \<Rightarrow> manual_control \<Rightarrow> u64 \<times> manual_control" where
  "now_ms env c = (clock env (calls c), c\<lparr>calls := calls c + 1\<rparr>)"

definition backend :: "environment \<Rightarrow> backend_call \<Rightarrow> manual_control \<Rightarrow> int \<times> manual_control" where
  "backend env call c =
     (answer env (calls c),
      c\<lparr>calls := calls c + 1, trace := trace c @ [(call, answer env (calls c))]\<rparr>)"

definition stop_motion :: "environment \<Rightarrow> manual_control \<Rightarrow> int \<times> manual_control" where
  "stop_motion env c =
     (let (r, c1) = backend env (SetRates 0 0) (c\<lparr>executing := True\<rparr>);
          c2 = c1\<lparr>executing := False\<rparr>
      in if r \<noteq> 0
         then let (t, c3) = now_ms env c2 in (r, c3\<lparr>stop_ms := t + 20\<rparr>)
         else (r, c2\<lparr>stop_ms := 0\<rparr>))"

text \<open>The read loop of \<^verbatim>\<open>token_create\<close>: what each \<^verbatim>\<open>read\<close> gives, until 16 bytes are there. The
  second value is the buffer it leaves.\<close>

fun token_read :: "(errno + bytes) list \<Rightarrow> nat \<Rightarrow> bytes \<Rightarrow> bool \<times> bytes" where
  "token_read reads used buf =
     (if 16 \<le> used then (True, buf)
      else case reads of
        [] \<Rightarrow> (False, buf)
      | Inl e # reads' \<Rightarrow> if e = EINTR then token_read reads' used buf else (False, buf)
      | Inr xs # reads' \<Rightarrow>
          if xs = [] then (False, buf)
          else token_read reads' (used + length (take (16 - used) xs)) (blit buf used (take (16 - used) xs)))"

declare token_read.simps [simp del]

definition token_create :: "environment \<Rightarrow> manual_control \<Rightarrow> bool \<times> manual_control" where
  "token_create env c =
     (case urandom env (calls c) of
        None \<Rightarrow> (False, c\<lparr>calls := calls c + 1\<rparr>)
      | Some reads \<Rightarrow>
          let (ok, buf) = token_read reads 0 (token c) in (ok, c\<lparr>calls := calls c + 1, token := buf\<rparr>))"

subsection \<open>Single precision\<close>

definition round_even :: "rat \<Rightarrow> int" where
  "round_even x =
     (let f = \<lfloor>x\<rfloor>; d = x - of_int f in
      if d < 1 / 2 then f else if 1 / 2 < d then f + 1 else if even f then f else f + 1)"

text \<open>Rounding to 24 significant bits of a value between 1/16 and 2; the float nearest to
  \<^verbatim>\<open>0.01745329252f\<close> is 9370165 / 2^29.\<close>

definition round_single :: "rat \<Rightarrow> rat" where
  "round_single x =
     (let k = (if x < 1 / 8 then 27 else if x < 1 / 4 then 26 else if x < 1 / 2 then 25
               else if x < 1 then 24 else 23) :: nat
      in of_int (round_even (x * 2 ^ k)) / 2 ^ k)"

definition degrees_to_rate :: "rat \<Rightarrow> rat" where
  "degrees_to_rate v = round_single (v * (9370165 / 2 ^ 29))"

subsection \<open>Commands\<close>

definition value_between :: "rat option \<Rightarrow> rat \<Rightarrow> rat \<Rightarrow> bool" where
  "value_between v lo hi = (case v of None \<Rightarrow> False | Some x \<Rightarrow> \<not> x < lo \<and> \<not> hi < x)"

definition pulse :: "u32 \<Rightarrow> bool" where
  "pulse a = (APCAM_MANUAL_LEFT \<le> a \<and> a \<le> APCAM_MANUAL_DOWN)"

definition pulse_call :: "u32 \<Rightarrow> rat \<Rightarrow> backend_call" where
  "pulse_call a v =
     (let rate = degrees_to_rate v;
          pitch = (if a = APCAM_MANUAL_UP then rate else if a = APCAM_MANUAL_DOWN then - rate else 0);
          yaw = (if a = APCAM_MANUAL_RIGHT then rate else if a = APCAM_MANUAL_LEFT then - rate else 0)
      in SetRates pitch yaw)"

definition act :: "environment \<Rightarrow> u64 \<Rightarrow> manual_packet \<Rightarrow> manual_control \<Rightarrow> int \<times> manual_control" where
  "act env now p c =
     (let c0 = c\<lparr>executing := True\<rparr>;
          (r, c1) =
            (if pulse (action p) then
               let (r, c1) = backend env (pulse_call (action p) (the (p_value p))) c0
               in (r, c1\<lparr>stop_ms := now + APCAM_MANUAL_PULSE_MS\<rparr>)
             else if action p = APCAM_MANUAL_CENTER then
               let (r, c1) = backend env SetNeutral c0 in (r, if r = 0 then c1\<lparr>stop_ms := 0\<rparr> else c1)
             else if action p = APCAM_MANUAL_ZOOM then backend env (SetZoom (the (p_value p))) c0
             else (-1, c0))
      in (r, c1\<lparr>executing := False\<rparr>))"

definition command ::
  "environment \<Rightarrow> manual_packet \<Rightarrow> manual_control \<Rightarrow> errno option \<times> manual_packet \<times> manual_control" where
  "command env p c0 =
     (let (now, c) = now_ms env c0 in
      if action p = APCAM_MANUAL_ACQUIRE then
        if active c then (Some EBUSY, p, c)
        else
          let (ok, c1) = token_create env c in
          if \<not> ok then (Some EIO, p, c1)
          else
            let (r, c2) = stop_motion env c1 in
            if r < 0 then (Some EIO, p, c2)
            else
              let c3 = snd (backend env Suspend c2);
                  c4 = c3\<lparr>active := True, expires_ms := now + APCAM_MANUAL_LEASE_MS\<rparr>
              in (None, p\<lparr>p_token := token c4\<rparr>, c4)
      else if \<not> active c \<or> token c \<noteq> p_token p then (Some EACCES, p, c)
      else if action p = APCAM_MANUAL_RELEASE then
        let (r, c1) = stop_motion env c in
        if r < 0 then (Some EIO, p, c1)
        else (None, p, c1\<lparr>active := False, token := replicate 16 0\<rparr>)
      else if action p = APCAM_MANUAL_RENEW then
        (None, p, c\<lparr>expires_ms := now + APCAM_MANUAL_LEASE_MS\<rparr>)
      else if pulse (action p) \<and> \<not> value_between (p_value p) 5 60 then (Some EINVAL, p, c)
      else if action p = APCAM_MANUAL_ZOOM \<and> \<not> value_between (p_value p) 1 (zoom_max env) then (Some EINVAL, p, c)
      else
        let (r, c1) = act env now p c in (if r \<noteq> 0 then Some EIO else None, p, c1))"

text \<open>The negative error numbers of the replies (Linux).\<close>

definition reply_code :: "errno option \<Rightarrow> int" where
  "reply_code e = (case e of None \<Rightarrow> 0 | Some EIO \<Rightarrow> - 5 | Some EACCES \<Rightarrow> - 13 | Some EBUSY \<Rightarrow> - 16
     | Some EINVAL \<Rightarrow> - 22 | Some _ \<Rightarrow> - 1)"

record datagram =
  d_length :: nat
  from_loopback :: bool
  d_packet :: manual_packet

text \<open>The loop over at most n datagrams: the ones that are not a command are skipped.\<close>

fun serve :: "environment \<Rightarrow> nat \<Rightarrow> datagram list \<Rightarrow> manual_control \<Rightarrow> manual_packet list \<times> manual_control" where
  "serve env 0 ds c = ([], c)"
| "serve env (Suc n) [] c = ([], c)"
| "serve env (Suc n) (d # ds) c =
     (if d_length d \<noteq> 32 \<or> \<not> from_loopback d \<or> magic (d_packet d) \<noteq> APCAM_MANUAL_MAGIC then serve env n ds c
      else
        let (e, p, c1) = command env (d_packet d) c;
            (ps, c2) = serve env n ds c1
        in (p\<lparr>result := reply_code e\<rparr> # ps, c2))"

definition expire :: "environment \<Rightarrow> u64 \<Rightarrow> manual_control \<Rightarrow> manual_control" where
  "expire env now c =
     (if active c \<and> expires_ms c \<le> now
      then (snd (stop_motion env c))\<lparr>active := False, token := replicate 16 0\<rparr> else c)"

definition ca_manual_control_update ::
  "environment \<Rightarrow> datagram list \<Rightarrow> manual_control \<Rightarrow> manual_packet list \<times> manual_control" where
  "ca_manual_control_update env ds c0 =
     (let (now, c) = now_ms env c0;
          c1 = expire env now c;
          c2 = (if stop_ms c1 \<noteq> 0 \<and> stop_ms c1 \<le> now then snd (stop_motion env c1) else c1)
      in if fd_open c2 then serve env 16 ds c2 else ([], c2))"

definition ca_manual_control_close :: "environment \<Rightarrow> manual_control \<Rightarrow> manual_control" where
  "ca_manual_control_close env c =
     (let c1 = (if active c \<or> stop_ms c \<noteq> 0 then snd (stop_motion env c) else c)
      in c1\<lparr>active := False, fd_open := False\<rparr>)"

text \<open>Opening only binds the socket; the structure starts zeroed.\<close>

definition ca_manual_control_open :: "bool \<Rightarrow> manual_control \<Rightarrow> bool \<times> manual_control" where
  "ca_manual_control_open bound c = (bound, c\<lparr>fd_open := bound\<rparr>)"

definition manual_control_zero :: manual_control where
  "manual_control_zero = \<lparr>fd_open = False, active = False, executing = False, token = replicate 16 0,
     expires_ms = 0, stop_ms = 0, calls = 0, trace = []\<rparr>"

subsection \<open>What the operations change\<close>

lemma stop_motion_frame [simp]:
  "active (snd (stop_motion env c)) = active c" "token (snd (stop_motion env c)) = token c"
  "expires_ms (snd (stop_motion env c)) = expires_ms c" "fd_open (snd (stop_motion env c)) = fd_open c"
  "executing (snd (stop_motion env c)) = False"
  "trace (snd (stop_motion env c)) = trace c @ [(SetRates 0 0, answer env (calls c))]"
  "stop_ms (snd (stop_motion env c)) =
     (if answer env (calls c) = 0 then 0 else clock env (calls c + 1) + 20)"
  "fst (stop_motion env c) = answer env (calls c)"
  by (simp_all add: stop_motion_def backend_def now_ms_def Let_def)

lemma backend_frame [simp]:
  "active (snd (backend env k c)) = active c" "token (snd (backend env k c)) = token c"
  "expires_ms (snd (backend env k c)) = expires_ms c" "fd_open (snd (backend env k c)) = fd_open c"
  "executing (snd (backend env k c)) = executing c" "stop_ms (snd (backend env k c)) = stop_ms c"
  "trace (snd (backend env k c)) = trace c @ [(k, answer env (calls c))]"
  "fst (backend env k c) = answer env (calls c)"
  by (simp_all add: backend_def)

lemma token_create_frame [simp]:
  "active (snd (token_create env c)) = active c" "expires_ms (snd (token_create env c)) = expires_ms c"
  "fd_open (snd (token_create env c)) = fd_open c" "executing (snd (token_create env c)) = executing c"
  "stop_ms (snd (token_create env c)) = stop_ms c" "trace (snd (token_create env c)) = trace c"
  by (simp_all add: token_create_def split: option.split prod.split)

text \<open>Whether the calls so far may have left the gimbal moving: a nonzero rate may move it even when
  the call reports an error, and only a stop or a centering that succeeded ends the motion.\<close>

definition moving_step :: "bool \<Rightarrow> backend_call \<times> int \<Rightarrow> bool" where
  "moving_step m e =
     (case e of
        (SetRates p y, r) \<Rightarrow> if p \<noteq> 0 \<or> y \<noteq> 0 then True else if r = 0 then False else m
      | (SetNeutral, r) \<Rightarrow> if r = 0 then False else m
      | _ \<Rightarrow> m)"

definition moving :: "(backend_call \<times> int) list \<Rightarrow> bool" where
  "moving es = foldl moving_step False es"

lemma moving_append [simp]: "moving (es @ [e]) = moving_step (moving es) e"
  by (simp add: moving_def)

text \<open>The invariant: a gimbal that may be moving has a stop time, and what was sent is in range.\<close>

definition call_ok :: "environment \<Rightarrow> backend_call \<times> int \<Rightarrow> bool" where
  "call_ok env e =
     (case fst e of
        SetRates p y \<Rightarrow> (p = 0 \<or> y = 0) \<and> abs p \<le> 1048 / 1000 \<and> abs y \<le> 1048 / 1000
      | SetZoom z \<Rightarrow> 1 \<le> z \<and> z \<le> zoom_max env
      | _ \<Rightarrow> True)"

definition manual_ok :: "environment \<Rightarrow> manual_control \<Rightarrow> bool" where
  "manual_ok env c \<longleftrightarrow> (moving (trace c) \<longrightarrow> stop_ms c \<noteq> 0) \<and> \<not> executing c
     \<and> list_all (call_ok env) (trace c)"

lemma round_even_near: "abs (of_int (round_even x) - x) \<le> 1 / 2"
  using floor_correct [of x] by (auto simp: round_even_def Let_def)

lemma round_single_near:
  "abs (round_single x - x) \<le> 1 / 2 ^ 24"
proof -
  have *: "abs (of_int (round_even (x * 2 ^ k)) / 2 ^ k - x) \<le> 1 / 2 ^ 24" if "23 \<le> k" for k :: nat
  proof -
    have "abs (of_int (round_even (x * 2 ^ k)) - x * 2 ^ k) \<le> 1 / 2" by (rule round_even_near)
    then have "abs (of_int (round_even (x * 2 ^ k)) - x * 2 ^ k) / 2 ^ k \<le> 1 / 2 / 2 ^ k"
      by (intro divide_right_mono) simp_all
    also have "\<dots> \<le> 1 / 2 ^ 24"
    proof -
      have "(2 :: rat) ^ 24 \<le> 2 * 2 ^ k"
        using power_increasing [of 24 "Suc k" "2 :: rat"] that by simp
      then show ?thesis by (simp add: field_simps)
    qed
    also have "abs (of_int (round_even (x * 2 ^ k)) - x * 2 ^ k) / 2 ^ k =
        abs (of_int (round_even (x * 2 ^ k)) / 2 ^ k - x)"
    proof -
      have "(of_int (round_even (x * 2 ^ k)) - x * 2 ^ k) / 2 ^ k = of_int (round_even (x * 2 ^ k)) / 2 ^ k - x"
        by (simp add: diff_divide_distrib)
      then show ?thesis by (metis abs_divide abs_of_pos zero_less_numeral zero_less_power)
    qed
    finally show ?thesis .
  qed
  show ?thesis unfolding round_single_def Let_def by (intro *) simp
qed

lemma pulse_call_ok:
  assumes "value_between v 5 60"
  shows "call_ok env (pulse_call a (the v), r)"
proof -
  obtain x where v: "v = Some x" "5 \<le> x" "x \<le> 60"
    using assms by (auto simp: value_between_def not_less split: option.splits)
  have "abs (degrees_to_rate x) \<le> 1048 / 1000"
    using abs_le_D1 [OF round_single_near [of "x * (9370165 / 2 ^ 29)"]]
      abs_le_D2 [OF round_single_near [of "x * (9370165 / 2 ^ 29)"]] v(2,3)
    unfolding degrees_to_rate_def by (intro abs_leI) (simp_all add: field_simps)
  then show ?thesis by (auto simp: v(1) call_ok_def pulse_call_def Let_def manual_actions)
qed

lemma clock_nonzero:
  fixes t :: u64
  assumes "t < 2 ^ 63"
  shows "t + 20 \<noteq> 0" and "t + 180 \<noteq> 0"
proof -
  have "unat t < 2 ^ 63" using assms by (simp add: word_less_nat_alt)
  then have "unat (t + 20) = unat t + 20" "unat (t + 180) = unat t + 180"
    by (simp_all add: unat_word_ariths)
  then show "t + 20 \<noteq> 0" "t + 180 \<noteq> 0" by (auto dest: arg_cong [of _ _ unat])
qed

lemma stop_motion_ok:
  "list_all (call_ok env) (trace c) \<Longrightarrow> \<forall>n. clock env n < 2 ^ 63 \<Longrightarrow> manual_ok env (snd (stop_motion env c))"
  using clock_nonzero by (auto simp: manual_ok_def moving_step_def call_ok_def)

lemma act_ok:
  assumes "manual_ok env c" "now < 2 ^ 63" "pulse (action p) \<longrightarrow> value_between (p_value p) 5 60"
    "action p = APCAM_MANUAL_ZOOM \<longrightarrow> value_between (p_value p) 1 (zoom_max env)"
  shows "manual_ok env (snd (act env now p c))"
proof -
  consider "pulse (action p)" | "\<not> pulse (action p)" "action p = APCAM_MANUAL_CENTER"
    | "\<not> pulse (action p)" "action p = APCAM_MANUAL_ZOOM"
    | "\<not> pulse (action p)" "action p \<noteq> APCAM_MANUAL_CENTER" "action p \<noteq> APCAM_MANUAL_ZOOM" by blast
  then show ?thesis
  proof cases
    case 1
    with assms(3) pulse_call_ok have "call_ok env (pulse_call (action p) (the (p_value p)), r)" for r by blast
    with 1 assms(1) clock_nonzero [OF assms(2)] show ?thesis
      by (simp add: act_def Let_def split_beta manual_ok_def APCAM_MANUAL_PULSE_MS_def)
  next
    case 2
    with assms(1) show ?thesis
      by (auto simp: act_def Let_def split_beta manual_ok_def moving_step_def call_ok_def)
  next
    case 3
    with assms(1,4) show ?thesis
      by (auto simp: act_def Let_def split_beta manual_ok_def moving_step_def call_ok_def manual_actions
          value_between_def split: option.splits)
  next
    case 4
    with assms(1) show ?thesis by (simp add: act_def manual_ok_def)
  qed
qed

lemma command_ok:
  assumes "manual_ok env c" "\<forall>n. clock env n < 2 ^ 63"
  shows "manual_ok env (snd (snd (command env p c)))"
proof -
  let ?c = "c\<lparr>calls := calls c + 1\<rparr>"
  have c: "manual_ok env ?c" using assms(1) by (simp add: manual_ok_def)
  have t: "list_all (call_ok env) (trace (snd (token_create env ?c)))" using c by (simp add: manual_ok_def)
  have s: "manual_ok env (snd (stop_motion env ?c))" "manual_ok env (snd (stop_motion env (snd (token_create env ?c))))"
    using c t stop_motion_ok [OF _ assms(2)] unfolding manual_ok_def by blast+
  have susp: "manual_ok env (snd (backend env Suspend d))" if "manual_ok env d" for d
    using that by (simp add: manual_ok_def moving_step_def call_ok_def)
  have upd: "manual_ok env (d\<lparr>active := b, expires_ms := e\<rparr>) = manual_ok env d"
    "manual_ok env (d\<lparr>active := b\<rparr>) = manual_ok env d"
    "manual_ok env (d\<lparr>active := b, token := tk\<rparr>) = manual_ok env d"
    "manual_ok env (d\<lparr>expires_ms := e\<rparr>) = manual_ok env d" for d b e tk
    by (simp_all add: manual_ok_def)
  have tc: "manual_ok env (snd (token_create env ?c))" using c by (simp add: manual_ok_def)
  have a: "manual_ok env (snd (act env (clock env (calls c)) p ?c))"
    if "\<not> (pulse (action p) \<and> \<not> value_between (p_value p) 5 60)"
      "\<not> (action p = APCAM_MANUAL_ZOOM \<and> \<not> value_between (p_value p) 1 (zoom_max env))"
    using that assms(2) by (intro act_ok c) auto
  show ?thesis
    using c s tc a susp [OF s(2)]
    by (simp add: command_def now_ms_def Let_def split_beta upd del: stop_motion_frame backend_frame)
qed

lemma serve_ok:
  "manual_ok env c \<Longrightarrow> \<forall>n. clock env n < 2 ^ 63 \<Longrightarrow> manual_ok env (snd (serve env n ds c))"
proof (induction env n ds c rule: serve.induct)
  case (3 env n d ds c)
  then show ?case
    using command_ok [OF 3(3,4), of "d_packet d"]
    by (cases "command env (d_packet d) c") (auto simp: Let_def split_beta)
qed auto

lemma update_ok:
  assumes "manual_ok env c" "\<forall>n. clock env n < 2 ^ 63"
  shows "manual_ok env (snd (ca_manual_control_update env ds c))"
proof -
  define c0 where "c0 = c\<lparr>calls := calls c + 1\<rparr>"
  have upd: "manual_ok env (d\<lparr>active := b, token := tk\<rparr>) = manual_ok env d" for d b tk
    by (simp add: manual_ok_def)
  have tr: "list_all (call_ok env) (trace d)" if "manual_ok env d" for d using that by (simp add: manual_ok_def)
  have c0: "manual_ok env c0" using assms(1) by (simp add: c0_def manual_ok_def)
  define c1 where "c1 = expire env (clock env (calls c)) c0"
  have c1: "manual_ok env c1"
    using c0 stop_motion_ok [OF tr [OF c0] assms(2)] by (simp add: c1_def expire_def upd)
  define c2 where "c2 = (if stop_ms c1 \<noteq> 0 \<and> stop_ms c1 \<le> clock env (calls c) then snd (stop_motion env c1) else c1)"
  have "manual_ok env c2" using c1 stop_motion_ok [OF tr [OF c1] assms(2)] by (simp add: c2_def)
  then show ?thesis
    using serve_ok [OF _ assms(2), of c2 16 ds]
    unfolding ca_manual_control_update_def now_ms_def Let_def prod.case c0_def [symmetric] c1_def [symmetric]
      c2_def [symmetric] by simp
qed

lemma close_ok:
  assumes "manual_ok env c" "\<forall>n. clock env n < 2 ^ 63"
  shows "manual_ok env (ca_manual_control_close env c)"
  using assms(1) stop_motion_ok [OF _ assms(2), of c]
  by (auto simp: ca_manual_control_close_def Let_def manual_ok_def)

text \<open>The states a run reaches.\<close>

inductive manual_reachable :: "environment \<Rightarrow> manual_control \<Rightarrow> bool" for env where
  opened: "manual_reachable env (snd (ca_manual_control_open b manual_control_zero))"
| updated: "manual_reachable env c \<Longrightarrow> manual_reachable env (snd (ca_manual_control_update env ds c))"
| closed: "manual_reachable env c \<Longrightarrow> manual_reachable env (ca_manual_control_close env c)"

lemma reachable_ok:
  assumes "manual_reachable env c" and "\<forall>n. clock env n < 2 ^ 63"
  shows "manual_ok env c"
  using assms(1)
proof induction
  case (opened b)
  show ?case
    by (simp add: manual_ok_def ca_manual_control_open_def manual_control_zero_def moving_def)
qed (use assms(2) in \<open>simp_all add: update_ok close_ok\<close>)

lemma command_appends: "\<exists>es. trace (snd (snd (command env p c))) = trace c @ es"
proof -
  have act: "\<exists>es. trace (snd (act env now p d)) = trace d @ es" for now d
    by (auto simp: act_def Let_def split_beta)
  show ?thesis
    using act [of "clock env (calls c)" "c\<lparr>calls := calls c + 1\<rparr>"]
    by (auto simp: command_def now_ms_def Let_def split_beta)
qed

lemma serve_appends: "\<exists>es. trace (snd (serve env n ds c)) = trace c @ es"
proof (induction env n ds c rule: serve.induct)
  case (3 env n d ds c)
  obtain e p c1 where cmd: "command env (d_packet d) c = (e, p, c1)" by (cases "command env (d_packet d) c")
  have "\<exists>es. trace c1 = trace c @ es" using command_appends [of env "d_packet d" c] cmd by simp
  moreover have "\<exists>es. trace (snd (serve env n ds c1)) = trace c1 @ es"
    if "\<not> (d_length d \<noteq> 32 \<or> \<not> from_loopback d \<or> magic (d_packet d) \<noteq> APCAM_MANUAL_MAGIC)"
    using 3(2) [OF that cmd [symmetric] refl] by simp
  ultimately show ?case using 3(1) cmd by (auto simp: Let_def split_beta)
qed auto

subsection \<open>Properties\<close>

text \<open>C16: the gimbal cannot run away: in every state that opening, updates with any datagrams and
  closing can reach, whatever the backend answers, a gimbal that may be moving under manual
  control has a stop time, the flag that marks a running command is down, every rate ever sent
  turned one axis by at most 1.048 rad/s and every zoom factor was one the camera supports.\<close>

theorem manual_no_runaway:
  assumes "manual_reachable env c" and "\<forall>n. clock env n < 2 ^ 63"
  shows "(moving (trace c) \<longrightarrow> stop_ms c \<noteq> 0) \<and> \<not> executing c
    \<and> (\<forall>p y r. (SetRates p y, r) \<in> set (trace c) \<longrightarrow>
          (p = 0 \<or> y = 0) \<and> abs p \<le> 1048 / 1000 \<and> abs y \<le> 1048 / 1000)
    \<and> (\<forall>z r. (SetZoom z, r) \<in> set (trace c) \<longrightarrow> 1 \<le> z \<and> z \<le> zoom_max env)"
  using reachable_ok [OF assms] by (auto simp: manual_ok_def list_all_iff call_ok_def)

definition example_environment :: environment where
  "example_environment = \<lparr>clock = (\<lambda>n. 1000), answer = (\<lambda>n. 0), urandom = (\<lambda>n. Some [Inr (replicate 16 7)]),
     zoom_max = 6\<rparr>"

definition example_command :: "u32 \<Rightarrow> datagram" where
  "example_command a = \<lparr>d_length = 32, from_loopback = True,
     d_packet = \<lparr>magic = APCAM_MANUAL_MAGIC, action = a, p_token = replicate 16 7, p_value = Some 30, result = 0\<rparr>\<rparr>"

definition example_run :: manual_control where
  "example_run = snd (ca_manual_control_update example_environment
     [example_command APCAM_MANUAL_ACQUIRE, example_command APCAM_MANUAL_LEFT]
     (snd (ca_manual_control_open True manual_control_zero)))"

theorem manual_no_runaway_witness:
  "moving (trace example_run) \<and> stop_ms example_run = 1180 \<and> stop_ms example_run \<noteq> 0"
proof -
  have "manual_reachable example_environment example_run"
    unfolding example_run_def by (intro manual_reachable.intros)
  moreover have "\<forall>n. clock example_environment n < 2 ^ 63" by (simp add: example_environment_def)
  moreover have "moving (trace example_run)" "stop_ms example_run = 1180" by code_simp+
  ultimately show ?thesis using manual_no_runaway by blast
qed

text \<open>C17: pulses and leases end: an update that finds the stop time or the end of the lease reached
  sends a stop before any command it serves, and the lease that ran out no longer counts when
  those commands are served.\<close>

theorem manual_update_stops:
  assumes "stop_ms c \<noteq> 0 \<and> stop_ms c \<le> clock env (calls c) \<or> active c \<and> expires_ms c \<le> clock env (calls c)"
  shows "(\<exists>r es. trace (snd (ca_manual_control_update env ds c)) = trace c @ (SetRates 0 0, r) # es)
    \<and> (expires_ms c \<le> clock env (calls c) \<longrightarrow>
      \<not> active (expire env (clock env (calls c)) (c\<lparr>calls := calls c + 1\<rparr>)))"
proof -
  define c1 where "c1 = expire env (clock env (calls c)) (c\<lparr>calls := calls c + 1\<rparr>)"
  define c2 where "c2 = (if stop_ms c1 \<noteq> 0 \<and> stop_ms c1 \<le> clock env (calls c) then snd (stop_motion env c1) else c1)"
  have "\<exists>r es. trace c2 = trace c @ (SetRates 0 0, r) # es"
    using assms by (auto simp: c1_def c2_def expire_def)
  moreover obtain es where "trace (snd (ca_manual_control_update env ds c)) = trace c2 @ es"
  proof -
    have "\<exists>es. trace (snd (if fd_open c2 then serve env 16 ds c2 else ([], c2))) = trace c2 @ es"
      using serve_appends [of env 16 ds c2] by simp
    then show ?thesis
      using that unfolding ca_manual_control_update_def now_ms_def Let_def prod.case c1_def [symmetric]
        c2_def [symmetric] by blast
  qed
  ultimately show ?thesis by (auto simp: expire_def)
qed

theorem manual_update_stops_witness:
  "\<exists>r es. trace (snd (ca_manual_control_update (example_environment\<lparr>clock := (\<lambda>n. 2000)\<rparr>) [] example_run))
     = trace example_run @ (SetRates 0 0, r) # es"
proof -
  let ?env = "example_environment\<lparr>clock := (\<lambda>n. 2000)\<rparr>"
  have "stop_ms example_run = 1180" by code_simp
  then have "stop_ms example_run \<noteq> 0 \<and> stop_ms example_run \<le> clock ?env (calls example_run)
    \<or> active example_run \<and> expires_ms example_run \<le> clock ?env (calls example_run)" by simp
  from manual_update_stops [OF this] show ?thesis by blast
qed

text \<open>Only the holder of the lease commands the gimbal: while a lease is active nobody else can
  acquire it, and a command with another token, or without a lease, is refused; in both cases
  nothing but the call counter changes and nothing reaches the backend. A refused pulse or zoom
  value reaches nothing either. A lease that is granted carries a fresh token, lasts 5000 ms, and
  starts with a stop; renewing extends it to 5000 ms from now; a released one is over.\<close>

theorem manual_lease:
  "(case command env p c of (e, p', c') \<Rightarrow>
     let now = clock env (calls c); same = (c' = c\<lparr>calls := calls c + 1\<rparr>);
         holder = (active c \<and> token c = p_token p)
     in if action p = APCAM_MANUAL_ACQUIRE then
          if active c then e = Some EBUSY \<and> same
          else e = Some EIO \<and> \<not> active c'
             \<or> e = None \<and> active c' \<and> p_token p' = token c' \<and> expires_ms c' = now + 5000
               \<and> (\<exists>r s. trace c' = trace c @ [(SetRates 0 0, r), (Suspend, s)])
        else if \<not> holder then e = Some EACCES \<and> same
        else if action p = APCAM_MANUAL_RELEASE then
          e = None \<and> \<not> active c' \<or> e = Some EIO \<and> active c'
        else if action p = APCAM_MANUAL_RENEW then
          e = None \<and> c' = c\<lparr>calls := calls c + 1, expires_ms := now + 5000\<rparr>
        else if pulse (action p) \<and> \<not> value_between (p_value p) 5 60
             \<or> action p = APCAM_MANUAL_ZOOM \<and> \<not> value_between (p_value p) 1 (zoom_max env)
        then e = Some EINVAL \<and> same
        else active c' \<and> token c' = token c \<and> expires_ms c' = expires_ms c)"
proof -
  have act: "active (snd (act env now p d)) = active d" "token (snd (act env now p d)) = token d"
    "expires_ms (snd (act env now p d)) = expires_ms d" for now d
    by (simp_all add: act_def Let_def split_beta)
  show ?thesis
    by (simp add: command_def now_ms_def Let_def split_beta act manual_actions pulse_def APCAM_MANUAL_LEASE_MS_def)
qed

definition random_bytes :: "(errno + bytes) list \<Rightarrow> bytes" where
  "random_bytes reads = concat (map (\<lambda>r. case r of Inl e \<Rightarrow> [] | Inr xs \<Rightarrow> xs) reads)"

lemma token_read_spec:
  "token_read reads used buf = (True, buf') \<Longrightarrow> used \<le> 16 \<Longrightarrow> length buf = 16 \<Longrightarrow>
   buf' = take used buf @ take (16 - used) (random_bytes reads) \<and> length buf' = 16"
proof (induction reads arbitrary: used buf)
  case Nil
  then show ?case by (subst (asm) token_read.simps) (auto split: if_splits)
next
  case (Cons r reads)
  show ?case
  proof (cases "16 \<le> used")
    case True
    with Cons.prems show ?thesis by (subst (asm) token_read.simps) auto
  next
    case False
    show ?thesis
    proof (cases r)
      case (Inl e)
      with Cons False show ?thesis
        by (subst (asm) (2) token_read.simps) (auto simp: random_bytes_def split: if_splits)
    next
      case (Inr xs)
      let ?xs = "take (16 - used) xs"
      have step: "token_read reads (used + length ?xs) (blit buf used ?xs) = (True, buf')"
        using Cons.prems(1) False Inr by (subst (asm) token_read.simps) (auto split: if_splits)
      have len: "used + length ?xs \<le> length buf" using Cons.prems(2,3) by simp
      have "take (used + length ?xs) (blit buf used ?xs) = take used buf @ ?xs"
        by (rule take_blit_end [OF len])
      moreover have "buf' = take (used + length ?xs) (blit buf used ?xs)
          @ take (16 - (used + length ?xs)) (random_bytes reads) \<and> length buf' = 16"
        by (rule Cons.IH [OF step]) (use len Cons.prems(3) in simp_all)
      moreover have "take (16 - used) (random_bytes (r # reads)) =
          ?xs @ take (16 - (used + length ?xs)) (random_bytes reads)"
        using Inr by (simp add: random_bytes_def min_def)
      ultimately show ?thesis by (metis append.assoc)
    qed
  qed
qed

text \<open>A token that is created is 16 bytes of the random source, in order and without gaps, however
  the reads are cut and interrupted.\<close>

theorem manual_token_random:
  assumes "fst (token_create env c)" and "length (token c) = 16"
  shows "\<exists>reads. urandom env (calls c) = Some reads
    \<and> token (snd (token_create env c)) = take 16 (random_bytes reads)
    \<and> length (token (snd (token_create env c))) = 16"
proof -
  obtain reads buf where "urandom env (calls c) = Some reads" "token_read reads 0 (token c) = (True, buf)"
    using assms(1) by (auto simp: token_create_def split: option.splits prod.splits)
  moreover note token_read_spec [OF this(2) _ assms(2), simplified, THEN conjunct1]
    token_read_spec [OF this(2) _ assms(2), THEN conjunct2]
  ultimately show ?thesis by (auto simp: token_create_def)
qed

theorem manual_token_random_witness:
  "token (snd (token_create (example_environment\<lparr>urandom := (\<lambda>n. Some [Inr [1,2,3], Inl EINTR, Inr (replicate 20 7)])\<rparr>)
     manual_control_zero)) = [1,2,3] @ replicate 13 7"
proof -
  let ?env = "example_environment\<lparr>urandom := (\<lambda>n. Some [Inr [1,2,3], Inl EINTR, Inr (replicate 20 7)])\<rparr>"
  have "fst (token_create ?env manual_control_zero)" by code_simp
  from manual_token_random [OF this] show ?thesis
    by (simp add: manual_control_zero_def random_bytes_def numeral_eq_Suc)
qed

end
