(* ===== verification/Gimbal_Map.thy ===== *)
theory Gimbal_Map
  imports Config_Params
begin

text \<open>
  What the gimbal backends share: the joint-coordinate mappings of the targets and their wrap-around
  (\<^verbatim>\<open>include/apcam/gimbal_transform.h\<close> and the target headers), the cache of the last angle command
  (\<^verbatim>\<open>camera_app/gimbal_angle_target.h\<close>), the choice of a rate command from a measured curve
  (\<^verbatim>\<open>camera_app/gimbal_rate.h\<close>), the conversions of angles and rates to wire units, and the
  suppression of vendor motion during manual control (\<^verbatim>\<open>camera_app/backend.h\<close>). Every float
  operation is rounded by the parameter \<^term>\<open>fl\<close>; the loops of the wrap-around get fuel 64, which
  \<^verbatim>\<open>wrap_range\<close> shows to be enough for every angle up to 20000 degrees.
\<close>

type_synonym rounding = "rat \<Rightarrow> rat"

definition pi_f :: rat where "pi_f = 13176795 / 4194304"
definition degrees_f :: "rounding \<Rightarrow> rat" where "degrees_f fl = fl (180 / pi_f)"
definition radians_f :: "rounding \<Rightarrow> rat" where "radians_f fl = fl (pi_f / 180)"

text \<open>The conversion of a float to an integer type that can hold it.\<close>

definition trunc_int :: "rat \<Rightarrow> int" where
  "trunc_int r = (if r < 0 then \<lceil>r\<rceil> else \<lfloor>r\<rfloor>)"

subsection \<open>Joint-coordinate mappings\<close>

record gimbal_transform =
  g_matrix :: "rat list"
  g_offset :: "rat list"

fun wrap_down :: "nat \<Rightarrow> rounding \<Rightarrow> rat \<Rightarrow> rat" where
  "wrap_down 0 fl v = v"
| "wrap_down (Suc n) fl v = (if 180 < v then wrap_down n fl (fl (v - 360)) else v)"

fun wrap_up :: "nat \<Rightarrow> rounding \<Rightarrow> rat \<Rightarrow> rat" where
  "wrap_up 0 fl v = v"
| "wrap_up (Suc n) fl v = (if v < -180 then wrap_up n fl (fl (v + 360)) else v)"

definition apcam_wrap_degrees :: "rounding \<Rightarrow> rat \<Rightarrow> rat" where
  "apcam_wrap_degrees fl v = wrap_up 64 fl (wrap_down 64 fl v)"

definition transform_row :: "rounding \<Rightarrow> gimbal_transform \<Rightarrow> rat list \<Rightarrow> bool \<Rightarrow> nat \<Rightarrow> rat" where
  "transform_row fl t input rates row =
     foldl (\<lambda>v col. fl (v + fl (g_matrix t ! (3 * row + col) * input ! col)))
       (if rates then 0 else g_offset t ! row) [0..<3]"

definition apcam_transform :: "rounding \<Rightarrow> gimbal_transform \<Rightarrow> rat list \<Rightarrow> bool \<Rightarrow> rat list" where
  "apcam_transform fl t input rates =
     map (\<lambda>row. let v = transform_row fl t input rates row in if rates then v else apcam_wrap_degrees fl v) [0..<3]"

definition inverse_row :: "rounding \<Rightarrow> gimbal_transform \<Rightarrow> rat list \<Rightarrow> bool \<Rightarrow> nat \<Rightarrow> rat" where
  "inverse_row fl t input rates row =
     foldl (\<lambda>v col. fl (v + fl (g_matrix t ! (3 * col + row) * fl (input ! col - (if rates then 0 else g_offset t ! col)))))
       0 [0..<3]"

definition apcam_inverse_transform :: "rounding \<Rightarrow> gimbal_transform \<Rightarrow> rat list \<Rightarrow> bool \<Rightarrow> rat list" where
  "apcam_inverse_transform fl t input rates =
     map (\<lambda>row. let v = inverse_row fl t input rates row in if rates then v else apcam_wrap_degrees fl v) [0..<3]"

text \<open>The constants of a target; each channel has the mapping for the upright and for the inverted mount.\<close>

record gimbal_target =
  g_name :: string
  g_feedback :: "gimbal_transform list"
  g_private_feedback :: "gimbal_transform list"
  g_angle_command :: "gimbal_transform list"
  g_rate_command :: "gimbal_transform list"
  g_pitch_min :: rat
  g_pitch_max :: rat
  g_yaw_min :: rat
  g_yaw_max :: rat
  g_zoom_control_max :: rat
  g_suppress_duplicate_angles :: bool
  g_yaw_full_scale :: rat
  g_pitch_full_scale :: rat
  g_yaw_curve :: "rat list option"
  g_pitch_curve :: "rat list option"

definition diagonal :: "rat \<Rightarrow> rat \<Rightarrow> rat \<Rightarrow> rat \<Rightarrow> gimbal_transform" where
  "diagonal a b c off = \<lparr>g_matrix = [a, 0, 0, 0, b, 0, 0, 0, c], g_offset = [0, off, 0]\<rparr>"

definition mt11_gimbal :: gimbal_target where
  "mt11_gimbal = \<lparr>g_name = ''mt11'',
     g_feedback = [diagonal 1 1 (-1) 0, diagonal 1 1 (-1) 0],
     g_private_feedback = [diagonal 1 1 1 0, diagonal 1 1 1 0],
     g_angle_command = [diagonal 1 1 (-1) 0, diagonal 1 1 (-1) 0],
     g_rate_command = [diagonal 1 1 1 0, diagonal 1 1 1 0],
     g_pitch_min = -90, g_pitch_max = 30, g_yaw_min = -180, g_yaw_max = 180, g_zoom_control_max = 10,
     g_suppress_duplicate_angles = True, g_yaw_full_scale = 100, g_pitch_full_scale = 100,
     g_yaw_curve = None, g_pitch_curve = None\<rparr>"

definition a8_gimbal :: gimbal_target where
  "a8_gimbal = \<lparr>g_name = ''a8'',
     g_feedback = [diagonal 1 1 (-1) 0, diagonal 1 (-1) 1 180],
     g_private_feedback = [diagonal 1 1 1 0, diagonal 1 (-1) 1 180],
     g_angle_command = [diagonal 1 1 (-1) 0, diagonal 1 (-1) 1 0],
     g_rate_command = [diagonal 1 1 1 0, diagonal 1 1 1 0],
     g_pitch_min = -90, g_pitch_max = 25, g_yaw_min = -135, g_yaw_max = 135, g_zoom_control_max = 6,
     g_suppress_duplicate_angles = True, g_yaw_full_scale = 90, g_pitch_full_scale = 74,
     g_yaw_curve = Some [-100, -65, -80, -52, -60, -395 / 10, -40, -27, -20, -144 / 10, -10, -76 / 10,
       -6, -46 / 10, -5, 0, 5, 0, 6, 5, 10, 86 / 10, 20, 178 / 10, 40, 355 / 10, 60, 535 / 10, 80, 72, 100, 89],
     g_pitch_curve = Some [-100, -74, -20, -146 / 10, -10, -73 / 10, -6, -43 / 10, -5, 0, 5, 0, 6, 43 / 10,
       10, 73 / 10, 20, 146 / 10, 100, 74]\<rparr>"

definition zr10_gimbal :: gimbal_target where
  "zr10_gimbal = \<lparr>g_name = ''zr10'',
     g_feedback = [diagonal 1 1 (-1) 0, diagonal 1 (-1) (-1) 180],
     g_private_feedback = [diagonal 1 1 1 0, diagonal 1 (-1) 1 180],
     g_angle_command = [diagonal 1 1 (-1) 0, diagonal 1 1 (-1) 0],
     g_rate_command = [diagonal 1 1 1 0, diagonal 1 1 1 0],
     g_pitch_min = -90, g_pitch_max = 25, g_yaw_min = -135, g_yaw_max = 135, g_zoom_control_max = 10,
     g_suppress_duplicate_angles = True, g_yaw_full_scale = 60, g_pitch_full_scale = 60,
     g_yaw_curve = None, g_pitch_curve = None\<rparr>"

text \<open>\<^verbatim>\<open>&apcam_feedback[mounting_direction == 2]\<close> and its like.\<close>

definition mapping_for :: "gimbal_transform list \<Rightarrow> bool \<Rightarrow> gimbal_transform" where
  "mapping_for pair inverted = pair ! (if inverted then 1 else 0)"

subsection \<open>The last angle command\<close>

record angle_target =
  at_valid :: bool
  at_yaw :: int
  at_pitch :: int
  at_sent_ms :: u64

record gimbal_attitude =
  ga_roll :: rat
  ga_pitch :: rat
  ga_yaw :: rat
  ga_roll_rate :: rat
  ga_pitch_rate :: rat
  ga_yaw_rate :: rat
  ga_timestamp_ms :: u64

definition ca_angle_target_invalidate_siyi :: "angle_target \<Rightarrow> u8 \<Rightarrow> bytes \<Rightarrow> angle_target" where
  "ca_angle_target_invalidate_siyi target op data =
     (if op = 0x07 \<or> op = 0x08 \<or> op = 0x0e \<or> op = 0x40 \<or>
         (op = 0x0c \<and> length data = 1 \<and> 3 \<le> data ! 0 \<and> data ! 0 \<le> 5)
      then target\<lparr>at_valid := False\<rparr> else target)"

definition ca_angle_target_suppress ::
  "rounding \<Rightarrow> gimbal_target \<Rightarrow> angle_target \<Rightarrow> int \<Rightarrow> int \<Rightarrow> rat \<Rightarrow> rat \<Rightarrow> gimbal_attitude option \<Rightarrow> u64 \<Rightarrow> bool" where
  "ca_angle_target_suppress fl t target yaw pitch target_yaw target_pitch attitude now =
     (if \<not> g_suppress_duplicate_angles t \<or> \<not> at_valid target \<or> at_yaw target \<noteq> yaw \<or> at_pitch target \<noteq> pitch
      then False
      else if now - at_sent_ms target < 1000 then True
      else case attitude of
        None \<Rightarrow> False
      | Some a \<Rightarrow>
          if now - ga_timestamp_ms a < 1000 then
            let d = degrees_f fl;
                reached = (\<bar>apcam_wrap_degrees fl (fl (fl (ga_yaw a * d) - target_yaw))\<bar> \<le> 2 \<and>
                           \<bar>fl (fl (ga_pitch a * d) - target_pitch)\<bar> \<le> 2);
                moving = (1 < \<bar>fl (ga_yaw_rate a * d)\<bar> \<or> 1 < \<bar>fl (ga_pitch_rate a * d)\<bar>)
            in reached \<or> moving
          else False)"

definition ca_angle_target_sent :: "angle_target \<Rightarrow> int \<Rightarrow> int \<Rightarrow> u64 \<Rightarrow> angle_target" where
  "ca_angle_target_sent target yaw pitch now =
     target\<lparr>at_valid := True, at_yaw := yaw, at_pitch := pitch, at_sent_ms := now\<rparr>"

text \<open>Vendor motion is ignored while the web has manual control, except the command of the web itself.\<close>

definition siyi_motion :: "u8 \<Rightarrow> bytes \<Rightarrow> bool" where
  "siyi_motion op data \<longleftrightarrow>
     op = 0x07 \<or> op = 0x08 \<or> op = 0x0e \<or> op = 0x40 \<or> op = 0x55 \<or> op = 0x56 \<or>
     (op = 0x0c \<and> length data = 1 \<and> 3 \<le> data ! 0 \<and> data ! 0 \<le> 5)"

definition ca_backend_manual_blocked :: "bool \<Rightarrow> bool \<Rightarrow> u8 \<Rightarrow> bytes \<Rightarrow> bool" where
  "ca_backend_manual_blocked active command_now op data =
     (if \<not> active \<or> command_now then False else siyi_motion op data)"

subsection \<open>Wire units\<close>

definition angle_tenths :: "rounding \<Rightarrow> rat \<Rightarrow> rat \<Rightarrow> rat \<Rightarrow> int" where
  "angle_tenths fl r lo hi =
     (let d0 = fl (r * degrees_f fl);
          d1 = (if d0 < lo then lo else d0);
          d2 = (if hi < d1 then hi else d1)
      in trunc_int (fl (fl (d2 * 10) + (if 0 \<le> d2 then 1 / 2 else - (1 / 2)))))"

text \<open>\<^verbatim>\<open>fminf(max, fmaxf(min, v))\<close>, which turns a NaN into the minimum.\<close>

definition clamp_angle :: "rounding \<Rightarrow> rat \<Rightarrow> rat \<Rightarrow> c_float \<Rightarrow> rat" where
  "clamp_angle fl lo hi v =
     (case v of FNaN \<Rightarrow> lo | FInf neg \<Rightarrow> if neg then lo else hi
      | FFin r \<Rightarrow> min hi (max lo (fl (r * degrees_f fl))))"

definition gimbal_angles :: "rounding \<Rightarrow> gimbal_target \<Rightarrow> bool \<Rightarrow> c_float \<Rightarrow> c_float \<Rightarrow> rat \<times> rat \<times> int \<times> int" where
  "gimbal_angles fl t inverted pitch_rad yaw_rad =
     (let target_pitch = clamp_angle fl (g_pitch_min t) (g_pitch_max t) pitch_rad;
          target_yaw = clamp_angle fl (g_yaw_min t) (g_yaw_max t) yaw_rad;
          angles = apcam_transform fl (mapping_for (g_angle_command t) inverted) [0, target_pitch, target_yaw] False
      in (target_yaw, target_pitch,
          angle_tenths fl (fl (angles ! 2 * radians_f fl)) (-180) 180,
          angle_tenths fl (fl (angles ! 1 * radians_f fl)) (-180) 180))"

definition rate_byte :: "rounding \<Rightarrow> rat \<Rightarrow> rat \<Rightarrow> int" where
  "rate_byte fl r full_scale =
     (let u0 = fl (fl (r * degrees_f fl) / fl (full_scale / 100));
          u1 = (if u0 < -100 then -100 else u0);
          u2 = (if 100 < u1 then 100 else u1)
      in trunc_int (fl (u2 + (if 0 \<le> u2 then 1 / 2 else - (1 / 2)))))"

text \<open>The scan over the commands -100 to 100, with the segment of the curve that holds the command.\<close>

function segment_for :: "rat list \<Rightarrow> int \<Rightarrow> nat \<Rightarrow> nat" where
  "segment_for curve c segment =
     (if segment + 4 < length curve \<and> curve ! (segment + 2) < of_int c
      then segment_for curve c (segment + 2) else segment)"
  by pat_completeness auto
termination by (relation "measure (\<lambda>(curve, c, s). length curve - s)") auto

declare segment_for.simps [simp del]

definition curve_rate :: "rounding \<Rightarrow> rat list \<Rightarrow> nat \<Rightarrow> int \<Rightarrow> rat" where
  "curve_rate fl curve s c =
     (let fraction = fl (fl (of_int c - curve ! s) / fl (curve ! (s + 2) - curve ! s))
      in fl (curve ! (s + 1) + fl (fraction * fl (curve ! (s + 3) - curve ! (s + 1)))))"

fun rate_scan :: "rounding \<Rightarrow> rat list \<Rightarrow> rat \<Rightarrow> int list \<Rightarrow> nat \<Rightarrow> int \<Rightarrow> rat \<Rightarrow> int" where
  "rate_scan fl curve d [] segment best best_error = best"
| "rate_scan fl curve d (c # cs) segment best best_error =
     (let s = segment_for curve c segment; e = \<bar>fl (d - curve_rate fl curve s c)\<bar>
      in if e < best_error then rate_scan fl curve d cs s c e else rate_scan fl curve d cs s best best_error)"

definition ca_gimbal_rate_command :: "rounding \<Rightarrow> rat \<Rightarrow> rat list \<Rightarrow> int" where
  "ca_gimbal_rate_command fl d curve = rate_scan fl (map fl curve) d [-100..100] 0 0 \<bar>d\<bar>"

text \<open>The two bytes of a rate command, yaw first; None is the undefined conversion of a NaN.\<close>

definition gimbal_rates :: "rounding \<Rightarrow> gimbal_target \<Rightarrow> bool \<Rightarrow> c_float \<Rightarrow> c_float \<Rightarrow> (int \<times> int) option" where
  "gimbal_rates fl t inverted pitch_rate yaw_rate =
     (case (pitch_rate, yaw_rate) of
        (FFin p, FFin y) \<Rightarrow>
          let rates = apcam_transform fl (mapping_for (g_rate_command t) inverted) [0, p, y] True
          in Some
            (case g_yaw_curve t of None \<Rightarrow> rate_byte fl (rates ! 2) (g_yaw_full_scale t)
             | Some curve \<Rightarrow> ca_gimbal_rate_command fl (fl (rates ! 2 * degrees_f fl)) curve,
             case g_pitch_curve t of None \<Rightarrow> rate_byte fl (rates ! 1) (g_pitch_full_scale t)
             | Some curve \<Rightarrow> ca_gimbal_rate_command fl (fl (rates ! 1 * degrees_f fl)) curve)
      | _ \<Rightarrow> None)"


subsection \<open>The wrap-around\<close>

text \<open>What is used of the rounding: it is monotone and keeps the integers of a float's precision.\<close>

definition fl_sane :: "rounding \<Rightarrow> bool" where
  "fl_sane fl \<longleftrightarrow> mono fl \<and> (\<forall>n::int. \<bar>n\<bar> \<le> 20000 \<longrightarrow> fl (of_int n) = of_int n)"

lemma fl_between:
  assumes "fl_sane fl" "of_int a \<le> r" "r \<le> of_int b" "\<bar>a\<bar> \<le> 20000" "\<bar>b\<bar> \<le> 20000"
  shows "of_int a \<le> fl r" "fl r \<le> of_int b"
proof -
  have m: "x \<le> y \<Longrightarrow> fl x \<le> fl y" for x y using assms(1) by (simp add: fl_sane_def mono_def)
  have i: "\<bar>n\<bar> \<le> 20000 \<Longrightarrow> fl (of_int n) = of_int n" for n using assms(1) by (simp add: fl_sane_def)
  show "of_int a \<le> fl r" using m [OF assms(2)] i [OF assms(4)] by simp
  show "fl r \<le> of_int b" using m [OF assms(3)] i [OF assms(5)] by simp
qed

lemma wrap_down_range:
  assumes "fl_sane fl"
  shows "v \<le> 180 + 359 * of_nat n \<Longrightarrow> v \<le> 20000 \<Longrightarrow> wrap_down n fl v \<le> 180 \<and> (-180 \<le> v \<longrightarrow> -180 \<le> wrap_down n fl v)
      \<and> (v \<le> 180 \<longrightarrow> wrap_down n fl v = v)"
proof (induction n arbitrary: v)
  case 0
  then show ?case by simp
next
  case (Suc n)
  show ?case
  proof (cases "180 < v")
    case True
    let ?c = "\<lceil>v\<rceil> - 360"
    have c: "v - 360 \<le> of_int ?c" by (simp add: le_of_int_ceiling)
    have "\<lceil>v\<rceil> \<le> 20000" "180 \<le> \<lceil>v\<rceil>" using Suc.prems(2) True by (simp_all add: ceiling_le_iff le_ceiling_iff)
    then have b: "\<bar>?c\<bar> \<le> 20000" by linarith
    have lo: "of_int (-180) \<le> fl (v - 360)" using True by (intro fl_between(1) [OF assms _ c _ b]) simp_all
    have hi: "fl (v - 360) \<le> of_int ?c" using True by (intro fl_between(2) [OF assms _ c _ b, of "-180"]) simp_all
    have "of_int \<lceil>v\<rceil> \<le> v + 1" by linarith
    moreover have "of_int ?c = (of_int \<lceil>v\<rceil> :: rat) - 360" by simp
    ultimately have step: "fl (v - 360) \<le> v - 359" using hi by linarith
    have "fl (v - 360) \<le> 180 + 359 * of_nat n" using step Suc.prems(1) by (simp add: algebra_simps)
    moreover have "fl (v - 360) \<le> 20000" using step Suc.prems(2) by simp
    ultimately show ?thesis using Suc.IH [of "fl (v - 360)"] lo True by simp
  qed (use Suc.prems in simp)
qed

lemma wrap_up_range:
  assumes "fl_sane fl"
  shows "-180 - 359 * of_nat n \<le> v \<Longrightarrow> -20000 \<le> v \<Longrightarrow> v \<le> 180 \<Longrightarrow> \<bar>wrap_up n fl v\<bar> \<le> 180"
proof (induction n arbitrary: v)
  case 0
  then show ?case by (simp add: abs_le_iff)
next
  case (Suc n)
  show ?case
  proof (cases "v < -180")
    case True
    let ?c = "\<lfloor>v\<rfloor> + 360"
    have c: "of_int ?c \<le> v + 360" by simp
    have "-20000 \<le> \<lfloor>v\<rfloor>" "\<lfloor>v\<rfloor> \<le> -180" using Suc.prems(2) True by (simp_all add: le_floor_iff floor_le_iff)
    then have b: "\<bar>?c\<bar> \<le> 20000" by linarith
    have hi: "fl (v + 360) \<le> of_int 180" using True by (intro fl_between(2) [OF assms c _ b]) simp_all
    have lo: "of_int ?c \<le> fl (v + 360)" using True by (intro fl_between(1) [OF assms c _ b, of 180]) simp_all
    have "v - 1 \<le> of_int \<lfloor>v\<rfloor>" by linarith
    with lo have step: "v + 359 \<le> fl (v + 360)" by simp
    have "-180 - 359 * of_nat n \<le> fl (v + 360)" using step Suc.prems(1) by (simp add: algebra_simps)
    moreover have "-20000 \<le> fl (v + 360)" using step Suc.prems(2) by simp
    ultimately show ?thesis using Suc.IH [of "fl (v + 360)"] hi True by simp
  qed (use Suc.prems in \<open>simp add: abs_le_iff\<close>)
qed

text \<open>The fuel is enough: every angle of up to 20000 degrees is brought into range.\<close>

lemma wrap_range:
  assumes "fl_sane fl" "\<bar>v\<bar> \<le> 20000"
  shows "\<bar>apcam_wrap_degrees fl v\<bar> \<le> 180"
proof -
  have v: "v \<le> 20000" "-20000 \<le> v" using assms(2) by (simp_all add: abs_le_iff)
  have d: "wrap_down 64 fl v \<le> 180" "-180 \<le> v \<Longrightarrow> -180 \<le> wrap_down 64 fl v" "v \<le> 180 \<Longrightarrow> wrap_down 64 fl v = v"
    using wrap_down_range [OF assms(1), of v 64] v by simp_all
  have "-20000 \<le> wrap_down 64 fl v"
  proof (cases "-180 \<le> v")
    case True
    with d(2) show ?thesis by simp
  next
    case False
    with d(3) v show ?thesis by simp
  qed
  then show ?thesis
    unfolding apcam_wrap_degrees_def using wrap_up_range [OF assms(1), of 64 "wrap_down 64 fl v"] d(1) by simp
qed

text \<open>In exact arithmetic the wrap-around only takes away full turns.\<close>

lemma wrap_down_turns: "\<exists>k::int. wrap_down n (\<lambda>x. x) v = v - 360 * of_int k"
proof (induction n arbitrary: v)
  case 0
  show ?case by (rule exI [of _ 0]) simp
next
  case (Suc n)
  obtain k where "wrap_down n (\<lambda>x. x) (v - 360) = v - 360 - 360 * of_int k" using Suc by blast
  then have "180 < v \<Longrightarrow> wrap_down (Suc n) (\<lambda>x. x) v = v - 360 * of_int (k + 1)" by (simp add: algebra_simps)
  moreover have "\<not> 180 < v \<Longrightarrow> wrap_down (Suc n) (\<lambda>x. x) v = v - 360 * of_int 0" by simp
  ultimately show ?case by blast
qed

lemma wrap_up_turns: "\<exists>k::int. wrap_up n (\<lambda>x. x) v = v - 360 * of_int k"
proof (induction n arbitrary: v)
  case 0
  show ?case by (rule exI [of _ 0]) simp
next
  case (Suc n)
  obtain k where "wrap_up n (\<lambda>x. x) (v + 360) = v + 360 - 360 * of_int k" using Suc by blast
  then have "v < -180 \<Longrightarrow> wrap_up (Suc n) (\<lambda>x. x) v = v - 360 * of_int (k - 1)" by (simp add: algebra_simps)
  moreover have "\<not> v < -180 \<Longrightarrow> wrap_up (Suc n) (\<lambda>x. x) v = v - 360 * of_int 0" by simp
  ultimately show ?case by blast
qed

lemma wrap_turns: "\<exists>k::int. apcam_wrap_degrees (\<lambda>x. x) v = v - 360 * of_int k"
proof -
  obtain a where a: "wrap_down 64 (\<lambda>x. x) v = v - 360 * of_int a" using wrap_down_turns by blast
  obtain b where "wrap_up 64 (\<lambda>x. x) (v - 360 * of_int a) = v - 360 * of_int a - 360 * of_int b"
    using wrap_up_turns by blast
  then have "apcam_wrap_degrees (\<lambda>x. x) v = v - 360 * of_int (a + b)"
    unfolding apcam_wrap_degrees_def a by (simp add: algebra_simps)
  then show ?thesis by blast
qed

lemma fl_sane_id [simp]: "fl_sane (\<lambda>x. x)"
  by (simp add: fl_sane_def mono_def)

lemma no_turn: "- 360 < 360 * m \<Longrightarrow> 360 * m < 360 \<Longrightarrow> m = 0" for m :: int
  by presburger

text \<open>So two angles that differ by full turns come out the same, strictly inside the range.\<close>

lemma wrap_unique:
  assumes "\<bar>x\<bar> < 180" "\<bar>x - 360 * of_int k\<bar> \<le> 20000"
  shows "apcam_wrap_degrees (\<lambda>x. x) (x - 360 * of_int k) = x"
proof -
  obtain j where j: "apcam_wrap_degrees (\<lambda>x. x) (x - 360 * of_int k) = x - 360 * of_int k - 360 * of_int j"
    using wrap_turns by blast
  let ?m = "k + j"
  have e: "x - 360 * of_int k - 360 * of_int j = x - 360 * of_int ?m" by (simp add: algebra_simps)
  have "\<bar>x - 360 * of_int ?m\<bar> \<le> 180"
    using wrap_range [OF fl_sane_id assms(2)] j e by simp
  with assms(1) have "- 360 < 360 * (of_int ?m :: rat)" "360 * (of_int ?m :: rat) < 360" by linarith+
  then have "of_int (- 360) < (of_int (360 * ?m) :: rat)" "(of_int (360 * ?m) :: rat) < of_int 360" by simp_all
  then have "- 360 < 360 * ?m" "360 * ?m < 360" by (simp_all only: of_int_less_iff)
  then have "?m = 0" by (rule no_turn)
  with j e show ?thesis by simp
qed

subsection \<open>The mappings are invertible\<close>

lemma upt3: "[0..<3] = [0, 1, 2 :: nat]"
  by (simp add: upt_rec)

lemma transform_diagonal:
  "apcam_transform (\<lambda>x. x) (diagonal a b c off) [r, p, y] rates =
     (let w = (if rates then (\<lambda>x. x) else apcam_wrap_degrees (\<lambda>x. x)); z = (if rates then 0 else off)
      in [w (a * r), w (z + b * p), w (c * y)])"
  by (simp add: apcam_transform_def transform_row_def diagonal_def upt3 Let_def)

lemma inverse_diagonal:
  "apcam_inverse_transform (\<lambda>x. x) (diagonal a b c off) [r, p, y] rates =
     (let w = (if rates then (\<lambda>x. x) else apcam_wrap_degrees (\<lambda>x. x)); z = (if rates then 0 else off)
      in [w (a * r), w (b * (p - z)), w (c * y)])"
  by (simp add: apcam_inverse_transform_def inverse_row_def diagonal_def upt3 Let_def)

lemma wrap_inverse:
  assumes "s = 1 \<or> s = -1" "\<bar>x\<bar> < 180" "\<bar>off\<bar> \<le> 180"
  shows "apcam_wrap_degrees (\<lambda>x. x) (s * (apcam_wrap_degrees (\<lambda>x. x) (off + s * x) - off)) = x"
proof -
  obtain k where k: "apcam_wrap_degrees (\<lambda>x. x) (off + s * x) = off + s * x - 360 * of_int k" using wrap_turns by blast
  have "\<bar>off + s * x\<bar> \<le> 20000" using assms by auto
  then have "\<bar>off + s * x - 360 * of_int k\<bar> \<le> 180" using wrap_range [OF fl_sane_id] k by metis
  then have b: "\<bar>s * (off + s * x - 360 * of_int k - off)\<bar> \<le> 20000" using assms by auto
  have ss: "s * s = 1" using assms(1) by auto
  have "s * (off + s * x - 360 * of_int k - off) = (s * s) * x - 360 * (s * of_int k)" by (simp add: algebra_simps)
  then have e: "s * (off + s * x - 360 * of_int k - off) = x - 360 * (s * of_int k)" using ss by simp
  have "s * of_int k = of_int (if s = 1 then k else - k)" using assms(1) by auto
  with e have e': "s * (off + s * x - 360 * of_int k - off) = x - 360 * of_int (if s = 1 then k else - k)" by simp
  have "apcam_wrap_degrees (\<lambda>x. x) (x - 360 * of_int (if s = 1 then k else - k)) = x"
    using b unfolding e' by (rule wrap_unique [OF assms(2)])
  with k e' show ?thesis by simp
qed

lemma diagonal_inverse:
  assumes "a = 1 \<or> a = -1" "b = 1 \<or> b = -1" "c = 1 \<or> c = -1" "\<bar>off\<bar> \<le> 180" "\<bar>r\<bar> < 180" "\<bar>p\<bar> < 180" "\<bar>y\<bar> < 180"
  shows "apcam_inverse_transform (\<lambda>x. x) (diagonal a b c off)
      (apcam_transform (\<lambda>x. x) (diagonal a b c off) [r, p, y] rates) rates = [r, p, y]"
  using wrap_inverse [OF assms(1,5), of 0] wrap_inverse [OF assms(2,6,4)] wrap_inverse [OF assms(3,7), of 0] assms(1-3)
  by (auto simp: transform_diagonal inverse_diagonal Let_def)

definition target_mappings :: "gimbal_target \<Rightarrow> gimbal_transform list" where
  "target_mappings t = g_feedback t @ g_private_feedback t @ g_angle_command t @ g_rate_command t"

lemma diagonal_signs:
  assumes "a = 1 \<or> a = -1" "b = 1 \<or> b = -1" "c = 1 \<or> c = -1" "\<bar>off\<bar> \<le> 180"
  shows "\<exists>a' b' c' off'. diagonal a b c off = diagonal a' b' c' off' \<and> (a' = 1 \<or> a' = -1) \<and> (b' = 1 \<or> b' = -1) \<and>
    (c' = 1 \<or> c' = -1) \<and> \<bar>off'\<bar> \<le> 180"
  using assms by blast

lemma target_mapping_diagonal:
  assumes "t \<in> {mt11_gimbal, a8_gimbal, zr10_gimbal}" "m \<in> set (target_mappings t)"
  shows "\<exists>a b c off. m = diagonal a b c off \<and> (a = 1 \<or> a = -1) \<and> (b = 1 \<or> b = -1) \<and> (c = 1 \<or> c = -1) \<and> \<bar>off\<bar> \<le> 180"
proof -
  have "m \<in> set [diagonal 1 1 (-1) 0, diagonal 1 1 1 0, diagonal 1 (-1) 1 180, diagonal 1 (-1) 1 0, diagonal 1 (-1) (-1) 180]"
    using assms by (auto simp: target_mappings_def mt11_gimbal_def a8_gimbal_def zr10_gimbal_def)
  then have "m = diagonal 1 1 (-1) 0 \<or> m = diagonal 1 1 1 0 \<or> m = diagonal 1 (-1) 1 180 \<or>
      m = diagonal 1 (-1) 1 0 \<or> m = diagonal 1 (-1) (-1) 180" by simp
  then show ?thesis by (elim disjE; simp only:; intro diagonal_signs; simp)
qed

subsection \<open>The choice of a rate command\<close>

lemma segment_for_resume:
  "c' \<le> c \<Longrightarrow> segment_for curve c (segment_for curve c' s) = segment_for curve c s"
proof (induction curve c' s rule: segment_for.induct)
  case (1 curve c' s)
  show ?case
  proof (cases "s + 4 < length curve \<and> curve ! (s + 2) < of_int c'")
    case True
    then have "curve ! (s + 2) < of_int c" using 1(2) by (meson less_le_trans of_int_le_iff)
    with True 1 show ?thesis by (simp add: segment_for.simps [of curve c' s] segment_for.simps [of curve c s])
  next
    case False
    then show ?thesis by (simp only: segment_for.simps [of curve c' s] if_False)
  qed
qed

text \<open>The rate a command is measured to have, and how far it is from the rate asked for.\<close>

definition command_error :: "rounding \<Rightarrow> rat list \<Rightarrow> rat \<Rightarrow> int \<Rightarrow> rat" where
  "command_error fl curve d c = \<bar>fl (d - curve_rate fl curve (segment_for curve c 0) c)\<bar>"

definition scan_result :: "(int \<Rightarrow> rat) \<Rightarrow> int list \<Rightarrow> int \<Rightarrow> rat \<Rightarrow> int \<Rightarrow> bool" where
  "scan_result E cs best best_error r \<longleftrightarrow>
     (r = best \<and> (\<forall>c \<in> set cs. best_error \<le> E c)) \<or>
     (r \<in> set cs \<and> E r < best_error \<and> (\<forall>c \<in> set cs. E r \<le> E c) \<and> (\<forall>c \<in> set cs. c < r \<longrightarrow> E r < E c))"

lemma rate_scan_result:
  "sorted cs \<Longrightarrow> distinct cs \<Longrightarrow> \<forall>c \<in> set cs. segment_for curve c s = segment_for curve c 0 \<Longrightarrow>
   scan_result (command_error fl curve d) cs best best_error (rate_scan fl curve d cs s best best_error)"
proof (induction cs arbitrary: s best best_error)
  case Nil
  then show ?case by (simp add: scan_result_def)
next
  case (Cons c cs)
  let ?E = "command_error fl curve d" and ?s = "segment_for curve c s"
  have le: "\<forall>c' \<in> set cs. c < c'" using Cons.prems(1,2) by (metis distinct.simps(2) order_le_less sorted_simps(2))
  have s: "?s = segment_for curve c 0" using Cons.prems(3) by simp
  have seg: "\<forall>c' \<in> set cs. segment_for curve c' ?s = segment_for curve c' 0"
    using Cons.prems(3) le by (metis less_imp_le list.set_intros(2) segment_for_resume)
  have ih: "scan_result ?E cs b e (rate_scan fl curve d cs ?s b e)" for b e
    using Cons.IH [of ?s b e] Cons.prems(1,2) seg by simp
  have e: "\<bar>fl (d - curve_rate fl curve ?s c)\<bar> = ?E c" by (simp add: command_error_def s)
  show ?case
  proof (cases "?E c < best_error")
    case True
    let ?r = "rate_scan fl curve d cs ?s c (?E c)"
    have "rate_scan fl curve d (c # cs) s best best_error = ?r" using True e by (simp add: Let_def)
    moreover have "scan_result ?E (c # cs) best best_error ?r"
      using ih [of c "?E c"] True le unfolding scan_result_def by fastforce
    ultimately show ?thesis by simp
  next
    case False
    let ?r = "rate_scan fl curve d cs ?s best best_error"
    have "rate_scan fl curve d (c # cs) s best best_error = ?r" using False e by (simp add: Let_def)
    moreover have "scan_result ?E (c # cs) best best_error ?r"
      using ih [of best best_error] False le unfolding scan_result_def by fastforce
    ultimately show ?thesis by simp
  qed
qed

lemma scan_result_upto:
  assumes "scan_result E [lo..hi] 0 e r" "lo \<le> 0" "0 \<le> hi"
  shows "lo \<le> r \<and> r \<le> hi \<and>
    (r = 0 \<and> list_all (\<lambda>c. e \<le> E c) [lo..hi] \<or>
     E r < e \<and> list_all (\<lambda>c. E r \<le> E c) [lo..hi] \<and> list_all (\<lambda>c. E r < E c) [lo..r - 1])"
  using assms unfolding scan_result_def list_all_iff set_upto by (elim disjE) auto

text \<open>C35: the rate command of the A8 is the best one there is. For every requested rate, every
  measured curve and every rounding, the command lies between -100 and 100; it is 0 when no command comes
  closer to the request than standing still, and otherwise it is the first of all commands whose
  measured rate is nearest to the request, in spite of the scan carrying the curve segment along. A
  request of no motion always gives the command 0.\<close>

theorem gimbal_rate_nearest:
  defines "E \<equiv> \<lambda>fl d curve. command_error fl (map fl curve) d"
  shows "-100 \<le> ca_gimbal_rate_command fl d curve \<and> ca_gimbal_rate_command fl d curve \<le> 100 \<and>
    (ca_gimbal_rate_command fl d curve = 0 \<and> list_all (\<lambda>c. \<bar>d\<bar> \<le> E fl d curve c) [-100..100] \<or>
     E fl d curve (ca_gimbal_rate_command fl d curve) < \<bar>d\<bar> \<and>
     list_all (\<lambda>c. E fl d curve (ca_gimbal_rate_command fl d curve) \<le> E fl d curve c) [-100..100] \<and>
     list_all (\<lambda>c. E fl d curve (ca_gimbal_rate_command fl d curve) < E fl d curve c)
       [-100..ca_gimbal_rate_command fl d curve - 1]) \<and>
    ca_gimbal_rate_command fl 0 curve = 0"
proof -
  have r: "scan_result (E fl d curve) [-100..100] 0 \<bar>d\<bar> (ca_gimbal_rate_command fl d curve)" for d
    unfolding ca_gimbal_rate_command_def E_def
    by (rule rate_scan_result [OF sorted_upto distinct_upto]) (rule ballI, rule refl)
  have "0 \<le> E fl 0 curve c" for c by (simp add: E_def command_error_def)
  then have "\<not> E fl 0 curve c < \<bar>0\<bar>" for c by (simp add: not_less)
  then have z: "ca_gimbal_rate_command fl 0 curve = 0" using r [of 0] unfolding scan_result_def by blast
  from scan_result_upto [OF r [of d] _ _] z show ?thesis by (metis neg_le_0_iff_le zero_le_numeral)
qed

text \<open>The coordinate mappings lose nothing. For each target, each channel and each mount, mapping
  joint angles strictly between -180 and 180 degrees and mapping back gives the same angles, and the
  same holds for rates; every angle that comes out is between -180 and 180 degrees.\<close>

theorem gimbal_mapping_inverse:
  assumes "t \<in> {mt11_gimbal, a8_gimbal, zr10_gimbal}" "m \<in> set (target_mappings t)"
    and "\<bar>r\<bar> < 180" "\<bar>p\<bar> < 180" "\<bar>y\<bar> < 180"
  shows "apcam_inverse_transform (\<lambda>x. x) m (apcam_transform (\<lambda>x. x) m [r, p, y] rates) rates = [r, p, y] \<and>
    list_all (\<lambda>v. \<bar>v\<bar> \<le> 180) (apcam_transform (\<lambda>x. x) m [r, p, y] False)"
proof -
  obtain a b c off where m: "m = diagonal a b c off" "a = 1 \<or> a = -1" "b = 1 \<or> b = -1" "c = 1 \<or> c = -1" "\<bar>off\<bar> \<le> 180"
    using target_mapping_diagonal [OF assms(1,2)] by blast
  have "\<bar>a * r\<bar> \<le> 20000" "\<bar>off + b * p\<bar> \<le> 20000" "\<bar>c * y\<bar> \<le> 20000" using m assms(3-5) by auto
  then show ?thesis
    using diagonal_inverse [OF m(2-5) assms(3-5)] wrap_range [OF fl_sane_id]
    by (simp add: m(1) transform_diagonal Let_def)
qed

lemma gimbal_mapping_inverse_witness:
  "apcam_inverse_transform (\<lambda>x. x) (diagonal 1 (-1) 1 180)
     (apcam_transform (\<lambda>x. x) (diagonal 1 (-1) 1 180) [1, -30, 170] False) False = [1, -30, 170]"
  using gimbal_mapping_inverse [of a8_gimbal "diagonal 1 (-1) 1 180" 1 "-30" 170 False]
  by (simp add: target_mappings_def a8_gimbal_def)

end
