(* ===== verification/Gimbal_Backend.thy ===== *)
theory Gimbal_Backend
  imports Gimbal_Map Private_Uart
begin

text \<open>
  What the MT11 backend (\<^verbatim>\<open>camera_app/src/backends/mt11/control.c\<close>) and the A8/ZR10 backend
  (\<^verbatim>\<open>camera_app/src/backends/siyi/control.c\<close>) have in common, the two files repeat it: the part of
  \<^verbatim>\<open>struct ca_backend\<close> they share, the callbacks to the media layer, and the replies to SIYI
  clients. The callbacks, the link and the clock are the surroundings of the backend: the n-th time it
  consults them they give the n-th answer of the tape \<^term>\<open>env\<close>. The packets handed to the clients
  and the calls made, with their results, are recorded in order. Log messages are not modelled.
\<close>

record thermal_range =
  maximum_centi_c :: u16
  minimum_centi_c :: u16
  maximum_x :: u16
  maximum_y :: u16
  minimum_x :: u16
  minimum_y :: u16

datatype gb_call = Recording_set bool | Zoom_set rat | Lens_set bool | Thermal_main_set bool
  | Autofocus u16 u16 | Manual_focus int | Photo_capture | Thermal_gain_set u8 | Thermal_palette_set u8
  | Inverted_set bool | Clock_settime u64 u64 | Link_write bytes

datatype gb_event = Emitted bytes | Called gb_call "errno option"

text \<open>One answer: the result of a call, a flag, a ratio, a byte, a range, the time in milliseconds, or a
  report for the focus motor.\<close>

record gb_answer =
  an_result :: "errno option"
  an_flag :: bool
  an_ratio :: rat
  an_byte :: "errno + u8"
  an_range :: "thermal_range option"
  an_clock :: u64
  an_focus :: "bytes option"

type_synonym gb_env = "nat \<Rightarrow> gb_answer"

record gimbal_backend =
  consults :: nat
  events :: "gb_event list"
  manual_active :: bool
  manual_command :: bool
  link_sequence :: u16
  public_sequence :: u16
  gimbal_mode :: u8
  gb_orientation :: int
  mounting_direction :: u8
  feedback_last :: u8
  attitude :: gimbal_attitude
  have_attitude :: bool
  angle_target :: angle_target

subsection \<open>The surroundings\<close>

definition consult :: "gb_env \<Rightarrow> 'a gimbal_backend_scheme \<Rightarrow> gb_answer \<times> 'a gimbal_backend_scheme" where
  "consult env b = (env (consults b), b\<lparr>consults := consults b + 1\<rparr>)"

definition record_event :: "gb_event \<Rightarrow> 'a gimbal_backend_scheme \<Rightarrow> 'a gimbal_backend_scheme" where
  "record_event e b = b\<lparr>events := events b @ [e]\<rparr>"

text \<open>A call of a callback or of the system: its result is recorded with it.\<close>

definition perform ::
  "gb_env \<Rightarrow> gb_call \<Rightarrow> 'a gimbal_backend_scheme \<Rightarrow> errno option \<times> 'a gimbal_backend_scheme" where
  "perform env c b = (let (a, b1) = consult env b in (an_result a, record_event (Called c (an_result a)) b1))"

definition monotonic_ms :: "gb_env \<Rightarrow> 'a gimbal_backend_scheme \<Rightarrow> u64 \<times> 'a gimbal_backend_scheme" where
  "monotonic_ms env b = (let (a, b1) = consult env b in (an_clock a, b1))"

subsection \<open>Operations of both backends\<close>

text \<open>A reply or a command: the buffer of 2048 bytes on the stack, and the packet built in it.\<close>

definition public_packet :: "u8 \<Rightarrow> u16 \<Rightarrow> u8 \<Rightarrow> bytes \<Rightarrow> bytes" where
  "public_packet ctl seq op data =
     (let (buf, n) = ca_siyi_build (replicate 2048 0) ctl seq op (Some data) (of_nat (length data)) in take n buf)"

definition emit_local :: "u8 \<Rightarrow> bytes \<Rightarrow> 'a gimbal_backend_scheme \<Rightarrow> 'a gimbal_backend_scheme" where
  "emit_local op data b =
     (let packet = public_packet 2 (public_sequence b) op data; b1 = b\<lparr>public_sequence := public_sequence b + 1\<rparr>
      in if length packet \<noteq> 0 then record_event (Emitted packet) b1 else b1)"

definition emit_feedback :: "u8 \<Rightarrow> 'a gimbal_backend_scheme \<Rightarrow> 'a gimbal_backend_scheme" where
  "emit_feedback feedback b = emit_local 0x0b [feedback] (b\<lparr>feedback_last := feedback\<rparr>)"

definition toggle_recording :: "gb_env \<Rightarrow> 'a gimbal_backend_scheme \<Rightarrow> u8 \<times> 'a gimbal_backend_scheme" where
  "toggle_recording env b =
     (let (a, b1) = consult env b; active = an_flag a; (r, b2) = perform env (Recording_set (\<not> active)) b1
      in (if r \<noteq> None then 4 else if active then 6 else 5, b2))"

definition capture_photo :: "gb_env \<Rightarrow> 'a gimbal_backend_scheme \<Rightarrow> bool \<times> 'a gimbal_backend_scheme" where
  "capture_photo env b = (let (r, b1) = perform env Photo_capture b in (r = None, b1))"

text \<open>\<^verbatim>\<open>(unsigned)(zoom * 10.0f + 0.5f)\<close>; the media layer keeps the zoom between 1 and its maximum.\<close>

definition zoom_tenths :: "rounding \<Rightarrow> rat \<Rightarrow> u32" where
  "zoom_tenths fl zoom = word_of_int (trunc_int (fl (fl (zoom * 10) + 1 / 2)))"

definition zoom_payload :: "rounding \<Rightarrow> gb_env \<Rightarrow> 'a gimbal_backend_scheme \<Rightarrow> bytes \<times> 'a gimbal_backend_scheme" where
  "zoom_payload fl env b =
     (let (a, b1) = consult env b; tenths = zoom_tenths fl (an_ratio a)
      in ([to8 (tenths div 10), to8 (tenths mod 10)], b1))"

text \<open>The literal \<^verbatim>\<open>0.1f\<close>, the zoom asked for by a packet, and a step of the zoom.\<close>

definition tenth_f :: rat where "tenth_f = 13421773 / 134217728"

definition packet_zoom :: "rounding \<Rightarrow> bytes \<Rightarrow> rat" where
  "packet_zoom fl data = fl (of_nat (unat (data ! 0)) + fl (of_nat (unat (data ! 1)) * tenth_f))"

definition zoom_step :: "rounding \<Rightarrow> rat \<Rightarrow> int \<Rightarrow> rat \<Rightarrow> rat" where
  "zoom_step fl maximum direction z0 =
     (let z1 = (if direction = 1 then fl (z0 + tenth_f) else if direction = -1 then fl (z0 - tenth_f) else z0);
          z2 = (if z1 < 1 then 1 else z1)
      in if maximum < z2 then maximum else z2)"

text \<open>The time in a packet, eight bytes of microseconds, as seconds and nanoseconds.\<close>

definition packet_usec :: "bytes \<Rightarrow> u64" where
  "packet_usec data = foldl (\<lambda>u i. u OR push_bit (8 * i) (to64 (data ! i))) 0 [0..<8]"

definition settime_call :: "bytes \<Rightarrow> gb_call" where
  "settime_call data = Clock_settime (packet_usec data div 1000000) (packet_usec data mod 1000000 * 1000)"

text \<open>The signed sixteen-bit values of an attitude report, and the attitude they give: the report has
  yaw, pitch, roll and their rates in tenths of a degree; the mapping takes them to joint angles.\<close>

definition report_value :: "bytes \<Rightarrow> nat \<Rightarrow> int" where
  "report_value data i = sint (get_u16_le data (2 * i))"

definition report_attitude ::
  "rounding \<Rightarrow> rat \<Rightarrow> gimbal_transform \<Rightarrow> int list \<Rightarrow> bool \<Rightarrow> gimbal_attitude \<Rightarrow> gimbal_attitude" where
  "report_attitude fl scale m v has_rates old =
     (let q = (\<lambda>i. fl (of_int (v ! i) / 10));
          pose = apcam_transform fl m [q 2, q 1, q 0] False;
          rates = apcam_transform fl m [q 5, q 4, q 3] True;
          a = old\<lparr>ga_roll := fl (pose ! 0 * scale), ga_pitch := fl (pose ! 1 * scale), ga_yaw := fl (pose ! 2 * scale)\<rparr>
      in if has_rates
         then a\<lparr>ga_roll_rate := fl (rates ! 0 * scale), ga_pitch_rate := fl (rates ! 1 * scale),
                ga_yaw_rate := fl (rates ! 2 * scale)\<rparr>
         else a)"

text \<open>The payloads of the commands to the gimbal.\<close>

definition int16_bytes :: "int \<Rightarrow> bytes" where "int16_bytes v = le16 (word_of_int v)"

definition angle_payload :: "int \<Rightarrow> int \<Rightarrow> bytes" where
  "angle_payload yaw pitch = int16_bytes yaw @ int16_bytes pitch"

definition rate_payload :: "int \<times> int \<Rightarrow> bytes" where
  "rate_payload rates = [word_of_int (fst rates), word_of_int (snd rates)]"

subsection \<open>Lemmas\<close>

lemma consult_simps [simp]:
  "fst (consult env b) = env (consults b)" "snd (consult env b) = b\<lparr>consults := consults b + 1\<rparr>"
  by (simp_all add: consult_def)

lemma public_packet_frame:
  "length data \<le> 2038 \<Longrightarrow> public_packet ctl seq op data = siyi_frame ctl seq op data"
  using ca_siyi_build_frame [of data "of_nat (length data)" "replicate 2048 0" ctl seq op]
    take_blit_end [of 0 "siyi_frame ctl seq op data" "replicate 2048 0"]
  by (simp add: public_packet_def unat_of_nat)

lemma siyi_frame_nonempty [simp]: "siyi_frame ctl seq op data \<noteq> []"
  by (simp add: siyi_frame_def siyi_body_def)

lemma emit_local_frame:
  "length data \<le> 2038 \<Longrightarrow>
   emit_local op data b = record_event (Emitted (siyi_frame 2 (public_sequence b) op data)) (b\<lparr>public_sequence := public_sequence b + 1\<rparr>)"
  by (simp add: emit_local_def public_packet_frame Let_def)

text \<open>What was emitted, and what was written to the link with which result.\<close>

definition emitted :: "gb_event list \<Rightarrow> bytes list" where
  "emitted es = [p. Emitted p \<leftarrow> es]"

definition written :: "gb_event list \<Rightarrow> (bytes \<times> errno option) list" where
  "written es = [(f, r). Called (Link_write f) r \<leftarrow> es]"

lemma emitted_simps [simp]:
  "emitted [] = []" "emitted (Emitted p # es) = p # emitted es" "emitted (Called c r # es) = emitted es"
  "emitted (xs @ ys) = emitted xs @ emitted ys"
  by (simp_all add: emitted_def)

lemma written_simps [simp]:
  "written [] = []" "written (Emitted p # es) = written es" "written (Called (Link_write f) r # es) = (f, r) # written es"
  "written (Called (Recording_set x) r # es) = written es" "written (Called (Zoom_set z) r # es) = written es"
  "written (Called (Lens_set x) r # es) = written es" "written (Called (Thermal_main_set x) r # es) = written es"
  "written (Called (Autofocus u v) r # es) = written es" "written (Called (Manual_focus d) r # es) = written es"
  "written (Called Photo_capture r # es) = written es" "written (Called (Thermal_gain_set g) r # es) = written es"
  "written (Called (Thermal_palette_set g) r # es) = written es" "written (Called (Inverted_set x) r # es) = written es"
  "written (Called (Clock_settime t n) r # es) = written es"
  "written (xs @ ys) = written xs @ written ys"
  by (simp_all add: written_def)

subsection \<open>What an operation may do\<close>

text \<open>A quiet stretch consults the surroundings but hands nothing to the clients or the gimbal; an
  operation that is answered here hands over at most one reply, with the next sequence number.\<close>

definition same_link :: "'a gimbal_backend_scheme \<Rightarrow> 'a gimbal_backend_scheme \<Rightarrow> bool" where
  "same_link b b' \<longleftrightarrow> link_sequence b' = link_sequence b \<and> angle_target b' = angle_target b \<and>
     manual_active b' = manual_active b \<and> manual_command b' = manual_command b"

definition quiet :: "'a gimbal_backend_scheme \<Rightarrow> 'a gimbal_backend_scheme \<Rightarrow> bool" where
  "quiet b b' \<longleftrightarrow> same_link b b' \<and> public_sequence b' = public_sequence b \<and>
     (\<exists>es. events b' = events b @ es \<and> emitted es = [] \<and> written es = [])"

definition answered_here :: "u8 \<Rightarrow> bool \<Rightarrow> 'a gimbal_backend_scheme \<Rightarrow> errno option \<times> 'a gimbal_backend_scheme \<Rightarrow> bool" where
  "answered_here op must b out \<longleftrightarrow> same_link b (snd out) \<and>
     (\<exists>es. events (snd out) = events b @ es \<and> written es = [] \<and>
       (emitted es = [] \<and> (fst out = None \<longrightarrow> \<not> must) \<or>
        fst out = None \<and> (\<exists>data. length data \<le> 12 \<and> emitted es = [siyi_frame 2 (public_sequence b) op data])))"

definition link_call :: "gb_call \<Rightarrow> bool" where
  "link_call c = (case c of Link_write f \<Rightarrow> True | _ \<Rightarrow> False)"

lemma link_call_simps [simp]:
  "link_call (Link_write f)" "\<not> link_call (Recording_set x)" "\<not> link_call (Zoom_set z)" "\<not> link_call (Lens_set x)"
  "\<not> link_call (Thermal_main_set x)" "\<not> link_call (Autofocus u v)" "\<not> link_call (Manual_focus d)"
  "\<not> link_call Photo_capture" "\<not> link_call (Thermal_gain_set g)" "\<not> link_call (Thermal_palette_set g)"
  "\<not> link_call (Inverted_set x)" "\<not> link_call (Clock_settime t n)" "\<not> link_call (settime_call data)"
  by (simp_all add: link_call_def settime_call_def)

lemma written_other [simp]: "\<not> link_call c \<Longrightarrow> written (Called c r # es) = written es"
  by (cases c) simp_all

lemma same_link_refl [simp]: "same_link b b"
  by (simp add: same_link_def)

lemma quiet_refl [simp]: "quiet b b"
  by (simp add: quiet_def)

lemma quiet_consult: "consult env b1 = (a, b2) \<Longrightarrow> quiet b b1 \<Longrightarrow> quiet b b2"
  by (auto simp: consult_def quiet_def same_link_def)

lemma quiet_clock: "monotonic_ms env b1 = (t, b2) \<Longrightarrow> quiet b b1 \<Longrightarrow> quiet b b2"
  by (auto simp: monotonic_ms_def consult_def quiet_def same_link_def)

lemma quiet_perform: "perform env c b1 = (r, b2) \<Longrightarrow> \<not> link_call c \<Longrightarrow> quiet b b1 \<Longrightarrow> quiet b b2"
proof -
  assume a: "perform env c b1 = (r, b2)" "\<not> link_call c" "quiet b b1"
  then obtain es where "events b1 = events b @ es" "emitted es = []" "written es = []" by (auto simp: quiet_def)
  then have "events b2 = events b @ (es @ [Called c r])" "emitted (es @ [Called c r]) = []" "written (es @ [Called c r]) = []"
    using a(1,2) by (auto simp: perform_def consult_def record_event_def)
  moreover have "same_link b b2" "public_sequence b2 = public_sequence b"
    using a by (auto simp: perform_def consult_def record_event_def quiet_def same_link_def)
  ultimately show ?thesis unfolding quiet_def by blast
qed

lemma quiet_toggle: "toggle_recording env b1 = (v, b2) \<Longrightarrow> quiet b b1 \<Longrightarrow> quiet b b2"
  by (auto simp: toggle_recording_def Let_def split: prod.splits intro: quiet_perform quiet_consult)

lemma quiet_photo: "capture_photo env b1 = (ok, b2) \<Longrightarrow> quiet b b1 \<Longrightarrow> quiet b b2"
  by (auto simp: capture_photo_def Let_def split: prod.splits intro: quiet_perform)

lemma quiet_zoom: "zoom_payload fl env b1 = (data, b2) \<Longrightarrow> quiet b b1 \<Longrightarrow> quiet b b2 \<and> length data = 2"
  by (auto simp: zoom_payload_def Let_def split: prod.splits intro: quiet_consult)

lemma quiet_field: "quiet b b1 \<Longrightarrow> quiet b (b1\<lparr>gimbal_mode := m\<rparr>)" "quiet b b1 \<Longrightarrow> quiet b (b1\<lparr>feedback_last := m\<rparr>)"
  "quiet b b1 \<Longrightarrow> quiet b (b1\<lparr>attitude := a, have_attitude := h\<rparr>)" "quiet b b1 \<Longrightarrow> quiet b (b1\<lparr>mounting_direction := m\<rparr>)"
  by (simp_all add: quiet_def same_link_def)

lemmas quiet_intros = quiet_perform quiet_consult quiet_clock quiet_toggle quiet_photo quiet_zoom [THEN conjunct1] quiet_field

text \<open>A reply after a quiet stretch, and the results without one.\<close>

lemma answered_reply:
  assumes "quiet b b1" "length data \<le> 12"
  shows "answered_here op must b (None, emit_local op data b1)"
proof -
  obtain es where es: "events b1 = events b @ es" "emitted es = []" "written es = []" using assms(1) by (auto simp: quiet_def)
  have q: "same_link b b1" "public_sequence b1 = public_sequence b" using assms(1) by (simp_all add: quiet_def)
  let ?f = "siyi_frame 2 (public_sequence b) op data" and ?b = "emit_local op data b1"
  have l: "length data \<le> 2038" using assms(2) by simp
  have "events ?b = events b @ (es @ [Emitted ?f])"
    by (simp add: emit_local_frame [OF l] record_event_def es(1) q(2))
  moreover have "written (es @ [Emitted ?f]) = []" "emitted (es @ [Emitted ?f]) = [?f]" using es by simp_all
  moreover have "same_link b ?b" using q(1) by (simp add: emit_local_frame [OF l] record_event_def same_link_def)
  ultimately show ?thesis using assms(2) unfolding answered_here_def by (metis fst_conv snd_conv)
qed

lemma answered_feedback: "quiet b b1 \<Longrightarrow> answered_here 0x0b must b (None, emit_feedback v b1)"
  unfolding emit_feedback_def by (rule answered_reply) (simp_all add: quiet_field)

lemma answered_quiet: "quiet b b1 \<Longrightarrow> r \<noteq> None \<or> \<not> must \<Longrightarrow> answered_here op must b (r, b1)"
  by (auto simp: quiet_def answered_here_def)

lemma answered_then_quiet: "answered_here op must b (r, b1) \<Longrightarrow> quiet b1 b2 \<Longrightarrow> answered_here op must b (r, b2)"
proof -
  assume a: "answered_here op must b (r, b1)" "quiet b1 b2"
  then obtain es where es: "events b1 = events b @ es" "written es = []"
    "emitted es = [] \<and> (r = None \<longrightarrow> \<not> must) \<or>
     r = None \<and> (\<exists>data. length data \<le> 12 \<and> emitted es = [siyi_frame 2 (public_sequence b) op data])"
    unfolding answered_here_def fst_conv snd_conv by blast
  from a(2) obtain fs where fs: "events b2 = events b1 @ fs" "emitted fs = []" "written fs = []"
    unfolding quiet_def by blast
  have "same_link b b2" using a by (simp add: answered_here_def quiet_def same_link_def)
  moreover have "events b2 = events b @ (es @ fs)" "written (es @ fs) = []" "emitted (es @ fs) = emitted es" using es fs by simp_all
  ultimately show ?thesis using es(3) unfolding answered_here_def by (metis fst_conv snd_conv)
qed

end
