(* ===== verification/Mt11_Backend.thy ===== *)
theory Mt11_Backend
  imports Gimbal_Backend
begin

text \<open>
  The MT11 backend, \<^verbatim>\<open>camera_app/src/backends/mt11/control.c\<close>: SIYI packets from the clients are
  answered here or sent through the gimbal link inside a private frame, frames from the gimbal are
  acted on and their SIYI packets handed to the clients, and angles and rates become commands. The
  opening of the device is left out, \<^term>\<open>mt11_open\<close> starts where it is open. Results are None for
  0 and the error number for -1.
\<close>

definition MT11_SOURCE :: u8 where "MT11_SOURCE = 0x34"
definition MT11_MCU :: u8 where "MT11_MCU = 0x2e"
definition MT11_LINK :: u8 where "MT11_LINK = 0x6b"
definition MT11_TUNNEL :: u8 where "MT11_TUNNEL = 0x16"
definition MT11_REMOTE :: u8 where "MT11_REMOTE = 0x0a"
definition THERMAL_RANGE_INTERVAL_MS :: u64 where "THERMAL_RANGE_INTERVAL_MS = 200"

record mt11_backend = gimbal_backend +
  parser :: ca_private_parser
  thermal_continuous :: bool
  thermal_last_emit_ms :: u64

subsection \<open>The link\<close>

definition send_private :: "gb_env \<Rightarrow> u8 \<Rightarrow> u8 \<Rightarrow> bytes \<Rightarrow> mt11_backend \<Rightarrow> errno option \<times> mt11_backend" where
  "send_private env ctl command data b =
     (let (frame, n) = ca_private_build (replicate CA_PRIVATE_MAX_FRAME 0) ctl (link_sequence b) MT11_SOURCE MT11_MCU
            MT11_LINK command (Some data) (of_nat (length data));
          b1 = b\<lparr>link_sequence := link_sequence b + 1\<rparr>
      in if n = 0 then (Some EMSGSIZE, b1) else perform env (Link_write (take n frame)) b1)"

fun send_all :: "gb_env \<Rightarrow> (u8 \<times> u8 \<times> bytes) list \<Rightarrow> mt11_backend \<Rightarrow> errno option \<times> mt11_backend" where
  "send_all env [] b = (None, b)"
| "send_all env ((ctl, command, data) # fs) b =
     (case send_private env ctl command data b of
        (None, b1) \<Rightarrow> send_all env fs b1
      | (Some e, b1) \<Rightarrow> (Some e, b1))"

definition send_startup :: "gb_env \<Rightarrow> mt11_backend \<Rightarrow> errno option \<times> mt11_backend" where
  "send_startup env b =
     send_all env [(0x09, 0x13, [0x0c, 0x00, 0x01, 0x89, 0x00]), (0x09, 0x17, []), (0x09, 0xc7, []), (0x09, 0x62, []),
       (0x08, 0x0d, [0x64, 0x00])] b"

definition mt11_initial :: "bool \<Rightarrow> bool \<Rightarrow> int \<Rightarrow> mt11_backend" where
  "mt11_initial active cmd orientation =
     \<lparr>consults = 0, events = [], manual_active = active, manual_command = cmd, link_sequence = 1, public_sequence = 1,
      gimbal_mode = 0, gb_orientation = orientation,
      mounting_direction = (if orientation = CA_MOUNT_INVERTED then 2 else 1), feedback_last = 6,
      attitude = \<lparr>ga_roll = 0, ga_pitch = 0, ga_yaw = 0, ga_roll_rate = 0, ga_pitch_rate = 0, ga_yaw_rate = 0,
        ga_timestamp_ms = 0\<rparr>,
      have_attitude = False, angle_target = \<lparr>at_valid = False, at_yaw = 0, at_pitch = 0, at_sent_ms = 0\<rparr>,
      parser = ca_private_parser_init, thermal_continuous = False, thermal_last_emit_ms = 0\<rparr>"

definition shutdown_payload :: bytes where
  "shutdown_payload = [0x00, 0x00, 0x00, 0x00, 0x00, 0x00, 0x00, 0x00, 0x00, 0x03, 0x00]"

definition ca_backend_close :: "gb_env \<Rightarrow> mt11_backend \<Rightarrow> mt11_backend" where
  "ca_backend_close env b = snd (send_private env 0x08 0x36 shutdown_payload b)"

definition mt11_open :: "gb_env \<Rightarrow> bool \<Rightarrow> bool \<Rightarrow> int \<Rightarrow> errno + mt11_backend" where
  "mt11_open env active cmd orientation =
     (case send_startup env (mt11_initial active cmd orientation) of
        (None, b) \<Rightarrow> Inr b
      | (Some e, b) \<Rightarrow> Inl e)"

subsection \<open>Frames from the gimbal\<close>

definition handle_tunnel :: "rounding \<Rightarrow> gb_env \<Rightarrow> bytes \<Rightarrow> mt11_backend \<Rightarrow> mt11_backend" where
  "handle_tunnel fl env data b =
     (case ca_siyi_parse_one data of
        Parsed p n \<Rightarrow>
          if n \<noteq> length data then b
          else if opcode p = 0x0a \<and> 4 \<le> payload_length p then
            let (a, b1) = consult env b
            in record_event (Emitted (fst (ca_siyi_rewrite_payload_byte data 3 (if an_flag a then 1 else 0)))) b1
          else
            let b1 = (if opcode p = 0x0d \<and> 12 \<le> payload_length p then
                        let m = mapping_for (g_feedback mt11_gimbal) (mounting_direction b = 2);
                            a = report_attitude fl (radians_f fl) m (map (report_value (payload p)) [0..<6]) True (attitude b);
                            (t, b2) = monotonic_ms env b
                        in b2\<lparr>attitude := a\<lparr>ga_timestamp_ms := t\<rparr>, have_attitude := True\<rparr>
                      else b);
                b3 = (if opcode p = 0x19 \<and> payload_length p = 1 \<and> payload p ! 0 \<le> 2
                      then b1\<lparr>gimbal_mode := payload p ! 0\<rparr> else b1)
            in record_event (Emitted data) b3
      | _ \<Rightarrow> b)"

definition handle_mounting :: "gb_env \<Rightarrow> u8 \<Rightarrow> mt11_backend \<Rightarrow> mt11_backend" where
  "handle_mounting env direction b =
     (let previous = mounting_direction b;
          inverted = (if gb_orientation b = CA_MOUNT_AUTO then direction = 2 else gb_orientation b = CA_MOUNT_INVERTED);
          (r, b1) = perform env (Inverted_set inverted) (b\<lparr>mounting_direction := direction\<rparr>);
          b2 = (if r \<noteq> None then b1 else b1\<lparr>mounting_direction := (if inverted then 2 else 1)\<rparr>)
      in if mounting_direction b2 \<noteq> previous then b2\<lparr>angle_target := (angle_target b2)\<lparr>at_valid := False\<rparr>\<rparr> else b2)"

definition handle_private :: "rounding \<Rightarrow> gb_env \<Rightarrow> ca_private_frame \<Rightarrow> mt11_backend \<Rightarrow> mt11_backend" where
  "handle_private fl env f b =
     (if pf_source f \<noteq> MT11_MCU \<or> pf_destination f \<noteq> MT11_SOURCE \<or> pf_link f \<noteq> MT11_LINK then b
      else if pf_command f = MT11_TUNNEL then handle_tunnel fl env (pf_payload f) b
      else if pf_command f = MT11_REMOTE \<and> pf_payload_length f \<noteq> 0 then
        (if pf_payload f ! 0 = 2 then (let (v, b1) = toggle_recording env b in emit_feedback v b1)
         else if pf_payload f ! 0 = 0 then (let (ok, b1) = capture_photo env b in emit_feedback (if ok then 0 else 1) b1)
         else b)
      else if pf_command f = 0x17 \<and> pf_payload_length f \<noteq> 0 \<and> 1 \<le> pf_payload f ! 0 \<and> pf_payload f ! 0 \<le> 2
      then handle_mounting env (pf_payload f ! 0) b
      else b)"

text \<open>The result of the read: the bytes, the end of the stream or nothing to read, or an error.\<close>

definition ca_backend_handle_fd ::
  "rounding \<Rightarrow> gb_env \<Rightarrow> errno + bytes \<Rightarrow> mt11_backend \<Rightarrow> errno option \<times> mt11_backend" where
  "ca_backend_handle_fd fl env received b =
     (case received of
        Inr data \<Rightarrow>
          if data = [] then (None, b)
          else let (p, frames) = ca_private_parser_feed (parser b) data
               in (None, fold (handle_private fl env) frames (b\<lparr>parser := p\<rparr>))
      | Inl e \<Rightarrow> (if e = EAGAIN then None else Some e, b))"

subsection \<open>Packets from the clients\<close>

text \<open>The sections of \<^verbatim>\<open>ca_backend_handle_siyi\<close> in the order of the code; None: the packet is for none
  of the section's cases.\<close>

type_synonym answered = "(errno option \<times> mt11_backend) option"

definition reply :: "siyi_packet \<Rightarrow> bytes \<Rightarrow> mt11_backend \<Rightarrow> answered" where
  "reply p data b = Some (None, emit_local (opcode p) data b)"

definition single :: "siyi_packet \<Rightarrow> u8 \<Rightarrow> bool" where
  "single p v \<longleftrightarrow> payload_length p = 1 \<and> payload p ! 0 = v"

definition siyi_record :: "gb_env \<Rightarrow> siyi_packet \<Rightarrow> mt11_backend \<Rightarrow> answered" where
  "siyi_record env p b =
     (if opcode p = 0x0c \<and> single p 2 then (let (v, b1) = toggle_recording env b in Some (None, emit_feedback v b1)) else None)"

definition siyi_focus :: "gb_env \<Rightarrow> siyi_packet \<Rightarrow> mt11_backend \<Rightarrow> answered" where
  "siyi_focus env p b =
     (if opcode p = 0x04 \<and> (payload_length p = 1 \<or> payload_length p = 5) \<and> payload p ! 0 = 1 then
        let x = (if payload_length p = 5 then get_u16_le (payload p) 1 else 960);
            y = (if payload_length p = 5 then get_u16_le (payload p) 3 else 540)
        in if (x \<noteq> 0 \<or> y \<noteq> 0) \<and> (1920 \<le> x \<or> 1080 \<le> y) then reply p [0] b
           else let (r, b1) = perform env (Autofocus x y) b in reply p [if r \<noteq> None then 0 else 1] b1
      else if opcode p = 0x04 then Some (Some EINVAL, b)
      else if opcode p = 0x06 \<and> payload_length p = 1 then
        let direction = sint (payload p ! 0)
        in if direction < -1 \<or> 1 < direction then reply p [0] b
           else let (r, b1) = perform env (Manual_focus direction) b in reply p [if r \<noteq> None then 0 else 1] b1
      else if opcode p = 0x06 then reply p [0] b
      else None)"

definition siyi_photo :: "gb_env \<Rightarrow> siyi_packet \<Rightarrow> mt11_backend \<Rightarrow> answered" where
  "siyi_photo env p b =
     (if opcode p = 0x0c \<and> single p 0 then
        let (ok, b1) = capture_photo env b in Some (None, emit_feedback (if ok then 0 else 1) b1)
      else if opcode p = 0x0c \<and> single p 1 then Some (None, emit_feedback 3 b)
      else if opcode p = 0x0b \<and> payload_length p = 0 then Some (None, emit_feedback (feedback_last b) b)
      else None)"

definition emit_thermal_range :: "gb_env \<Rightarrow> mt11_backend \<Rightarrow> mt11_backend" where
  "emit_thermal_range env b =
     (let (a, b1) = consult env b
      in case an_range a of
           None \<Rightarrow> b1
         | Some r \<Rightarrow>
             let data = le16 (maximum_centi_c r) @ le16 (minimum_centi_c r) @ le16 (maximum_x r) @ le16 (maximum_y r) @
                        le16 (minimum_x r) @ le16 (minimum_y r);
                 (t, b2) = monotonic_ms env (emit_local 0x14 data b1)
             in b2\<lparr>thermal_last_emit_ms := t\<rparr>)"

definition siyi_thermal :: "gb_env \<Rightarrow> siyi_packet \<Rightarrow> mt11_backend \<Rightarrow> answered" where
  "siyi_thermal env p b =
     (if opcode p = 0x14 \<and> payload_length p = 1 \<and> payload p ! 0 \<le> 2 then
        let b1 = b\<lparr>thermal_continuous := (payload p ! 0 = 2)\<rparr>
        in Some (None, if payload p ! 0 \<noteq> 0 then emit_thermal_range env b1 else b1)
      else if opcode p = 0x37 \<and> payload_length p = 0 then
        let (a, b1) = consult env b
        in (case an_byte a of Inl e \<Rightarrow> Some (Some e, b1) | Inr gain \<Rightarrow> reply p [gain] b1)
      else if opcode p = 0x38 \<and> payload_length p = 1 \<and> payload p ! 0 \<le> 1 then
        Some (perform env (Thermal_gain_set (payload p ! 0)) b)
      else if opcode p = 0x37 \<or> opcode p = 0x38 then Some (Some EINVAL, b)
      else if opcode p = 0x1a \<and> payload_length p = 0 then
        let (a, b1) = consult env b
        in (case an_byte a of Inl e \<Rightarrow> Some (Some e, b1) | Inr palette \<Rightarrow> reply p [palette] b1)
      else if opcode p = 0x1b \<and> payload_length p = 1 \<and> payload p ! 0 \<le> 11 \<and> payload p ! 0 \<noteq> 1 then
        (case perform env (Thermal_palette_set (payload p ! 0)) b of
           (Some e, b1) \<Rightarrow> Some (Some e, b1)
         | (None, b1) \<Rightarrow> reply p [payload p ! 0] b1)
      else if opcode p = 0x1a \<or> opcode p = 0x1b then Some (Some EINVAL, b)
      else None)"

definition siyi_status :: "gb_env \<Rightarrow> siyi_packet \<Rightarrow> mt11_backend \<Rightarrow> answered" where
  "siyi_status env p b =
     (if opcode p = 0x30 then
        (if payload_length p = 8 then
           let (r, b1) = perform env (settime_call (payload p)) b in reply p [if r = None then 1 else 0] b1
         else reply p [0] b)
      else if opcode p = 0x0a \<and> payload_length p = 0 then
        let (a, b1) = consult env b
        in reply p [0, 0, 0, if an_flag a then 1 else 0, gimbal_mode b, mounting_direction b, 0, 0] b1
      else None)"

definition current_image_slots :: "gb_env \<Rightarrow> mt11_backend \<Rightarrow> bytes \<times> mt11_backend" where
  "current_image_slots env b =
     (let (thermal, b1) = consult env b
      in if an_flag thermal then ([2, 0], b1)
         else let (lens, b2) = consult env b1 in ([if an_flag lens then 1 else 0, 2], b2))"

text \<open>Leave the thermal image and select the lens: whether both succeed.\<close>

definition select_visible :: "gb_env \<Rightarrow> bool \<Rightarrow> mt11_backend \<Rightarrow> bool \<times> mt11_backend" where
  "select_visible env wide b =
     (case perform env (Thermal_main_set False) b of
        (Some e, b1) \<Rightarrow> (False, b1)
      | (None, b1) \<Rightarrow> let (r, b2) = perform env (Lens_set wide) b1 in (r = None, b2))"

definition siyi_image :: "gb_env \<Rightarrow> siyi_packet \<Rightarrow> mt11_backend \<Rightarrow> answered" where
  "siyi_image env p b =
     (if opcode p = 0x10 \<and> payload_length p = 0 then
        let (slots, b1) = current_image_slots env b in reply p slots b1
      else if opcode p = 0x11 \<and> payload_length p = 2 then
        let main_slot = payload p ! 0; (was_thermal, b0) = consult env b
        in if main_slot = 2 \<and> payload p ! 1 = 0 then
             (case perform env (Thermal_main_set True) b0 of
                (Some e, b1) \<Rightarrow> reply p [0xff, 0xff] b1
              | (None, b1) \<Rightarrow> let (slots, b2) = current_image_slots env b1 in reply p slots b2)
           else if main_slot \<noteq> 0 \<and> main_slot \<noteq> 3 \<and> main_slot \<noteq> 5 \<and> main_slot \<noteq> 1 \<and> main_slot \<noteq> 4 then
             reply p [0xff, 0xff] b0
           else
             let (ok, b1) = select_visible env (main_slot = 1 \<or> main_slot = 4) b0
             in if \<not> ok then
                  reply p [0xff, 0xff] (if an_flag was_thermal then snd (perform env (Thermal_main_set True) b1) else b1)
                else let (slots, b2) = current_image_slots env b1 in reply p slots b2
      else if opcode p = 0x11 \<and> payload_length p = 1 \<and> (payload p ! 0 = 3 \<or> payload p ! 0 = 5) then
        let (ok, b1) = select_visible env (payload p ! 0 = 5) b in reply p [if ok then payload p ! 0 else 0xff] b1
      else None)"

definition siyi_zoom :: "rounding \<Rightarrow> gb_env \<Rightarrow> siyi_packet \<Rightarrow> mt11_backend \<Rightarrow> answered" where
  "siyi_zoom fl env p b =
     (if opcode p = 0x16 \<and> payload_length p = 0 then reply p [10, 0] b
      else if opcode p = 0x18 \<and> payload_length p = 0 then
        let (data, b1) = zoom_payload fl env b in reply p data b1
      else if opcode p = 0x0f \<and> payload_length p = 2 then
        let (r, b1) = perform env (Zoom_set (packet_zoom fl (payload p))) b in reply p [if r = None then 1 else 0] b1
      else if opcode p = 0x05 \<and> payload_length p = 1 then
        let direction = sint (payload p ! 0); (a, b1) = consult env b
        in if direction \<noteq> 1 \<and> direction \<noteq> -1 \<and> direction \<noteq> 0 then Some (Some EINVAL, b1)
           else
             let zoom = zoom_step fl 10 direction (an_ratio a); tenths = zoom_tenths fl zoom
             in (case perform env (Zoom_set zoom) b1 of
                   (Some e, b2) \<Rightarrow> Some (Some e, b2)
                 | (None, b2) \<Rightarrow> reply p [to8 tenths, to8 (drop_bit 8 tenths)] b2)
      else None)"

text \<open>Everything else is for the gimbal.\<close>

definition siyi_tunnel :: "gb_env \<Rightarrow> siyi_packet \<Rightarrow> bytes \<Rightarrow> mt11_backend \<Rightarrow> errno option \<times> mt11_backend" where
  "siyi_tunnel env p data b =
     (let b1 = (if opcode p = 0x0c \<and> payload_length p = 1 \<and> 3 \<le> payload p ! 0 \<and> payload p ! 0 \<le> 5
                then b\<lparr>gimbal_mode := payload p ! 0 - 3\<rparr> else b)
      in send_private env 0x08 MT11_TUNNEL data
           (b1\<lparr>angle_target := ca_angle_target_invalidate_siyi (angle_target b1) (opcode p) (payload p)\<rparr>))"

fun first_answer :: "('b \<Rightarrow> ('r \<times> 'b) option) list \<Rightarrow> 'b \<Rightarrow> ('r \<times> 'b) option" where
  "first_answer [] b = None"
| "first_answer (f # fs) b = (case f b of None \<Rightarrow> first_answer fs b | Some r \<Rightarrow> Some r)"

definition siyi_sections :: "rounding \<Rightarrow> gb_env \<Rightarrow> siyi_packet \<Rightarrow> (mt11_backend \<Rightarrow> answered) list" where
  "siyi_sections fl env p =
     [siyi_record env p, siyi_focus env p, siyi_photo env p, siyi_thermal env p, siyi_status env p, siyi_image env p,
      siyi_zoom fl env p]"

definition ca_backend_handle_siyi ::
  "rounding \<Rightarrow> gb_env \<Rightarrow> bytes \<Rightarrow> mt11_backend \<Rightarrow> errno option \<times> mt11_backend" where
  "ca_backend_handle_siyi fl env data b =
     (case ca_siyi_parse_one data of
        Parsed p n \<Rightarrow>
          if n \<noteq> length data then (Some EPROTO, b)
          else if ca_backend_manual_blocked (manual_active b) (manual_command b) (opcode p) (payload p) then (None, b)
          else (case first_answer (siyi_sections fl env p) b of
                  Some answer \<Rightarrow> answer
                | None \<Rightarrow> siyi_tunnel env p data b)
      | _ \<Rightarrow> (Some EPROTO, b))"

definition ca_backend_periodic :: "gb_env \<Rightarrow> mt11_backend \<Rightarrow> mt11_backend" where
  "ca_backend_periodic env b =
     (if \<not> thermal_continuous b then b
      else
        let (now, b1) = monotonic_ms env b
        in if thermal_last_emit_ms b1 = 0 \<or> THERMAL_RANGE_INTERVAL_MS \<le> now - thermal_last_emit_ms b1
           then emit_thermal_range env b1 else b1)"

subsection \<open>Commands of the application\<close>

definition send_public_command :: "gb_env \<Rightarrow> u8 \<Rightarrow> bytes \<Rightarrow> mt11_backend \<Rightarrow> errno option \<times> mt11_backend" where
  "send_public_command env op data b =
     (let packet = public_packet 1 (public_sequence b) op data; b1 = b\<lparr>public_sequence := public_sequence b + 1\<rparr>
      in if packet = [] then (Some EMSGSIZE, b1)
         else send_private env 0x08 MT11_TUNNEL packet
           (b1\<lparr>angle_target := ca_angle_target_invalidate_siyi (angle_target b1) op data\<rparr>))"

definition ca_backend_request_gimbal_attitude :: "gb_env \<Rightarrow> mt11_backend \<Rightarrow> errno option \<times> mt11_backend" where
  "ca_backend_request_gimbal_attitude env b = send_public_command env 0x0d [] b"

definition ca_backend_gimbal_attitude :: "mt11_backend \<Rightarrow> gimbal_attitude option" where
  "ca_backend_gimbal_attitude b = (if have_attitude b then Some (attitude b) else None)"

definition ca_backend_set_gimbal_angles ::
  "rounding \<Rightarrow> gb_env \<Rightarrow> c_float \<Rightarrow> c_float \<Rightarrow> mt11_backend \<Rightarrow> errno option \<times> mt11_backend" where
  "ca_backend_set_gimbal_angles fl env pitch_rad yaw_rad b =
     (let (target_yaw, target_pitch, yaw, pitch) = gimbal_angles fl mt11_gimbal (mounting_direction b = 2) pitch_rad yaw_rad;
          (now, b1) = monotonic_ms env b
      in if ca_angle_target_suppress fl mt11_gimbal (angle_target b1) yaw pitch target_yaw target_pitch
              (ca_backend_gimbal_attitude b1) now
         then (None, b1)
         else
           (case send_public_command env 0x0e (angle_payload yaw pitch) b1 of
              (None, b2) \<Rightarrow> (None, b2\<lparr>angle_target := ca_angle_target_sent (angle_target b2) yaw pitch now\<rparr>)
            | (Some e, b2) \<Rightarrow> (Some e, b2)))"

text \<open>The outer None is the undefined conversion of a rate that is not a number.\<close>

definition ca_backend_set_gimbal_rates ::
  "rounding \<Rightarrow> gb_env \<Rightarrow> c_float \<Rightarrow> c_float \<Rightarrow> mt11_backend \<Rightarrow> (errno option \<times> mt11_backend) option" where
  "ca_backend_set_gimbal_rates fl env pitch_rate yaw_rate b =
     map_option (\<lambda>rates. send_public_command env 0x07 (rate_payload rates) b)
       (gimbal_rates fl mt11_gimbal (mounting_direction b = 2) pitch_rate yaw_rate)"

definition ca_backend_set_gimbal_neutral :: "gb_env \<Rightarrow> mt11_backend \<Rightarrow> errno option \<times> mt11_backend" where
  "ca_backend_set_gimbal_neutral env b = send_public_command env 0x08 [1] b"

definition ca_backend_recording :: "gb_env \<Rightarrow> mt11_backend \<Rightarrow> bool \<times> mt11_backend" where
  "ca_backend_recording env b = (let (a, b1) = consult env b in (an_flag a, b1))"

definition ca_backend_set_zoom :: "gb_env \<Rightarrow> c_float \<Rightarrow> mt11_backend \<Rightarrow> errno option \<times> mt11_backend" where
  "ca_backend_set_zoom env ratio b =
     (case ratio of
        FFin r \<Rightarrow> if r < 1 \<or> g_zoom_control_max mt11_gimbal < r then (Some EINVAL, b) else perform env (Zoom_set r) b
      | _ \<Rightarrow> (Some EINVAL, b))"

definition ca_backend_set_zoom_rate :: "c_float \<Rightarrow> mt11_backend \<Rightarrow> errno option \<times> mt11_backend" where
  "ca_backend_set_zoom_rate rate b = (Some ENOTSUP, b)"

subsection \<open>What is answered here\<close>

lemma quiet_mt11: "quiet b b1 \<Longrightarrow> quiet b (b1\<lparr>thermal_continuous := c\<rparr>)" "quiet b b1 \<Longrightarrow> quiet b (b1\<lparr>thermal_last_emit_ms := t\<rparr>)"
  "quiet b b1 \<Longrightarrow> quiet b (b1\<lparr>parser := p\<rparr>)" for b b1 :: mt11_backend
  by (simp_all add: quiet_def same_link_def)

lemma quiet_slots: "current_image_slots env b1 = (slots, b2) \<Longrightarrow> quiet b b1 \<Longrightarrow> quiet b b2 \<and> length slots = 2"
  by (auto simp: current_image_slots_def Let_def split: prod.splits if_splits intro: quiet_consult)

lemma quiet_visible: "select_visible env wide b1 = (ok, b2) \<Longrightarrow> quiet b b1 \<Longrightarrow> quiet b b2"
  by (auto simp: select_visible_def Let_def split: prod.splits option.splits
      dest!: quiet_perform [OF _ link_call_simps(4)] quiet_perform [OF _ link_call_simps(5)])

text \<open>The reply to a request, and whether one always comes when the request succeeds.\<close>

definition reply_opcode :: "u8 \<Rightarrow> u8" where
  "reply_opcode op = (if op = 0x0c then 0x0b else op)"

definition always_replied :: "u8 \<Rightarrow> bool" where
  "always_replied op \<longleftrightarrow> op \<noteq> 0x14 \<and> op \<noteq> 0x38"

text \<open>A section is in order when its answer, if it gives one, is an answer as above; the rules follow
  the shape of the code.\<close>

definition good :: "siyi_packet \<Rightarrow> mt11_backend \<Rightarrow> answered \<Rightarrow> bool" where
  "good p b x \<longleftrightarrow>
     (\<forall>out. x = Some out \<longrightarrow> answered_here (reply_opcode (opcode p)) (always_replied (opcode p)) b out)"

named_theorems good_rules "the rules for sections in order"

lemma good_None [good_rules]: "good p b None"
  by (simp add: good_def)

lemma good_if [good_rules]: "(c \<Longrightarrow> good p b x) \<Longrightarrow> (\<not> c \<Longrightarrow> good p b y) \<Longrightarrow> good p b (if c then x else y)"
  by simp

lemma good_case_option [good_rules]:
  "(r = None \<Longrightarrow> good p b x) \<Longrightarrow> (\<And>e. r = Some e \<Longrightarrow> good p b (f e)) \<Longrightarrow> good p b (case r of None \<Rightarrow> x | Some e \<Rightarrow> f e)"
  by (cases r) simp_all

lemma good_case_sum [good_rules]:
  "(\<And>e. good p b (f e)) \<Longrightarrow> (\<And>v. good p b (g v)) \<Longrightarrow> good p b (case r of Inl e \<Rightarrow> f e | Inr v \<Rightarrow> g v)"
  by (cases r) simp_all

lemma good_reply [good_rules]:
  "opcode p \<noteq> 0x0c \<Longrightarrow> quiet b b1 \<Longrightarrow> length data \<le> 12 \<Longrightarrow> good p b (reply p data b1)"
  by (simp add: good_def reply_def reply_opcode_def answered_reply)

lemma good_feedback [good_rules]:
  "opcode p = 0x0c \<or> opcode p = 0x0b \<Longrightarrow> quiet b b1 \<Longrightarrow> good p b (Some (None, emit_feedback v b1))"
  using answered_feedback by (auto simp: good_def reply_opcode_def)

lemma good_error [good_rules]: "quiet b b1 \<Longrightarrow> good p b (Some (Some e, b1))"
  by (simp add: good_def answered_quiet)

lemma good_perform [good_rules]:
  "quiet b b1 \<Longrightarrow> \<not> link_call c \<Longrightarrow> (\<And>r b2. quiet b b2 \<Longrightarrow> good p b (f r b2)) \<Longrightarrow>
   good p b (case perform env c b1 of (r, b2) \<Rightarrow> f r b2)"
  by (cases "perform env c b1") (simp add: quiet_perform)

lemma good_consult [good_rules]:
  "quiet b b1 \<Longrightarrow> (\<And>a b2. quiet b b2 \<Longrightarrow> good p b (f a b2)) \<Longrightarrow> good p b (case consult env b1 of (a, b2) \<Rightarrow> f a b2)"
  by (cases "consult env b1") (simp add: quiet_consult)

lemma good_toggle [good_rules]:
  "quiet b b1 \<Longrightarrow> (\<And>a b2. quiet b b2 \<Longrightarrow> good p b (f a b2)) \<Longrightarrow> good p b (case toggle_recording env b1 of (a, b2) \<Rightarrow> f a b2)"
  by (cases "toggle_recording env b1") (simp add: quiet_toggle)

lemma good_photo [good_rules]:
  "quiet b b1 \<Longrightarrow> (\<And>a b2. quiet b b2 \<Longrightarrow> good p b (f a b2)) \<Longrightarrow> good p b (case capture_photo env b1 of (a, b2) \<Rightarrow> f a b2)"
  by (cases "capture_photo env b1") (simp add: quiet_photo)

lemma good_slots [good_rules]:
  "quiet b b1 \<Longrightarrow> (\<And>a b2. quiet b b2 \<Longrightarrow> length a = 2 \<Longrightarrow> good p b (f a b2)) \<Longrightarrow>
   good p b (case current_image_slots env b1 of (a, b2) \<Rightarrow> f a b2)"
  by (cases "current_image_slots env b1") (simp add: quiet_slots)

lemma good_visible [good_rules]:
  "quiet b b1 \<Longrightarrow> (\<And>a b2. quiet b b2 \<Longrightarrow> good p b (f a b2)) \<Longrightarrow>
   good p b (case select_visible env wide b1 of (a, b2) \<Rightarrow> f a b2)"
  by (cases "select_visible env wide b1") (simp add: quiet_visible)

lemma good_zoom [good_rules]:
  "quiet b b1 \<Longrightarrow> (\<And>a b2. quiet b b2 \<Longrightarrow> length a = 2 \<Longrightarrow> good p b (f a b2)) \<Longrightarrow>
   good p b (case zoom_payload fl env b1 of (a, b2) \<Rightarrow> f a b2)"
  by (cases "zoom_payload fl env b1") (simp add: quiet_zoom)

lemma quiet_restore: "quiet b b1 \<Longrightarrow> \<not> link_call c \<Longrightarrow> quiet b (if x then snd (perform env c b1) else b1)"
  by (cases "perform env c b1") (simp add: quiet_perform)

lemma sections_good:
  "good p b (siyi_record env p b)" "good p b (siyi_focus env p b)" "good p b (siyi_photo env p b)"
  "good p b (siyi_status env p b)" "good p b (siyi_image env p b)" "good p b (siyi_zoom fl env p b)"
  unfolding siyi_record_def siyi_focus_def siyi_photo_def siyi_status_def siyi_image_def siyi_zoom_def Let_def
  by ((intro good_rules; simp add: quiet_restore)+)[6]

lemma range_answered:
  assumes "quiet b b1"
  shows "answered_here 0x14 False b (None, emit_thermal_range env b1)"
proof -
  obtain a b2 where c: "consult env b1 = (a, b2)" by (cases "consult env b1")
  have q: "quiet b b2" by (rule quiet_consult [OF c assms])
  show ?thesis
  proof (cases "an_range a")
    case None
    with q show ?thesis by (simp add: emit_thermal_range_def c answered_quiet)
  next
    case (Some r)
    let ?data = "le16 (maximum_centi_c r) @ le16 (minimum_centi_c r) @ le16 (maximum_x r) @ le16 (maximum_y r) @
      le16 (minimum_x r) @ le16 (minimum_y r)"
    obtain t b3 where t: "monotonic_ms env (emit_local 0x14 ?data b2) = (t, b3)" by (cases "monotonic_ms env (emit_local 0x14 ?data b2)")
    have "answered_here 0x14 False b (None, emit_local 0x14 ?data b2)" by (rule answered_reply [OF q]) simp
    then have "answered_here 0x14 False b (None, b3\<lparr>thermal_last_emit_ms := t\<rparr>)"
      by (rule answered_then_quiet) (rule quiet_mt11, rule quiet_clock [OF t], simp)
    moreover have "emit_thermal_range env b1 = b3\<lparr>thermal_last_emit_ms := t\<rparr>"
      by (simp only: emit_thermal_range_def c Let_def Some prod.case option.case t)
    ultimately show ?thesis by simp
  qed
qed

lemma good_range [good_rules]:
  "opcode p = 0x14 \<Longrightarrow> quiet b b1 \<Longrightarrow> good p b (Some (None, if c then emit_thermal_range env b1 else b1))"
  by (simp add: good_def reply_opcode_def always_replied_def range_answered answered_quiet)

lemma good_gain [good_rules]:
  assumes "opcode p = 0x38" "quiet b b1"
  shows "good p b (Some (perform env (Thermal_gain_set g) b1))"
proof -
  obtain r b2 where q: "perform env (Thermal_gain_set g) b1 = (r, b2)" by (cases "perform env (Thermal_gain_set g) b1")
  have "quiet b b2" by (rule quiet_perform [OF q _ assms(2)]) simp
  with q assms(1) show ?thesis by (simp add: good_def always_replied_def answered_quiet)
qed

lemma thermal_good: "good p b (siyi_thermal env p b)"
  unfolding siyi_thermal_def Let_def by (intro good_rules; simp add: quiet_mt11)

lemma first_answer_good: "(\<And>f. f \<in> set fs \<Longrightarrow> good p b (f b)) \<Longrightarrow> good p b (first_answer fs b)"
proof (induction fs)
  case Nil
  show ?case by (simp add: good_None)
next
  case (Cons f fs)
  then have "good p b (f b)" "good p b (first_answer fs b)" by simp_all
  then show ?case by (cases "f b") simp_all
qed

lemma first_answer_None: "first_answer fs b = None \<longleftrightarrow> list_all (\<lambda>f. f b = None) fs"
  by (induction fs) (simp_all split: option.split)

text \<open>The packets that are answered here.\<close>

definition mt11_local :: "siyi_packet \<Rightarrow> bool" where
  "mt11_local p \<longleftrightarrow>
     opcode p \<in> {0x04, 0x06, 0x37, 0x38, 0x1a, 0x1b, 0x30} \<or>
     opcode p \<in> {0x0b, 0x0a, 0x10, 0x16, 0x18} \<and> payload_length p = 0 \<or>
     opcode p = 0x0c \<and> payload_length p = 1 \<and> payload p ! 0 \<in> {0, 1, 2} \<or>
     opcode p = 0x14 \<and> payload_length p = 1 \<and> payload p ! 0 \<le> 2 \<or>
     opcode p = 0x11 \<and> (payload_length p = 2 \<or> payload_length p = 1 \<and> payload p ! 0 \<in> {3, 5}) \<or>
     opcode p = 0x0f \<and> payload_length p = 2 \<or>
     opcode p = 0x05 \<and> payload_length p = 1"

lemma section_None:
  "siyi_record env p b = None \<longleftrightarrow> \<not> (opcode p = 0x0c \<and> payload_length p = 1 \<and> payload p ! 0 = 2)"
  "siyi_focus env p b = None \<longleftrightarrow> \<not> (opcode p = 0x04 \<or> opcode p = 0x06)"
  "siyi_photo env p b = None \<longleftrightarrow>
     \<not> (opcode p = 0x0c \<and> payload_length p = 1 \<and> (payload p ! 0 = 0 \<or> payload p ! 0 = 1) \<or> opcode p = 0x0b \<and> payload_length p = 0)"
  "siyi_thermal env p b = None \<longleftrightarrow>
     \<not> (opcode p = 0x14 \<and> payload_length p = 1 \<and> payload p ! 0 \<le> 2 \<or> opcode p \<in> {0x37, 0x38, 0x1a, 0x1b})"
  "siyi_status env p b = None \<longleftrightarrow> \<not> (opcode p = 0x30 \<or> opcode p = 0x0a \<and> payload_length p = 0)"
  "siyi_image env p b = None \<longleftrightarrow>
     \<not> (opcode p = 0x10 \<and> payload_length p = 0 \<or>
        opcode p = 0x11 \<and> (payload_length p = 2 \<or> payload_length p = 1 \<and> (payload p ! 0 = 3 \<or> payload p ! 0 = 5)))"
  "siyi_zoom fl env p b = None \<longleftrightarrow>
     \<not> ((opcode p = 0x16 \<or> opcode p = 0x18) \<and> payload_length p = 0 \<or> opcode p = 0x0f \<and> payload_length p = 2 \<or>
        opcode p = 0x05 \<and> payload_length p = 1)"
  by (auto simp: siyi_record_def siyi_focus_def siyi_photo_def siyi_thermal_def siyi_status_def siyi_image_def
      siyi_zoom_def single_def reply_def Let_def split: prod.splits option.splits sum.splits)

lemma list_all_seven: "list_all P [a, b, c, d, e, f, g] \<longleftrightarrow> P a \<and> P b \<and> P c \<and> P d \<and> P e \<and> P f \<and> P g"
  by simp

lemma local_iff: "first_answer (siyi_sections fl env p) b = None \<longleftrightarrow> \<not> mt11_local p"
  unfolding first_answer_None siyi_sections_def list_all_seven section_None mt11_local_def insert_iff empty_iff
  by argo

text \<open>What the backend writes for the gimbal.\<close>

definition mt11_frame :: "u8 \<Rightarrow> u16 \<Rightarrow> u8 \<Rightarrow> bytes \<Rightarrow> ca_private_frame" where
  "mt11_frame ctl seq command data =
     \<lparr>pf_control = ctl, pf_sequence = seq, pf_source = MT11_SOURCE, pf_destination = MT11_MCU, pf_link = MT11_LINK,
      pf_command = command, pf_payload = data, pf_payload_length = of_nat (length data)\<rparr>"

lemma mt11_frame_ok: "length data \<le> 4096 \<Longrightarrow> private_frame_ok (mt11_frame ctl seq command data)"
  by (simp add: private_frame_ok_def mt11_frame_def unat_of_nat)

lemma send_private_frame:
  assumes "length data \<le> 4096"
  shows "send_private env ctl command data b =
    perform env (Link_write (private_wire (mt11_frame ctl (link_sequence b) command data)))
      (b\<lparr>link_sequence := link_sequence b + 1\<rparr>)"
proof -
  let ?f = "mt11_frame ctl (link_sequence b) command data" and ?o = "replicate CA_PRIVATE_MAX_FRAME 0 :: bytes"
  have l: "length (private_wire ?f) = length data + 14" by (simp add: mt11_frame_def)
  have fits: "length (private_wire ?f) \<le> length ?o"
    unfolding l using assms by (simp add: CA_PRIVATE_MAX_FRAME_def CA_PRIVATE_MAX_PAYLOAD_def)
  have "ca_private_build ?o ctl (link_sequence b) MT11_SOURCE MT11_MCU MT11_LINK command (Some data) (of_nat (length data)) =
      (blit ?o 0 (private_wire ?f), length (private_wire ?f))"
    using ca_private_build_wire [OF mt11_frame_ok [OF assms, of ctl "link_sequence b" command] fits] by (simp add: mt11_frame_def)
  moreover have "take (length (private_wire ?f)) (blit ?o 0 (private_wire ?f)) = private_wire ?f"
    using take_blit_end [of 0 "private_wire ?f" ?o] fits by simp
  ultimately show ?thesis using l by (simp add: send_private_def)
qed

lemma tunnel_written:
  assumes "length data \<le> 4096" "send_private env ctl command data b = (r, b')"
  shows "events b' = events b @ [Called (Link_write (private_wire (mt11_frame ctl (link_sequence b) command data))) r]"
    "angle_target b' = angle_target b"
  using assms by (auto simp: send_private_frame perform_def consult_def record_event_def Let_def)

text \<open>C32: every packet a client sends is dealt with in exactly one way. Bytes that are not one whole
  packet are refused without any effect. A motion packet during the web's manual control is ignored
  without any effect. A packet the camera answers reaches the gimbal in no case; when it succeeds the
  clients get exactly one reply, under the packet's opcode (a function command is answered by a function
  feedback) with the next sequence number, except that a thermal gain setting gets none and a thermal
  range request may get none; when it fails they get none. Every other packet is written to the gimbal
  once and verbatim, in a frame with the next sequence number, and the result is that of the write.\<close>

theorem mt11_request_answered:
  "case ca_siyi_parse_one data of
     Parsed p n \<Rightarrow>
       (if n \<noteq> length data then ca_backend_handle_siyi fl env data b = (Some EPROTO, b)
        else if ca_backend_manual_blocked (manual_active b) (manual_command b) (opcode p) (payload p)
        then ca_backend_handle_siyi fl env data b = (None, b)
        else case ca_backend_handle_siyi fl env data b of
          (r, b') \<Rightarrow> \<exists>es. events b' = events b @ es \<and>
            (if mt11_local p then
               written es = [] \<and>
               (emitted es = [] \<and> (r = None \<longrightarrow> opcode p = 0x14 \<or> opcode p = 0x38) \<or>
                r = None \<and> (\<exists>d. length d \<le> 12 \<and>
                  emitted es = [siyi_frame 2 (public_sequence b) (if opcode p = 0x0c then 0x0b else opcode p) d]))
             else emitted es = [] \<and>
               written es = [(private_wire (mt11_frame 0x08 (link_sequence b) MT11_TUNNEL data), r)]))
   | _ \<Rightarrow> ca_backend_handle_siyi fl env data b = (Some EPROTO, b)"
proof (cases "ca_siyi_parse_one data")
  case (Parsed p n)
  show ?thesis
  proof (cases "n \<noteq> length data \<or> ca_backend_manual_blocked (manual_active b) (manual_command b) (opcode p) (payload p)")
    case True
    with Parsed show ?thesis by (auto simp: ca_backend_handle_siyi_def)
  next
    case False
    obtain r b' where out: "ca_backend_handle_siyi fl env data b = (r, b')" by (cases "ca_backend_handle_siyi fl env data b")
    have "\<exists>es. events b' = events b @ es \<and>
      (if mt11_local p then
         written es = [] \<and> (emitted es = [] \<and> (r = None \<longrightarrow> opcode p = 0x14 \<or> opcode p = 0x38) \<or>
           r = None \<and> (\<exists>d. length d \<le> 12 \<and>
             emitted es = [siyi_frame 2 (public_sequence b) (if opcode p = 0x0c then 0x0b else opcode p) d]))
       else emitted es = [] \<and> written es = [(private_wire (mt11_frame 0x08 (link_sequence b) MT11_TUNNEL data), r)])"
    proof (cases "first_answer (siyi_sections fl env p) b")
      case None
      have l: "length data \<le> 4096" using siyi_parse_sound(2) [OF Parsed] False by simp
      have "siyi_tunnel env p data b = (r, b')" using out Parsed False None by (simp add: ca_backend_handle_siyi_def)
      then have "events b' = events b @ [Called (Link_write (private_wire (mt11_frame 0x08 (link_sequence b) MT11_TUNNEL data))) r]"
        unfolding siyi_tunnel_def Let_def by (auto dest!: tunnel_written(1) [OF l] split: if_splits)
      moreover have "\<not> mt11_local p" using None by (simp add: local_iff)
      ultimately show ?thesis by simp
    next
      case (Some a)
      then have a: "a = (r, b')" using out Parsed False by (simp add: ca_backend_handle_siyi_def)
      have "mt11_local p" using Some local_iff [of fl env p b] by simp
      moreover have "good p b (first_answer (siyi_sections fl env p) b)"
        by (rule first_answer_good) (auto simp: siyi_sections_def sections_good thermal_good)
      ultimately show ?thesis
        unfolding Some a by (simp add: good_def answered_here_def always_replied_def reply_opcode_def)
    qed
    with Parsed False out show ?thesis by simp
  qed
qed (simp_all add: ca_backend_handle_siyi_def)

lemma mt11_request_answered_witness:
  "\<exists>es. events (snd (ca_backend_handle_siyi (\<lambda>x. x) (\<lambda>n. \<lparr>an_result = None, an_flag = False, an_ratio = 1, an_byte = Inr 0,
      an_range = None, an_clock = 0, an_focus = None\<rparr>) (siyi_frame 1 5 0x0d []) (mt11_initial False False 0))) = es \<and>
    written es = [(private_wire (mt11_frame 0x08 1 MT11_TUNNEL (siyi_frame 1 5 0x0d [])), None)]"
proof -
  let ?e = "\<lambda>n. \<lparr>an_result = None, an_flag = False, an_ratio = 1, an_byte = Inr 0, an_range = None, an_clock = 0, an_focus = None\<rparr>"
  let ?d = "siyi_frame 1 5 0x0d []" and ?b = "mt11_initial False False 0"
  let ?p = "siyi_packet_of 1 5 0x0d []"
  have p: "ca_siyi_parse_one ?d = Parsed ?p 10" using siyi_parse_frame [of "[]" 1 5 "0x0d" "[]"] by simp
  obtain r b' where out: "ca_backend_handle_siyi (\<lambda>x. x) ?e ?d ?b = (r, b')" by fastforce
  have f: "\<not> ca_backend_manual_blocked (manual_active ?b) (manual_command ?b) (opcode ?p) (payload ?p)"
    "\<not> mt11_local ?p" "link_sequence ?b = 1" "events ?b = []"
    by (simp_all add: mt11_initial_def ca_backend_manual_blocked_def mt11_local_def siyi_packet_of_def)
  have "r = None"
    using out f(1) p by (auto simp: ca_backend_handle_siyi_def local_iff [THEN iffD2, OF f(2)] siyi_tunnel_def send_private_frame
        perform_def consult_def Let_def)
  with mt11_request_answered [where data = ?d and fl = "\<lambda>x. x" and env = ?e and b = ?b] p out f show ?thesis by auto
qed

subsection \<open>Runs\<close>

text \<open>Everything that is done with an open backend, in any order; \<^verbatim>\<open>Manual\<close> is the web service taking
  and giving up manual control.\<close>

datatype mt11_op = Request bytes | Readable "errno + bytes" | Periodic | Set_angles c_float c_float
  | Set_rates c_float c_float | Neutral | Ask_attitude | Set_zoom c_float | Ask_recording | Manual bool bool

fun mt11_step :: "rounding \<Rightarrow> gb_env \<Rightarrow> mt11_op \<Rightarrow> mt11_backend \<Rightarrow> mt11_backend" where
  "mt11_step fl env (Request data) b = snd (ca_backend_handle_siyi fl env data b)"
| "mt11_step fl env (Readable received) b = snd (ca_backend_handle_fd fl env received b)"
| "mt11_step fl env Periodic b = ca_backend_periodic env b"
| "mt11_step fl env (Set_angles pitch yaw) b = snd (ca_backend_set_gimbal_angles fl env pitch yaw b)"
| "mt11_step fl env (Set_rates pitch yaw) b =
     (case ca_backend_set_gimbal_rates fl env pitch yaw b of None \<Rightarrow> b | Some (r, b') \<Rightarrow> b')"
| "mt11_step fl env Neutral b = snd (ca_backend_set_gimbal_neutral env b)"
| "mt11_step fl env Ask_attitude b = snd (ca_backend_request_gimbal_attitude env b)"
| "mt11_step fl env (Set_zoom ratio) b = snd (ca_backend_set_zoom env ratio b)"
| "mt11_step fl env Ask_recording b = snd (ca_backend_recording env b)"
| "mt11_step fl env (Manual on cmd) b = b\<lparr>manual_active := on, manual_command := cmd\<rparr>"

inductive mt11_reachable :: "rounding \<Rightarrow> gb_env \<Rightarrow> mt11_backend \<Rightarrow> bool" for fl env where
  mt11_start: "mt11_open env on cmd orientation = Inr b \<Longrightarrow> mt11_reachable fl env b"
| mt11_step: "mt11_reachable fl env b \<Longrightarrow> mt11_reachable fl env (mt11_step fl env a b)"

text \<open>What the gimbal decodes from a frame on the wire, and the motion commands among what was written.\<close>

definition gimbal_decodes :: "bytes \<Rightarrow> (u8 \<times> bytes) option" where
  "gimbal_decodes wire =
     (case private_step wire of
        Take n f \<Rightarrow>
          if pf_command f \<noteq> MT11_TUNNEL then None
          else (case ca_siyi_parse_one (pf_payload f) of Parsed p k \<Rightarrow> Some (opcode p, payload p) | _ \<Rightarrow> None)
      | _ \<Rightarrow> None)"

text \<open>The motion commands the record of the last angle has to follow: all vendor motion commands of
  \<^verbatim>\<open>ca_backend_manual_blocked\<close> but the two that \<^verbatim>\<open>ca_angle_target_invalidate_siyi\<close> does not know.\<close>

definition angle_motion :: "u8 \<Rightarrow> bytes \<Rightarrow> bool" where
  "angle_motion op data \<longleftrightarrow> siyi_motion op data \<and> op \<noteq> 0x55 \<and> op \<noteq> 0x56"

text \<open>The last command of a kind among what was written.\<close>

fun last_command :: "(u8 \<Rightarrow> bytes \<Rightarrow> bool) \<Rightarrow> (bytes \<times> errno option) list \<Rightarrow> (u8 \<times> bytes \<times> errno option) option" where
  "last_command kind [] = None"
| "last_command kind ((wire, r) # ws) =
     (case last_command kind ws of
        Some m \<Rightarrow> Some m
      | None \<Rightarrow> (case gimbal_decodes wire of
                  Some (op, data) \<Rightarrow> if kind op data then Some (op, data, r) else None
                | None \<Rightarrow> None))"

abbreviation last_motion :: "(bytes \<times> errno option) list \<Rightarrow> (u8 \<times> bytes \<times> errno option) option" where
  "last_motion \<equiv> last_command angle_motion"

lemma last_command_kind: "last_command kind ws = Some (op, data, r) \<Longrightarrow> kind op data"
  by (induction kind ws rule: last_command.induct) (auto split: option.splits if_splits)

lemma last_command_but:
  "last_command k ws = last_command (\<lambda>op d. k op d \<and> \<not> e op) ws \<or>
   (\<exists>op data r. last_command k ws = Some (op, data, r) \<and> e op)"
proof (induction ws)
  case (Cons w ws)
  obtain wire r where w: "w = (wire, r)" by (cases w)
  from Cons show ?case
  proof
    assume h: "last_command k ws = last_command (\<lambda>op d. k op d \<and> \<not> e op) ws"
    show ?thesis
      by (cases "last_command (\<lambda>op d. k op d \<and> \<not> e op) ws"; cases "gimbal_decodes wire") (auto simp: w h)
  qed (auto simp: w)
qed simp

lemma last_vendor_motion:
  "last_command siyi_motion ws = last_motion ws \<or>
   (\<exists>op data r. last_command siyi_motion ws = Some (op, data, r) \<and> (op = 0x55 \<or> op = 0x56))"
proof -
  have "(\<lambda>op d. siyi_motion op d \<and> \<not> (op = 0x55 \<or> op = 0x56)) = angle_motion"
    by (simp add: fun_eq_iff angle_motion_def)
  then show ?thesis using last_command_but [of siyi_motion ws "\<lambda>op. op = 0x55 \<or> op = 0x56"] by simp
qed

lemma last_motion_append: "last_command k (xs @ ys) = (case last_command k ys of Some m \<Rightarrow> Some m | None \<Rightarrow> last_command k xs)"
  by (induction k xs rule: last_command.induct) (simp_all split: option.split)

definition target_held :: "mt11_backend \<Rightarrow> bool" where
  "target_held b \<longleftrightarrow> (at_valid (angle_target b) \<longrightarrow>
     last_motion (written (events b)) =
       Some (0x0e, angle_payload (at_yaw (angle_target b)) (at_pitch (angle_target b)), None))"

text \<open>An operation that writes nothing keeps this, provided it leaves the target alone or forgets it.\<close>

definition unwritten :: "'a gimbal_backend_scheme \<Rightarrow> 'a gimbal_backend_scheme \<Rightarrow> bool" where
  "unwritten b b' \<longleftrightarrow> written (events b') = written (events b) \<and>
     (angle_target b' = angle_target b \<or> \<not> at_valid (angle_target b'))"

lemma unwritten_held: "unwritten b b' \<Longrightarrow> target_held b \<Longrightarrow> target_held b'"
  by (auto simp: unwritten_def target_held_def)

lemma unwritten_trans: "unwritten b b1 \<Longrightarrow> unwritten b1 b2 \<Longrightarrow> unwritten b b2"
  by (auto simp: unwritten_def)

lemma unwritten_refl [simp]: "unwritten b b"
  by (simp add: unwritten_def)

lemma quiet_unwritten: "quiet b b' \<Longrightarrow> unwritten b b'"
  by (auto simp: quiet_def same_link_def unwritten_def)

lemma answered_unwritten: "answered_here op must b (r, b') \<Longrightarrow> unwritten b b'"
  by (auto simp: answered_here_def same_link_def unwritten_def)

lemma emit_unwritten: "unwritten b (record_event (Emitted q) b)"
  by (simp add: unwritten_def record_event_def)

lemma tunnel_decoded:
  assumes "ca_siyi_parse_one data = Parsed p (length data)"
  shows "gimbal_decodes (private_wire (mt11_frame ctl seq MT11_TUNNEL data)) = Some (opcode p, payload p)"
proof -
  have l: "length data \<le> 4096" using siyi_parse_sound(2) [OF assms] by simp
  show ?thesis
    unfolding gimbal_decodes_def private_step_wire [OF mt11_frame_ok [OF l]]
    by (simp add: mt11_frame_def assms)
qed

lemma other_decoded:
  assumes "command \<noteq> MT11_TUNNEL" "length data \<le> 4096"
  shows "gimbal_decodes (private_wire (mt11_frame ctl seq command data)) = None"
  unfolding gimbal_decodes_def private_step_wire [OF mt11_frame_ok [OF assms(2)]]
  using assms(1) by (simp add: mt11_frame_def)

lemma invalidate_motion:
  "ca_angle_target_invalidate_siyi t op data = (if angle_motion op data then t\<lparr>at_valid := False\<rparr> else t)"
  by (auto simp: ca_angle_target_invalidate_siyi_def angle_motion_def siyi_motion_def)

text \<open>Sending a packet through the tunnel.\<close>

lemma tunnel_held:
  assumes "ca_siyi_parse_one data = Parsed p (length data)" "target_held b0"
    "written (events b) = written (events b0)" "angle_target b = ca_angle_target_invalidate_siyi (angle_target b0) (opcode p) (payload p)"
    "send_private env ctl MT11_TUNNEL data b = (r, b')"
  shows "target_held b'"
    "angle_motion (opcode p) (payload p) \<Longrightarrow> last_motion (written (events b')) = Some (opcode p, payload p, r)"
proof -
  have l: "length data \<le> 4096" using siyi_parse_sound(2) [OF assms(1)] by simp
  note w = tunnel_written [OF l assms(5)]
  have d: "last_motion (written (events b')) =
      (if angle_motion (opcode p) (payload p) then Some (opcode p, payload p, r) else last_motion (written (events b0)))"
    by (simp add: w(1) assms(3) last_motion_append tunnel_decoded [OF assms(1)])
  show "target_held b'" using assms(2) d by (simp add: target_held_def w(2) assms(4) invalidate_motion)
  show "angle_motion (opcode p) (payload p) \<Longrightarrow> last_motion (written (events b')) = Some (opcode p, payload p, r)"
    using d by simp
qed

lemma perform_unwritten: "perform env c b1 = (r, b2) \<Longrightarrow> \<not> link_call c \<Longrightarrow> unwritten b b1 \<Longrightarrow> unwritten b b2"
  by (blast intro: unwritten_trans quiet_unwritten quiet_perform quiet_refl)

lemma unwritten_fields:
  "unwritten b b1 \<Longrightarrow> unwritten b (record_event (Emitted q) b1)" "unwritten b b1 \<Longrightarrow> unwritten b (b1\<lparr>gimbal_mode := m\<rparr>)"
  "unwritten b b1 \<Longrightarrow> unwritten b (b1\<lparr>attitude := a, have_attitude := h\<rparr>)"
  by (simp_all add: unwritten_def record_event_def)

lemma consult_unwritten: "consult env b = (a, b1) \<Longrightarrow> unwritten b b1" "monotonic_ms env b = (t, b1) \<Longrightarrow> unwritten b b1"
  by (blast intro: quiet_unwritten quiet_consult quiet_clock quiet_refl)+

lemma tunnel_unwritten: "unwritten b (handle_tunnel fl env data b)"
proof (cases "ca_siyi_parse_one data")
  case (Parsed p n)
  obtain a b1 where c: "consult env b = (a, b1)" by (cases "consult env b")
  obtain t b2 where m: "monotonic_ms env b = (t, b2)" by (cases "monotonic_ms env b")
  show ?thesis
    unfolding handle_tunnel_def Parsed siyi_parse.case Let_def c m prod.case
    by (simp add: unwritten_fields consult_unwritten(1) [OF c] consult_unwritten(2) [OF m])
qed (simp_all add: handle_tunnel_def)

lemma mounting_unwritten: "unwritten b (handle_mounting env direction b)"
proof -
  let ?i = "if gb_orientation b = CA_MOUNT_AUTO then direction = 2 else gb_orientation b = CA_MOUNT_INVERTED"
  obtain r b1 where p: "perform env (Inverted_set ?i) (b\<lparr>mounting_direction := direction\<rparr>) = (r, b1)"
    by (cases "perform env (Inverted_set ?i) (b\<lparr>mounting_direction := direction\<rparr>)")
  have "unwritten b b1" by (rule perform_unwritten [OF p]) (simp_all add: unwritten_def)
  then show ?thesis unfolding handle_mounting_def Let_def p by (auto simp: unwritten_def)
qed

lemma frame_unwritten: "unwritten b (handle_private fl env f b)"
proof -
  have t: "unwritten b (case toggle_recording env b of (v, b1) \<Rightarrow> emit_feedback v b1)"
    by (cases "toggle_recording env b")
      (simp add: answered_unwritten [OF answered_feedback [OF quiet_toggle [OF _ quiet_refl]]])
  have c: "unwritten b (case capture_photo env b of (ok, b1) \<Rightarrow> emit_feedback (if ok then 0 else 1) b1)"
    by (cases "capture_photo env b")
      (simp add: answered_unwritten [OF answered_feedback [OF quiet_photo [OF _ quiet_refl]]])
  show ?thesis
    using t c by (simp add: handle_private_def Let_def tunnel_unwritten mounting_unwritten)
qed

lemma frames_unwritten: "unwritten b (fold (handle_private fl env) fs b)"
  by (induction fs arbitrary: b) (simp, simp, blast intro: unwritten_trans frame_unwritten)

lemma read_unwritten: "unwritten b (snd (ca_backend_handle_fd fl env received b))"
proof (cases received)
  case (Inr data)
  obtain p fs where f: "ca_private_parser_feed (parser b) data = (p, fs)" by (cases "ca_private_parser_feed (parser b) data")
  have "unwritten b (b\<lparr>parser := p\<rparr>)" by (simp add: unwritten_def)
  then show ?thesis
    using frames_unwritten by (auto simp: ca_backend_handle_fd_def Inr f intro: unwritten_trans)
qed (simp add: ca_backend_handle_fd_def)

lemma periodic_unwritten: "unwritten b (ca_backend_periodic env b)"
proof -
  obtain t b1 where m: "monotonic_ms env b = (t, b1)" by (cases "monotonic_ms env b")
  have q: "quiet b b1" by (rule quiet_clock [OF m quiet_refl])
  show ?thesis
    using answered_unwritten [OF range_answered [OF q]] quiet_unwritten [OF q]
    by (simp add: ca_backend_periodic_def m)
qed

lemma request_held:
  assumes "target_held b"
  shows "target_held (snd (ca_backend_handle_siyi fl env data b))"
proof (cases "\<exists>p. ca_siyi_parse_one data = Parsed p (length data) \<and>
    \<not> ca_backend_manual_blocked (manual_active b) (manual_command b) (opcode p) (payload p)")
  case True
  then obtain p where p: "ca_siyi_parse_one data = Parsed p (length data)"
    "\<not> ca_backend_manual_blocked (manual_active b) (manual_command b) (opcode p) (payload p)" by blast
  show ?thesis
  proof (cases "first_answer (siyi_sections fl env p) b")
    case None
    obtain r b' where t: "siyi_tunnel env p data b = (r, b')" by (cases "siyi_tunnel env p data b")
    have "target_held b'" by (rule tunnel_held(1) [OF p(1) assms _ _ t [unfolded siyi_tunnel_def Let_def]]) simp_all
    with p None t show ?thesis by (simp add: ca_backend_handle_siyi_def)
  next
    case (Some a)
    have "good p b (first_answer (siyi_sections fl env p) b)"
      by (rule first_answer_good) (auto simp: siyi_sections_def sections_good thermal_good)
    then have "unwritten b (snd a)" using Some answered_unwritten [of _ _ b "fst a" "snd a"] by (simp add: good_def)
    with assms p Some show ?thesis by (simp add: ca_backend_handle_siyi_def unwritten_held)
  qed
next
  case False
  then show ?thesis using assms by (auto simp: ca_backend_handle_siyi_def split: siyi_parse.split)
qed

lemma command_held:
  assumes "target_held b" "length data \<le> 2038" "send_public_command env op data b = (r, b')"
  shows "target_held b'" "angle_motion op data \<Longrightarrow> last_motion (written (events b')) = Some (op, data, r)"
proof -
  let ?d = "siyi_frame 1 (public_sequence b) op data"
  have p: "ca_siyi_parse_one ?d = Parsed (siyi_packet_of 1 (public_sequence b) op data) (length ?d)"
    using siyi_parse_frame [OF assms(2), of 1 "public_sequence b" op "[]"] by simp
  have s: "send_private env 0x08 MT11_TUNNEL ?d
      (b\<lparr>public_sequence := public_sequence b + 1, angle_target := ca_angle_target_invalidate_siyi (angle_target b) op data\<rparr>) = (r, b')"
    using assms(3) by (simp add: send_public_command_def public_packet_frame [OF assms(2)] Let_def)
  show "target_held b'" by (rule tunnel_held(1) [OF p assms(1) _ _ s]) (simp_all add: siyi_packet_of_def)
  show "angle_motion op data \<Longrightarrow> last_motion (written (events b')) = Some (op, data, r)"
    using tunnel_held(2) [OF p assms(1) _ _ s] by (simp add: siyi_packet_of_def)
qed

lemma angle_payload_length [simp]: "length (angle_payload yaw pitch) = 4"
  by (simp add: angle_payload_def int16_bytes_def)

text \<open>After a successful call the gimbal's last motion command is the one asked for.\<close>

lemma angles_held:
  assumes "target_held b" "ca_backend_set_gimbal_angles fl env pitch_rad yaw_rad b = (r, b')"
    "gimbal_angles fl mt11_gimbal (mounting_direction b = 2) pitch_rad yaw_rad = (target_yaw, target_pitch, yaw, pitch)"
  shows "target_held b'"
    "r = None \<Longrightarrow> last_motion (written (events b')) = Some (0x0e, angle_payload yaw pitch, None)"
proof -
  obtain t b1 where m: "monotonic_ms env b = (t, b1)" by (cases "monotonic_ms env b")
  have u: "unwritten b b1" by (rule quiet_unwritten) (rule quiet_clock [OF m quiet_refl])
  have h: "target_held b1" by (rule unwritten_held [OF u assms(1)])
  let ?s = "ca_angle_target_suppress fl mt11_gimbal (angle_target b1) yaw pitch target_yaw target_pitch
      (ca_backend_gimbal_attitude b1) t"
  have "target_held b' \<and> (r = None \<longrightarrow> last_motion (written (events b')) = Some (0x0e, angle_payload yaw pitch, None))"
  proof (cases ?s)
    case True
    then have "at_valid (angle_target b1)" "at_yaw (angle_target b1) = yaw" "at_pitch (angle_target b1) = pitch"
      by (auto simp: ca_angle_target_suppress_def split: if_splits)
    then show ?thesis using assms(2,3) True m h by (simp add: ca_backend_set_gimbal_angles_def target_held_def)
  next
    case False
    obtain r2 b2 where c: "send_public_command env 0x0e (angle_payload yaw pitch) b1 = (r2, b2)"
      by (cases "send_public_command env 0x0e (angle_payload yaw pitch) b1")
    have l: "last_motion (written (events b2)) = Some (0x0e, angle_payload yaw pitch, r2)"
      using command_held(2) [OF h _ c] by (simp add: angle_motion_def siyi_motion_def)
    have "target_held b2" using command_held(1) [OF h _ c] by simp
    then show ?thesis
      using assms(2,3) False m c l
      by (cases r2) (auto simp: ca_backend_set_gimbal_angles_def target_held_def ca_angle_target_sent_def)
  qed
  then show "target_held b'" "r = None \<Longrightarrow> last_motion (written (events b')) = Some (0x0e, angle_payload yaw pitch, None)"
    by simp_all
qed

lemma step_held: "target_held b \<Longrightarrow> target_held (mt11_step fl env a b)"
proof (cases a)
  case (Set_angles pitch_rad yaw_rad)
  assume h: "target_held b"
  obtain ty tp y p where g: "gimbal_angles fl mt11_gimbal (mounting_direction b = 2) pitch_rad yaw_rad = (ty, tp, y, p)"
    by (cases "gimbal_angles fl mt11_gimbal (mounting_direction b = 2) pitch_rad yaw_rad")
  obtain r b' where s: "ca_backend_set_gimbal_angles fl env pitch_rad yaw_rad b = (r, b')"
    by (cases "ca_backend_set_gimbal_angles fl env pitch_rad yaw_rad b")
  show ?thesis using angles_held(1) [OF h s g] s Set_angles by simp
next
  case (Set_rates pitch yaw)
  assume h: "target_held b"
  have "target_held (snd (send_public_command env 0x07 (rate_payload rates) b))" for rates
    using command_held(1) [OF h, of "rate_payload rates" env "0x07"]
    by (cases "send_public_command env 0x07 (rate_payload rates) b") (simp add: rate_payload_def)
  then show ?thesis using h
    by (cases "gimbal_rates fl mt11_gimbal (mounting_direction b = 2) pitch yaw")
      (simp_all add: Set_rates ca_backend_set_gimbal_rates_def case_prod_unfold)
next
  case Neutral
  assume h: "target_held b"
  show ?thesis using command_held(1) [OF h, of "[1]" env "0x08"] Neutral
    by (cases "send_public_command env 0x08 [1] b") (simp add: ca_backend_set_gimbal_neutral_def)
next
  case Ask_attitude
  assume h: "target_held b"
  show ?thesis using command_held(1) [OF h, of "[]" env "0x0d"] Ask_attitude
    by (cases "send_public_command env 0x0d [] b") (simp add: ca_backend_request_gimbal_attitude_def)
next
  case (Set_zoom ratio)
  assume h: "target_held b"
  have "unwritten b (snd (ca_backend_set_zoom env ratio b))"
    by (cases ratio) (auto simp: ca_backend_set_zoom_def intro: perform_unwritten [OF prod.collapse [symmetric]])
  then show ?thesis using h Set_zoom by (simp add: unwritten_held)
next
  case Ask_recording
  assume h: "target_held b"
  have "unwritten b (snd (ca_backend_recording env b))" by (simp add: ca_backend_recording_def consult_def unwritten_def)
  then show ?thesis using h Ask_recording by (simp add: unwritten_held)
qed (simp_all add: request_held unwritten_held [OF read_unwritten] unwritten_held [OF periodic_unwritten],
     simp add: target_held_def)

lemma send_all_target: "angle_target (snd (send_all env fs b)) = angle_target b"
proof (induction env fs b rule: send_all.induct)
  case (2 env ctl command data fs b)
  have "angle_target b1 = angle_target b" if "send_private env ctl command data b = (r, b1)" for r b1
    using that by (auto simp: send_private_def perform_def consult_def record_event_def Let_def split: prod.splits if_splits)
  with 2 show ?case by (auto split: prod.splits option.splits)
qed simp

lemma start_held: "mt11_open env on cmd orientation = Inr b \<Longrightarrow> target_held b"
proof -
  assume "mt11_open env on cmd orientation = Inr b"
  then obtain b0 where "send_startup env (mt11_initial on cmd orientation) = (None, b0)" "b = b0"
    by (auto simp: mt11_open_def split: prod.splits option.splits)
  then have "angle_target b = angle_target (mt11_initial on cmd orientation)"
    using send_all_target unfolding send_startup_def by (metis snd_conv)
  then show ?thesis by (simp add: target_held_def mt11_initial_def)
qed

lemma reachable_held: "mt11_reachable fl env b \<Longrightarrow> target_held b"
  by (induction rule: mt11_reachable.induct) (simp_all add: start_held step_held)

text \<open>C33: an angle command that is reported as done is in force, with one exception. After any run of the
  backend, with any answers from its surroundings, when a call to set the gimbal's angles returns success
  then the last motion command that was written to the gimbal, as the gimbal decodes the bytes on the
  link, is exactly the command for these angles, and its write succeeded, whether the call sent it or left
  it out as a duplicate: no other motion command, neither one of a client nor one whose write failed, came
  after it. The exception are the commands 0x55 and 0x56 of a client, which count as vendor motion
  everywhere else but do not make the backend forget its last angle: only they may have come after it.\<close>

theorem mt11_angle_in_force:
  assumes "mt11_reachable fl env b" "ca_backend_set_gimbal_angles fl env pitch_rad yaw_rad b = (None, b')"
  shows "case gimbal_angles fl mt11_gimbal (mounting_direction b = 2) pitch_rad yaw_rad of
    (target_yaw, target_pitch, yaw, pitch) \<Rightarrow>
      last_command (\<lambda>op data. siyi_motion op data \<and> op \<noteq> 0x55 \<and> op \<noteq> 0x56) (written (events b'))
        = Some (0x0e, angle_payload yaw pitch, None)
      \<and> (last_command siyi_motion (written (events b')) = Some (0x0e, angle_payload yaw pitch, None) \<or>
         (\<exists>op data r. last_command siyi_motion (written (events b')) = Some (op, data, r) \<and> (op = 0x55 \<or> op = 0x56)))"
proof -
  obtain ty tp y p where g: "gimbal_angles fl mt11_gimbal (mounting_direction b = 2) pitch_rad yaw_rad = (ty, tp, y, p)"
    by (cases "gimbal_angles fl mt11_gimbal (mounting_direction b = 2) pitch_rad yaw_rad")
  have k: "(\<lambda>op data. siyi_motion op data \<and> op \<noteq> 0x55 \<and> op \<noteq> 0x56) = angle_motion"
    by (simp add: angle_motion_def fun_eq_iff)
  show ?thesis
    using angles_held(2) [OF reachable_held [OF assms(1)] assms(2) g] last_vendor_motion [of "written (events b')"]
    by (simp add: g k)
qed

definition calm_world :: gb_env where
  "calm_world = (\<lambda>n. \<lparr>an_result = None, an_flag = False, an_ratio = 1, an_byte = Inr 0, an_range = None, an_clock = 7, an_focus = None\<rparr>)"

lemma send_all_calm: "list_all (\<lambda>(c, k, d). length d \<le> 4096) fs \<Longrightarrow> \<exists>b'. send_all calm_world fs b = (None, b')"
  by (induction calm_world fs b rule: send_all.induct)
    (auto simp: send_private_frame perform_def consult_def calm_world_def Let_def)

lemma startup_calm: "\<exists>b'. send_startup calm_world b = (None, b')"
  unfolding send_startup_def by (rule send_all_calm) simp

lemma command_calm:
  "length data \<le> 2038 \<Longrightarrow> \<exists>b'. send_public_command calm_world op data b = (None, b')"
  by (simp add: send_public_command_def public_packet_frame send_private_frame perform_def consult_def calm_world_def Let_def)

lemma angles_calm: "\<exists>b'. ca_backend_set_gimbal_angles fl calm_world pitch_rad yaw_rad b = (None, b')"
proof -
  obtain ty tp y p where g: "gimbal_angles fl mt11_gimbal (mounting_direction b = 2) pitch_rad yaw_rad = (ty, tp, y, p)"
    by (cases "gimbal_angles fl mt11_gimbal (mounting_direction b = 2) pitch_rad yaw_rad")
  obtain t b1 where m: "monotonic_ms calm_world b = (t, b1)" by (cases "monotonic_ms calm_world b")
  obtain b2 where "send_public_command calm_world 0x0e (angle_payload y p) b1 = (None, b2)"
    using command_calm [of "angle_payload y p"] by auto
  then show ?thesis by (simp add: ca_backend_set_gimbal_angles_def g m)
qed

lemma mt11_angle_in_force_witness:
  "\<exists>b b'. mt11_reachable (\<lambda>x. x) calm_world b \<and>
     ca_backend_set_gimbal_angles (\<lambda>x. x) calm_world (FFin 1) (FFin 0) b = (None, b') \<and>
     (case gimbal_angles (\<lambda>x. x) mt11_gimbal (mounting_direction b = 2) (FFin 1) (FFin 0) of
       (target_yaw, target_pitch, yaw, pitch) \<Rightarrow>
         last_command (\<lambda>op data. siyi_motion op data \<and> op \<noteq> 0x55 \<and> op \<noteq> 0x56) (written (events b'))
           = Some (0x0e, angle_payload yaw pitch, None)
         \<and> (last_command siyi_motion (written (events b')) = Some (0x0e, angle_payload yaw pitch, None) \<or>
            (\<exists>op data r. last_command siyi_motion (written (events b')) = Some (op, data, r) \<and> (op = 0x55 \<or> op = 0x56))))"
proof -
  obtain b where "send_startup calm_world (mt11_initial False False 0) = (None, b)"
    using startup_calm by blast
  then have r: "mt11_reachable (\<lambda>x. x) calm_world b" by (intro mt11_start [of _ False False 0]) (simp add: mt11_open_def)
  obtain b' where "ca_backend_set_gimbal_angles (\<lambda>x. x) calm_world (FFin 1) (FFin 0) b = (None, b')"
    using angles_calm by blast
  note s = this
  show ?thesis by (intro exI conjI) (rule r, rule s, rule mt11_angle_in_force [OF r s])
qed

text \<open>The exception is real: a client's command 0x56 has moved the gimbal, and the same angles are still
  reported as done, without being sent again.\<close>

lemma calm_clock: "monotonic_ms calm_world b = (t, b1) \<Longrightarrow> t = 7 \<and> b1 = b\<lparr>consults := consults b1\<rparr>"
  by (auto simp: monotonic_ms_def consult_def calm_world_def)

lemma calm_command:
  assumes "length data \<le> 2038"
  obtains b' where "send_public_command calm_world op data b = (None, b')" "mounting_direction b' = mounting_direction b"
  using assms by (simp add: send_public_command_def public_packet_frame send_private_frame perform_def consult_def
      record_event_def calm_world_def Let_def)

lemma initial_target: "\<not> at_valid (angle_target (mt11_initial on cmd orientation))"
  by (simp add: mt11_initial_def)

lemma angles_calm_sent:
  assumes "\<not> at_valid (angle_target b)"
    and g: "gimbal_angles fl mt11_gimbal (mounting_direction b = 2) p y = (ty, tp, yaw, pitch)"
  obtains b1 where "ca_backend_set_gimbal_angles fl calm_world p y b = (None, b1)"
    "at_valid (angle_target b1)" "at_yaw (angle_target b1) = yaw" "at_pitch (angle_target b1) = pitch"
    "at_sent_ms (angle_target b1) = 7" "mounting_direction b1 = mounting_direction b"
proof -
  obtain t b0 where m: "monotonic_ms calm_world b = (t, b0)" by (cases "monotonic_ms calm_world b")
  have k: "angle_target (b\<lparr>consults := n\<rparr>) = angle_target b" "mounting_direction (b\<lparr>consults := n\<rparr>) = mounting_direction b" for n by simp_all
  note c = calm_clock [OF m]
  have f: "angle_target b0 = angle_target b" "mounting_direction b0 = mounting_direction b"
    using c k by metis+
  obtain b2 where s: "send_public_command calm_world 0x0e (angle_payload yaw pitch) b0 = (None, b2)"
    "mounting_direction b2 = mounting_direction b0"
    by (rule calm_command [of "angle_payload yaw pitch" "0x0e" b0]) simp
  show ?thesis
    by (rule that [of "b2\<lparr>angle_target := ca_angle_target_sent (angle_target b2) yaw pitch t\<rparr>"])
      (use assms(1) f s c in \<open>simp_all add: ca_backend_set_gimbal_angles_def g m ca_angle_target_suppress_def
        ca_angle_target_sent_def\<close>)
qed

theorem mt11_angle_overridden:
  "\<exists>b b'. mt11_reachable (\<lambda>x. x) calm_world b \<and>
     ca_backend_set_gimbal_angles (\<lambda>x. x) calm_world (FFin 1) (FFin 0) b = (None, b') \<and>
     last_command siyi_motion (written (events b')) = Some (0x56, [], None)"
proof -
  obtain b0 where st: "send_startup calm_world (mt11_initial False False 0) = (None, b0)"
    using startup_calm by blast
  then have r0: "mt11_reachable (\<lambda>x. x) calm_world b0" by (intro mt11_start [of _ False False 0]) (simp add: mt11_open_def)
  have t0: "\<not> at_valid (angle_target b0)"
    using st send_all_target unfolding send_startup_def by (metis snd_conv initial_target)
  obtain ty tp yaw pitch where g: "gimbal_angles (\<lambda>x. x) mt11_gimbal (mounting_direction b0 = 2) (FFin 1) (FFin 0) = (ty, tp, yaw, pitch)"
    by (cases "gimbal_angles (\<lambda>x. x) mt11_gimbal (mounting_direction b0 = 2) (FFin 1) (FFin 0)")
  obtain b1 where s1: "ca_backend_set_gimbal_angles (\<lambda>x. x) calm_world (FFin 1) (FFin 0) b0 = (None, b1)"
    and t1: "at_valid (angle_target b1)" "at_yaw (angle_target b1) = yaw" "at_pitch (angle_target b1) = pitch"
    "at_sent_ms (angle_target b1) = 7" "mounting_direction b1 = mounting_direction b0"
    by (rule angles_calm_sent [OF t0 g])
  have r1: "mt11_reachable (\<lambda>x. x) calm_world b1"
    using mt11_step [OF r0, of "Set_angles (FFin 1) (FFin 0)"] s1 by simp
  define d where "d = siyi_frame 1 0 0x56 []"
  have p: "ca_siyi_parse_one d = Parsed (siyi_packet_of 1 0 0x56 []) (length d)"
    using siyi_parse_frame [of "[]" 1 0 "0x56" "[]"] by (simp add: d_def)
  have dl: "length d \<le> 4096" by (simp add: d_def)
  define b2 where "b2 = b1\<lparr>manual_active := False, manual_command := False\<rparr>"
  have r2: "mt11_reachable (\<lambda>x. x) calm_world b2"
    using mt11_step [OF r1, of "Manual False False"] by (simp add: b2_def)
  define b3 where "b3 = snd (siyi_tunnel calm_world (siyi_packet_of 1 0 0x56 []) d b2)"
  have "first_answer (siyi_sections (\<lambda>x. x) calm_world (siyi_packet_of 1 0 0x56 [])) b2 = None"
    by (simp add: local_iff mt11_local_def siyi_packet_of_def)
  then have h: "snd (ca_backend_handle_siyi (\<lambda>x. x) calm_world d b2) = b3"
    by (simp add: ca_backend_handle_siyi_def p b3_def b2_def ca_backend_manual_blocked_def)
  have r3: "mt11_reachable (\<lambda>x. x) calm_world b3" using mt11_step [OF r2, of "Request d"] h by simp
  have f: "written (events b3) = written (events b2) @ [(private_wire (mt11_frame 0x08 (link_sequence b2) MT11_TUNNEL d), None)]"
    "angle_target b3 = angle_target b1" "mounting_direction b3 = mounting_direction b1"
    by (simp_all add: b3_def b2_def siyi_tunnel_def siyi_packet_of_def send_private_frame dl perform_def consult_def record_event_def
        calm_world_def ca_angle_target_invalidate_siyi_def Let_def)
  obtain t b4 where m: "monotonic_ms calm_world b3 = (t, b4)" by (cases "monotonic_ms calm_world b3")
  have k: "angle_target (b3\<lparr>consults := n\<rparr>) = angle_target b3" "events (b3\<lparr>consults := n\<rparr>) = events b3" for n by simp_all
  have f4: "angle_target b4 = angle_target b3" "events b4 = events b3" "t = 7" using calm_clock [OF m] k by metis+
  have "ca_backend_set_gimbal_angles (\<lambda>x. x) calm_world (FFin 1) (FFin 0) b3 = (None, b4)"
    using t1 f(2,3) g f4 by (simp add: ca_backend_set_gimbal_angles_def m ca_angle_target_suppress_def mt11_gimbal_def)
  moreover have "last_command siyi_motion (written (events b4)) = Some (0x56, [], None)"
    using tunnel_decoded [OF p] by (simp add: f4 f(1) last_motion_append siyi_motion_def siyi_packet_of_def)
  ultimately show ?thesis using r3 by blast
qed

subsection \<open>The link end to end\<close>

definition mcu_frame :: "u8 \<Rightarrow> u16 \<Rightarrow> bytes \<Rightarrow> ca_private_frame" where
  "mcu_frame ctl seq packet =
     \<lparr>pf_control = ctl, pf_sequence = seq, pf_source = MT11_MCU, pf_destination = MT11_SOURCE, pf_link = MT11_LINK,
      pf_command = MT11_TUNNEL, pf_payload = packet, pf_payload_length = of_nat (length packet)\<rparr>"

lemma ready_keeps_parser:
  "parser (record_event e b) = parser b" "consult env b = (a, b1) \<Longrightarrow> parser b1 = parser b"
  "monotonic_ms env b = (t, b1) \<Longrightarrow> parser b1 = parser b" for b b1 :: mt11_backend
  by (auto simp: record_event_def consult_def monotonic_ms_def)

text \<open>A frame with a packet that is not a status report is handed on as it is.\<close>

definition hands_on :: "ca_private_frame \<Rightarrow> bool" where
  "hands_on f \<longleftrightarrow> pf_source f = MT11_MCU \<and> pf_destination f = MT11_SOURCE \<and> pf_link f = MT11_LINK \<and>
     pf_command f = MT11_TUNNEL \<and>
     (\<exists>p. ca_siyi_parse_one (pf_payload f) = Parsed p (length (pf_payload f)) \<and> opcode p \<noteq> 0x0a)"

lemma handed_on:
  assumes "hands_on f"
  shows "emitted (events (handle_private fl env f b)) = emitted (events b) @ [pf_payload f]"
    "written (events (handle_private fl env f b)) = written (events b)"
    "parser (handle_private fl env f b) = parser b"
proof -
  obtain p where p: "ca_siyi_parse_one (pf_payload f) = Parsed p (length (pf_payload f))" "opcode p \<noteq> 0x0a"
    using assms by (auto simp: hands_on_def)
  obtain t b2 where m: "monotonic_ms env b = (t, b2)" by (cases "monotonic_ms env b")
  have e: "emitted (events b2) = emitted (events b)" "written (events b2) = written (events b)" "parser b2 = parser b"
    using quiet_clock [OF m quiet_refl] ready_keeps_parser(3) [OF m] by (auto simp: quiet_def)
  have h: "handle_private fl env f b = handle_tunnel fl env (pf_payload f) b" using assms by (simp add: handle_private_def hands_on_def)
  show "emitted (events (handle_private fl env f b)) = emitted (events b) @ [pf_payload f]"
    "written (events (handle_private fl env f b)) = written (events b)" "parser (handle_private fl env f b) = parser b"
    unfolding h handle_tunnel_def p(1) siyi_parse.case Let_def m prod.case using p(2) e by (simp_all add: record_event_def)
qed

lemma all_handed_on:
  "list_all hands_on fs \<Longrightarrow>
   emitted (events (fold (handle_private fl env) fs b)) = emitted (events b) @ map pf_payload fs \<and>
   written (events (fold (handle_private fl env) fs b)) = written (events b) \<and>
   parser (fold (handle_private fl env) fs b) = parser b"
  by (induction fs arbitrary: b) (simp_all add: handed_on)

definition read_all :: "rounding \<Rightarrow> gb_env \<Rightarrow> bytes list \<Rightarrow> mt11_backend \<Rightarrow> mt11_backend" where
  "read_all fl env chunks b = fold (\<lambda>c. mt11_step fl env (Readable (Inr c))) chunks b"

lemma feed_nil: "ca_private_parser_feed p [] = (p, [])"
  by (simp add: ca_private_parser_feed.simps)

lemma read_step:
  assumes "list_all hands_on (snd (ca_private_parser_feed (parser b) c))"
  shows "emitted (events (mt11_step fl env (Readable (Inr c)) b)) =
      emitted (events b) @ map pf_payload (snd (ca_private_parser_feed (parser b) c))"
    "written (events (mt11_step fl env (Readable (Inr c)) b)) = written (events b)"
    "parser (mt11_step fl env (Readable (Inr c)) b) = fst (ca_private_parser_feed (parser b) c)"
proof -
  obtain p fs where f: "ca_private_parser_feed (parser b) c = (p, fs)" by (cases "ca_private_parser_feed (parser b) c")
  have s: "mt11_step fl env (Readable (Inr c)) b = fold (handle_private fl env) fs (b\<lparr>parser := p\<rparr>)"
  proof (cases "c = []")
    case True
    with f have "p = parser b" "fs = []" by (simp_all add: feed_nil)
    with True show ?thesis by (simp add: ca_backend_handle_fd_def)
  qed (simp add: ca_backend_handle_fd_def f)
  have "list_all hands_on fs" using assms f by simp
  from all_handed_on [OF this, of fl env "b\<lparr>parser := p\<rparr>"]
  show "emitted (events (mt11_step fl env (Readable (Inr c)) b)) =
      emitted (events b) @ map pf_payload (snd (ca_private_parser_feed (parser b) c))"
    "written (events (mt11_step fl env (Readable (Inr c)) b)) = written (events b)"
    "parser (mt11_step fl env (Readable (Inr c)) b) = fst (ca_private_parser_feed (parser b) c)"
    by (simp_all only: s f fst_conv snd_conv) (simp_all)
qed

lemma read_all_feed:
  assumes "private_ready (parser b)" "list_all hands_on (snd (ca_private_parser_feed (parser b) (concat chunks)))"
  shows "emitted (events (read_all fl env chunks b)) =
      emitted (events b) @ map pf_payload (snd (ca_private_parser_feed (parser b) (concat chunks))) \<and>
    written (events (read_all fl env chunks b)) = written (events b) \<and>
    parser (read_all fl env chunks b) = fst (ca_private_parser_feed (parser b) (concat chunks))"
  using assms
proof (induction chunks arbitrary: b)
  case Nil
  then show ?case by (simp add: read_all_def feed_nil)
next
  case (Cons c cs)
  let ?b1 = "mt11_step fl env (Readable (Inr c)) b"
  obtain p1 f1 where f1: "ca_private_parser_feed (parser b) c = (p1, f1)" by (cases "ca_private_parser_feed (parser b) c")
  obtain p2 f2 where f2: "ca_private_parser_feed p1 (concat cs) = (p2, f2)" by (cases "ca_private_parser_feed p1 (concat cs)")
  have f: "ca_private_parser_feed (parser b) (c @ concat cs) = (p2, f1 @ f2)"
    using private_feed_append [OF Cons.prems(1), of c "concat cs"] f1 f2 by simp
  have ok: "list_all hands_on f1" "list_all hands_on f2" using Cons.prems(2) f by simp_all
  have "private_ready p1" using private_ready_feed [OF Cons.prems(1), of c] f1 by simp
  then show ?case
    using read_step [of b c fl env] Cons.IH [of ?b1] f f1 f2 ok by (simp add: read_all_def)
qed

type_synonym mcu_item = "u8 \<times> u16 \<times> u8 \<times> u16 \<times> u8 \<times> bytes"

fun item_packet :: "mcu_item \<Rightarrow> bytes" where
  "item_packet (ctl, seq, pctl, pseq, op, data) = siyi_frame pctl pseq op data"

fun item_frame :: "mcu_item \<Rightarrow> ca_private_frame" where
  "item_frame (ctl, seq, pctl, pseq, op, data) = mcu_frame ctl seq (siyi_frame pctl pseq op data)"

fun item_ok :: "mcu_item \<Rightarrow> bool" where
  "item_ok (ctl, seq, pctl, pseq, op, data) \<longleftrightarrow> op \<noteq> 0x0a \<and> length data \<le> 2038"

lemma mcu_frame_ok: "length packet \<le> 4096 \<Longrightarrow> private_frame_ok (mcu_frame ctl seq packet)"
  by (simp add: private_frame_ok_def mcu_frame_def unat_of_nat)

lemma item_hands_on:
  assumes "item_ok i"
  shows "hands_on (item_frame i)" "private_frame_ok (item_frame i)" "pf_payload (item_frame i) = item_packet i"
proof -
  obtain ctl seq pctl pseq op data where i: "i = (ctl, seq, pctl, pseq, op, data)" by (cases i)
  have l: "length data \<le> 2038" "op \<noteq> 0x0a" using assms i by simp_all
  have p: "ca_siyi_parse_one (siyi_frame pctl pseq op data) = Parsed (siyi_packet_of pctl pseq op data) (length data + 10)"
    using siyi_parse_frame [OF l(1), of pctl pseq op "[]"] by simp
  show "hands_on (item_frame i)" using l(2) p by (simp add: i hands_on_def mcu_frame_def siyi_packet_of_def)
  show "private_frame_ok (item_frame i)" using l(1) by (simp add: i mcu_frame_ok)
  show "pf_payload (item_frame i) = item_packet i" by (simp add: i mcu_frame_def)
qed

text \<open>C34: the way from the gimbal to the clients is transparent. When the gimbal's controller sends any
  number of SIYI packets (status reports apart, whose recording flag is replaced), each in a frame of its
  own, with noise before them, then however the serial port cuts the bytes into reads, the clients get
  exactly these packets, each once, in order and unchanged, and nothing is written back to the gimbal.\<close>

theorem mt11_link_transparent:
  assumes "parser b = ca_private_parser_init" "list_all item_ok items" "0xaa \<notin> set noise"
    and "concat chunks = noise @ concat (map (\<lambda>i. private_wire (item_frame i)) items)"
  shows "emitted (events (read_all fl env chunks b)) = emitted (events b) @ map item_packet items \<and>
    written (events (read_all fl env chunks b)) = written (events b)"
proof -
  have ok: "\<forall>f \<in> set (map item_frame items). private_frame_ok f" "list_all hands_on (map item_frame items)"
    using assms(2) by (auto simp: list_all_iff item_hands_on)
  have "ca_private_parser_feed (parser b) (concat chunks) =
      (ca_private_parser_init\<lparr>discarded := of_nat (length noise)\<rparr>, map item_frame items)"
    using private_wires_fed [OF ok(1) assms(3)] by (simp add: assms(1,4) comp_def)
  moreover have "map pf_payload (map item_frame items) = map item_packet items"
    using assms(2) by (auto simp: list_all_iff item_hands_on)
  ultimately show ?thesis using read_all_feed [of b chunks fl env] ok(2) by (simp add: assms(1))
qed

lemma mt11_link_transparent_witness:
  "\<exists>wire. emitted (events (read_all (\<lambda>x. x) calm_world [1 # take 9 wire, drop 9 wire] (mt11_initial False False 0))) =
     [siyi_frame 2 7 0x19 [1], siyi_frame 2 8 0x0d (replicate 12 0)]"
proof -
  let ?items = "[(8, 1, 2, 7, 0x19, [1]), (8, 2, 2, 8, 0x0d, replicate 12 0)] :: mcu_item list"
  let ?wire = "concat (map (\<lambda>i. private_wire (item_frame i)) ?items)"
  have "emitted (events (read_all (\<lambda>x. x) calm_world [1 # take 9 ?wire, drop 9 ?wire] (mt11_initial False False 0))) =
      emitted (events (mt11_initial False False 0)) @ map item_packet ?items"
    by (rule mt11_link_transparent [where noise = "[1]", THEN conjunct1]) (simp_all add: mt11_initial_def)
  then show ?thesis by (intro exI [of _ ?wire]) (simp add: mt11_initial_def)
qed

end
