(* ===== verification/Siyi_Link.thy ===== *)
theory Siyi_Link
  imports Private_Uart
begin

text \<open>
  The gimbal link of the A8 and the ZR10, \<^verbatim>\<open>camera_app/src/backends/siyi/control.c\<close>: frames
  \<^verbatim>\<open>AA flags 02 length8 crc8 sequence16 source destination 6B sub payload crc16\<close>, how
  \<^verbatim>\<open>send_link\<close> lays one out in its buffer and how \<^verbatim>\<open>parse_rx\<close> finds them in what was
  received. The receive buffer is modelled by its valid prefix.
\<close>

definition A8_LINK_START :: u8 where "A8_LINK_START = 0xaa"
definition A8_LINK_VERSION :: u8 where "A8_LINK_VERSION = 0x02"
definition A8_LINK_FLAG_PLAIN :: u8 where "A8_LINK_FLAG_PLAIN = 0x08"
definition A8_LINK_FLAG_REQUEST :: u8 where "A8_LINK_FLAG_REQUEST = 0x09"
definition A8_LINK_CAMERA :: u8 where "A8_LINK_CAMERA = 0x2c"
definition A8_LINK_GIMBAL :: u8 where "A8_LINK_GIMBAL = 0x2e"
definition A8_LINK_CMD :: u8 where "A8_LINK_CMD = 0x6b"
definition A8_LINK_HEADER :: nat where "A8_LINK_HEADER = 11"
definition A8_LINK_OVERHEAD :: nat where "A8_LINK_OVERHEAD = A8_LINK_HEADER + 2"
definition A8_LINK_MAX_PAYLOAD :: nat where "A8_LINK_MAX_PAYLOAD = 255"
definition A8_LINK_MAX_FRAME :: nat where "A8_LINK_MAX_FRAME = A8_LINK_OVERHEAD + A8_LINK_MAX_PAYLOAD"

text \<open>The frame that \<^verbatim>\<open>send_link\<close> writes, for a payload that fits: the buffer of the longest frame
  is filled store by store, and the part in use is sent.\<close>

definition build_link :: "u8 \<Rightarrow> u16 \<Rightarrow> u8 \<Rightarrow> bytes \<Rightarrow> bytes" where
  "build_link flags seq sub data =
     (let n = length data;
          f1 = (replicate A8_LINK_MAX_FRAME 0)[0 := A8_LINK_START, 1 := flags, 2 := A8_LINK_VERSION, 3 := of_nat n];
          f2 = f1[4 := ca_crc8_maxim (take 4 f1)];
          f3 = put_u16_le f2 5 seq;
          f4 = f3[7 := A8_LINK_CAMERA, 8 := A8_LINK_GIMBAL, 9 := A8_LINK_CMD, 10 := sub];
          f5 = (if n \<noteq> 0 then blit f4 A8_LINK_HEADER data else f4);
          f6 = put_u16_le f5 (A8_LINK_HEADER + n) (ca_crc16 (take (A8_LINK_HEADER + n) f5))
      in take (A8_LINK_OVERHEAD + n) f6)"

text \<open>The loop of \<^verbatim>\<open>parse_rx\<close>: the complete frames, as bytes, and what stays in the buffer.\<close>

function parse_frames :: "bytes \<Rightarrow> bytes list \<times> bytes" where
  "parse_frames d =
     (if length d < A8_LINK_OVERHEAD then ([], d)
      else
        let total = A8_LINK_OVERHEAD + unat (d ! 3) in
        if d ! 0 \<noteq> A8_LINK_START \<or> d ! 2 \<noteq> A8_LINK_VERSION \<or> ca_crc8_maxim (take 4 d) \<noteq> d ! 4
        then parse_frames (drop 1 d)
        else if length d < total then ([], d)
        else if ca_crc16 (take (total - 2) d) \<noteq> get_u16_le d (total - 2) then parse_frames (drop 1 d)
        else (let (frames, rest) = parse_frames (drop total d) in (take total d # frames, rest)))"
  by pat_completeness auto
termination by (relation "measure length") (auto simp: A8_LINK_OVERHEAD_def A8_LINK_HEADER_def)

declare parse_frames.simps [simp del]

subsection \<open>The parser as a framing decision\<close>

definition link_step :: "bytes \<Rightarrow> (bytes, unit) verdict" where
  "link_step d =
     (if length d < 13 then Need
      else if d ! 0 \<noteq> 0xaa \<or> d ! 2 \<noteq> 2 \<or> ca_crc8_maxim (take 4 d) \<noteq> d ! 4 then Skip 1 ()
      else
        let total = 13 + unat (d ! 3) in
        if length d < total then Need
        else if ca_crc16 (take (total - 2) d) \<noteq> get_u16_le d (total - 2) then Skip 1 ()
        else Take total (take total d))"

interpretation lk: stream_parser link_step
proof
  show "0 < n \<and> n \<le> length xs" if "link_step xs = Skip n e" for xs n e
    using that by (auto simp: link_step_def Let_def split: if_splits)
  show "0 < n \<and> n \<le> length xs" if "link_step xs = Take n f" for xs n f
    using that by (auto simp: link_step_def Let_def split: if_splits)
  show "link_step (xs @ ys) = link_step xs" if h: "link_step xs \<noteq> Need" for xs ys
  proof -
    from h have l: "13 \<le> length xs" "xs \<noteq> []" by (auto simp: link_step_def split: if_splits)
    then have x: "(xs @ ys) ! 0 = xs ! 0" "(xs @ ys) ! 2 = xs ! 2" "(xs @ ys) ! 3 = xs ! 3" "(xs @ ys) ! 4 = xs ! 4"
      "take 4 (xs @ ys) = take 4 xs" "\<not> length xs < 13" "\<not> length (xs @ ys) < 13"
      by (simp_all add: nth_append)
    show ?thesis
    proof (cases "xs ! 0 \<noteq> 0xaa \<or> xs ! 2 \<noteq> 2 \<or> ca_crc8_maxim (take 4 xs) \<noteq> xs ! 4")
      case True
      then show ?thesis unfolding link_step_def x using x(6,7) by simp
    next
      case False
      let ?t = "13 + unat (xs ! 3)"
      have t: "\<not> length xs < ?t" using h False x(6) by (auto simp: link_step_def Let_def split: if_splits)
      then have y: "take (?t - 2) (xs @ ys) = take (?t - 2) xs" "take ?t (xs @ ys) = take ?t xs"
        "get_u16_le (xs @ ys) (?t - 2) = get_u16_le xs (?t - 2)" "\<not> length (xs @ ys) < ?t"
        by (simp_all add: get_u16_le_append)
      show ?thesis unfolding link_step_def Let_def x(1-5) y using x(6,7) t by simp
    qed
  qed
qed

text \<open>The loop drains the decision.\<close>

lemmas link_consts = A8_LINK_OVERHEAD_def A8_LINK_HEADER_def A8_LINK_START_def A8_LINK_VERSION_def A8_LINK_MAX_FRAME_def
  A8_LINK_MAX_PAYLOAD_def A8_LINK_CAMERA_def A8_LINK_GIMBAL_def A8_LINK_CMD_def

lemma parse_turn:
  "parse_frames d =
     (case link_step d of Need \<Rightarrow> ([], d) | Skip n e \<Rightarrow> parse_frames (drop n d)
      | Take n f \<Rightarrow> (f # fst (parse_frames (drop n d)), snd (parse_frames (drop n d))))"
  by (simp add: parse_frames.simps [of d] link_step_def link_consts Let_def split_beta)

lemma parse_frames_drain: "parse_frames d = (frames_of (fst (drain link_step d)), snd (drain link_step d))"
proof (induction d rule: measure_induct_rule [where f = length])
  case (less d)
  show ?case
  proof (cases "link_step d")
    case Need
    then show ?thesis by (simp add: parse_turn [of d] lk.drain_need)
  next
    case (Skip n e)
    have "length (drop n d) < length d" using lk.skip_progress [OF Skip] by auto
    from less.IH [OF this] show ?thesis by (simp add: parse_turn [of d] lk.drain_skip [OF Skip] Skip)
  next
    case (Take n f)
    have "length (drop n d) < length d" using lk.take_progress [OF Take] by auto
    from less.IH [OF this] show ?thesis by (simp add: parse_turn [of d] lk.drain_take [OF Take] Take)
  qed
qed

lemma parse_frames_append:
  "parse_frames (xs @ ys) =
     (fst (parse_frames xs) @ fst (parse_frames (snd (parse_frames xs) @ ys)), snd (parse_frames (snd (parse_frames xs) @ ys)))"
  using lk.drain_append [of xs ys] by (simp add: parse_frames_drain)

lemma parse_rest_short: "length (snd (parse_frames d)) < A8_LINK_MAX_FRAME"
proof -
  have "link_step (snd (parse_frames d)) = Need" using lk.drain_rest_needs by (simp add: parse_frames_drain)
  moreover have "unat (x :: u8) \<le> 255" for x
  proof -
    have "unat x < 2 ^ 8" using unsigned_less [of x] by simp
    then show ?thesis by simp
  qed
  ultimately show ?thesis
    by (auto simp: link_step_def Let_def link_consts split: if_splits intro: less_le_trans)
qed

lemma parse_rest_idle: "parse_frames (snd (parse_frames d)) = ([], snd (parse_frames d))"
  using lk.drain_rest_needs [of d] by (simp add: parse_turn [of "snd (parse_frames d)"]) (simp add: parse_frames_drain)

subsection \<open>The wire format\<close>

definition link_head :: "u8 \<Rightarrow> bytes \<Rightarrow> bytes" where
  "link_head flags data = [0xaa, flags, 2, of_nat (length data)]"

definition link_body :: "u8 \<Rightarrow> u8 \<Rightarrow> u8 \<Rightarrow> u16 \<Rightarrow> u8 \<Rightarrow> bytes \<Rightarrow> bytes" where
  "link_body source destination flags seq sub data =
     link_head flags data @ [ca_crc8_maxim (link_head flags data)] @ le16 seq @ [source, destination, 0x6b, sub] @ data"

definition link_wire :: "u8 \<Rightarrow> u8 \<Rightarrow> u8 \<Rightarrow> u16 \<Rightarrow> u8 \<Rightarrow> bytes \<Rightarrow> bytes" where
  "link_wire source destination flags seq sub data =
     (let body = link_body source destination flags seq sub data in body @ le16 (ca_crc16 body))"

lemma length_link [simp]:
  "length (link_body source destination flags seq sub data) = length data + 11"
  "length (link_wire source destination flags seq sub data) = length data + 13"
  by (simp_all add: link_wire_def link_body_def link_head_def Let_def)

lemma link_wire_fields:
  "link_wire src dst flags seq sub data ! 0 = 0xaa" "link_wire src dst flags seq sub data ! 1 = flags"
  "link_wire src dst flags seq sub data ! 2 = 2" "link_wire src dst flags seq sub data ! 3 = of_nat (length data)"
  "link_wire src dst flags seq sub data ! 4 = ca_crc8_maxim (link_head flags data)"
  "link_wire src dst flags seq sub data ! 7 = src" "link_wire src dst flags seq sub data ! 8 = dst"
  "link_wire src dst flags seq sub data ! 9 = 0x6b" "link_wire src dst flags seq sub data ! 10 = sub"
  "take 4 (link_wire src dst flags seq sub data) = link_head flags data"
  "take (length data) (drop 11 (link_wire src dst flags seq sub data)) = data"
  by (simp_all add: link_wire_def link_body_def link_head_def le16_def Let_def)

lemma link_wire_parts:
  "take (length data + 11) (link_wire src dst flags seq sub data) = link_body src dst flags seq sub data"
  "take 2 (drop (length data + 11) (link_wire src dst flags seq sub data)) = le16 (ca_crc16 (link_body src dst flags seq sub data))"
  by (simp_all add: link_wire_def Let_def)

lemma link_step_wire:
  assumes "length data \<le> 255"
  shows "link_step (link_wire src dst flags seq sub data) = Take (length data + 13) (link_wire src dst flags seq sub data)"
proof -
  let ?w = "link_wire src dst flags seq sub data"
  have n: "unat (?w ! 3) = length data" using assms by (simp add: link_wire_fields unat_of_nat)
  have t: "13 + length data - 2 = length data + 11" by simp
  have c: "get_u16_le ?w (length data + 11) = ca_crc16 (link_body src dst flags seq sub data)"
    by (rule get_u16_le_le16) (rule link_wire_parts(2))
  show ?thesis
    unfolding link_step_def Let_def n t c link_wire_parts(1) by (simp add: link_wire_fields del: One_nat_def)
qed

lemma build_link_wire:
  assumes "length data \<le> 255"
  shows "build_link flags seq sub data = link_wire A8_LINK_CAMERA A8_LINK_GIMBAL flags seq sub data"
proof -
  let ?n = "length data" and ?h = "link_head flags data"
  define out :: bytes where "out = replicate 268 0"
  have lo: "length out = 268" by (simp add: out_def)
  have f1: "out[0 := 0xaa, 1 := flags, 2 := 2, 3 := of_nat ?n] = blit out 0 ?h"
  proof -
    have "out[0 := 0xaa] = blit out 0 [0xaa]" by (intro list_update_blit) (simp add: lo)
    moreover have "(blit out 0 [0xaa])[1 := flags] = blit out 0 [0xaa, flags]"
      using list_update_start [of "[0xaa]" out 1 flags] by (simp add: lo)
    moreover have "(blit out 0 [0xaa, flags])[2 := 2] = blit out 0 [0xaa, flags, 2]"
      using list_update_start [of "[0xaa, flags]" out 2 2] by (simp add: lo)
    moreover have "(blit out 0 [0xaa, flags, 2])[3 := of_nat ?n] = blit out 0 ?h"
      using list_update_start [of "[0xaa, flags, 2]" out 3 "of_nat ?n"] by (simp add: link_head_def lo)
    ultimately show ?thesis by (simp only:)
  qed
  have l: "length ?h = 4" by (simp add: link_head_def)
  have t4: "take 4 (blit out 0 ?h) = ?h" using take_blit_end [of 0 ?h out] l by (simp add: lo)
  let ?c = "ca_crc8_maxim ?h"
  have f2: "(blit out 0 ?h)[4 := ?c] = blit out 0 (?h @ [?c])"
    by (rule list_update_start) (simp_all add: l lo)
  have f3: "put_u16_le (blit out 0 (?h @ [?c])) 5 seq = blit out 0 ((?h @ [?c]) @ le16 seq)"
    by (rule put_u16_le_start) (simp_all add: l lo)
  let ?p = "(?h @ [?c]) @ le16 seq"
  have f4: "(blit out 0 ?p)[7 := 0x2c, 8 := 0x2e, 9 := 0x6b, 10 := sub] = blit out 0 (?p @ [0x2c, 0x2e, 0x6b, sub])"
  proof -
    have "(blit out 0 ?p)[7 := 0x2c] = blit out 0 (?p @ [0x2c])" by (rule list_update_start) (simp_all add: l lo)
    moreover have "(blit out 0 (?p @ [0x2c]))[8 := 0x2e] = blit out 0 ((?p @ [0x2c]) @ [0x2e])"
      by (rule list_update_start) (simp_all add: l lo)
    moreover have "(blit out 0 ((?p @ [0x2c]) @ [0x2e]))[9 := 0x6b] = blit out 0 (((?p @ [0x2c]) @ [0x2e]) @ [0x6b])"
      by (rule list_update_start) (simp_all add: l lo)
    moreover have "(blit out 0 (((?p @ [0x2c]) @ [0x2e]) @ [0x6b]))[10 := sub] =
        blit out 0 ((((?p @ [0x2c]) @ [0x2e]) @ [0x6b]) @ [sub])"
      by (rule list_update_start) (simp_all add: l lo)
    ultimately show ?thesis by (simp only: append_assoc append.simps)
  qed
  let ?b = "link_body 0x2c 0x2e flags seq sub data"
  have b: "?b = (?p @ [0x2c, 0x2e, 0x6b, sub]) @ data" by (simp add: link_body_def)
  have f5: "(if ?n \<noteq> 0 then blit (blit out 0 (?p @ [0x2c, 0x2e, 0x6b, sub])) 11 data
      else blit out 0 (?p @ [0x2c, 0x2e, 0x6b, sub])) = blit out 0 ?b"
  proof (cases "data = []")
    case True
    then show ?thesis by (simp add: link_body_def)
  next
    case False
    have "blit (blit out 0 (?p @ [0x2c, 0x2e, 0x6b, sub])) 11 data = blit out 0 ((?p @ [0x2c, 0x2e, 0x6b, sub]) @ data)"
      using assms by (intro blit_start) (simp_all add: l lo)
    with False show ?thesis by (simp add: b)
  qed
  have t5: "take (11 + ?n) (blit out 0 ?b) = ?b" using take_blit_end [of 0 ?b out] assms by (simp add: add.commute lo)
  have f6: "put_u16_le (blit out 0 ?b) (11 + ?n) (ca_crc16 ?b) = blit out 0 (?b @ le16 (ca_crc16 ?b))"
    using assms by (intro put_u16_le_start) (simp_all add: lo)
  have w: "?b @ le16 (ca_crc16 ?b) = link_wire 0x2c 0x2e flags seq sub data" by (simp add: link_wire_def Let_def)
  have t6: "take (13 + ?n) (blit out 0 (link_wire 0x2c 0x2e flags seq sub data)) = link_wire 0x2c 0x2e flags seq sub data"
    using take_blit_end [of 0 "link_wire 0x2c 0x2e flags seq sub data" out] assms by (simp add: add.commute lo)
  have vals: "A8_LINK_MAX_FRAME = 268" "A8_LINK_HEADER = 11" "A8_LINK_OVERHEAD = 13" "A8_LINK_START = 0xaa"
    "A8_LINK_VERSION = 2" "A8_LINK_CAMERA = 0x2c" "A8_LINK_GIMBAL = 0x2e" "A8_LINK_CMD = 0x6b"
    by (simp_all add: link_consts)
  show ?thesis
    unfolding build_link_def Let_def vals out_def [symmetric] f1 t4 f2 f3 f4 f5 t5 f6 w t6 ..
qed

end
