(* ===== verification/Siyi_Backend.thy ===== *)
theory Siyi_Backend
  imports Gimbal_Backend Siyi_Link
begin

text \<open>
  The backend of the A8 and the ZR10, \<^verbatim>\<open>camera_app/src/backends/siyi/control.c\<close>; \<^term>\<open>zr10\<close> is the
  target it is compiled for. SIYI packets are answered here, turned into native frames (ZR10), or sent
  through the link's tunnel; frames from the gimbal bring attitudes, the mounting direction, replies for
  the clients and, on the ZR10, requests that the gimbal delegates to the camera. The opening of the
  device is left out. Results are None for 0 and the error number for -1.
\<close>

definition A8_SUB_UNKNOWN_14 :: u8 where "A8_SUB_UNKNOWN_14 = 0x14"
definition A8_SUB_MOTION_MODE :: u8 where "A8_SUB_MOTION_MODE = 0x15"
definition A8_SUB_TUNNEL :: u8 where "A8_SUB_TUNNEL = 0x16"
definition A8_SUB_MOUNTING :: u8 where "A8_SUB_MOUNTING = 0x17"
definition A8_SUB_ATTITUDE :: u8 where "A8_SUB_ATTITUDE = 0x50"
definition A8_MOUNT_QUERY_INTERVAL_MS :: u64 where "A8_MOUNT_QUERY_INTERVAL_MS = 1000"
definition A8_INVERTED_PITCH_THRESHOLD :: int where "A8_INVERTED_PITCH_THRESHOLD = 900"

record siyi_backend = gimbal_backend +
  uart_open :: bool
  reply_to_mcu :: bool
  zoom_query_ms :: u64
  rx :: bytes
  direction_known :: bool
  direction_inferred :: bool
  mounting_query_ms :: u64

definition siyi_target :: "bool \<Rightarrow> gimbal_target" where
  "siyi_target zr10 = (if zr10 then zr10_gimbal else a8_gimbal)"

subsection \<open>Sending\<close>

definition send_link :: "gb_env \<Rightarrow> u8 \<Rightarrow> u8 \<Rightarrow> bytes \<Rightarrow> siyi_backend \<Rightarrow> errno option \<times> siyi_backend" where
  "send_link env flags sub data b =
     (if A8_LINK_MAX_PAYLOAD < length data then (Some EMSGSIZE, b)
      else if \<not> uart_open b then (Some ENOTCONN, b)
      else perform env (Link_write (build_link flags (link_sequence b) sub data))
        (b\<lparr>link_sequence := link_sequence b + 1\<rparr>))"

definition send_tunnel :: "gb_env \<Rightarrow> bytes \<Rightarrow> siyi_backend \<Rightarrow> errno option \<times> siyi_backend" where
  "send_tunnel env packet b = send_link env A8_LINK_FLAG_PLAIN A8_SUB_TUNNEL packet b"

text \<open>A reply: to the client, or, while a request of the gimbal is served, back through the tunnel.\<close>

definition emit_local :: "bool \<Rightarrow> gb_env \<Rightarrow> u8 \<Rightarrow> bytes \<Rightarrow> siyi_backend \<Rightarrow> siyi_backend" where
  "emit_local zr10 env op data b =
     (let packet = public_packet 2 (public_sequence b) op data; b1 = b\<lparr>public_sequence := public_sequence b + 1\<rparr>
      in if packet = [] then b1
         else if zr10 \<and> reply_to_mcu b1 then snd (send_tunnel env packet b1)
         else record_event (Emitted packet) b1)"

definition emit_feedback :: "bool \<Rightarrow> gb_env \<Rightarrow> u8 \<Rightarrow> siyi_backend \<Rightarrow> siyi_backend" where
  "emit_feedback zr10 env feedback b = emit_local zr10 env 0x0b [feedback] (b\<lparr>feedback_last := feedback\<rparr>)"

subsection \<open>Mounting and attitude\<close>

definition apply_mounting_direction :: "gb_env \<Rightarrow> u8 \<Rightarrow> siyi_backend \<Rightarrow> bool \<times> siyi_backend" where
  "apply_mounting_direction env direction b =
     (if direction < 1 \<or> 2 < direction then (False, b)
      else
        let inverted = (if gb_orientation b = CA_MOUNT_AUTO then direction = 2 else gb_orientation b = CA_MOUNT_INVERTED);
            (r, b1) = perform env (Inverted_set inverted) b;
            applied = (if inverted then 2 else 1)
        in if r \<noteq> None then (False, b1)
           else
             let b2 = (if mounting_direction b1 \<noteq> applied
                       then b1\<lparr>angle_target := (angle_target b1)\<lparr>at_valid := False\<rparr>\<rparr> else b1)
             in (True, b2\<lparr>mounting_direction := applied, direction_known := True\<rparr>))"

definition update_attitude ::
  "bool \<Rightarrow> rounding \<Rightarrow> gb_env \<Rightarrow> bytes \<Rightarrow> nat \<Rightarrow> bool \<Rightarrow> siyi_backend \<Rightarrow> siyi_backend" where
  "update_attitude zr10 fl env values count siyi_yaw b =
     (let scale = fl (pi_f / 1800);
          v = map (\<lambda>i. if i < count then report_value values i else 0) [0..<6];
          b1 = (if gb_orientation b = CA_MOUNT_AUTO \<and> \<not> direction_known b \<and>
                   (v ! 1 < - A8_INVERTED_PITCH_THRESHOLD \<or> A8_INVERTED_PITCH_THRESHOLD < v ! 1)
                then (let (applied, b0) = apply_mounting_direction env 2 b
                      in if applied then b0\<lparr>direction_inferred := True\<rparr> else b0)
                else b);
          t = siyi_target zr10;
          m = mapping_for (if siyi_yaw then g_feedback t else g_private_feedback t) (mounting_direction b1 = 2);
          a = report_attitude fl (fl (scale * 10)) m v (6 \<le> count) (attitude b1);
          (now, b2) = monotonic_ms env b1
      in b2\<lparr>attitude := a\<lparr>ga_timestamp_ms := now\<rparr>, have_attitude := True\<rparr>)"

subsection \<open>Packets from the clients\<close>

type_synonym siyi_answer = "(errno option \<times> siyi_backend) option"

text \<open>The native command of the ZR10 for a packet: subcommand and flags.\<close>

definition int8 :: "u8 \<Rightarrow> int" where "int8 v = sint v"

definition zr10_native :: "siyi_packet \<Rightarrow> errno + (u8 \<times> u8) option" where
  "zr10_native p =
     (if opcode p = 0x05 \<or> opcode p = 0x06 then
        (if payload_length p \<noteq> 1 \<or> int8 (payload p ! 0) < -1 \<or> 1 < int8 (payload p ! 0) then Inl EINVAL
         else Inr (Some (if opcode p = 0x05 then 0x04 else 0x05, A8_LINK_FLAG_REQUEST)))
      else if opcode p = 0x07 then
        (if payload_length p \<noteq> 2 \<or> int8 (payload p ! 0) < -100 \<or> 100 < int8 (payload p ! 0) \<or>
            int8 (payload p ! 1) < -100 \<or> 100 < int8 (payload p ! 1) then Inl EINVAL
         else Inr (Some (0x06, A8_LINK_FLAG_REQUEST)))
      else if opcode p = 0x08 then
        (if payload_length p \<noteq> 1 \<or> payload p ! 0 < 1 \<or> 3 < payload p ! 0 then Inl EINVAL
         else Inr (Some (0x07, A8_LINK_FLAG_REQUEST)))
      else if opcode p = 0x0f then
        (if payload_length p \<noteq> 2 \<or> payload p ! 0 < 1 \<or> 10 < payload p ! 0 \<or> 9 < payload p ! 1 \<or>
            (payload p ! 0 = 10 \<and> payload p ! 1 \<noteq> 0) then Inl EINVAL
         else Inr (Some (0x37, A8_LINK_FLAG_PLAIN)))
      else Inr None)"

definition reply :: "bool \<Rightarrow> gb_env \<Rightarrow> siyi_packet \<Rightarrow> bytes \<Rightarrow> siyi_backend \<Rightarrow> siyi_answer" where
  "reply zr10 env p data b = Some (None, emit_local zr10 env (opcode p) data b)"

text \<open>The switch of \<^verbatim>\<open>ca_backend_handle_siyi\<close> in three parts; None is \<^verbatim>\<open>break\<close>.\<close>

definition siyi_function :: "bool \<Rightarrow> gb_env \<Rightarrow> siyi_packet \<Rightarrow> siyi_backend \<Rightarrow> siyi_answer" where
  "siyi_function zr10 env p b =
     (if opcode p = 0x0c then
        (if payload_length p \<noteq> 1 then None
         else if payload p ! 0 = 0 then
           (let (ok, b1) = capture_photo env b in Some (None, emit_feedback zr10 env (if ok then 0 else 1) b1))
         else if payload p ! 0 = 2 then (let (v, b1) = toggle_recording env b in Some (None, emit_feedback zr10 env v b1))
         else if payload p ! 0 = 1 then Some (None, emit_feedback zr10 env 3 b)
         else None)
      else if opcode p = 0x0b then
        (if payload_length p \<noteq> 0 then None else Some (None, emit_feedback zr10 env (feedback_last b) b))
      else if opcode p = 0x04 then
        (if payload_length p \<noteq> 1 \<and> payload_length p \<noteq> 5 then None else reply zr10 env p [1] b)
      else if opcode p = 0x06 then (if payload_length p \<noteq> 1 then None else reply zr10 env p [1] b)
      else if opcode p = 0x0a then
        (if payload_length p \<noteq> 0 then None
         else let (a, b1) = consult env b
              in reply zr10 env p [0, 0, 0, if an_flag a then 1 else 0, gimbal_mode b, mounting_direction b, 0, 0] b1)
      else if opcode p = 0x10 then (if payload_length p \<noteq> 0 then None else reply zr10 env p [1, 2] b)
      else if opcode p = 0x11 then
        (if payload_length p = 2 then reply zr10 env p [1, 2] b
         else if payload_length p = 1 then reply zr10 env p [payload p ! 0] b else None)
      else None)"

definition siyi_camera :: "bool \<Rightarrow> rounding \<Rightarrow> gb_env \<Rightarrow> siyi_packet \<Rightarrow> siyi_backend \<Rightarrow> siyi_answer" where
  "siyi_camera zr10 fl env p b =
     (if opcode p = 0x16 then (if payload_length p \<noteq> 0 then None else reply zr10 env p [6, 0] b)
      else if opcode p = 0x18 then
        (if payload_length p \<noteq> 0 then None
         else let (data, b1) = zoom_payload fl env b in reply zr10 env p data b1)
      else if opcode p = 0x0f then
        (if payload_length p \<noteq> 2 then None
         else let (r, b1) = perform env (Zoom_set (packet_zoom fl (payload p))) b
              in reply zr10 env p [if r = None then 1 else 0] b1)
      else if opcode p = 0x05 then
        (if payload_length p \<noteq> 1 then None
         else
           let direction = int8 (payload p ! 0); (a, b1) = consult env b
           in if direction \<noteq> 1 \<and> direction \<noteq> -1 \<and> direction \<noteq> 0 then Some (Some EINVAL, b1)
              else
                let zoom = zoom_step fl 6 direction (an_ratio a); tenths = zoom_tenths fl zoom
                in (case perform env (Zoom_set zoom) b1 of
                      (Some e, b2) \<Rightarrow> Some (Some e, b2)
                    | (None, b2) \<Rightarrow> reply zr10 env p [to8 tenths, to8 (drop_bit 8 tenths)] b2))
      else None)"

definition siyi_sensor :: "bool \<Rightarrow> gb_env \<Rightarrow> siyi_packet \<Rightarrow> siyi_backend \<Rightarrow> siyi_answer" where
  "siyi_sensor zr10 env p b =
     (if opcode p = 0x37 \<or> opcode p = 0x1a then
        (if payload_length p \<noteq> 0 then None
         else let (a, b1) = consult env b
              in (case an_byte a of Inl e \<Rightarrow> Some (Some e, b1) | Inr v \<Rightarrow> reply zr10 env p [v] b1))
      else if opcode p = 0x38 then
        (if payload_length p \<noteq> 1 \<or> 1 < payload p ! 0 then None
         else Some (perform env (Thermal_gain_set (payload p ! 0)) b))
      else if opcode p = 0x1b then
        (if payload_length p \<noteq> 1 then None
         else (case perform env (Thermal_palette_set (payload p ! 0)) b of
                 (Some e, b1) \<Rightarrow> Some (Some e, b1)
               | (None, b1) \<Rightarrow> reply zr10 env p [payload p ! 0] b1))
      else if opcode p = 0x30 then
        (if payload_length p = 8 then
           let (r, b1) = perform env (settime_call (payload p)) b in reply zr10 env p [if r = None then 1 else 0] b1
         else reply zr10 env p [0] b)
      else if opcode p = 0x14 then Some (None, b)
      else None)"

text \<open>The modes of the gimbal among the functions: sent as a native frame.\<close>

definition mode_function :: "siyi_packet \<Rightarrow> bool" where
  "mode_function p \<longleftrightarrow> opcode p = 0x0c \<and> payload_length p = 1 \<and> 3 \<le> payload p ! 0 \<and> payload p ! 0 \<le> 5"

definition siyi_switch ::
  "bool \<Rightarrow> rounding \<Rightarrow> gb_env \<Rightarrow> siyi_packet \<Rightarrow> bytes \<Rightarrow> siyi_backend \<Rightarrow> errno option \<times> siyi_backend" where
  "siyi_switch zr10 fl env p data b =
     (if mode_function p then
        send_link env A8_LINK_FLAG_PLAIN A8_SUB_MOTION_MODE [payload p ! 0 - 3] (b\<lparr>gimbal_mode := payload p ! 0 - 3\<rparr>)
      else case siyi_function zr10 env p b of
        Some answer \<Rightarrow> answer
      | None \<Rightarrow>
          (case siyi_camera zr10 fl env p b of
             Some answer \<Rightarrow> answer
           | None \<Rightarrow>
               (case siyi_sensor zr10 env p b of
                  Some answer \<Rightarrow> answer
                | None \<Rightarrow> if zr10 \<and> reply_to_mcu b then (Some ENOTSUP, b) else send_tunnel env data b)))"

definition ca_backend_handle_siyi ::
  "bool \<Rightarrow> rounding \<Rightarrow> gb_env \<Rightarrow> bytes \<Rightarrow> siyi_backend \<Rightarrow> errno option \<times> siyi_backend" where
  "ca_backend_handle_siyi zr10 fl env data b =
     (case ca_siyi_parse_one data of
        Parsed p n \<Rightarrow>
          if n \<noteq> length data then (Some EPROTO, b)
          else if ca_backend_manual_blocked (manual_active b) (manual_command b) (opcode p) (payload p) then (None, b)
          else
            let b1 = b\<lparr>angle_target := ca_angle_target_invalidate_siyi (angle_target b) (opcode p) (payload p)\<rparr>
            in if \<not> zr10 then siyi_switch zr10 fl env p data b1
               else (case zr10_native p of
                       Inl e \<Rightarrow> (Some e, b1)
                     | Inr (Some (sub, flags)) \<Rightarrow> send_link env flags sub (payload p) b1
                     | Inr None \<Rightarrow>
                         if opcode p = 0x04 \<or> opcode p = 0x16 \<or> opcode p = 0x18 then
                           (if reply_to_mcu b1 then (Some ENOTSUP, b1) else send_tunnel env data b1)
                         else siyi_switch zr10 fl env p data b1)
      | _ \<Rightarrow> (Some EPROTO, b))"

subsection \<open>Frames from the gimbal\<close>

definition handle_tunnel_reply :: "bool \<Rightarrow> rounding \<Rightarrow> gb_env \<Rightarrow> bytes \<Rightarrow> siyi_backend \<Rightarrow> siyi_backend" where
  "handle_tunnel_reply zr10 fl env data b =
     (case ca_siyi_parse_one data of
        Parsed p n \<Rightarrow>
          if n \<noteq> length data then b
          else if zr10 \<and> control p AND 2 = 0 then b
          else
            let zoom = packet_zoom fl (payload p);
                b1 = (if zr10 \<and> opcode p = 0x18 \<and> payload_length p = 2 \<and> 1 \<le> zoom \<and> zoom \<le> 30
                      then snd (perform env (Zoom_set zoom) b) else b);
                b2 = (if opcode p = 0x0d \<and> 12 \<le> payload_length p then update_attitude zr10 fl env (payload p) 6 True b1
                      else if opcode p = 0x19 \<and> payload_length p = 1 \<and> payload p ! 0 \<le> 2
                      then b1\<lparr>gimbal_mode := payload p ! 0\<rparr>
                      else b1)
            in record_event (Emitted data) b2
      | _ \<Rightarrow> b)"

definition handle_frame :: "bool \<Rightarrow> rounding \<Rightarrow> gb_env \<Rightarrow> bytes \<Rightarrow> siyi_backend \<Rightarrow> siyi_backend" where
  "handle_frame zr10 fl env frame b =
     (let n = unat (frame ! 3); data = take n (drop A8_LINK_HEADER frame); sub = frame ! 10
      in if frame ! 7 \<noteq> A8_LINK_GIMBAL \<or> frame ! 9 \<noteq> A8_LINK_CMD then b
         else if zr10 \<and> (frame ! 8 \<noteq> A8_LINK_CAMERA \<or> frame ! 1 AND 0x1c \<noteq> 8) then b
         else if zr10 \<and> sub = 0x35 then
           (snd (ca_backend_handle_siyi zr10 fl env data (b\<lparr>reply_to_mcu := True\<rparr>)))\<lparr>reply_to_mcu := False\<rparr>
         else if sub = A8_SUB_ATTITUDE then (if 6 \<le> n then update_attitude zr10 fl env data 3 False b else b)
         else if sub = A8_SUB_TUNNEL then handle_tunnel_reply zr10 fl env data b
         else if sub = A8_SUB_MOUNTING then
           (if n = 1 \<and> \<not> direction_inferred b then snd (apply_mounting_direction env (data ! 0) b) else b)
         else if sub = A8_SUB_MOTION_MODE then (if n = 1 \<and> data ! 0 \<le> 2 then b\<lparr>gimbal_mode := data ! 0\<rparr> else b)
         else b)"

definition parse_rx :: "bool \<Rightarrow> rounding \<Rightarrow> gb_env \<Rightarrow> siyi_backend \<Rightarrow> siyi_backend" where
  "parse_rx zr10 fl env b =
     (let (frames, rest) = parse_frames (rx b) in (fold (handle_frame zr10 fl env) frames b)\<lparr>rx := rest\<rparr>)"

text \<open>The receive buffer holds two frames of the greatest length. The read returns at most what fits.\<close>

definition RX_SIZE :: nat where "RX_SIZE = A8_LINK_MAX_FRAME * 2"

definition rx_ready :: "siyi_backend \<Rightarrow> siyi_backend" where
  "rx_ready b = (if RX_SIZE \<le> length (rx b) then b\<lparr>rx := []\<rparr> else b)"

definition ca_backend_handle_fd ::
  "bool \<Rightarrow> rounding \<Rightarrow> gb_env \<Rightarrow> errno + bytes \<Rightarrow> siyi_backend \<Rightarrow> errno option \<times> siyi_backend" where
  "ca_backend_handle_fd zr10 fl env received b =
     (let b0 = rx_ready b
      in case received of
           Inr data \<Rightarrow> if data = [] then (None, b0) else (None, parse_rx zr10 fl env (b0\<lparr>rx := rx b0 @ data\<rparr>))
         | Inl e \<Rightarrow> (if e = EAGAIN then None else Some e, b0))"

subsection \<open>Commands of the application\<close>

definition send_public_command ::
  "bool \<Rightarrow> rounding \<Rightarrow> gb_env \<Rightarrow> u8 \<Rightarrow> bytes \<Rightarrow> siyi_backend \<Rightarrow> errno option \<times> siyi_backend" where
  "send_public_command zr10 fl env op data b =
     (let packet = public_packet 1 (public_sequence b) op data; b1 = b\<lparr>public_sequence := public_sequence b + 1\<rparr>
      in if packet = [] then (Some EMSGSIZE, b1)
         else
           let b2 = b1\<lparr>angle_target := ca_angle_target_invalidate_siyi (angle_target b1) op data\<rparr>
           in if zr10 then ca_backend_handle_siyi zr10 fl env packet b2 else send_tunnel env packet b2)"

fun send_links :: "gb_env \<Rightarrow> (u8 \<times> u8 \<times> bytes) list \<Rightarrow> siyi_backend \<Rightarrow> errno option \<times> siyi_backend" where
  "send_links env [] b = (None, b)"
| "send_links env ((flags, sub, data) # fs) b =
     (case send_link env flags sub data b of
        (None, b1) \<Rightarrow> send_links env fs b1
      | (Some e, b1) \<Rightarrow> (Some e, b1))"

definition send_startup :: "bool \<Rightarrow> rounding \<Rightarrow> gb_env \<Rightarrow> siyi_backend \<Rightarrow> errno option \<times> siyi_backend" where
  "send_startup zr10 fl env b =
     (if zr10 then send_public_command zr10 fl env 0x01 [] b
      else send_links env
        [(A8_LINK_FLAG_REQUEST, A8_SUB_UNKNOWN_14, []), (A8_LINK_FLAG_REQUEST, A8_SUB_MOTION_MODE, []),
         (A8_LINK_FLAG_REQUEST, A8_SUB_MOUNTING, []), (A8_LINK_FLAG_PLAIN, 0x0d, [0x0a])] b)"

definition siyi_initial :: "bool \<Rightarrow> bool \<Rightarrow> int \<Rightarrow> siyi_backend" where
  "siyi_initial active cmd orientation =
     \<lparr>consults = 0, events = [], manual_active = active, manual_command = cmd, link_sequence = 1, public_sequence = 1,
      gimbal_mode = 0, gb_orientation = orientation,
      mounting_direction = (if orientation = CA_MOUNT_INVERTED then 2 else 1), feedback_last = 6,
      attitude = \<lparr>ga_roll = 0, ga_pitch = 0, ga_yaw = 0, ga_roll_rate = 0, ga_pitch_rate = 0, ga_yaw_rate = 0,
        ga_timestamp_ms = 0\<rparr>,
      have_attitude = False, angle_target = \<lparr>at_valid = False, at_yaw = 0, at_pitch = 0, at_sent_ms = 0\<rparr>,
      uart_open = True, reply_to_mcu = False, zoom_query_ms = 0, rx = [],
      direction_known = (orientation \<noteq> CA_MOUNT_AUTO), direction_inferred = False, mounting_query_ms = 0\<rparr>"

definition siyi_open :: "bool \<Rightarrow> rounding \<Rightarrow> gb_env \<Rightarrow> bool \<Rightarrow> bool \<Rightarrow> int \<Rightarrow> errno + siyi_backend" where
  "siyi_open zr10 fl env active cmd orientation =
     (case send_startup zr10 fl env (siyi_initial active cmd orientation) of
        (None, b) \<Rightarrow> let (now, b1) = monotonic_ms env b in Inr (b1\<lparr>mounting_query_ms := now\<rparr>)
      | (Some e, b) \<Rightarrow> Inl e)"

text \<open>The focus motor's report and the zoom query of the ZR10, then the query of the mounting.\<close>

definition zr10_periodic :: "rounding \<Rightarrow> gb_env \<Rightarrow> siyi_backend \<Rightarrow> siyi_backend" where
  "zr10_periodic fl env b =
     (let (a, b1) = consult env b;
          b2 = (case an_focus a of Some report \<Rightarrow> snd (send_link env A8_LINK_FLAG_PLAIN 0x02 report b1) | None \<Rightarrow> b1);
          (now, b3) = monotonic_ms env b2
      in if 1000 \<le> now - zoom_query_ms b3 then
           let (t, b4) = monotonic_ms env b3
           in snd (send_public_command True fl env 0x18 [] (b4\<lparr>zoom_query_ms := t\<rparr>))
         else b3)"

definition ca_backend_periodic :: "bool \<Rightarrow> rounding \<Rightarrow> gb_env \<Rightarrow> siyi_backend \<Rightarrow> siyi_backend" where
  "ca_backend_periodic zr10 fl env b0 =
     (let b = (if zr10 then zr10_periodic fl env b0 else b0)
      in if gb_orientation b \<noteq> CA_MOUNT_AUTO \<or> direction_known b then b
         else
           let (now, b1) = monotonic_ms env b
           in if now - mounting_query_ms b1 < A8_MOUNT_QUERY_INTERVAL_MS then b1
              else snd (send_link env A8_LINK_FLAG_REQUEST A8_SUB_MOUNTING [] (b1\<lparr>mounting_query_ms := now\<rparr>)))"

definition ca_backend_request_gimbal_attitude ::
  "bool \<Rightarrow> rounding \<Rightarrow> gb_env \<Rightarrow> siyi_backend \<Rightarrow> errno option \<times> siyi_backend" where
  "ca_backend_request_gimbal_attitude zr10 fl env b = send_public_command zr10 fl env 0x0d [] b"

definition ca_backend_gimbal_attitude :: "siyi_backend \<Rightarrow> gimbal_attitude option" where
  "ca_backend_gimbal_attitude b = (if have_attitude b then Some (attitude b) else None)"

definition ca_backend_set_gimbal_angles ::
  "bool \<Rightarrow> rounding \<Rightarrow> gb_env \<Rightarrow> c_float \<Rightarrow> c_float \<Rightarrow> siyi_backend \<Rightarrow> errno option \<times> siyi_backend" where
  "ca_backend_set_gimbal_angles zr10 fl env pitch_rad yaw_rad b =
     (let t = siyi_target zr10;
          (target_yaw, target_pitch, yaw, pitch) = gimbal_angles fl t (mounting_direction b = 2) pitch_rad yaw_rad;
          (now, b1) = monotonic_ms env b
      in if ca_angle_target_suppress fl t (angle_target b1) yaw pitch target_yaw target_pitch
              (ca_backend_gimbal_attitude b1) now
         then (None, b1)
         else
           (case send_public_command zr10 fl env 0x0e (angle_payload yaw pitch) b1 of
              (None, b2) \<Rightarrow> (None, b2\<lparr>angle_target := ca_angle_target_sent (angle_target b2) yaw pitch now\<rparr>)
            | (Some e, b2) \<Rightarrow> (Some e, b2)))"

text \<open>The outer None is the undefined conversion of a rate that is not a number.\<close>

definition ca_backend_set_gimbal_rates ::
  "bool \<Rightarrow> rounding \<Rightarrow> gb_env \<Rightarrow> c_float \<Rightarrow> c_float \<Rightarrow> siyi_backend \<Rightarrow> (errno option \<times> siyi_backend) option" where
  "ca_backend_set_gimbal_rates zr10 fl env pitch_rate yaw_rate b =
     map_option (\<lambda>rates. send_public_command zr10 fl env 0x07 (rate_payload rates) b)
       (gimbal_rates fl (siyi_target zr10) (mounting_direction b = 2) pitch_rate yaw_rate)"

definition ca_backend_set_gimbal_neutral ::
  "bool \<Rightarrow> rounding \<Rightarrow> gb_env \<Rightarrow> siyi_backend \<Rightarrow> errno option \<times> siyi_backend" where
  "ca_backend_set_gimbal_neutral zr10 fl env b = send_public_command zr10 fl env 0x08 [1] b"

definition ca_backend_recording :: "gb_env \<Rightarrow> siyi_backend \<Rightarrow> bool \<times> siyi_backend" where
  "ca_backend_recording env b = (let (a, b1) = consult env b in (an_flag a, b1))"

definition ca_backend_set_zoom ::
  "bool \<Rightarrow> rounding \<Rightarrow> gb_env \<Rightarrow> c_float \<Rightarrow> siyi_backend \<Rightarrow> errno option \<times> siyi_backend" where
  "ca_backend_set_zoom zr10 fl env ratio b =
     (case ratio of
        FFin r \<Rightarrow>
          if r < 1 \<or> g_zoom_control_max (siyi_target zr10) < r then (Some EINVAL, b)
          else if zr10 then
            let tenths = zoom_tenths fl r
            in send_public_command zr10 fl env 0x0f [to8 (tenths div 10), to8 (tenths mod 10)] b
          else perform env (Zoom_set r) b
      | _ \<Rightarrow> (Some EINVAL, b))"

definition ca_backend_set_zoom_rate ::
  "bool \<Rightarrow> rounding \<Rightarrow> gb_env \<Rightarrow> c_float \<Rightarrow> siyi_backend \<Rightarrow> errno option \<times> siyi_backend" where
  "ca_backend_set_zoom_rate zr10 fl env rate b =
     (if \<not> zr10 then (Some ENOTSUP, b)
      else case rate of
        FFin r \<Rightarrow>
          if r < -1 \<or> 1 < r then (Some EINVAL, b)
          else send_public_command zr10 fl env 0x05 [if 0 < r then 1 else if r < 0 then -1 else 0] b
      | _ \<Rightarrow> (Some EINVAL, b))"

subsection \<open>What a packet causes\<close>

text \<open>A stretch that hands nothing over and leaves the backend's own fields alone.\<close>

definition still :: "siyi_backend \<Rightarrow> siyi_backend \<Rightarrow> bool" where
  "still b b' \<longleftrightarrow> quiet b b' \<and> gimbal_backend.more b' = gimbal_backend.more b"

lemma still_refl [simp]: "still b b"
  by (simp add: still_def)

lemma still_consult: "consult env b1 = (a, b2) \<Longrightarrow> still b b1 \<Longrightarrow> still b b2"
  using quiet_consult [of env b1 a b2 b] by (auto simp: still_def consult_def)

lemma still_perform: "perform env c b1 = (r, b2) \<Longrightarrow> \<not> link_call c \<Longrightarrow> still b b1 \<Longrightarrow> still b b2"
  using quiet_perform [of env c b1 r b2 b] by (auto simp: still_def perform_def consult_def record_event_def)

lemma still_toggle: "toggle_recording env b1 = (v, b2) \<Longrightarrow> still b b1 \<Longrightarrow> still b b2"
  by (auto simp: toggle_recording_def Let_def split: prod.splits intro: still_perform still_consult)

lemma still_photo: "capture_photo env b1 = (ok, b2) \<Longrightarrow> still b b1 \<Longrightarrow> still b b2"
  by (auto simp: capture_photo_def Let_def split: prod.splits intro: still_perform)

lemma still_zoom: "zoom_payload fl env b1 = (data, b2) \<Longrightarrow> still b b1 \<Longrightarrow> still b b2 \<and> length data = 2"
  by (auto simp: zoom_payload_def Let_def split: prod.splits intro: still_consult)

lemma still_feedback: "still b b1 \<Longrightarrow> still b (b1\<lparr>feedback_last := v\<rparr>)"
  by (simp add: still_def quiet_field)

lemma still_more:
  assumes "still b b1"
  shows "uart_open b1 = uart_open b" "reply_to_mcu b1 = reply_to_mcu b"
  using assms by (cases b; cases b1; simp add: still_def)+

text \<open>A reply under an opcode: to the clients, or through the tunnel.\<close>

definition replied :: "bool \<Rightarrow> siyi_backend \<Rightarrow> u8 \<Rightarrow> gb_event list \<Rightarrow> bool" where
  "replied mcu b op es \<longleftrightarrow>
     (\<exists>d. length d \<le> 12 \<and>
       (if mcu then
          emitted es = [] \<and>
          (\<exists>r. written es = [(link_wire 0x2c 0x2e 0x08 (link_sequence b) 0x16 (siyi_frame 2 (public_sequence b) op d), r)])
        else emitted es = [siyi_frame 2 (public_sequence b) op d] \<and> written es = []))"

definition reply_code :: "siyi_packet \<Rightarrow> u8" where
  "reply_code p = (if opcode p = 0x0c then 0x0b else opcode p)"

definition silent :: "siyi_packet \<Rightarrow> bool" where
  "silent p \<longleftrightarrow> opcode p = 0x14 \<or> opcode p = 0x38"

definition fine_events :: "bool \<Rightarrow> siyi_packet \<Rightarrow> siyi_backend \<Rightarrow> errno option \<Rightarrow> gb_event list \<Rightarrow> bool" where
  "fine_events zr10 p b r es \<longleftrightarrow>
     emitted es = [] \<and> written es = [] \<and> (r = None \<longrightarrow> silent p) \<or>
     r = None \<and> replied (zr10 \<and> reply_to_mcu b) b (reply_code p) es"

definition fine :: "bool \<Rightarrow> siyi_packet \<Rightarrow> siyi_backend \<Rightarrow> siyi_answer \<Rightarrow> bool" where
  "fine zr10 p b x \<longleftrightarrow>
     (\<forall>r b'. x = Some (r, b') \<longrightarrow> (\<exists>es. events b' = events b @ es \<and> fine_events zr10 p b r es))"

lemma send_link_wire:
  assumes "length data \<le> 255" "uart_open b"
  shows "send_link env flags sub data b =
    perform env (Link_write (link_wire 0x2c 0x2e flags (link_sequence b) sub data)) (b\<lparr>link_sequence := link_sequence b + 1\<rparr>)"
  using assms by (simp add: send_link_def build_link_wire) (simp add: link_consts)

lemma send_link_events:
  assumes "length data \<le> 255" "uart_open b" "send_link env flags sub data b = (r, b')"
  shows "events b' = events b @ [Called (Link_write (link_wire 0x2c 0x2e flags (link_sequence b) sub data)) r]"
  using assms by (auto simp: send_link_wire perform_def consult_def record_event_def Let_def)

lemma send_link_long: "255 < length data \<Longrightarrow> send_link env flags sub data b = (Some EMSGSIZE, b)"
  by (simp add: send_link_def link_consts)

lemma emit_replied:
  assumes "still b b1" "length data \<le> 12" "uart_open b"
  shows "\<exists>es. events (emit_local zr10 env op data b1) = events b @ es \<and> replied (zr10 \<and> reply_to_mcu b) b op es"
proof -
  obtain es where es: "events b1 = events b @ es" "emitted es = []" "written es = []"
    using assms(1) by (auto simp: still_def quiet_def)
  have q: "public_sequence b1 = public_sequence b" "link_sequence b1 = link_sequence b"
    using assms(1) by (simp_all add: still_def quiet_def same_link_def)
  note m = still_more [OF assms(1)]
  let ?q = "siyi_frame 2 (public_sequence b) op data" and ?b = "b1\<lparr>public_sequence := public_sequence b1 + 1\<rparr>"
  have p: "public_packet 2 (public_sequence b1) op data = ?q" using assms(2) by (simp add: public_packet_frame q)
  show ?thesis
  proof (cases "zr10 \<and> reply_to_mcu b")
    case True
    obtain r b' where s: "send_tunnel env ?q ?b = (r, b')" by (cases "send_tunnel env ?q ?b")
    have "events b' = events ?b @ [Called (Link_write (link_wire 0x2c 0x2e A8_LINK_FLAG_PLAIN (link_sequence ?b) A8_SUB_TUNNEL ?q)) r]"
      using assms(2,3) m s unfolding send_tunnel_def by (intro send_link_events) simp_all
    then have "events b' = events b @ (es @ [Called (Link_write (link_wire 0x2c 0x2e 0x08 (link_sequence b) 0x16 ?q)) r])"
      by (simp add: es q A8_LINK_FLAG_PLAIN_def A8_SUB_TUNNEL_def)
    moreover have "emit_local zr10 env op data b1 = b'" using True m by (simp add: emit_local_def p s)
    ultimately show ?thesis using True assms(2) es by (intro exI [of _ "es @ [Called (Link_write (link_wire 0x2c 0x2e 0x08 (link_sequence b) 0x16 ?q)) r]"])
        (auto simp: replied_def)
  next
    case False
    have "events (emit_local zr10 env op data b1) = events b @ (es @ [Emitted ?q])"
      using False m by (auto simp: emit_local_def p record_event_def es)
    then show ?thesis using False assms(2) es by (intro exI [of _ "es @ [Emitted ?q]"]) (auto simp: replied_def)
  qed
qed

named_theorems fine_rules "the rules for the parts of the switch"

lemma fine_None [fine_rules]: "fine zr10 p b None"
  by (simp add: fine_def)

lemma fine_if [fine_rules]: "(c \<Longrightarrow> fine zr10 p b x) \<Longrightarrow> (\<not> c \<Longrightarrow> fine zr10 p b y) \<Longrightarrow> fine zr10 p b (if c then x else y)"
  by simp

lemma fine_case_option [fine_rules]:
  "(r = None \<Longrightarrow> fine zr10 p b x) \<Longrightarrow> (\<And>e. r = Some e \<Longrightarrow> fine zr10 p b (f e)) \<Longrightarrow>
   fine zr10 p b (case r of None \<Rightarrow> x | Some e \<Rightarrow> f e)"
  by (cases r) simp_all

lemma fine_case_sum [fine_rules]:
  "(\<And>e. fine zr10 p b (f e)) \<Longrightarrow> (\<And>v. fine zr10 p b (g v)) \<Longrightarrow> fine zr10 p b (case r of Inl e \<Rightarrow> f e | Inr v \<Rightarrow> g v)"
  by (cases r) simp_all

lemma fine_reply [fine_rules]:
  "opcode p \<noteq> 0x0c \<Longrightarrow> uart_open b \<Longrightarrow> still b b1 \<Longrightarrow> length data \<le> 12 \<Longrightarrow> fine zr10 p b (reply zr10 env p data b1)"
  using emit_replied [of b b1 data zr10 env "opcode p"]
  by (auto simp: fine_def fine_events_def reply_def reply_code_def)

lemma fine_feedback [fine_rules]:
  "opcode p = 0x0c \<or> opcode p = 0x0b \<Longrightarrow> uart_open b \<Longrightarrow> still b b1 \<Longrightarrow>
   fine zr10 p b (Some (None, emit_feedback zr10 env v b1))"
  using emit_replied [of b "b1\<lparr>feedback_last := v\<rparr>" "[v]" zr10 env "0x0b"] still_feedback
  by (auto simp: fine_def fine_events_def emit_feedback_def reply_code_def)

lemma fine_quiet [fine_rules]: "still b b1 \<Longrightarrow> r \<noteq> None \<or> silent p \<Longrightarrow> fine zr10 p b (Some (r, b1))"
  by (auto simp: fine_def fine_events_def still_def quiet_def)

lemma fine_gain [fine_rules]:
  "opcode p = 0x38 \<Longrightarrow> still b b1 \<Longrightarrow> fine zr10 p b (Some (perform env (Thermal_gain_set g) b1))"
  using still_perform [of env "Thermal_gain_set g" b1] fine_quiet
  by (cases "perform env (Thermal_gain_set g) b1") (simp add: silent_def)

lemma fine_perform [fine_rules]:
  "still b b1 \<Longrightarrow> \<not> link_call c \<Longrightarrow> (\<And>r b2. still b b2 \<Longrightarrow> fine zr10 p b (f r b2)) \<Longrightarrow>
   fine zr10 p b (case perform env c b1 of (r, b2) \<Rightarrow> f r b2)"
  by (cases "perform env c b1") (simp add: still_perform)

lemma fine_consult [fine_rules]:
  "still b b1 \<Longrightarrow> (\<And>a b2. still b b2 \<Longrightarrow> fine zr10 p b (f a b2)) \<Longrightarrow> fine zr10 p b (case consult env b1 of (a, b2) \<Rightarrow> f a b2)"
  by (cases "consult env b1") (simp add: still_consult)

lemma fine_toggle [fine_rules]:
  "still b b1 \<Longrightarrow> (\<And>a b2. still b b2 \<Longrightarrow> fine zr10 p b (f a b2)) \<Longrightarrow>
   fine zr10 p b (case toggle_recording env b1 of (a, b2) \<Rightarrow> f a b2)"
  by (cases "toggle_recording env b1") (simp add: still_toggle)

lemma fine_photo [fine_rules]:
  "still b b1 \<Longrightarrow> (\<And>a b2. still b b2 \<Longrightarrow> fine zr10 p b (f a b2)) \<Longrightarrow>
   fine zr10 p b (case capture_photo env b1 of (a, b2) \<Rightarrow> f a b2)"
  by (cases "capture_photo env b1") (simp add: still_photo)

lemma fine_zoom [fine_rules]:
  "still b b1 \<Longrightarrow> (\<And>a b2. still b b2 \<Longrightarrow> length a = 2 \<Longrightarrow> fine zr10 p b (f a b2)) \<Longrightarrow>
   fine zr10 p b (case zoom_payload fl env b1 of (a, b2) \<Rightarrow> f a b2)"
  by (cases "zoom_payload fl env b1") (simp add: still_zoom)

lemma parts_fine:
  assumes "uart_open b"
  shows "fine zr10 p b (siyi_function zr10 env p b)" "fine zr10 p b (siyi_camera zr10 fl env p b)"
    "fine zr10 p b (siyi_sensor zr10 env p b)"
  unfolding siyi_function_def siyi_camera_def siyi_sensor_def Let_def
  by (intro fine_rules; (simp add: assms silent_def; fail) | auto)+

text \<open>What the gimbal gets for a packet: flags, subcommand and payload; None: the camera deals with it.\<close>

definition switch_local :: "siyi_packet \<Rightarrow> bool" where
  "switch_local p \<longleftrightarrow>
     opcode p = 0x0c \<and> payload_length p = 1 \<and> (payload p ! 0 = 0 \<or> payload p ! 0 = 1 \<or> payload p ! 0 = 2) \<or>
     (opcode p = 0x0b \<or> opcode p = 0x0a \<or> opcode p = 0x10 \<or> opcode p = 0x16 \<or> opcode p = 0x18 \<or> opcode p = 0x37 \<or>
      opcode p = 0x1a) \<and> payload_length p = 0 \<or>
     opcode p = 0x04 \<and> (payload_length p = 1 \<or> payload_length p = 5) \<or>
     opcode p = 0x11 \<and> (payload_length p = 1 \<or> payload_length p = 2) \<or>
     (opcode p = 0x06 \<or> opcode p = 0x05 \<or> opcode p = 0x1b) \<and> payload_length p = 1 \<or>
     opcode p = 0x0f \<and> payload_length p = 2 \<or>
     opcode p = 0x38 \<and> payload_length p = 1 \<and> payload p ! 0 \<le> 1 \<or>
     opcode p = 0x30 \<or> opcode p = 0x14"

lemma part_None:
  "siyi_function zr10 env p b = None \<longleftrightarrow>
     \<not> (opcode p = 0x0c \<and> payload_length p = 1 \<and> (payload p ! 0 = 0 \<or> payload p ! 0 = 1 \<or> payload p ! 0 = 2) \<or>
        (opcode p = 0x0b \<or> opcode p = 0x0a \<or> opcode p = 0x10) \<and> payload_length p = 0 \<or>
        opcode p = 0x04 \<and> (payload_length p = 1 \<or> payload_length p = 5) \<or> opcode p = 0x06 \<and> payload_length p = 1 \<or>
        opcode p = 0x11 \<and> (payload_length p = 1 \<or> payload_length p = 2))"
  "siyi_camera zr10 fl env p b = None \<longleftrightarrow>
     \<not> ((opcode p = 0x16 \<or> opcode p = 0x18) \<and> payload_length p = 0 \<or> opcode p = 0x0f \<and> payload_length p = 2 \<or>
        opcode p = 0x05 \<and> payload_length p = 1)"
  "siyi_sensor zr10 env p b = None \<longleftrightarrow>
     \<not> ((opcode p = 0x37 \<or> opcode p = 0x1a) \<and> payload_length p = 0 \<or>
        opcode p = 0x38 \<and> payload_length p = 1 \<and> \<not> 1 < payload p ! 0 \<or> opcode p = 0x1b \<and> payload_length p = 1 \<or>
        opcode p = 0x30 \<or> opcode p = 0x14)"
  unfolding siyi_function_def siyi_camera_def siyi_sensor_def reply_def Let_def
  by (auto split: prod.splits option.splits sum.splits)

lemma switch_local_None:
  "switch_local p \<longleftrightarrow> \<not> (siyi_function zr10 env p b = None \<and> siyi_camera zr10 fl env p b = None \<and> siyi_sensor zr10 env p b = None)"
  unfolding switch_local_def part_None not_less by argo

text \<open>What is to become of a packet: a frame to the gimbal with these flags, this subcommand and these data,
  a refusal without any effect, or an answer by the camera.\<close>

datatype siyi_outcome = To_gimbal u8 u8 bytes | Refused errno | Answered

definition switch_command :: "bool \<Rightarrow> siyi_packet \<Rightarrow> bytes \<Rightarrow> siyi_outcome" where
  "switch_command mcu p data =
     (if opcode p = 0x0c \<and> (payload p = [3] \<or> payload p = [4] \<or> payload p = [5]) then To_gimbal 0x08 0x15 [payload p ! 0 - 3]
      else if switch_local p then Answered
      else if mcu then Refused ENOTSUP else To_gimbal 0x08 0x16 data)"

text \<open>The packets with a native form on the ZR10: the payloads it takes, the subcommand and the flags. Zoom
  and focus steps, two speeds of -100 to 100 in two's complement, the three ways to centre, and a zoom of
  1.0 to 10.0.\<close>

definition zr10_forms :: "(u8 \<times> (bytes \<Rightarrow> bool) \<times> u8 \<times> u8) list" where
  "zr10_forms =
     [(0x05, (\<lambda>d. d = [255] \<or> d = [0] \<or> d = [1]), 0x04, 0x09),
      (0x06, (\<lambda>d. d = [255] \<or> d = [0] \<or> d = [1]), 0x05, 0x09),
      (0x07, (\<lambda>d. length d = 2 \<and> list_all (\<lambda>v. v \<le> 100 \<or> 156 \<le> v) d), 0x06, 0x09),
      (0x08, (\<lambda>d. d = [1] \<or> d = [2] \<or> d = [3]), 0x07, 0x09),
      (0x0f, (\<lambda>d. length d = 2 \<and> 1 \<le> d ! 0 \<and> d ! 0 \<le> 9 \<and> d ! 1 \<le> 9 \<or> d = [10, 0]), 0x37, 0x08)]"

definition siyi_command :: "bool \<Rightarrow> bool \<Rightarrow> siyi_packet \<Rightarrow> bytes \<Rightarrow> siyi_outcome" where
  "siyi_command zr10 mcu p data =
     (if zr10 then
        (case map_of zr10_forms (opcode p) of
           Some (takes, sub, flags) \<Rightarrow> if takes (payload p) then To_gimbal flags sub (payload p) else Refused EINVAL
         | None \<Rightarrow>
             if opcode p = 0x04 \<or> opcode p = 0x16 \<or> opcode p = 0x18
             then (if mcu then Refused ENOTSUP else To_gimbal 0x08 0x16 data)
             else switch_command mcu p data)
      else switch_command False p data)"

definition outcome_ok :: "bool \<Rightarrow> siyi_packet \<Rightarrow> siyi_backend \<Rightarrow> siyi_outcome \<Rightarrow> errno option \<times> siyi_backend \<Rightarrow> bool" where
  "outcome_ok zr10 p b command out \<longleftrightarrow>
     (\<exists>es. events (snd out) = events b @ es \<and>
       (case command of
          Answered \<Rightarrow> fine_events zr10 p b (fst out) es
        | Refused e \<Rightarrow> es = [] \<and> fst out = Some e
        | To_gimbal flags sub d \<Rightarrow>
            emitted es = [] \<and>
            (if length d \<le> 255 then written es = [(link_wire 0x2c 0x2e flags (link_sequence b) sub d, fst out)]
             else written es = [] \<and> fst out = Some EMSGSIZE)))"

lemma int8_signed: "int8 v = (if uint v < 128 then uint v else uint v - 256)"
proof -
  have "uint v = int8 v mod 256" by (simp add: int8_def uint_sint take_bit_eq_mod)
  moreover have "- 128 \<le> int8 v" "int8 v < 128"
    using sint_greater_eq [of v] sint_less [of v] by (simp_all add: int8_def)
  ultimately show ?thesis by presburger
qed

lemma int8_ranges:
  "\<not> int8 v < -1 \<and> \<not> 1 < int8 v \<longleftrightarrow> v = 255 \<or> v = 0 \<or> v = 1"
  "\<not> int8 v < -100 \<and> \<not> 100 < int8 v \<longleftrightarrow> v \<le> 100 \<or> 156 \<le> v"
proof -
  have b: "0 \<le> uint v" "uint v < 256" using uint_bounded [of v] by simp_all
  have e: "v = 255 \<longleftrightarrow> uint v = 255" "v = 0 \<longleftrightarrow> uint v = 0" "v = 1 \<longleftrightarrow> uint v = 1"
    "v \<le> 100 \<longleftrightarrow> uint v \<le> 100" "156 \<le> v \<longleftrightarrow> 156 \<le> uint v"
    by (simp_all add: word_uint_eq_iff word_le_def)
  show "\<not> int8 v < -1 \<and> \<not> 1 < int8 v \<longleftrightarrow> v = 255 \<or> v = 0 \<or> v = 1"
    "\<not> int8 v < -100 \<and> \<not> 100 < int8 v \<longleftrightarrow> v \<le> 100 \<or> 156 \<le> v"
    unfolding int8_signed e using b by presburger+
qed

lemma small_bytes:
  "\<not> v < 1 \<and> \<not> 3 < v \<longleftrightarrow> v = 1 \<or> v = 2 \<or> v = 3" "3 \<le> v \<and> v \<le> 5 \<longleftrightarrow> v = 3 \<or> v = 4 \<or> v = 5"
  "\<not> v < 1 \<and> \<not> 10 < v \<longleftrightarrow> v = 10 \<or> 1 \<le> v \<and> v \<le> 9" for v :: u8
  by (auto simp: word_less_nat_alt word_le_nat_alt word_unat_eq_iff)

text \<open>The length field of a parsed packet is the length of its payload.\<close>

definition well_sized :: "siyi_packet \<Rightarrow> bool" where
  "well_sized p \<longleftrightarrow> length (payload p) = unat (payload_length p)"

lemma parsed_sized: "ca_siyi_parse_one data = Parsed p n \<Longrightarrow> well_sized p"
proof -
  assume h: "ca_siyi_parse_one data = Parsed p n"
  have "length (payload p) < 65536" using siyi_parse_sound(2,3) [OF h] by simp
  moreover have "payload_length p = of_nat (length (payload p))"
    using siyi_parse_sound(5) [OF h] by (metis siyi_packet.select_convs(2) siyi_packet_of_def)
  ultimately show ?thesis by (simp add: well_sized_def unat_of_nat)
qed

lemma sized:
  assumes "well_sized p"
  shows "payload_length p = 1 \<longleftrightarrow> length (payload p) = 1" "payload_length p = 2 \<longleftrightarrow> length (payload p) = 2"
proof -
  have u: "unat (1 :: u16) = 1" "unat (2 :: u16) = 2" by simp_all
  show "payload_length p = 1 \<longleftrightarrow> length (payload p) = 1" "payload_length p = 2 \<longleftrightarrow> length (payload p) = 2"
    using assms word_unat_eq_iff [of "payload_length p" 1] word_unat_eq_iff [of "payload_length p" 2]
    by (simp_all only: well_sized_def u)
qed

lemma one_byte: "length d = 1 \<longleftrightarrow> d = [d ! 0]" for d :: bytes
  by (cases d) auto

lemma two_bytes: "length d = 2 \<longleftrightarrow> d = [d ! 0, d ! 1]" for d :: bytes
  by (cases d; cases "tl d") auto

lemma mode_bytes:
  assumes "well_sized p"
  shows "mode_function p \<longleftrightarrow> opcode p = 0x0c \<and> (payload p = [3] \<or> payload p = [4] \<or> payload p = [5])"
proof (cases "\<exists>v. payload p = [v]")
  case True
  then obtain v where "payload p = [v]" by blast
  then show ?thesis using small_bytes(2) [of v] by (simp add: mode_function_def sized [OF assms])
next
  case False
  then have "length (payload p) \<noteq> 1" using one_byte [of "payload p"] by metis
  with False show ?thesis by (auto simp: mode_function_def sized [OF assms])
qed

lemma native_forms:
  assumes "well_sized p"
  shows "zr10_native p =
    (case map_of zr10_forms (opcode p) of
       Some (takes, sub, flags) \<Rightarrow> if takes (payload p) then Inr (Some (sub, flags)) else Inl EINVAL
     | None \<Rightarrow> Inr None)"
proof -
  define d where "d = payload p"
  note l = sized [OF assms, folded d_def]
  have steps: "payload_length p \<noteq> 1 \<or> int8 (d ! 0) < -1 \<or> 1 < int8 (d ! 0) \<longleftrightarrow> \<not> (d = [255] \<or> d = [0] \<or> d = [1])"
  proof (cases "length d = 1")
    case True
    then obtain v where "d = [v]" using one_byte [of d] by blast
    then show ?thesis using int8_ranges(1) [of v] l by (simp, argo)
  qed (use l in auto)
  have speeds: "payload_length p \<noteq> 2 \<or> int8 (d ! 0) < -100 \<or> 100 < int8 (d ! 0) \<or> int8 (d ! 1) < -100 \<or> 100 < int8 (d ! 1) \<longleftrightarrow>
      \<not> (length d = 2 \<and> list_all (\<lambda>v. v \<le> 100 \<or> 156 \<le> v) d)"
  proof (cases "length d = 2")
    case True
    then obtain v w where "d = [v, w]" using two_bytes [of d] by blast
    then show ?thesis using int8_ranges(2) [of v] int8_ranges(2) [of w] l by simp blast
  qed (use l in auto)
  have centre: "payload_length p \<noteq> 1 \<or> d ! 0 < 1 \<or> 3 < d ! 0 \<longleftrightarrow> \<not> (d = [1] \<or> d = [2] \<or> d = [3])"
  proof (cases "length d = 1")
    case True
    then obtain v where "d = [v]" using one_byte [of d] by blast
    then show ?thesis using small_bytes(1) [of v] l by (simp, argo)
  qed (use l in auto)
  have zoom: "payload_length p \<noteq> 2 \<or> d ! 0 < 1 \<or> 10 < d ! 0 \<or> 9 < d ! 1 \<or> (d ! 0 = 10 \<and> d ! 1 \<noteq> 0) \<longleftrightarrow>
      \<not> (length d = 2 \<and> 1 \<le> d ! 0 \<and> d ! 0 \<le> 9 \<and> d ! 1 \<le> 9 \<or> d = [10, 0])"
  proof (cases "length d = 2")
    case True
    then obtain v w where d: "d = [v, w]" using two_bytes [of d] by blast
    show ?thesis
    proof (cases "v = 10")
      case True
      then show ?thesis using d l by auto
    next
      case False
      then show ?thesis using d l small_bytes(3) [of v] not_le [of v 10] not_le [of w 9] by (simp del: not_le not_less) argo
    qed
  qed (use l in auto)
  show ?thesis
    unfolding zr10_native_def d_def [symmetric] steps speeds centre zoom zr10_forms_def A8_LINK_FLAG_PLAIN_def A8_LINK_FLAG_REQUEST_def
    by simp
qed

lemma link_outcome:
  assumes "uart_open b1" "events b1 = events b" "link_sequence b1 = link_sequence b"
  shows "outcome_ok zr10 p b (To_gimbal flags sub d) (send_link env flags sub d b1)"
proof (cases "length d \<le> 255")
  case True
  obtain r b' where s: "send_link env flags sub d b1 = (r, b')" by (cases "send_link env flags sub d b1")
  show ?thesis using send_link_events [OF True assms(1) s] True assms s by (simp add: outcome_ok_def)
next
  case False
  then show ?thesis using assms by (simp add: outcome_ok_def send_link_long)
qed

lemma fine_outcome: "fine zr10 p b (Some out) \<Longrightarrow> outcome_ok zr10 p b Answered out"
  by (cases out) (simp add: fine_def outcome_ok_def)

lemma error_outcome: "events b1 = events b \<Longrightarrow> outcome_ok zr10 p b (Refused e) (Some e, b1)"
  by (simp add: outcome_ok_def)

lemma switch_outcome:
  assumes "uart_open b" "well_sized p"
  shows "outcome_ok zr10 p b (switch_command (zr10 \<and> reply_to_mcu b) p data) (siyi_switch zr10 fl env p data b)"
proof (cases "mode_function p")
  case True
  then show ?thesis
    unfolding siyi_switch_def switch_command_def mode_bytes [OF assms(2), symmetric]
    using link_outcome [of "b\<lparr>gimbal_mode := payload p ! 0 - 3\<rparr>" b] assms
    by (simp add: A8_LINK_FLAG_PLAIN_def A8_SUB_MOTION_MODE_def)
next
  case mode: False
  have f: "fine zr10 p b (siyi_function zr10 env p b)" "fine zr10 p b (siyi_camera zr10 fl env p b)"
    "fine zr10 p b (siyi_sensor zr10 env p b)" by (rule parts_fine [OF assms(1)])+
  have sl: "switch_local p \<longleftrightarrow>
      \<not> (siyi_function zr10 env p b = None \<and> siyi_camera zr10 fl env p b = None \<and> siyi_sensor zr10 env p b = None)"
    by (rule switch_local_None)
  show ?thesis
  proof (cases "switch_local p")
    case True
    then have c: "switch_command (zr10 \<and> reply_to_mcu b) p data = Answered" using mode by (simp add: switch_command_def mode_bytes [OF assms(2)])
    show ?thesis
    proof (cases "siyi_function zr10 env p b")
      case (Some out)
      then have "siyi_switch zr10 fl env p data b = out" using mode by (simp add: siyi_switch_def)
      then show ?thesis using c f(1) Some fine_outcome by metis
    next
      case no_function: None
      show ?thesis
      proof (cases "siyi_camera zr10 fl env p b")
        case (Some out)
        then have "siyi_switch zr10 fl env p data b = out" using mode no_function by (simp add: siyi_switch_def)
        then show ?thesis using c f(2) Some fine_outcome by metis
      next
        case no_camera: None
        have "siyi_sensor zr10 env p b \<noteq> None" using sl True no_function no_camera by simp
        then obtain out where out: "siyi_sensor zr10 env p b = Some out" by (cases "siyi_sensor zr10 env p b") simp_all
        have "siyi_switch zr10 fl env p data b = out" using mode no_function no_camera out by (simp add: siyi_switch_def)
        then show ?thesis using c f(3) out fine_outcome by metis
      qed
    qed
  next
    case False
    then have none: "siyi_function zr10 env p b = None \<and> siyi_camera zr10 fl env p b = None \<and> siyi_sensor zr10 env p b = None"
      using sl by argo
    note n = none [THEN conjunct1] none [THEN conjunct2, THEN conjunct1] none [THEN conjunct2, THEN conjunct2]
    show ?thesis
      unfolding switch_command_def mode_bytes [OF assms(2), symmetric]
      using mode False link_outcome [of b b zr10 p "0x08" "0x16" data env] assms
      by (auto simp: siyi_switch_def n send_tunnel_def A8_LINK_FLAG_PLAIN_def A8_SUB_TUNNEL_def
          intro: error_outcome)
  qed
qed

lemma outcome_target:
  "outcome_ok zr10 p (b\<lparr>angle_target := t\<rparr>) c out = outcome_ok zr10 p b c out"
  by (cases c) (simp_all add: outcome_ok_def fine_events_def replied_def)

lemma handle_outcome:
  assumes "uart_open b" "ca_siyi_parse_one data = Parsed p (length data)"
    "\<not> ca_backend_manual_blocked (manual_active b) (manual_command b) (opcode p) (payload p)"
  shows "outcome_ok zr10 p b (siyi_command zr10 (reply_to_mcu b) p data) (ca_backend_handle_siyi zr10 fl env data b)"
proof -
  define b1 where "b1 = b\<lparr>angle_target := ca_angle_target_invalidate_siyi (angle_target b) (opcode p) (payload p)\<rparr>"
  have sz: "well_sized p" by (rule parsed_sized [OF assms(2)])
  have b1: "uart_open b1" "events b1 = events b" "link_sequence b1 = link_sequence b" "reply_to_mcu b1 = reply_to_mcu b"
    using assms(1) by (simp_all add: b1_def)
  have sw: "outcome_ok zr10 p b (switch_command (zr10 \<and> reply_to_mcu b) p data) (siyi_switch zr10 fl env p data b1)"
    using switch_outcome [OF b1(1) sz, of zr10 data fl env] b1(4) by (simp add: b1_def outcome_target)
  have ln: "outcome_ok zr10 p b (To_gimbal flags sub d) (send_link env flags sub d b1)" for flags sub d
    by (intro link_outcome b1)
  have h: "ca_backend_handle_siyi zr10 fl env data b =
      (if \<not> zr10 then siyi_switch zr10 fl env p data b1
       else (case zr10_native p of
               Inl e \<Rightarrow> (Some e, b1)
             | Inr (Some (sub, flags)) \<Rightarrow> send_link env flags sub (payload p) b1
             | Inr None \<Rightarrow>
                 if opcode p = 0x04 \<or> opcode p = 0x16 \<or> opcode p = 0x18 then
                   (if reply_to_mcu b1 then (Some ENOTSUP, b1) else send_tunnel env data b1)
                 else siyi_switch zr10 fl env p data b1))"
    by (simp only: ca_backend_handle_siyi_def assms(2,3) siyi_parse.case Let_def b1_def [symmetric] simp_thms if_False)
  note er = error_outcome [OF b1(2)]
  show ?thesis
  proof (cases zr10)
    case False
    with sw show ?thesis unfolding h siyi_command_def by simp
  next
    case True
    show ?thesis
    proof (cases "map_of zr10_forms (opcode p)")
      case None
      then have n: "zr10_native p = Inr None" by (simp add: native_forms [OF sz])
      show ?thesis
        unfolding h n siyi_command_def None using True sw ln [of "0x08" "0x16" data] er
        by (simp add: b1(4) send_tunnel_def A8_LINK_FLAG_PLAIN_def A8_SUB_TUNNEL_def)
    next
      case (Some form)
      obtain takes sub flags where f: "form = (takes, sub, flags)" by (cases form)
      have n: "zr10_native p = (if takes (payload p) then Inr (Some (sub, flags)) else Inl EINVAL)"
        by (simp add: native_forms [OF sz] Some f)
      show ?thesis
        unfolding h n siyi_command_def Some f using True ln [of flags sub "payload p"] er by simp
    qed
  qed
qed

text \<open>C36: on the A8 and the ZR10 every packet of a client, and every request of the gimbal, is dealt with
  in exactly one way. Bytes that are not one whole packet are refused, a motion packet during manual
  control is ignored, both without any effect. A packet of the ZR10's table of native forms, and one that
  is for the gimbal, is written to the link as one frame, with the subcommand and flags of the table and
  the next sequence number, and the result is that of the write; one too long for a frame is refused. A
  packet of the table with other contents is refused without any effect, and so is a request of the gimbal
  that only the gimbal could serve. Any other packet is answered by the camera: on success by one reply
  under its opcode (a function by a function feedback), to the client or, for a request of the gimbal, to
  the gimbal; a gain setting, and opcode 14, get none.\<close>

theorem siyi_request_answered:
  assumes "uart_open b"
  shows "case ca_siyi_parse_one data of
     Parsed p n \<Rightarrow>
       (if n \<noteq> length data then ca_backend_handle_siyi zr10 fl env data b = (Some EPROTO, b)
        else if ca_backend_manual_blocked (manual_active b) (manual_command b) (opcode p) (payload p)
        then ca_backend_handle_siyi zr10 fl env data b = (None, b)
        else outcome_ok zr10 p b (siyi_command zr10 (reply_to_mcu b) p data) (ca_backend_handle_siyi zr10 fl env data b))
   | _ \<Rightarrow> ca_backend_handle_siyi zr10 fl env data b = (Some EPROTO, b)"
  using handle_outcome [OF assms, where data = data and ?zr10.0 = zr10 and fl = fl and env = env]
  by (cases "ca_siyi_parse_one data") (simp_all add: ca_backend_handle_siyi_def)

definition still_world :: gb_env where
  "still_world n = \<lparr>an_result = None, an_flag = False, an_ratio = 1, an_byte = Inr 0, an_range = None, an_clock = 0, an_focus = None\<rparr>"

lemma siyi_request_answered_witness:
  "written (events (snd (ca_backend_handle_siyi True (\<lambda>x. x) still_world (siyi_frame 1 5 0x07 [50, 0])
     (siyi_initial False False 0)))) = [(link_wire 0x2c 0x2e 0x09 1 0x06 [50, 0], None)]"
proof -
  let ?d = "siyi_frame 1 5 0x07 [50, 0]" and ?b = "siyi_initial False False 0"
  let ?p = "siyi_packet_of 1 5 0x07 [50, 0]"
  have p: "ca_siyi_parse_one ?d = Parsed ?p (length ?d)" using siyi_parse_frame [of "[50, 0]" 1 5 "0x07" "[]"] by simp
  have f: "uart_open ?b" "\<not> ca_backend_manual_blocked (manual_active ?b) (manual_command ?b) (opcode ?p) (payload ?p)"
    "link_sequence ?b = 1" "events ?b = []"
    by (simp_all add: siyi_initial_def ca_backend_manual_blocked_def siyi_packet_of_def)
  have c: "siyi_command True m ?p ?d = To_gimbal 0x09 0x06 [50, 0]" for m
    by (simp add: siyi_command_def zr10_forms_def siyi_packet_of_def)
  have r: "fst (ca_backend_handle_siyi True (\<lambda>x. x) still_world ?d ?b) = None"
    using f(2) p by (simp add: ca_backend_handle_siyi_def zr10_native_def siyi_packet_of_def int8_def send_link_wire
        siyi_initial_def perform_def consult_def still_world_def)
  show ?thesis
    using siyi_request_answered [where b = ?b and data = ?d and ?zr10.0 = True and fl = "\<lambda>x. x" and env = still_world]
      p f(1,2) c r
    by (simp add: outcome_ok_def f(3,4))
qed

end
