(* ===== verification/Siyi_Reads.thy ===== *)
theory Siyi_Reads
  imports Siyi_Backend
begin

text \<open>
  How the A8/ZR10 backend reads its link, \<^verbatim>\<open>camera_app/src/backends/siyi/control.c\<close>
  (\<^verbatim>\<open>parse_rx\<close>, \<^verbatim>\<open>ca_backend_handle_fd\<close>): the handling of a frame does not depend on the receive
  buffer, so the way the serial port cuts the bytes into reads has no effect, and the buffer never fills.
\<close>

subsection \<open>The handling of a frame ignores the receive buffer\<close>

text \<open>Giving the backend another receive buffer, alone, with a result, and in an answer. It commutes with
  every operation: the rules push it through the bodies, to their last states.\<close>

definition with_rx :: "bytes \<Rightarrow> siyi_backend \<Rightarrow> siyi_backend" where "with_rx r b = b\<lparr>rx := r\<rparr>"

definition with_rx2 :: "bytes \<Rightarrow> 'a \<times> siyi_backend \<Rightarrow> 'a \<times> siyi_backend" where
  "with_rx2 r x = (fst x, with_rx r (snd x))"

definition with_rx3 :: "bytes \<Rightarrow> siyi_answer \<Rightarrow> siyi_answer" where
  "with_rx3 r x = map_option (with_rx2 r) x"

named_theorems rx_free "the operations do not look at the receive buffer"

lemma with_rx_push [rx_free]:
  "with_rx r (if c then b1 else b2) = (if c then with_rx r b1 else with_rx r b2)"
  "with_rx r (case x of (a, b) \<Rightarrow> f a b) = (case x of (a, b) \<Rightarrow> with_rx r (f a b))"
  "with_rx2 r (if c then y1 else y2) = (if c then with_rx2 r y1 else with_rx2 r y2)"
  "with_rx2 r (case x of (a, b) \<Rightarrow> g a b) = (case x of (a, b) \<Rightarrow> with_rx2 r (g a b))"
  "with_rx2 r (v, b) = (v, with_rx r b)"
  "with_rx3 r (if c then z1 else z2) = (if c then with_rx3 r z1 else with_rx3 r z2)"
  "with_rx3 r (case x of (a, b) \<Rightarrow> h a b) = (case x of (a, b) \<Rightarrow> with_rx3 r (h a b))"
  "with_rx3 r None = None" "with_rx3 r (Some y) = Some (with_rx2 r y)"
  by (simp_all add: with_rx2_def with_rx3_def split: prod.split)

lemma with_rx_case [rx_free]:
  "(case with_rx2 r x of (a, b) \<Rightarrow> f a b) = (case x of (a, b) \<Rightarrow> f a (with_rx r b))"
  "fst (with_rx2 r x) = fst x" "snd (with_rx2 r x) = with_rx r (snd x)"
  by (simp_all add: with_rx2_def split: prod.split)

lemma with_rx_option [rx_free]:
  "with_rx2 r (case u of None \<Rightarrow> y | Some v \<Rightarrow> g v) = (case u of None \<Rightarrow> with_rx2 r y | Some v \<Rightarrow> with_rx2 r (g v))"
  "with_rx3 r (case u of None \<Rightarrow> z | Some v \<Rightarrow> h v) = (case u of None \<Rightarrow> with_rx3 r z | Some v \<Rightarrow> with_rx3 r (h v))"
  "with_rx3 r (case s of Inl e \<Rightarrow> k e | Inr w \<Rightarrow> l w) = (case s of Inl e \<Rightarrow> with_rx3 r (k e) | Inr w \<Rightarrow> with_rx3 r (l w))"
  "with_rx2 r (case s of Inl e \<Rightarrow> k2 e | Inr w \<Rightarrow> l2 w) = (case s of Inl e \<Rightarrow> with_rx2 r (k2 e) | Inr w \<Rightarrow> with_rx2 r (l2 w))"
  "(case with_rx3 r x of None \<Rightarrow> d | Some v \<Rightarrow> f v) = (case x of None \<Rightarrow> d | Some v \<Rightarrow> f (with_rx2 r v))"
  by (simp_all add: with_rx3_def split: option.split sum.split)

lemma with_rx_fields [rx_free]:
  "consults (with_rx r b) = consults b" "events (with_rx r b) = events b" "manual_active (with_rx r b) = manual_active b"
  "manual_command (with_rx r b) = manual_command b" "link_sequence (with_rx r b) = link_sequence b"
  "public_sequence (with_rx r b) = public_sequence b" "gimbal_mode (with_rx r b) = gimbal_mode b"
  "gb_orientation (with_rx r b) = gb_orientation b" "mounting_direction (with_rx r b) = mounting_direction b"
  "feedback_last (with_rx r b) = feedback_last b" "attitude (with_rx r b) = attitude b"
  "angle_target (with_rx r b) = angle_target b" "uart_open (with_rx r b) = uart_open b"
  "reply_to_mcu (with_rx r b) = reply_to_mcu b" "direction_known (with_rx r b) = direction_known b"
  "direction_inferred (with_rx r b) = direction_inferred b"
  by (simp_all add: with_rx_def)

lemma with_rx_updates [rx_free]:
  "(with_rx r b)\<lparr>consults := c\<rparr> = with_rx r (b\<lparr>consults := c\<rparr>)" "(with_rx r b)\<lparr>events := es\<rparr> = with_rx r (b\<lparr>events := es\<rparr>)"
  "(with_rx r b)\<lparr>link_sequence := n\<rparr> = with_rx r (b\<lparr>link_sequence := n\<rparr>)"
  "(with_rx r b)\<lparr>public_sequence := n\<rparr> = with_rx r (b\<lparr>public_sequence := n\<rparr>)"
  "(with_rx r b)\<lparr>gimbal_mode := v\<rparr> = with_rx r (b\<lparr>gimbal_mode := v\<rparr>)"
  "(with_rx r b)\<lparr>mounting_direction := v\<rparr> = with_rx r (b\<lparr>mounting_direction := v\<rparr>)"
  "(with_rx r b)\<lparr>feedback_last := v\<rparr> = with_rx r (b\<lparr>feedback_last := v\<rparr>)"
  "(with_rx r b)\<lparr>attitude := a\<rparr> = with_rx r (b\<lparr>attitude := a\<rparr>)"
  "(with_rx r b)\<lparr>have_attitude := f\<rparr> = with_rx r (b\<lparr>have_attitude := f\<rparr>)"
  "(with_rx r b)\<lparr>angle_target := t\<rparr> = with_rx r (b\<lparr>angle_target := t\<rparr>)"
  "(with_rx r b)\<lparr>reply_to_mcu := f\<rparr> = with_rx r (b\<lparr>reply_to_mcu := f\<rparr>)"
  "(with_rx r b)\<lparr>direction_known := f\<rparr> = with_rx r (b\<lparr>direction_known := f\<rparr>)"
  "(with_rx r b)\<lparr>direction_inferred := f\<rparr> = with_rx r (b\<lparr>direction_inferred := f\<rparr>)"
  by (cases b; simp add: with_rx_def)+

lemma consult_rx [rx_free]: "consult env (with_rx r b) = with_rx2 r (consult env b)"
  by (simp add: consult_def rx_free)

lemma record_event_rx [rx_free]: "record_event e (with_rx r b) = with_rx r (record_event e b)"
  by (simp add: record_event_def rx_free)

lemma perform_rx [rx_free]: "perform env c (with_rx r b) = with_rx2 r (perform env c b)"
  by (simp add: perform_def Let_def rx_free)

lemma monotonic_rx [rx_free]: "monotonic_ms env (with_rx r b) = with_rx2 r (monotonic_ms env b)"
  by (simp add: monotonic_ms_def rx_free)

lemma toggle_rx [rx_free]: "toggle_recording env (with_rx r b) = with_rx2 r (toggle_recording env b)"
  by (simp add: toggle_recording_def Let_def rx_free cong: if_cong option.case_cong sum.case_cong prod.case_cong split del: if_split)

lemma photo_rx [rx_free]: "capture_photo env (with_rx r b) = with_rx2 r (capture_photo env b)"
  by (simp add: capture_photo_def Let_def rx_free)

lemma zoom_payload_rx [rx_free]: "zoom_payload fl env (with_rx r b) = with_rx2 r (zoom_payload fl env b)"
  by (simp add: zoom_payload_def Let_def rx_free)

lemma send_link_rx [rx_free]: "send_link env flags sub data (with_rx r b) = with_rx2 r (send_link env flags sub data b)"
  by (simp add: send_link_def rx_free cong: if_cong option.case_cong sum.case_cong prod.case_cong split del: if_split)

lemma send_tunnel_rx [rx_free]: "send_tunnel env packet (with_rx r b) = with_rx2 r (send_tunnel env packet b)"
  by (simp add: send_tunnel_def rx_free)

lemma emit_local_rx [rx_free]: "emit_local zr10 env op data (with_rx r b) = with_rx r (emit_local zr10 env op data b)"
  by (simp add: emit_local_def Let_def rx_free cong: if_cong option.case_cong sum.case_cong prod.case_cong split del: if_split)

lemma emit_feedback_rx [rx_free]: "emit_feedback zr10 env v (with_rx r b) = with_rx r (emit_feedback zr10 env v b)"
  by (simp add: emit_feedback_def rx_free)

lemma reply_rx [rx_free]: "reply zr10 env p data (with_rx r b) = with_rx3 r (reply zr10 env p data b)"
  by (simp add: reply_def rx_free)

lemma function_rx [rx_free]: "siyi_function zr10 env p (with_rx r b) = with_rx3 r (siyi_function zr10 env p b)"
  by (simp add: siyi_function_def Let_def rx_free cong: if_cong option.case_cong sum.case_cong prod.case_cong split del: if_split)

lemma camera_rx [rx_free]: "siyi_camera zr10 fl env p (with_rx r b) = with_rx3 r (siyi_camera zr10 fl env p b)"
  by (simp add: siyi_camera_def Let_def rx_free cong: if_cong option.case_cong sum.case_cong prod.case_cong split del: if_split)

lemma sensor_rx [rx_free]: "siyi_sensor zr10 env p (with_rx r b) = with_rx3 r (siyi_sensor zr10 env p b)"
  by (simp add: siyi_sensor_def Let_def rx_free cong: if_cong option.case_cong sum.case_cong prod.case_cong split del: if_split)

lemma switch_rx [rx_free]: "siyi_switch zr10 fl env p data (with_rx r b) = with_rx2 r (siyi_switch zr10 fl env p data b)"
  by (simp add: siyi_switch_def rx_free cong: if_cong option.case_cong sum.case_cong prod.case_cong split del: if_split)

lemma handle_siyi_rx [rx_free]:
  "ca_backend_handle_siyi zr10 fl env data (with_rx r b) = with_rx2 r (ca_backend_handle_siyi zr10 fl env data b)"
  by (simp add: ca_backend_handle_siyi_def Let_def rx_free cong: if_cong option.case_cong sum.case_cong prod.case_cong split del: if_split split: siyi_parse.split sum.split option.split prod.split)

text \<open>In these a state is computed by cases and then used: the rules gather the cases instead.\<close>

lemmas with_rx_pull = with_rx_push(1,2) [symmetric]

lemma mounting_rx [rx_free]:
  "apply_mounting_direction env d (with_rx r b) = with_rx2 r (apply_mounting_direction env d b)"
  by (simp add: apply_mounting_direction_def Let_def rx_free with_rx_pull del: with_rx_push(1,2)
      cong: if_cong prod.case_cong split del: if_split)

lemma attitude_rx [rx_free]:
  "update_attitude zr10 fl env v n y (with_rx r b) = with_rx r (update_attitude zr10 fl env v n y b)"
  by (simp add: update_attitude_def Let_def rx_free with_rx_pull del: with_rx_push(1,2)
      cong: if_cong prod.case_cong split del: if_split)

lemma tunnel_reply_rx [rx_free]:
  "handle_tunnel_reply zr10 fl env data (with_rx r b) = with_rx r (handle_tunnel_reply zr10 fl env data b)"
  by (simp add: handle_tunnel_reply_def Let_def rx_free with_rx_pull del: with_rx_push(1,2)
      cong: if_cong split del: if_split split: siyi_parse.split)

lemma handle_frame_rx [rx_free]:
  "handle_frame zr10 fl env frame (with_rx r b) = with_rx r (handle_frame zr10 fl env frame b)"
  by (simp add: handle_frame_def Let_def rx_free cong: if_cong option.case_cong sum.case_cong prod.case_cong split del: if_split)

subsection \<open>Reads\<close>

text \<open>A run of reads, each with what it returned, and the bytes it brought; the room that the buffer has
  for the next read.\<close>

definition siyi_read_all ::
  "bool \<Rightarrow> rounding \<Rightarrow> gb_env \<Rightarrow> (errno + bytes) list \<Rightarrow> siyi_backend \<Rightarrow> siyi_backend" where
  "siyi_read_all zr10 fl env = fold (\<lambda>received b. snd (ca_backend_handle_fd zr10 fl env received b))"

fun brought :: "(errno + bytes) list \<Rightarrow> bytes" where
  "brought [] = []"
| "brought (Inr data # rs) = data @ brought rs"
| "brought (Inl e # rs) = brought rs"

definition rx_room :: "siyi_backend \<Rightarrow> nat" where "rx_room b = RX_SIZE - length (rx (rx_ready b))"

text \<open>Between reads the buffer holds a part of a frame, too short for anything to be done with it.\<close>

definition rx_waits :: "siyi_backend \<Rightarrow> bool" where
  "rx_waits b \<longleftrightarrow> parse_frames (rx b) = ([], rx b) \<and> length (rx b) < A8_LINK_MAX_FRAME"

lemma waits_ready: "rx_waits b \<Longrightarrow> rx_ready b = b"
  by (simp add: rx_waits_def rx_ready_def RX_SIZE_def)

lemma with_rx_more [simp]: "rx (with_rx r b) = r" "with_rx r (with_rx q b) = with_rx r b" "with_rx (rx b) b = b"
  by (simp_all add: with_rx_def)

lemma fold_frames_rx: "fold (handle_frame zr10 fl env) fs (with_rx r b) = with_rx r (fold (handle_frame zr10 fl env) fs b)"
  by (induction fs arbitrary: b) (simp_all add: handle_frame_rx)

lemma parse_rx_frames:
  "parse_rx zr10 fl env (with_rx d b) =
     with_rx (snd (parse_frames d)) (fold (handle_frame zr10 fl env) (fst (parse_frames d)) b)"
  by (simp add: parse_rx_def split_beta fold_frames_rx with_rx_def [symmetric])

lemma parse_rx_waits: "rx_waits (parse_rx zr10 fl env (with_rx d b))"
  by (simp add: parse_rx_frames rx_waits_def parse_rest_idle parse_rest_short)

text \<open>One read, of a backend that waits.\<close>

lemma siyi_read_step:
  assumes "rx_waits b"
  shows "snd (ca_backend_handle_fd zr10 fl env (Inr data) b) =
      with_rx (snd (parse_frames (rx b @ data))) (fold (handle_frame zr10 fl env) (fst (parse_frames (rx b @ data))) b)"
    "snd (ca_backend_handle_fd zr10 fl env (Inl e) b) = b"
    "rx_waits (snd (ca_backend_handle_fd zr10 fl env received b))"
proof -
  note r = waits_ready [OF assms]
  have w: "b\<lparr>rx := d\<rparr> = with_rx d b" for d by (simp add: with_rx_def)
  show "snd (ca_backend_handle_fd zr10 fl env (Inr data) b) =
      with_rx (snd (parse_frames (rx b @ data))) (fold (handle_frame zr10 fl env) (fst (parse_frames (rx b @ data))) b)"
    using assms by (simp add: ca_backend_handle_fd_def r w parse_rx_frames rx_waits_def)
  show "snd (ca_backend_handle_fd zr10 fl env (Inl e) b) = b" by (simp add: ca_backend_handle_fd_def r)
  show "rx_waits (snd (ca_backend_handle_fd zr10 fl env received b))"
    using assms by (cases received) (simp_all add: ca_backend_handle_fd_def r w parse_rx_waits)
qed

lemma read_all_frames:
  "rx_waits b \<Longrightarrow>
   siyi_read_all zr10 fl env reads b =
     with_rx (snd (parse_frames (rx b @ brought reads))) (fold (handle_frame zr10 fl env) (fst (parse_frames (rx b @ brought reads))) b)"
proof (induction reads arbitrary: b)
  case Nil
  then show ?case by (simp add: siyi_read_all_def rx_waits_def)
next
  case (Cons received reads)
  let ?b = "snd (ca_backend_handle_fd zr10 fl env received b)"
  have i: "siyi_read_all zr10 fl env (received # reads) b = siyi_read_all zr10 fl env reads ?b"
    by (simp add: siyi_read_all_def)
  note IH = Cons.IH [OF siyi_read_step(3) [OF Cons.prems]]
  show ?case
  proof (cases received)
    case (Inl e)
    then show ?thesis using i IH [of zr10 fl env received] by (simp add: siyi_read_step(2) [OF Cons.prems])
  next
    case (Inr data)
    show ?thesis
      unfolding i IH unfolding Inr siyi_read_step(1) [OF Cons.prems]
      by (simp add: fold_frames_rx parse_frames_append [of "rx b @ data" "brought reads", simplified])
  qed
qed

lemma read_all_waits: "rx_waits b \<Longrightarrow> rx_waits (siyi_read_all zr10 fl env reads b)"
  by (induction reads arbitrary: b) (simp_all add: siyi_read_all_def siyi_read_step(3))

text \<open>C37: the receive buffer is never short of room and the cuts between reads do not matter. From an
  empty buffer, after any reads, whatever they brought and however many failed in between, the buffer
  still has room for more than a frame of the greatest length, so a read is never given an empty buffer
  and nothing received is thrown away; and the backend is exactly the one that handled, in order, the
  frames of all the bytes received, taken at once.\<close>

theorem siyi_reads_any_cut:
  assumes "rx b = []"
  shows "A8_LINK_MAX_FRAME < rx_room (siyi_read_all zr10 fl env reads b) \<and>
    (case parse_frames (brought reads) of (frames, rest) \<Rightarrow>
       siyi_read_all zr10 fl env reads b = (fold (handle_frame zr10 fl env) frames b)\<lparr>rx := rest\<rparr>)"
proof -
  have w: "rx_waits b" using assms by (simp add: rx_waits_def parse_turn [of "[]"] link_step_def link_consts)
  note r = read_all_waits [OF w, of zr10 fl env reads]
  have "A8_LINK_MAX_FRAME < rx_room (siyi_read_all zr10 fl env reads b)"
    using r by (auto simp: rx_room_def waits_ready rx_waits_def RX_SIZE_def)
  then show ?thesis using read_all_frames [OF w, of zr10 fl env reads] assms by (simp add: split_beta with_rx_def)
qed

lemma siyi_reads_any_cut_witness:
  "A8_LINK_MAX_FRAME < rx_room (siyi_read_all False (\<lambda>x. x) still_world [Inr [0xaa, 1], Inl EAGAIN, Inr [2]] (siyi_initial False False 0))"
  using siyi_reads_any_cut [of "siyi_initial False False 0"] by (simp add: siyi_initial_def)

subsection \<open>Packets from the gimbal\<close>

text \<open>What hands nothing to the clients or the gimbal.\<close>

definition mute :: "siyi_backend \<Rightarrow> siyi_backend \<Rightarrow> bool" where
  "mute b b' \<longleftrightarrow> emitted (events b') = emitted (events b) \<and> written (events b') = written (events b)"

lemma mute_perform: "\<not> link_call c \<Longrightarrow> mute b (snd (perform env c b))"
  by (simp add: mute_def perform_def consult_def record_event_def)

lemma mute_mounting: "mute b (snd (apply_mounting_direction env d b))"
  using mute_perform [of "Inverted_set v" b env for v]
  by (auto simp: apply_mounting_direction_def Let_def mute_def perform_def consult_def record_event_def)

lemma mute_attitude: "mute b (update_attitude zr10 fl env v n y b)"
proof -
  let ?s = "if gb_orientation b = CA_MOUNT_AUTO \<and> \<not> direction_known b \<and>
      (map (\<lambda>i. if i < n then report_value v i else 0) [0..<6] ! 1 < - A8_INVERTED_PITCH_THRESHOLD \<or>
       A8_INVERTED_PITCH_THRESHOLD < map (\<lambda>i. if i < n then report_value v i else 0) [0..<6] ! 1)
    then (let (applied, b0) = apply_mounting_direction env 2 b in if applied then b0\<lparr>direction_inferred := True\<rparr> else b0) else b"
  have "events (update_attitude zr10 fl env v n y b) = events ?s"
    by (simp add: update_attitude_def Let_def monotonic_ms_def consult_def split_beta del: upt.simps)
  moreover have "mute b ?s" using mute_mounting [of b env 2] by (simp add: mute_def split_beta Let_def)
  ultimately show ?thesis by (simp add: mute_def)
qed

lemma handed_over:
  assumes "ca_siyi_parse_one data = Parsed p (length data)" "zr10 \<longrightarrow> control p AND 2 \<noteq> 0"
  shows "emitted (events (handle_tunnel_reply zr10 fl env data b)) = emitted (events b) @ [data]"
    "written (events (handle_tunnel_reply zr10 fl env data b)) = written (events b)"
proof -
  let ?c = "zr10 \<and> opcode p = 0x18 \<and> payload_length p = 2 \<and> 1 \<le> packet_zoom fl (payload p) \<and> packet_zoom fl (payload p) \<le> 30"
  define b1 where "b1 = (if ?c then snd (perform env (Zoom_set (packet_zoom fl (payload p))) b) else b)"
  define b2 where "b2 = (if opcode p = 0x0d \<and> 12 \<le> payload_length p then update_attitude zr10 fl env (payload p) 6 True b1
    else if opcode p = 0x19 \<and> payload_length p = 1 \<and> payload p ! 0 \<le> 2 then b1\<lparr>gimbal_mode := payload p ! 0\<rparr> else b1)"
  have h: "handle_tunnel_reply zr10 fl env data b = record_event (Emitted data) b2"
    using assms by (simp only: handle_tunnel_reply_def siyi_parse.case Let_def b1_def b2_def) auto
  have "mute b b1" using mute_perform [of "Zoom_set z" b env for z] by (simp add: b1_def mute_def)
  moreover have "mute b1 b2" using mute_attitude [of b1 zr10 fl env] by (simp add: b2_def mute_def)
  ultimately show "emitted (events (handle_tunnel_reply zr10 fl env data b)) = emitted (events b) @ [data]"
    "written (events (handle_tunnel_reply zr10 fl env data b)) = written (events b)"
    by (simp_all add: h mute_def record_event_def)
qed

text \<open>A packet in a frame of the gimbal's controller: the flags and the sequence number of the frame, and
  the fields of the packet. The ZR10 serves requests too, in frames with other flags.\<close>

type_synonym tunnel_item = "u8 \<times> u16 \<times> u8 \<times> u16 \<times> u8 \<times> bytes"

fun tunnel_packet :: "tunnel_item \<Rightarrow> bytes" where
  "tunnel_packet (flags, seq, ctl, pseq, op, data) = siyi_frame ctl pseq op data"

fun tunnel_wire :: "tunnel_item \<Rightarrow> bytes" where
  "tunnel_wire (flags, seq, ctl, pseq, op, data) =
     link_wire A8_LINK_GIMBAL A8_LINK_CAMERA flags seq A8_SUB_TUNNEL (siyi_frame ctl pseq op data)"

fun tunnel_ok :: "bool \<Rightarrow> tunnel_item \<Rightarrow> bool" where
  "tunnel_ok zr10 (flags, seq, ctl, pseq, op, data) \<longleftrightarrow>
     length data \<le> 245 \<and> (zr10 \<longrightarrow> flags AND 0x1c = 8 \<and> ctl AND 2 \<noteq> 0)"

lemma parse_frames_wires:
  "list_all (tunnel_ok zr10) items \<Longrightarrow>
   parse_frames (concat (map tunnel_wire items)) = (map tunnel_wire items, [])"
proof (induction items)
  case Nil
  show ?case by (simp add: parse_turn [of "[]"] link_step_def)
next
  case (Cons i items)
  obtain flags seq ctl pseq op data where i: "i = (flags, seq, ctl, pseq, op, data)" by (cases i)
  let ?w = "tunnel_wire i" and ?rest = "concat (map tunnel_wire items)"
  have l: "length data \<le> 245" using Cons.prems by (simp add: i)
  have s: "link_step ?w = Take (length ?w) ?w"
    using l link_step_wire [of "siyi_frame ctl pseq op data" A8_LINK_GIMBAL A8_LINK_CAMERA flags seq A8_SUB_TUNNEL] by (simp add: i)
  then have "link_step (?w @ ?rest) = Take (length ?w) ?w" using lk.stable [of ?w ?rest] by simp
  then show ?case using Cons by (simp add: parse_turn [of "?w @ ?rest"])
qed

lemma handle_frame_wire:
  assumes "tunnel_ok zr10 i"
  shows "emitted (events (handle_frame zr10 fl env (tunnel_wire i) b)) = emitted (events b) @ [tunnel_packet i]"
    "written (events (handle_frame zr10 fl env (tunnel_wire i) b)) = written (events b)"
proof -
  obtain flags seq ctl pseq op data where i: "i = (flags, seq, ctl, pseq, op, data)" by (cases i)
  let ?q = "siyi_frame ctl pseq op data"
  have ok: "length data \<le> 245" "zr10 \<longrightarrow> flags AND 0x1c = 8 \<and> ctl AND 2 \<noteq> 0" using assms by (simp_all add: i)
  have p: "ca_siyi_parse_one ?q = Parsed (siyi_packet_of ctl pseq op data) (length ?q)"
    using siyi_parse_frame [of data ctl pseq op "[]"] ok(1) by simp
  have byte: "unat (word_of_nat k :: u8) = k" if "k \<le> 255" for k using that by (simp add: unat_of_nat)
  have u: "unat (word_of_nat (length ?q) :: u8) = length ?q" by (rule byte) (simp add: ok(1))
  have "handle_frame zr10 fl env (tunnel_wire i) b = handle_tunnel_reply zr10 fl env ?q b"
    unfolding handle_frame_def Let_def i tunnel_wire.simps link_wire_fields link_consts u
    using ok(2) by (auto simp: link_wire_fields A8_SUB_TUNNEL_def A8_SUB_ATTITUDE_def del: One_nat_def)
  moreover have "zr10 \<longrightarrow> control (siyi_packet_of ctl pseq op data) AND 2 \<noteq> 0" using ok(2) by (simp add: siyi_packet_of_def)
  ultimately show "emitted (events (handle_frame zr10 fl env (tunnel_wire i) b)) = emitted (events b) @ [tunnel_packet i]"
    "written (events (handle_frame zr10 fl env (tunnel_wire i) b)) = written (events b)"
    using handed_over [OF p, of zr10 fl env b] by (simp_all add: i)
qed

text \<open>The way from the gimbal to the clients is transparent on the A8 and the ZR10 too. When the
  gimbal's controller sends any number of SIYI packets (on the ZR10 responses) each in a frame of the
  tunnel, then however the serial port cuts the bytes into reads, and whatever reads fail in between, the
  clients get exactly these packets, each once, in order and unchanged, nothing is written back to the
  gimbal, and nothing is left in the buffer.\<close>

theorem siyi_link_transparent:
  assumes "rx b = []" "list_all (tunnel_ok zr10) items" "brought reads = concat (map tunnel_wire items)"
  shows "case siyi_read_all zr10 fl env reads b of b' \<Rightarrow>
    emitted (events b') = emitted (events b) @ map tunnel_packet items \<and>
    written (events b') = written (events b) \<and> rx b' = []"
proof -
  have w: "rx_waits b" using assms(1) by (simp add: rx_waits_def parse_turn [of "[]"] link_step_def link_consts)
  have f: "emitted (events (fold (handle_frame zr10 fl env) (map tunnel_wire items) b)) = emitted (events b) @ map tunnel_packet items"
    "written (events (fold (handle_frame zr10 fl env) (map tunnel_wire items) b)) = written (events b)"
    using assms(2) by (induction items arbitrary: b) (simp_all add: handle_frame_wire)
  show ?thesis
    unfolding read_all_frames [OF w] assms(1,3) append_Nil parse_frames_wires [OF assms(2)] fst_conv snd_conv
    using f by (simp add: with_rx_fields)
qed

lemma siyi_link_transparent_witness:
  "\<exists>wire. emitted (events (siyi_read_all True (\<lambda>x. x) still_world [Inr (take 9 wire), Inl EAGAIN, Inr (drop 9 wire)]
       (siyi_initial False False 0))) = [siyi_frame 2 7 0x19 [1], siyi_frame 2 8 0x18 [3, 0]]"
proof -
  let ?items = "[(8, 1, 2, 7, 0x19, [1]), (8, 2, 2, 8, 0x18, [3, 0])] :: tunnel_item list"
  let ?wire = "concat (map tunnel_wire ?items)"
  have b: "brought [Inr (take 9 ?wire), Inl EAGAIN, Inr (drop 9 ?wire)] = ?wire"
    by (simp only: brought.simps append_Nil2 append_take_drop_id)
  have "list_all (tunnel_ok True) ?items" by simp
  from siyi_link_transparent [OF _ this b, where b = "siyi_initial False False 0" and fl = "\<lambda>x. x" and env = still_world]
  show ?thesis by (intro exI [of _ ?wire]) (simp add: siyi_initial_def del: tunnel_wire.simps)
qed

end
