(* ===== verification/Thermal_Image.thy ===== *)
theory Thermal_Image
  imports Gimbal_Backend
begin

text \<open>
  Images of the MT11's thermal camera, \<^verbatim>\<open>camera_app/src/backends/mt11/thermal.c\<close>: the temperature
  range of a radiometric image, and the conversion of the picture to NV12, upright and upside down.
\<close>

subsection \<open>Temperatures\<close>

definition raw_to_centi_c :: "u16 \<Rightarrow> u16" where
  "raw_to_centi_c y16 =
     (let centi_c = int (unat ((to32 y16 * 100 + 32) div 64)) - 27315
      in if centi_c < 0 then 0 else if 65535 < centi_c then 65535 else word_of_int centi_c)"

text \<open>The loop that finds the coldest and the hottest pixel, from index i on.\<close>

fun extreme_pixels :: "u16 list \<Rightarrow> nat list \<Rightarrow> nat \<Rightarrow> nat \<Rightarrow> nat \<times> nat" where
  "extreme_pixels pixels [] lo hi = (lo, hi)"
| "extreme_pixels pixels (i # is) lo hi =
     extreme_pixels pixels is (if pixels ! i < pixels ! lo then i else lo) (if pixels ! hi < pixels ! i then i else hi)"

text \<open>Width and height are uint32; with at most 65535 each, their product fits in any size_t the
  program is built for.\<close>

definition ca_mt11_thermal_range_from_y16 :: "u16 list \<Rightarrow> nat \<Rightarrow> nat \<Rightarrow> thermal_range option" where
  "ca_mt11_thermal_range_from_y16 pixels width height =
     (if width = 0 \<or> height = 0 \<or> 65535 < width \<or> 65535 < height then None
      else
        let count = width * height; (lo, hi) = extreme_pixels pixels [1..<count] 0 0
        in Some \<lparr>maximum_centi_c = raw_to_centi_c (pixels ! hi), minimum_centi_c = raw_to_centi_c (pixels ! lo),
             maximum_x = of_nat (hi mod width), maximum_y = of_nat (hi div width),
             minimum_x = of_nat (lo mod width), minimum_y = of_nat (lo div width)\<rparr>)"

lemma extreme_pixels_found:
  "extreme_pixels xs [Suc m..<n] lo hi = (lo', hi') \<Longrightarrow> m < n \<Longrightarrow>
   lo \<le> m \<and> (\<forall>j \<le> m. xs ! lo \<le> xs ! j) \<and> (\<forall>j < lo. xs ! lo < xs ! j) \<Longrightarrow>
   hi \<le> m \<and> (\<forall>j \<le> m. xs ! j \<le> xs ! hi) \<and> (\<forall>j < hi. xs ! j < xs ! hi) \<Longrightarrow>
   (lo' < n \<and> (\<forall>j < n. xs ! lo' \<le> xs ! j) \<and> (\<forall>j < lo'. xs ! lo' < xs ! j)) \<and>
   (hi' < n \<and> (\<forall>j < n. xs ! j \<le> xs ! hi') \<and> (\<forall>j < hi'. xs ! j < xs ! hi'))"
proof (induction "n - m" arbitrary: m lo hi)
  case 0
  then show ?case by simp
next
  case (Suc k)
  show ?case
  proof (cases "Suc m < n")
    case False
    with Suc.prems have "m = n - 1" "lo' = lo" "hi' = hi" by (auto simp: upt_conv_Cons)
    with Suc.prems show ?thesis by auto
  next
    case True
    let ?lo = "if xs ! Suc m < xs ! lo then Suc m else lo" and ?hi = "if xs ! hi < xs ! Suc m then Suc m else hi"
    have e: "extreme_pixels xs [Suc (Suc m)..<n] ?lo ?hi = (lo', hi')" using Suc.prems(1) True by (simp add: upt_conv_Cons)
    have lo: "?lo \<le> Suc m \<and> (\<forall>j \<le> Suc m. xs ! ?lo \<le> xs ! j) \<and> (\<forall>j < ?lo. xs ! ?lo < xs ! j)"
      using Suc.prems(3) by (auto simp: le_Suc_eq less_Suc_eq_le not_less intro: less_le_trans order_less_imp_le)
    have hi: "?hi \<le> Suc m \<and> (\<forall>j \<le> Suc m. xs ! j \<le> xs ! ?hi) \<and> (\<forall>j < ?hi. xs ! j < xs ! ?hi)"
      using Suc.prems(4) by (auto simp: le_Suc_eq less_Suc_eq_le not_less intro: le_less_trans order_less_imp_le)
    show ?thesis using Suc.hyps(1) [OF _ e True lo hi] Suc.hyps(2) by simp
  qed
qed

text \<open>The temperature of a y16 value, in hundredths of a degree Celsius: the y16 unit is 1/64 K.\<close>

lemma raw_to_centi_c_value:
  "unat (raw_to_centi_c y16) = min 65535 ((100 * unat y16 + 32) div 64 - 27315)"
proof -
  have r: "unat y16 < 65536" using unsigned_less [of y16] by simp
  have "unat (to32 y16 * 100 + 32) = 100 * unat y16 + 32"
  proof -
    have w: "unat (to32 y16) = unat y16" using r by (simp add: unsigned_ucast_eq take_bit_nat_eq_self)
    show ?thesis using r by (simp add: unat_word_ariths w)
  qed
  then have u: "unat ((to32 y16 * 100 + 32) div 64) = (100 * unat y16 + 32) div 64" by (simp add: unat_div)
  let ?v = "(100 * unat y16 + 32) div 64"
  show ?thesis
  proof (cases "?v < 27315")
    case True
    then show ?thesis by (simp add: raw_to_centi_c_def u)
  next
    case False
    then have "int ?v - 27315 = int (?v - 27315)" by simp
    then show ?thesis using False by (simp add: raw_to_centi_c_def u Let_def unat_of_nat del: of_nat_diff)
  qed
qed

text \<open>The temperature of a raw value by its formula, and the first of the best pixels.\<close>

definition temperature :: "u16 \<Rightarrow> nat" where
  "temperature y16 = min 65535 ((100 * unat y16 + 32) div 64 - 27315)"

definition first_best :: "(u16 \<Rightarrow> u16 \<Rightarrow> bool) \<Rightarrow> u16 list \<Rightarrow> nat \<Rightarrow> bool" where
  "first_best better pixels i \<longleftrightarrow> i < length pixels \<and> list_all (\<lambda>q. \<not> better q (pixels ! i)) pixels \<and>
     list_all (\<lambda>q. better (pixels ! i) q) (take i pixels)"

lemma first_bestI:
  assumes "i < length xs" "\<forall>j < length xs. \<not> better (xs ! j) (xs ! i)" "\<forall>j < i. better (xs ! i) (xs ! j)"
  shows "first_best better xs i"
  using assms by (auto simp: first_best_def list_all_length)

text \<open>C38: the reported temperature range is right. For every image of a size the code accepts, the maximum
  is the temperature of the hottest pixel, in hundredths of a degree, and the coordinates are those of the
  first pixel in reading order that is as hot; likewise the minimum for the coldest. The conversion of
  a raw value never wraps around: below 0 and above 655.35 degrees it saturates.\<close>

theorem thermal_range_found:
  assumes "length pixels = width * height" "0 < width" "width \<le> 65535" "0 < height" "height \<le> 65535"
  shows "case ca_mt11_thermal_range_from_y16 pixels width height of
    None \<Rightarrow> False
  | Some r \<Rightarrow>
      (let hi = unat (maximum_y r) * width + unat (maximum_x r); lo = unat (minimum_y r) * width + unat (minimum_x r)
       in first_best (\<lambda>p q. q < p) pixels hi \<and> first_best (\<lambda>p q. p < q) pixels lo \<and>
          unat (maximum_x r) < width \<and> unat (minimum_x r) < width \<and>
          unat (maximum_centi_c r) = temperature (pixels ! hi) \<and> unat (minimum_centi_c r) = temperature (pixels ! lo))"
proof -
  let ?n = "width * height"
  obtain lo hi where e: "extreme_pixels pixels [1..<?n] 0 0 = (lo, hi)" by (cases "extreme_pixels pixels [1..<?n] 0 0")
  have n: "0 < ?n" using assms by simp
  have f: "(lo < ?n \<and> (\<forall>j < ?n. pixels ! lo \<le> pixels ! j) \<and> (\<forall>j < lo. pixels ! lo < pixels ! j)) \<and>
      (hi < ?n \<and> (\<forall>j < ?n. pixels ! j \<le> pixels ! hi) \<and> (\<forall>j < hi. pixels ! j < pixels ! hi))"
    by (rule extreme_pixels_found [of pixels 0 _ 0 0]) (use e n in auto)
  have place: "unat (word_of_nat (i mod width) :: u16) = i mod width" "unat (word_of_nat (i div width) :: u16) = i div width"
    if "i < ?n" for i
  proof -
    have "i div width < height" using that by (simp add: less_mult_imp_div_less mult.commute)
    then show "unat (word_of_nat (i mod width) :: u16) = i mod width" "unat (word_of_nat (i div width) :: u16) = i div width"
      using assms mod_less_divisor [OF assms(2), of i] by (simp_all add: unat_of_nat del: mod_less_divisor)
  qed
  have "first_best (\<lambda>p q. q < p) pixels hi" "first_best (\<lambda>p q. p < q) pixels lo"
    using f assms(1) by (intro first_bestI; simp add: not_less)+
  then show ?thesis
    using f assms place [of lo] place [of hi]
    by (simp add: ca_mt11_thermal_range_from_y16_def e Let_def raw_to_centi_c_value temperature_def del: One_nat_def)
qed

lemma thermal_range_found_witness:
  "ca_mt11_thermal_range_from_y16 [19000, 20000, 18000, 20000, 18000, 19000] 3 2 \<noteq> None"
  using thermal_range_found [of "[19000, 20000, 18000, 20000, 18000, 19000]" 3 2] by (auto split: option.splits)

subsection \<open>Conversion to NV12\<close>

text \<open>The loops run over the rows, and over every second column, and store byte after byte. The picture is
  640 by 512; for an odd width or height the code would leave its buffers, so the sizes below are even.\<close>

definition every_second :: "nat \<Rightarrow> nat list" where
  "every_second n = map (\<lambda>k. 2 * k) [0..<(n + 1) div 2]"

definition ca_mt11_yuyv_to_nv12 ::
  "bytes \<Rightarrow> nat \<Rightarrow> nat \<Rightarrow> bytes \<Rightarrow> nat \<Rightarrow> bytes \<Rightarrow> nat \<Rightarrow> bytes \<times> bytes" where
  "ca_mt11_yuyv_to_nv12 source width height y y_stride uv uv_stride =
     (fold (\<lambda>row y. let i = row * width * 2; out = row * y_stride
              in fold (\<lambda>c y. y[out + c := source ! (i + c * 2), out + (c + 1) := source ! (i + (c * 2 + 2))])
                   (every_second width) y)
        [0..<height] y,
      fold (\<lambda>row uv. let i = row * width * 2; out = row div 2 * uv_stride
              in fold (\<lambda>c uv. uv[out + c := source ! (i + (c * 2 + 1)), out + (c + 1) := source ! (i + (c * 2 + 3))])
                   (every_second width) uv)
        (every_second height) uv)"

definition ca_mt11_yuyv_to_nv12_rotated_180 ::
  "bytes \<Rightarrow> nat \<Rightarrow> nat \<Rightarrow> bytes \<Rightarrow> nat \<Rightarrow> bytes \<Rightarrow> nat \<Rightarrow> bytes \<times> bytes" where
  "ca_mt11_yuyv_to_nv12_rotated_180 source width height y y_stride uv uv_stride =
     (fold (\<lambda>row y. let i = row * width * 2; out = (height - 1 - row) * y_stride
              in fold (\<lambda>c y. y[out + (width - 1 - c) := source ! (i + c * 2)]) [0..<width] y)
        [0..<height] y,
      fold (\<lambda>row uv. let i = row * width * 2; out = (height div 2 - 1 - row div 2) * uv_stride
              in fold (\<lambda>c uv. let d = width - 2 - c
                    in uv[out + d := source ! (i + (c * 2 + 1)), out + (d + 1) := source ! (i + (c * 2 + 3))])
                   (every_second width) uv)
        (every_second height) uv)"

text \<open>A nest of loops that store bytes is one run of stores.\<close>

definition stores :: "(nat \<times> 'a) list \<Rightarrow> 'a list \<Rightarrow> 'a list" where
  "stores = fold (\<lambda>(i, v) b. b[i := v])"

lemma stores_simps [simp]:
  "stores [] b = b" "stores ((i, v) # ps) b = stores ps (b[i := v])" "stores (ps @ qs) b = stores qs (stores ps b)"
  by (simp_all add: stores_def)

lemma length_stores [simp]: "length (stores ps b) = length b"
  by (induction ps arbitrary: b) (auto simp: stores_def)

lemma fold_stores: "fold (\<lambda>x. stores (f x)) xs b = stores (concat (map f xs)) b"
  by (induction xs arbitrary: b) simp_all

text \<open>When every store to a place stores what the place is to hold, the order does not matter.\<close>

lemma stores_consistent:
  assumes "\<forall>(i, v) \<in> set ps. v = g i"
  shows "stores ps b = map (\<lambda>i. if i \<in> fst ` set ps then g i else b ! i) [0..<length b]"
  using assms
proof (induction ps arbitrary: b)
  case Nil
  then show ?case by (simp add: map_nth)
next
  case (Cons p ps)
  obtain i v where p: "p = (i, v)" by (cases p)
  have v: "v = g i" "\<forall>(i, v) \<in> set ps. v = g i" using Cons.prems by (auto simp: p)
  show ?case unfolding p stores_simps Cons.IH [OF v(2)] by (rule nth_equalityI) (auto simp: v(1) nth_list_update)
qed

text \<open>Stores that cover a plane of w columns and h rows.\<close>

definition plane :: "nat \<Rightarrow> nat \<Rightarrow> nat \<Rightarrow> (nat \<Rightarrow> nat \<Rightarrow> 'a) \<Rightarrow> 'a list \<Rightarrow> 'a list" where
  "plane w h stride g b =
     map (\<lambda>i. if i div stride < h \<and> i mod stride < w then g (i div stride) (i mod stride) else b ! i) [0..<length b]"

lemma plane_stores:
  assumes "set ps = (\<Union>r<h. (\<lambda>c. (r * stride + c, g r c)) ` {..<w})" "w \<le> stride"
  shows "stores ps b = plane w h stride g b"
proof -
  have "\<forall>(i, v) \<in> set ps. v = g (i div stride) (i mod stride)"
    using assms by (auto simp: less_le_trans)
  moreover have "i \<in> fst ` set ps \<longleftrightarrow> i div stride < h \<and> i mod stride < w" for i
  proof
    assume "i \<in> fst ` set ps"
    then show "i div stride < h \<and> i mod stride < w" using assms by (auto simp: less_le_trans)
  next
    assume "i div stride < h \<and> i mod stride < w"
    then have "(i div stride * stride + i mod stride, g (i div stride) (i mod stride)) \<in> set ps" unfolding assms(1) by blast
    then show "i \<in> fst ` set ps" by force
  qed
  ultimately show ?thesis by (simp add: stores_consistent plane_def)
qed

text \<open>Loops that take two columns at a time, and loops that run backwards, cover the same places.\<close>

lemma pair_union: "(\<Union>k<n. {f (2 * k), f (2 * k + 1)}) = f ` {..<2 * n}" for n :: nat
proof -
  have "{..<2 * n} = (\<Union>k<n. {2 * k, 2 * k + 1})"
  proof (intro set_eqI iffI)
    fix c assume "c \<in> {..<2 * n}"
    then have "c div 2 < n" "c = 2 * (c div 2) \<or> c = 2 * (c div 2) + 1" by auto
    then show "c \<in> (\<Union>k<n. {2 * k, 2 * k + 1})" by blast
  qed auto
  then show ?thesis by (simp add: image_UN)
qed

lemma reverse_union: "(\<Union>r<n. F r) = (\<Union>r<n. F (n - 1 - r))" for n :: nat
proof -
  have "{..<n} = (\<lambda>r. n - 1 - r) ` {..<n}" 
  proof (intro set_eqI iffI)
    fix r assume "r \<in> {..<n}"
    then have "r = n - 1 - (n - 1 - r)" "n - 1 - r \<in> {..<n}" by auto
    then show "r \<in> (\<lambda>r. n - 1 - r) ` {..<n}" by (rule image_eqI)
  qed auto
  then have "(\<Union>r<n. F r) = (\<Union>r \<in> (\<lambda>r. n - 1 - r) ` {..<n}. F r)" by (rule arg_cong [where f = "\<lambda>A. \<Union>r \<in> A. F r"])
  also have "\<dots> = (\<Union>r<n. F (n - 1 - r))" by (simp only: image_image)
  finally show ?thesis .
qed

lemma every_second_even: "every_second (2 * n) = map (\<lambda>k. 2 * k) [0..<n]"
  by (simp add: every_second_def)

text \<open>The stores of the four nests.\<close>

definition y_plane :: "bytes \<Rightarrow> nat \<Rightarrow> nat \<Rightarrow> nat \<Rightarrow> (nat \<times> u8) list" where
  "y_plane source w h stride =
     concat (map (\<lambda>r. concat (map (\<lambda>c. [(r * stride + c, source ! (r * w * 2 + c * 2)),
       (r * stride + (c + 1), source ! (r * w * 2 + (c * 2 + 2)))]) (every_second w))) [0..<h])"

definition uv_plane :: "bytes \<Rightarrow> nat \<Rightarrow> nat \<Rightarrow> nat \<Rightarrow> (nat \<times> u8) list" where
  "uv_plane source w h stride =
     concat (map (\<lambda>r. concat (map (\<lambda>c. [(r div 2 * stride + c, source ! (r * w * 2 + (c * 2 + 1))),
       (r div 2 * stride + (c + 1), source ! (r * w * 2 + (c * 2 + 3)))]) (every_second w))) (every_second h))"

definition y_rotated :: "bytes \<Rightarrow> nat \<Rightarrow> nat \<Rightarrow> nat \<Rightarrow> (nat \<times> u8) list" where
  "y_rotated source w h stride =
     concat (map (\<lambda>r. concat (map (\<lambda>c. [((h - 1 - r) * stride + (w - 1 - c), source ! (r * w * 2 + c * 2))]) [0..<w])) [0..<h])"

definition uv_rotated :: "bytes \<Rightarrow> nat \<Rightarrow> nat \<Rightarrow> nat \<Rightarrow> (nat \<times> u8) list" where
  "uv_rotated source w h stride =
     concat (map (\<lambda>r. concat (map (\<lambda>c. [((h div 2 - 1 - r div 2) * stride + (w - 2 - c), source ! (r * w * 2 + (c * 2 + 1))),
       ((h div 2 - 1 - r div 2) * stride + (w - 2 - c + 1), source ! (r * w * 2 + (c * 2 + 3)))]) (every_second w))) (every_second h))"

lemma pair_stores: "(\<lambda>c b. b[f c := u c, f' c := u' c]) = (\<lambda>c. stores [(f c, u c), (f' c, u' c)])"
  "(\<lambda>c b. b[f c := u c]) = (\<lambda>c. stores [(f c, u c)])"
  by (auto simp: fun_eq_iff)

lemma nv12_stores:
  "ca_mt11_yuyv_to_nv12 source w h y ys uv us = (stores (y_plane source w h ys) y, stores (uv_plane source w h us) uv)"
  by (simp add: ca_mt11_yuyv_to_nv12_def Let_def pair_stores fold_stores y_plane_def uv_plane_def del: stores_simps)

lemma nv12_rotated_stores:
  "ca_mt11_yuyv_to_nv12_rotated_180 source w h y ys uv us =
     (stores (y_rotated source w h ys) y, stores (uv_rotated source w h us) uv)"
  by (simp add: ca_mt11_yuyv_to_nv12_rotated_180_def Let_def pair_stores fold_stores y_rotated_def uv_rotated_def
      del: stores_simps)

text \<open>What the planes hold, by row and column.\<close>

lemma y_plane_filled:
  assumes "even w" "w \<le> stride"
  shows "stores (y_plane source w h stride) b = plane w h stride (\<lambda>r c. source ! (r * w * 2 + c * 2)) b"
proof (rule plane_stores [OF _ assms(2)])
  obtain n where w: "w = 2 * n" using assms(1) by blast
  show "set (y_plane source w h stride) = (\<Union>r<h. (\<lambda>c. (r * stride + c, source ! (r * w * 2 + c * 2))) ` {..<w})"
    unfolding w pair_union [symmetric] y_plane_def every_second_even by (simp add: lessThan_atLeast0 ac_simps)
qed

lemma uv_plane_filled:
  assumes "even w" "even h" "w \<le> stride"
  shows "stores (uv_plane source w h stride) b = plane w (h div 2) stride (\<lambda>r c. source ! (2 * r * w * 2 + (c * 2 + 1))) b"
proof (rule plane_stores [OF _ assms(3)])
  obtain n m where w: "w = 2 * n" "h = 2 * m" using assms(1,2) by blast
  show "set (uv_plane source w h stride) = (\<Union>r<h div 2. (\<lambda>c. (r * stride + c, source ! (2 * r * w * 2 + (c * 2 + 1)))) ` {..<w})"
    unfolding w pair_union [symmetric] uv_plane_def every_second_even
    by (simp add: lessThan_atLeast0 ac_simps numeral_3_eq_3)
qed

lemma y_rotated_filled:
  assumes "w \<le> stride"
  shows "stores (y_rotated source w h stride) b =
    plane w h stride (\<lambda>r c. source ! ((h - 1 - r) * w * 2 + (w - 1 - c) * 2)) b"
proof (rule plane_stores [OF _ assms])
  have "set (y_rotated source w h stride) =
      (\<Union>r<h. \<Union>c<w. {((h - 1 - r) * stride + (w - 1 - c), source ! (r * w * 2 + c * 2))})"
    by (auto simp: y_rotated_def lessThan_atLeast0)
  also have "\<dots> = (\<Union>r<h. \<Union>c<w. {(r * stride + c, source ! ((h - 1 - r) * w * 2 + (w - 1 - c) * 2))})"
    by (subst reverse_union, subst (2) reverse_union) (intro SUP_cong refl; simp)
  finally show "set (y_rotated source w h stride) =
      (\<Union>r<h. (\<lambda>c. (r * stride + c, source ! ((h - 1 - r) * w * 2 + (w - 1 - c) * 2))) ` {..<w})" by auto
qed

lemma uv_rotated_filled:
  assumes "even w" "even h" "w \<le> stride"
  shows "stores (uv_rotated source w h stride) b =
    plane w (h div 2) stride (\<lambda>r c. source ! (2 * (h div 2 - 1 - r) * w * 2 + ((w - 2 - c div 2 * 2 + c mod 2) * 2 + 1))) b"
proof (rule plane_stores [OF _ assms(3)])
  obtain n m where w: "w = 2 * n" "h = 2 * m" using assms(1,2) by blast
  let ?row = "\<lambda>r. 2 * (m - 1 - r) * w * 2" and ?f = "\<lambda>r c. (r * stride + c, source ! (2 * (m - 1 - r) * w * 2 + ((w - 2 - c div 2 * 2 + c mod 2) * 2 + 1)))"
  have col: "w - Suc (Suc (2 * (n - Suc k))) = 2 * k" if "k < n" for k using that by (simp add: w)
  have "set (uv_rotated source w h stride) =
      (\<Union>r<m. \<Union>k<n. {((m - 1 - r) * stride + (w - 2 - 2 * k), source ! (2 * r * w * 2 + (2 * k * 2 + 1))),
         ((m - 1 - r) * stride + (w - 2 - 2 * k + 1), source ! (2 * r * w * 2 + (2 * k * 2 + 3)))})"
    unfolding uv_rotated_def w every_second_even by (simp add: lessThan_atLeast0)
  also have "\<dots> = (\<Union>r<m. \<Union>k<n. {(r * stride + 2 * k, source ! (?row r + (2 * (n - 1 - k) * 2 + 1))),
         (r * stride + (2 * k + 1), source ! (?row r + (2 * (n - 1 - k) * 2 + 3)))})"
    by (subst reverse_union, subst (2) reverse_union) (intro SUP_cong refl; simp add: col)
  also have "\<dots> = (\<Union>r<m. \<Union>k<n. {?f r (2 * k), ?f r (2 * k + 1)})"
  proof (intro SUP_cong refl)
    fix r k assume "k \<in> {..<n}"
    then have "(w - 2 - 2 * k div 2 * 2 + 2 * k mod 2) * 2 + 1 = 2 * (n - 1 - k) * 2 + 1"
      "(w - 2 - (2 * k + 1) div 2 * 2 + (2 * k + 1) mod 2) * 2 + 1 = 2 * (n - 1 - k) * 2 + 3" by (auto simp: w)
    then show "{(r * stride + 2 * k, source ! (?row r + (2 * (n - 1 - k) * 2 + 1))),
        (r * stride + (2 * k + 1), source ! (?row r + (2 * (n - 1 - k) * 2 + 3)))} = {?f r (2 * k), ?f r (2 * k + 1)}"
      by (simp only:)
  qed
  also have "\<dots> = (\<Union>r<m. ?f r ` {..<w})"
  proof (intro SUP_cong refl)
    show "(\<Union>k<n. {?f r (2 * k), ?f r (2 * k + 1)}) = ?f r ` {..<w}" for r
      using pair_union [where f = "?f r" and n = n] by (simp only: w(1) [symmetric])
  qed
  finally show "set (uv_rotated source w h stride) =
      (\<Union>r<h div 2. (\<lambda>c. (r * stride + c, source ! (2 * (h div 2 - 1 - r) * w * 2 + ((w - 2 - c div 2 * 2 + c mod 2) * 2 + 1)))) ` {..<w})"
    by (simp add: w(2))
qed

text \<open>The samples of a YUYV picture of w columns.\<close>

definition luma :: "bytes \<Rightarrow> nat \<Rightarrow> nat \<Rightarrow> nat \<Rightarrow> u8" where
  "luma source w r c = source ! (r * w * 2 + c * 2)"

definition chroma :: "bytes \<Rightarrow> nat \<Rightarrow> nat \<Rightarrow> nat \<Rightarrow> u8" where
  "chroma source w r c = source ! (2 * r * w * 2 + (c * 2 + 1))"

text \<open>C39: the conversion to NV12 is exact, and the upside-down one is its rotation by half a turn. For every
  even size, every stride that is wide enough and every previous contents of the buffers, the luma and the
  chroma planes hold exactly the samples of the picture, in the first for the upright conversion, and for
  the rotated one each plane is the upright plane with rows and columns reversed, pairs of chroma samples
  kept in order; the bytes outside the planes are left alone.\<close>

theorem thermal_picture_rotated:
  assumes "even w" "even h" "w \<le> y_stride" "w \<le> uv_stride"
  shows "ca_mt11_yuyv_to_nv12 source w h y y_stride uv uv_stride =
      (plane w h y_stride (luma source w) y, plane w (h div 2) uv_stride (chroma source w) uv) \<and>
    ca_mt11_yuyv_to_nv12_rotated_180 source w h y y_stride uv uv_stride =
      (plane w h y_stride (\<lambda>r c. luma source w (h - 1 - r) (w - 1 - c)) y,
       plane w (h div 2) uv_stride (\<lambda>r c. chroma source w (h div 2 - 1 - r) (w - 2 - c div 2 * 2 + c mod 2)) uv)"
proof -
  have "luma source w = (\<lambda>r c. source ! (r * w * 2 + c * 2))"
    "chroma source w = (\<lambda>r c. source ! (2 * r * w * 2 + (c * 2 + 1)))"
    by (intro ext; simp add: luma_def chroma_def)+
  then show ?thesis
    using assms by (simp only: nv12_stores nv12_rotated_stores y_plane_filled uv_plane_filled y_rotated_filled uv_rotated_filled)
qed

lemma thermal_picture_rotated_witness:
  "ca_mt11_yuyv_to_nv12_rotated_180 [10, 20, 11, 30, 14, 22, 15, 32] 2 2 [0, 0, 0, 0, 0] 2 [0, 0] 2 =
     ([15, 14, 11, 10, 0], [20, 30])"
proof -
  let ?s = "[10, 20, 11, 30, 14, 22, 15, 32]"
  have "plane 2 2 2 (\<lambda>r c. luma ?s 2 (2 - 1 - r) (2 - 1 - c)) [0, 0, 0, 0, 0] = [15, 14, 11, 10, 0]"
    "plane 2 (2 div 2) 2 (\<lambda>r c. chroma ?s 2 (2 div 2 - 1 - r) (2 - 2 - c div 2 * 2 + c mod 2)) [0, 0] = [20, 30]"
    by code_simp+
  then show ?thesis
    using thermal_picture_rotated [of 2 2 2 2 ?s "[0, 0, 0, 0, 0]" "[0, 0]", THEN conjunct2] by simp
qed

end
