(* ===== verification/Thermal_Usb.thy ===== *)
theory Thermal_Usb
  imports Thermal_Image
begin

text \<open>
  The USB side of the MT11's thermal camera, \<^verbatim>\<open>camera_app/src/backends/mt11/thermal.c\<close>: the assembly
  of frames from UVC payloads, and the gain and palette controls with their transfers. Opening and closing
  the device and the thread that submits and reaps the bulk transfers are not modelled.
\<close>

subsection \<open>Assembly of frames\<close>

definition CA_MT11_THERMAL_WIDTH :: nat where "CA_MT11_THERMAL_WIDTH = 640"
definition CA_MT11_THERMAL_HEIGHT :: nat where "CA_MT11_THERMAL_HEIGHT = 512"
definition CA_MT11_THERMAL_FRAME_BYTES :: nat where
  "CA_MT11_THERMAL_FRAME_BYTES = CA_MT11_THERMAL_WIDTH * CA_MT11_THERMAL_HEIGHT * 4"

type_synonym timespec = "int \<times> int"

text \<open>The fid is None for -1. What the callback gets: the picture, the radiometric image and the time.\<close>

record uvc_assembler =
  ua_frame :: bytes
  ua_used :: nat
  ua_fid :: "bool option"
  last_received_at :: timespec
  have_received_at :: bool

type_synonym thermal_frame = "bytes \<times> bytes \<times> timespec"

text \<open>The contents of the allocated frame are an argument: malloc does not clear it.\<close>

definition ca_mt11_uvc_assembler_init :: "bytes \<Rightarrow> uvc_assembler" where
  "ca_mt11_uvc_assembler_init memory =
     \<lparr>ua_frame = take CA_MT11_THERMAL_FRAME_BYTES memory, ua_used = 0, ua_fid = None, last_received_at = (0, 0),
      have_received_at = False\<rparr>"

definition split_frame :: "bytes \<Rightarrow> timespec \<Rightarrow> thermal_frame" where
  "split_frame frame t =
     (let n = CA_MT11_THERMAL_WIDTH * CA_MT11_THERMAL_HEIGHT * 2 in (take n frame, drop n frame, t))"

definition deliver_frame :: "uvc_assembler \<Rightarrow> thermal_frame list \<times> uvc_assembler" where
  "deliver_frame a =
     (if ua_used a = CA_MT11_THERMAL_FRAME_BYTES \<and> have_received_at a then [split_frame (ua_frame a) (last_received_at a)] else [],
      a\<lparr>ua_used := 0\<rparr>)"

definition ca_mt11_uvc_assembler_consume ::
  "bytes \<Rightarrow> timespec \<Rightarrow> uvc_assembler \<Rightarrow> errno option \<times> thermal_frame list \<times> uvc_assembler" where
  "ca_mt11_uvc_assembler_consume urb received_at a =
     (if length urb < 2 then (Some EINVAL, [], a)
      else
        let header_length = unat (urb ! 0); flags = urb ! 1 in
        if header_length < 2 \<or> length urb < header_length then (Some EPROTO, [], a)
        else if flags AND 0x40 \<noteq> 0 then (Some EIO, [], a\<lparr>ua_used := 0\<rparr>)
        else
          let fid = (flags AND 1 \<noteq> 0);
              (before, a1) = (if ua_fid a \<noteq> None \<and> ua_fid a \<noteq> Some fid \<and> ua_used a \<noteq> 0 then deliver_frame a else ([], a));
              a2 = a1\<lparr>ua_fid := Some fid, last_received_at := received_at, have_received_at := True\<rparr>;
              data = drop header_length urb
          in if CA_MT11_THERMAL_FRAME_BYTES - ua_used a2 < length data then (Some EMSGSIZE, before, a2\<lparr>ua_used := 0\<rparr>)
             else
               let a3 = a2\<lparr>ua_frame := blit (ua_frame a2) (ua_used a2) data, ua_used := ua_used a2 + length data\<rparr>;
                   (after, a4) = (if flags AND 2 \<noteq> 0 then deliver_frame a3 else ([], a3))
               in (None, before @ after, a4))"

text \<open>A run of payloads, each with the time it was received: the frames handed over.\<close>

fun assemble :: "(bytes \<times> timespec) list \<Rightarrow> uvc_assembler \<Rightarrow> thermal_frame list \<times> uvc_assembler" where
  "assemble [] a = ([], a)"
| "assemble ((urb, t) # ps) a =
     (case ca_mt11_uvc_assembler_consume urb t a of
        (r, frames, a1) \<Rightarrow> (case assemble ps a1 of (rest, a2) \<Rightarrow> (frames @ rest, a2)))"

lemma assemble_append:
  "assemble (ps @ qs) a =
     (case assemble ps a of (out, a1) \<Rightarrow> (case assemble qs a1 of (out', a2) \<Rightarrow> (out @ out', a2)))"
  by (induction ps arbitrary: a) (auto split: prod.splits)

text \<open>The buffer has its size and is never overrun.\<close>

definition uvc_ok :: "uvc_assembler \<Rightarrow> bool" where
  "uvc_ok a \<longleftrightarrow> length (ua_frame a) = CA_MT11_THERMAL_FRAME_BYTES \<and> ua_used a \<le> CA_MT11_THERMAL_FRAME_BYTES \<and>
     (ua_used a \<noteq> 0 \<longrightarrow> ua_fid a \<noteq> None \<and> have_received_at a)"

lemma consume_ok: "uvc_ok a \<Longrightarrow> uvc_ok (snd (snd (ca_mt11_uvc_assembler_consume urb t a)))"
  by (auto simp: ca_mt11_uvc_assembler_consume_def deliver_frame_def Let_def uvc_ok_def)

lemma assemble_ok: "uvc_ok a \<Longrightarrow> uvc_ok (snd (assemble ps a))"
  by (induction ps arbitrary: a) (auto simp: split_beta consume_ok)

subsection \<open>Frames in payloads\<close>

definition urb_data :: "bytes \<Rightarrow> bytes" where "urb_data urb = drop (unat (urb ! 0)) urb"

definition urb_ok :: "bool \<Rightarrow> bool \<Rightarrow> bytes \<Rightarrow> bool" where
  "urb_ok fid eof urb \<longleftrightarrow> 2 \<le> length urb \<and> 2 \<le> unat (urb ! 0) \<and> unat (urb ! 0) \<le> length urb \<and>
     urb ! 1 AND 0x40 = 0 \<and> (urb ! 1 AND 1 \<noteq> 0) = fid \<and> (urb ! 1 AND 2 \<noteq> 0) = eof"

text \<open>A frame that is complete and waits for a payload of the next one.\<close>

definition waiting :: "uvc_assembler \<Rightarrow> thermal_frame list" where
  "waiting a = (if ua_used a = CA_MT11_THERMAL_FRAME_BYTES then [split_frame (ua_frame a) (last_received_at a)] else [])"

definition holds :: "bool \<Rightarrow> bytes \<Rightarrow> uvc_assembler \<Rightarrow> bool" where
  "holds fid acc a \<longleftrightarrow> uvc_ok a \<and> ua_used a = length acc \<and> take (length acc) (ua_frame a) = acc \<and>
     (acc \<noteq> [] \<longrightarrow> ua_fid a = Some fid)"

lemma frame_bytes_pos: "CA_MT11_THERMAL_FRAME_BYTES \<noteq> 0"
  by (simp add: CA_MT11_THERMAL_FRAME_BYTES_def CA_MT11_THERMAL_WIDTH_def CA_MT11_THERMAL_HEIGHT_def)

lemma blit_holds:
  assumes "take (length acc) buf = acc" "length acc + length xs \<le> length buf"
  shows "take (length acc + length xs) (blit buf (length acc) xs) = acc @ xs"
  using take_blit_end [OF assms(2)] assms(1) by simp

lemma consume_plain:
  fixes t :: timespec
  assumes "urb_ok fid eof urb" "ua_fid a = None \<or> ua_fid a = Some fid \<or> ua_used a = 0"
  defines "a2 \<equiv> a\<lparr>ua_fid := Some fid, last_received_at := t, have_received_at := True\<rparr>"
  defines "a3 \<equiv> a2\<lparr>ua_frame := blit (ua_frame a) (ua_used a) (urb_data urb), ua_used := ua_used a + length (urb_data urb)\<rparr>"
  shows "ca_mt11_uvc_assembler_consume urb t a =
    (if CA_MT11_THERMAL_FRAME_BYTES - ua_used a < length (urb_data urb) then (Some EMSGSIZE, [], a2\<lparr>ua_used := 0\<rparr>)
     else if eof then (None, deliver_frame a3) else (None, [], a3))"
proof -
  have c: "\<not> (ua_fid a \<noteq> None \<and> ua_fid a \<noteq> Some fid \<and> ua_used a \<noteq> 0)" using assms(2) by auto
  have g: "\<not> length urb < 2" "\<not> (unat (urb ! 0) < 2 \<or> length urb < unat (urb ! 0))" "\<not> urb ! 1 AND 0x40 \<noteq> 0"
    "(urb ! 1 AND 1 \<noteq> 0) = fid" "(urb ! 1 AND 2 \<noteq> 0) = eof" using assms(1) by (simp_all add: urb_ok_def)
  show ?thesis
    unfolding ca_mt11_uvc_assembler_consume_def Let_def g(4,5) a2_def a3_def
    by (simp only: g(1-3) c if_False prod.case urb_data_def append_Nil split_beta) (simp add: split_beta)
qed

lemma consume_more:
  assumes "holds fid acc a" "urb_ok fid False urb" "length acc + length (urb_data urb) \<le> CA_MT11_THERMAL_FRAME_BYTES"
  obtains a' where "ca_mt11_uvc_assembler_consume urb t a = (None, [], a')" "holds fid (acc @ urb_data urb) a'"
    "ua_fid a' = Some fid" "last_received_at a' = t"
proof -
  let ?a = "a\<lparr>ua_fid := Some fid, last_received_at := t, have_received_at := True,
    ua_frame := blit (ua_frame a) (ua_used a) (urb_data urb), ua_used := ua_used a + length (urb_data urb)\<rparr>"
  have h: "uvc_ok a" "ua_used a = length acc" "take (length acc) (ua_frame a) = acc" "ua_used a \<noteq> 0 \<longrightarrow> ua_fid a = Some fid"
    using assms(1) by (auto simp: holds_def)
  have c: "ua_fid a = None \<or> ua_fid a = Some fid \<or> ua_used a = 0" using h(4) by auto
  have "\<not> CA_MT11_THERMAL_FRAME_BYTES - ua_used a < length (urb_data urb)" using assms(3) h(2) by simp
  then have "ca_mt11_uvc_assembler_consume urb t a = (None, [], ?a)" using consume_plain [OF assms(2) c, of t] by simp
  moreover have "holds fid (acc @ urb_data urb) ?a"
    using h assms(3) blit_holds [of acc "ua_frame a" "urb_data urb"] by (simp add: holds_def uvc_ok_def)
  ultimately show ?thesis by (intro that [of ?a]) simp_all
qed

lemma consume_last:
  assumes "holds fid acc a" "urb_ok fid True urb" "length acc + length (urb_data urb) = CA_MT11_THERMAL_FRAME_BYTES"
  obtains a' where "ca_mt11_uvc_assembler_consume urb t a = (None, [split_frame (acc @ urb_data urb) t], a')"
    "holds fid [] a'" "ua_fid a' = Some fid"
proof -
  let ?a = "a\<lparr>ua_fid := Some fid, last_received_at := t, have_received_at := True,
    ua_frame := blit (ua_frame a) (ua_used a) (urb_data urb), ua_used := 0\<rparr>"
  have h: "uvc_ok a" "ua_used a = length acc" "take (length acc) (ua_frame a) = acc" "ua_used a \<noteq> 0 \<longrightarrow> ua_fid a = Some fid"
    using assms(1) by (auto simp: holds_def)
  have f: "blit (ua_frame a) (ua_used a) (urb_data urb) = acc @ urb_data urb"
    using h assms(3) blit_holds [of acc "ua_frame a" "urb_data urb"] by (simp add: uvc_ok_def)
  have c: "ua_fid a = None \<or> ua_fid a = Some fid \<or> ua_used a = 0" using h(4) by auto
  have "\<not> CA_MT11_THERMAL_FRAME_BYTES - ua_used a < length (urb_data urb)" using assms(3) h(2) by simp
  then have "ca_mt11_uvc_assembler_consume urb t a = (None, [split_frame (acc @ urb_data urb) t], ?a)"
    using consume_plain [OF assms(2) c, of t] assms(3) h(2) f by (simp add: deliver_frame_def)
  moreover have "holds fid [] ?a" using h f assms(3) by (simp add: holds_def uvc_ok_def)
  ultimately show ?thesis by (intro that [of ?a]) simp_all
qed

text \<open>The first payload of a frame flushes what was there.\<close>

lemma consume_toggle:
  assumes "uvc_ok a" "ua_fid a \<noteq> Some fid" "urb_ok fid eof urb"
  shows "ca_mt11_uvc_assembler_consume urb t a =
    (case ca_mt11_uvc_assembler_consume urb t (a\<lparr>ua_used := 0\<rparr>) of (r, out, a') \<Rightarrow> (r, waiting a @ out, a'))"
proof (cases "ua_used a = 0")
  case True
  then have "a\<lparr>ua_used := 0\<rparr> = a" "waiting a = []" using frame_bytes_pos by (simp_all add: waiting_def)
  then show ?thesis by (simp split: prod.split)
next
  case False
  then have "have_received_at a" "ua_fid a \<noteq> None" using assms(1) by (auto simp: uvc_ok_def)
  then show ?thesis
    using False assms(2,3)
    by (simp add: ca_mt11_uvc_assembler_consume_def urb_ok_def Let_def deliver_frame_def waiting_def split_beta)
qed

lemma consume_fid:
  "urb_ok fid eof urb \<Longrightarrow> ua_fid (snd (snd (ca_mt11_uvc_assembler_consume urb t a))) = Some fid"
  by (simp add: ca_mt11_uvc_assembler_consume_def urb_ok_def Let_def deliver_frame_def split_beta)

text \<open>A frame in payloads: the last one may carry the end mark, the others do not.\<close>

definition carries :: "bool \<Rightarrow> bool \<Rightarrow> (bytes \<times> timespec) list \<Rightarrow> bytes \<Rightarrow> bool" where
  "carries fid eof ps frame \<longleftrightarrow> ps \<noteq> [] \<and> list_all (\<lambda>p. urb_ok fid False (fst p)) (butlast ps) \<and> urb_ok fid eof (fst (last ps)) \<and>
     concat (map (\<lambda>p. urb_data (fst p)) ps) = frame \<and> length frame = CA_MT11_THERMAL_FRAME_BYTES"

lemma assemble_more:
  assumes "holds fid acc a" "list_all (\<lambda>p. urb_ok fid False (fst p)) ps"
    "length acc + length (concat (map (\<lambda>p. urb_data (fst p)) ps)) \<le> CA_MT11_THERMAL_FRAME_BYTES"
  obtains a' where "assemble ps a = ([], a')" "holds fid (acc @ concat (map (\<lambda>p. urb_data (fst p)) ps)) a'"
  using assms
proof (induction ps arbitrary: acc a thesis)
  case Nil
  then show ?case by simp
next
  case (Cons p ps)
  obtain urb t where p: "p = (urb, t)" by (cases p)
  obtain a1 where a1: "ca_mt11_uvc_assembler_consume urb t a = (None, [], a1)" "holds fid (acc @ urb_data urb) a1"
    using consume_more [OF Cons.prems(2), of urb t] Cons.prems(3,4) p by auto
  obtain a' where "assemble ps a1 = ([], a')" "holds fid ((acc @ urb_data urb) @ concat (map (\<lambda>p. urb_data (fst p)) ps)) a'"
    using Cons.IH [OF _ a1(2)] Cons.prems(3,4) p by auto
  then show ?case using Cons.prems(1) a1(1) p by simp
qed

lemma assemble_frame:
  assumes "holds fid [] a" "carries fid eof ps frame"
  obtains a' out where "assemble ps a = (out, a')" "uvc_ok a'" "ua_fid a' = Some fid"
    "out @ waiting a' = [split_frame frame (snd (last ps))]" "eof \<longrightarrow> waiting a' = []"
proof -
  obtain qs urb t where ps: "ps = qs @ [(urb, t)]" using assms(2) by (cases ps rule: rev_cases) (auto simp: carries_def)
  let ?acc = "concat (map (\<lambda>p. urb_data (fst p)) qs)"
  have c: "list_all (\<lambda>p. urb_ok fid False (fst p)) qs" "urb_ok fid eof urb" "frame = ?acc @ urb_data urb"
    "length ?acc + length (urb_data urb) = CA_MT11_THERMAL_FRAME_BYTES" using assms(2) by (auto simp: carries_def ps)
  obtain a1 where a1: "assemble qs a = ([], a1)" "holds fid ?acc a1" using assemble_more [OF assms(1) c(1)] c(4) by auto
  show ?thesis
  proof (cases eof)
    case True
    obtain a' where "ca_mt11_uvc_assembler_consume urb t a1 = (None, [split_frame frame t], a')" "holds fid [] a'" "ua_fid a' = Some fid"
      using consume_last [OF a1(2), of urb t] c True by auto
    then show ?thesis using a1(1) frame_bytes_pos by (intro that) (auto simp: ps assemble_append holds_def waiting_def)
  next
    case False
    obtain a' where "ca_mt11_uvc_assembler_consume urb t a1 = (None, [], a')" "holds fid frame a'" "ua_fid a' = Some fid"
      "last_received_at a' = t" using consume_more [OF a1(2), of urb t] c False by auto
    then show ?thesis using a1(1) c False by (intro that) (auto simp: ps assemble_append holds_def waiting_def uvc_ok_def)
  qed
qed

lemma assemble_next:
  assumes "uvc_ok a" "ua_fid a \<noteq> Some fid" "carries fid eof ps frame"
  obtains a' out where "assemble ps a = (waiting a @ out, a')" "uvc_ok a'" "ua_fid a' = Some fid"
    "out @ waiting a' = [split_frame frame (snd (last ps))]" "eof \<longrightarrow> waiting a' = []"
proof -
  obtain urb t qs where ps: "ps = (urb, t) # qs" using assms(3) by (cases ps) (auto simp: carries_def)
  have "\<exists>e. urb_ok fid e urb" using assms(3) by (cases qs) (auto simp: carries_def ps)
  then have f: "assemble ps a = (case assemble ps (a\<lparr>ua_used := 0\<rparr>) of (out, a') \<Rightarrow> (waiting a @ out, a'))"
    using consume_toggle [OF assms(1,2), of _ urb t] by (auto simp: ps split_beta)
  have "holds fid [] (a\<lparr>ua_used := 0\<rparr>)" using assms(1) by (simp add: holds_def uvc_ok_def)
  from assemble_frame [OF this assms(3)] f that show ?thesis by (metis (no_types, lifting) prod.case)
qed

text \<open>Frame after frame: the frame bit changes from each to the next.\<close>

type_synonym sent_frame = "bool \<times> (bytes \<times> timespec) list \<times> bytes"

fun sent :: "bool \<Rightarrow> sent_frame list \<Rightarrow> bool" where
  "sent fid [] = True"
| "sent fid ((eof, ps, frame) # rest) \<longleftrightarrow> carries fid eof ps frame \<and> sent (\<not> fid) rest"

definition sent_urbs :: "sent_frame list \<Rightarrow> (bytes \<times> timespec) list" where
  "sent_urbs fs = concat (map (\<lambda>(eof, ps, frame). ps) fs)"

definition sent_frames :: "sent_frame list \<Rightarrow> thermal_frame list" where
  "sent_frames fs = map (\<lambda>(eof, ps, frame). split_frame frame (snd (last ps))) fs"

lemma assemble_sent:
  assumes "uvc_ok a" "ua_fid a \<noteq> Some fid" "sent fid fs"
  obtains a' out where "assemble (sent_urbs fs) a = (out, a')" "uvc_ok a'" "out @ waiting a' = waiting a @ sent_frames fs"
  using assms
proof (induction fs arbitrary: a fid thesis)
  case Nil
  then show ?case by (simp add: sent_urbs_def sent_frames_def)
next
  case (Cons f fs)
  obtain eof ps frame where f: "f = (eof, ps, frame)" by (cases f)
  then have s: "carries fid eof ps frame" "sent (\<not> fid) fs" using Cons.prems(4) by simp_all
  obtain a1 out where a1: "assemble ps a = (waiting a @ out, a1)" "uvc_ok a1" "ua_fid a1 = Some fid"
    "out @ waiting a1 = [split_frame frame (snd (last ps))]" by (rule assemble_next [OF Cons.prems(2,3) s(1)])
  obtain a' out' where a': "assemble (sent_urbs fs) a1 = (out', a')" "uvc_ok a'" "out' @ waiting a' = waiting a1 @ sent_frames fs"
    by (rule Cons.IH [OF _ a1(2) _ s(2)]) (use a1(3) in auto)
  have "assemble (sent_urbs (f # fs)) a = ((waiting a @ out) @ out', a')"
    using a1(1) a'(1) by (simp add: sent_urbs_def f assemble_append)
  moreover have "((waiting a @ out) @ out') @ waiting a' = waiting a @ sent_frames (f # fs)"
    using a1(4) a'(3) by (simp add: sent_frames_def f)
  ultimately show ?case using Cons.prems(1) a'(2) by blast
qed

lemma assemble_fid:
  assumes "carries fid eof ps frame"
  shows "ua_fid (snd (assemble ps a)) = Some fid"
proof -
  obtain qs urb t where ps: "ps = qs @ [(urb, t)]" using assms by (cases ps rule: rev_cases) (auto simp: carries_def)
  then have "urb_ok fid eof urb" using assms by (simp add: carries_def)
  then show ?thesis using consume_fid [of fid eof urb t] by (simp add: ps assemble_append split_beta)
qed

text \<open>C40: frames arrive intact. Frames that the camera sends in payloads of any lengths, with headers of any
  lengths, with or without an end mark, the frame bit changing from each to the next, are handed over each
  once, in order and unchanged, with the time of their last payload (the last frame possibly still waits
  for a payload of the next); and after any payloads whatever, broken, too long or cut off, at most the
  first of them is lost. The frame buffer is never overrun.\<close>

theorem thermal_frames_intact:
  assumes "CA_MT11_THERMAL_FRAME_BYTES \<le> length memory" "sent fid (f # fs)"
  shows "(case assemble (sent_urbs (f # fs)) (ca_mt11_uvc_assembler_init memory) of
      (out, a) \<Rightarrow> out @ waiting a = sent_frames (f # fs)) \<and>
    (case assemble (junk @ sent_urbs (f # fs)) (ca_mt11_uvc_assembler_init memory) of
      (out, a) \<Rightarrow> (\<exists>before. out @ waiting a = before @ sent_frames fs) \<and>
        ua_used a \<le> CA_MT11_THERMAL_FRAME_BYTES \<and> length (ua_frame a) = CA_MT11_THERMAL_FRAME_BYTES)"
proof -
  let ?i = "ca_mt11_uvc_assembler_init memory"
  have i: "uvc_ok ?i" "ua_fid ?i \<noteq> Some fid" "waiting ?i = []"
    using assms(1) frame_bytes_pos by (simp_all add: ca_mt11_uvc_assembler_init_def uvc_ok_def waiting_def)
  obtain eof ps frame where f: "f = (eof, ps, frame)" by (cases f)
  then have s: "carries fid eof ps frame" "sent (\<not> fid) fs" using assms(2) by simp_all
  obtain out0 a0 where a0: "assemble (junk @ ps) ?i = (out0, a0)" by (cases "assemble (junk @ ps) ?i")
  have "ua_fid a0 = Some fid" using assemble_fid [OF s(1), of "snd (assemble junk ?i)"] a0 by (simp add: assemble_append split_beta prod_eq_iff)
  then have "ua_fid a0 \<noteq> Some (\<not> fid)" by simp
  moreover have "uvc_ok a0" using assemble_ok [OF i(1), of "junk @ ps"] a0 by simp
  ultimately obtain out a where a: "assemble (sent_urbs fs) a0 = (out, a)" "uvc_ok a" "out @ waiting a = waiting a0 @ sent_frames fs"
    using assemble_sent [OF _ _ s(2)] by metis
  have "assemble (junk @ sent_urbs (f # fs)) ?i = (out0 @ out, a)"
  proof -
    have "junk @ sent_urbs (f # fs) = (junk @ ps) @ sent_urbs fs" by (simp add: sent_urbs_def f)
    then show ?thesis using assemble_append [of "junk @ ps" "sent_urbs fs" ?i] a0 a(1) by simp
  qed
  moreover have "(out0 @ out) @ waiting a = (out0 @ waiting a0) @ sent_frames fs" using a(3) by simp
  moreover have "case assemble (sent_urbs (f # fs)) ?i of (out, a) \<Rightarrow> out @ waiting a = sent_frames (f # fs)"
    by (rule assemble_sent [OF i(1,2) assms(2)]) (simp add: i(3))
  ultimately show ?thesis using a(2) by (auto simp: uvc_ok_def)
qed

lemma thermal_frames_intact_witness:
  "\<exists>frame. frame \<noteq> [] \<and>
     (case assemble [([2, 0] @ take 1000 frame, (1, 0)), ([3, 2, 9] @ drop 1000 frame, (2, 0))] (ca_mt11_uvc_assembler_init frame) of
        (out, a) \<Rightarrow> out @ waiting a = [split_frame frame (2, 0)])"
proof -
  define frame :: bytes where "frame = replicate CA_MT11_THERMAL_FRAME_BYTES 7"
  have l: "length frame = CA_MT11_THERMAL_FRAME_BYTES" by (simp add: frame_def)
  let ?ps = "[([2, 0] @ take 1000 frame, (1, 0)), ([3, 2, 9] @ drop 1000 frame, (2, 0))]"
  have "sent False [(True, ?ps, frame)]" by (simp add: carries_def urb_ok_def urb_data_def l)
  from thermal_frames_intact [OF _ this, of frame, THEN conjunct1] l frame_bytes_pos
  show ?thesis by (intro exI [of _ frame]) (auto simp: sent_urbs_def sent_frames_def)
qed

subsection \<open>Gain and palette\<close>

text \<open>A control transfer: request type, request, index, data, length. What the device does with it is a
  parameter: its result (None: the ioctl failed with the error), the data it returns, its next state. A
  run counts its transfers.\<close>

type_synonym xu_request = "u8 \<times> u8 \<times> u16 \<times> bytes \<times> nat"
type_synonym 'd usb_device = "xu_request \<Rightarrow> 'd \<Rightarrow> (errno + nat \<times> (nat \<Rightarrow> u8)) \<times> 'd"
type_synonym 'd xu_state = "nat \<times> 'd"

definition MT11_XU_COMMAND_FIRST :: u16 where "MT11_XU_COMMAND_FIRST = 0x9d00"
definition MT11_XU_COMMAND_SECOND :: u16 where "MT11_XU_COMMAND_SECOND = 0x1d08"
definition MT11_XU_STATUS :: u16 where "MT11_XU_STATUS = 0x0200"
definition MT11_XU_RESULT :: u16 where "MT11_XU_RESULT = 0x1d10"
definition MT11_XU_SHORT_COMMAND :: u16 where "MT11_XU_SHORT_COMMAND = 0x1d00"
definition MT11_XU_SHORT_RESULT :: u16 where "MT11_XU_SHORT_RESULT = 0x1d08"
definition MT11_XU_TIMEOUT_MS :: nat where "MT11_XU_TIMEOUT_MS = 5000"

definition xu_control :: "'d usb_device \<Rightarrow> xu_request \<Rightarrow> 'd xu_state \<Rightarrow> (errno + (nat \<Rightarrow> u8)) \<times> 'd xu_state" where
  "xu_control dev request s =
     (case request of (ty, rq, index, data, n) \<Rightarrow>
        case dev request (snd s) of
          (Inl e, d) \<Rightarrow> (Inl e, fst s + 1, d)
        | (Inr (count, bytes), d) \<Rightarrow> (if count \<noteq> n then Inl EIO else Inr bytes, fst s + 1, d))"

text \<open>The errno of an operation: None is success.\<close>

definition xu_write :: "'d usb_device \<Rightarrow> u16 \<Rightarrow> bytes \<Rightarrow> 'd xu_state \<Rightarrow> errno option \<times> 'd xu_state" where
  "xu_write dev index data s =
     (case xu_control dev (0x41, 0x45, index, data, length data) s of
        (Inl e, s1) \<Rightarrow> (Some e, s1) | (Inr r, s1) \<Rightarrow> (None, s1))"

definition xu_read :: "'d usb_device \<Rightarrow> u16 \<Rightarrow> nat \<Rightarrow> 'd xu_state \<Rightarrow> (errno + (nat \<Rightarrow> u8)) \<times> 'd xu_state" where
  "xu_read dev index n s = xu_control dev (0xc1, 0x44, index, [], n) s"

definition stage_xu_command :: "'d usb_device \<Rightarrow> bytes \<Rightarrow> 'd xu_state \<Rightarrow> errno option \<times> 'd xu_state" where
  "stage_xu_command dev cmd s =
     (case xu_write dev MT11_XU_COMMAND_FIRST (take 8 cmd) s of
        (Some e, s1) \<Rightarrow> (Some e, s1)
      | (None, s1) \<Rightarrow> xu_write dev MT11_XU_COMMAND_SECOND (drop 8 cmd) s1)"

text \<open>The polls of the status, every 5 ms; the sleep between two polls, repeated when a signal interrupts
  it, may fail with an error: \<^term>\<open>sleep\<close> gives it. 110 is ETIMEDOUT.\<close>

primrec wait_polls :: "(nat \<Rightarrow> errno option) \<Rightarrow> 'd usb_device \<Rightarrow> nat \<Rightarrow> 'd xu_state \<Rightarrow> errno option \<times> 'd xu_state" where
  "wait_polls sleep dev 0 s = (Some (EOTHER 110), s)"
| "wait_polls sleep dev (Suc n) s =
     (case xu_read dev MT11_XU_STATUS 1 s of
        (Inl e, s1) \<Rightarrow> (Some e, s1)
      | (Inr bytes, s1) \<Rightarrow>
          if bytes 0 = 0 then (None, s1)
          else if bytes 0 \<noteq> 1 then (Some EPROTO, s1)
          else (case sleep n of Some e \<Rightarrow> (Some e, s1) | None \<Rightarrow> wait_polls sleep dev n s1))"

definition wait_for_xu_command ::
  "(nat \<Rightarrow> errno option) \<Rightarrow> 'd usb_device \<Rightarrow> 'd xu_state \<Rightarrow> errno option \<times> 'd xu_state" where
  "wait_for_xu_command sleep dev = wait_polls sleep dev (MT11_XU_TIMEOUT_MS div 5)"

definition ca_mt11_thermal_gain_get_command :: bytes where
  "ca_mt11_thermal_gain_get_command = [0x14, 0x85, 0, 5, 0, 0, 0, 0, 0, 0, 0, 0, 0, 0, 0, 2]"

definition ca_mt11_thermal_gain_set_command :: "u8 \<Rightarrow> bytes" where
  "ca_mt11_thermal_gain_set_command gain = [0x14, 0xc5, 0, 5, 0, 0, 0, 0, 0, 0, 0, 0, 0, 0, 0, 0][7 := gain]"

definition ca_mt11_thermal_palette_get_command :: bytes where
  "ca_mt11_thermal_palette_get_command = [0x09, 0x84, 0, 0, 0, 0, 0, 1, 0, 0, 0, 0, 0, 0, 0, 0]"

definition ca_mt11_thermal_palette_set_command :: "u8 \<Rightarrow> bytes" where
  "ca_mt11_thermal_palette_set_command palette = [0x09, 0xc4, 0, 0, 0, 0, 0, 1, 0, 0, 0, 0, 0, 0, 0, 0][8 := palette + 1]"

text \<open>An operation under the lock: the results of locking and unlocking are parameters.\<close>

definition unlock_controls :: "errno option \<Rightarrow> errno + 'v \<Rightarrow> errno + 'v" where
  "unlock_controls unlock r = (case r of Inl e \<Rightarrow> Inl e | Inr v \<Rightarrow> (case unlock of Some e \<Rightarrow> Inl e | None \<Rightarrow> Inr v))"

definition with_controls ::
  "errno option \<Rightarrow> errno option \<Rightarrow> ('d xu_state \<Rightarrow> (errno + 'v) \<times> 'd xu_state) \<Rightarrow> 'd xu_state \<Rightarrow> (errno + 'v) \<times> 'd xu_state" where
  "with_controls lock unlock f s =
     (case lock of
        Some e \<Rightarrow> (Inl e, s)
      | None \<Rightarrow> (case f s of (r, s1) \<Rightarrow> (unlock_controls unlock r, s1)))"

definition read_gain :: "(nat \<Rightarrow> errno option) \<Rightarrow> 'd usb_device \<Rightarrow> 'd xu_state \<Rightarrow> (errno + u8) \<times> 'd xu_state" where
  "read_gain sleep dev s =
     (case stage_xu_command dev ca_mt11_thermal_gain_get_command s of
        (Some e, s1) \<Rightarrow> (Inl e, s1)
      | (None, s1) \<Rightarrow>
          (case wait_for_xu_command sleep dev s1 of
             (Some e, s2) \<Rightarrow> (Inl e, s2)
           | (None, s2) \<Rightarrow>
               (case xu_read dev MT11_XU_RESULT 2 s2 of
                  (Inl e, s3) \<Rightarrow> (Inl e, s3)
                | (Inr bytes, s3) \<Rightarrow>
                    let v = push_bit 8 (to32 (bytes 0)) OR to32 (bytes 1)
                    in if v \<le> 1 then (Inr (to8 v), s3) else (Inl EPROTO, s3))))"

definition ca_mt11_thermal_get_gain where
  "ca_mt11_thermal_get_gain lock unlock sleep dev s = with_controls lock unlock (read_gain sleep dev) s"

definition ca_mt11_thermal_set_gain ::
  "errno option \<Rightarrow> errno option \<Rightarrow> 'd usb_device \<Rightarrow> u8 \<Rightarrow> 'd xu_state \<Rightarrow> (errno + unit) \<times> 'd xu_state" where
  "ca_mt11_thermal_set_gain lock unlock dev gain s =
     (if 1 < gain then (Inl EINVAL, s)
      else with_controls lock unlock
        (\<lambda>s. case stage_xu_command dev (ca_mt11_thermal_gain_set_command gain) s of
            (Some e, s1) \<Rightarrow> (Inl e, s1) | (None, s1) \<Rightarrow> (Inr (), s1)) s)"

definition read_palette :: "'d usb_device \<Rightarrow> 'd xu_state \<Rightarrow> (errno + u8) \<times> 'd xu_state" where
  "read_palette dev s =
     (case xu_write dev MT11_XU_SHORT_COMMAND (take 8 ca_mt11_thermal_palette_get_command) s of
        (Some e, s1) \<Rightarrow> (Inl e, s1)
      | (None, s1) \<Rightarrow>
          (case xu_read dev MT11_XU_SHORT_RESULT 1 s1 of
             (Inl e, s2) \<Rightarrow> (Inl e, s2)
           | (Inr bytes, s2) \<Rightarrow>
               let v = bytes 0 in if 1 \<le> v \<and> v \<le> 12 \<and> v \<noteq> 2 then (Inr (v - 1), s2) else (Inl EPROTO, s2)))"

definition ca_mt11_thermal_get_palette where
  "ca_mt11_thermal_get_palette lock unlock dev s = with_controls lock unlock (read_palette dev) s"

definition ca_mt11_thermal_set_palette ::
  "errno option \<Rightarrow> errno option \<Rightarrow> 'd usb_device \<Rightarrow> u8 \<Rightarrow> 'd xu_state \<Rightarrow> (errno + unit) \<times> 'd xu_state" where
  "ca_mt11_thermal_set_palette lock unlock dev palette s =
     (if 11 < palette \<or> palette = 1 then (Inl EINVAL, s)
      else with_controls lock unlock
        (\<lambda>s. let cmd = ca_mt11_thermal_palette_set_command palette
          in case xu_write dev MT11_XU_COMMAND_FIRST (take 8 cmd) s of
               (Some e, s1) \<Rightarrow> (Inl e, s1)
             | (None, s1) \<Rightarrow>
                 (case xu_write dev MT11_XU_COMMAND_SECOND (take 1 (drop 8 cmd)) s1 of
                    (Some e, s2) \<Rightarrow> (Inl e, s2) | (None, s2) \<Rightarrow> (Inr (), s2))) s)"

lemma xu_control_count: "fst (snd (xu_control dev request s)) = fst s + 1"
  by (auto simp: xu_control_def split: prod.split sum.split)

lemma xu_counts:
  "fst (snd (xu_write dev index data s)) = fst s + 1" "fst (snd (xu_read dev index n s)) = fst s + 1"
  using xu_control_count [of dev "(0x41, 0x45, index, data, length data)" s] xu_control_count [of dev "(0xc1, 0x44, index, [], n)" s]
  by (auto simp: xu_write_def xu_read_def split: prod.split sum.split)

lemma stage_count: "fst (snd (stage_xu_command dev cmd s)) \<le> fst s + 2"
proof -
  obtain r s1 where r: "xu_write dev MT11_XU_COMMAND_FIRST (take 8 cmd) s = (r, s1)"
    by (cases "xu_write dev MT11_XU_COMMAND_FIRST (take 8 cmd) s")
  then have "fst s1 = fst s + 1" using xu_counts(1) [of dev MT11_XU_COMMAND_FIRST "take 8 cmd" s] by simp
  then show ?thesis
    using xu_counts(1) [of dev MT11_XU_COMMAND_SECOND "drop 8 cmd" s1]
    by (cases r) (simp_all add: stage_xu_command_def r)
qed

lemma wait_count: "fst (snd (wait_polls sleep dev n s)) \<le> fst s + n"
proof (induction n arbitrary: s)
  case (Suc n)
  obtain r s1 where r: "xu_read dev MT11_XU_STATUS 1 s = (r, s1)" by (cases "xu_read dev MT11_XU_STATUS 1 s")
  then have c: "fst s1 = fst s + 1" using xu_counts(2) [of dev MT11_XU_STATUS 1 s] by simp
  with Suc.IH [of s1] show ?case by (cases r) (simp_all add: r split: option.split del: One_nat_def)
qed simp

text \<open>The waits are bounded, and whatever the module answers only values that exist come out: a gain of 0
  or 1, reached after at most 1003 transfers, and a palette of the public list, after two.\<close>

lemma thermal_gain_valid:
  "case ca_mt11_thermal_get_gain lock unlock sleep dev s of
     (r, s') \<Rightarrow> fst s' \<le> fst s + 1003 \<and> (case r of Inr v \<Rightarrow> v \<le> 1 | Inl e \<Rightarrow> True)"
proof -
  have g: "case read_gain sleep dev s of (r, s') \<Rightarrow> fst s' \<le> fst s + 1003 \<and> (case r of Inr v \<Rightarrow> v \<le> 1 | Inl e \<Rightarrow> True)"
  proof -
    obtain r1 s1 where 1: "stage_xu_command dev ca_mt11_thermal_gain_get_command s = (r1, s1)"
      by (cases "stage_xu_command dev ca_mt11_thermal_gain_get_command s")
    obtain r2 s2 where 2: "wait_for_xu_command sleep dev s1 = (r2, s2)" by (cases "wait_for_xu_command sleep dev s1")
    obtain r3 s3 where 3: "xu_read dev MT11_XU_RESULT 2 s2 = (r3, s3)" by (cases "xu_read dev MT11_XU_RESULT 2 s2")
    have c: "fst s1 \<le> fst s + 2" "fst s2 \<le> fst s1 + 1000" "fst s3 = fst s2 + 1"
      using stage_count [of dev ca_mt11_thermal_gain_get_command s] wait_count [of sleep dev 1000 s1]
        xu_counts(2) [of dev MT11_XU_RESULT 2 s2] 1 2 3 by (simp_all add: wait_for_xu_command_def MT11_XU_TIMEOUT_MS_def)
    have v: "to8 v \<le> 1" if "v \<le> 1" for v :: u32
    proof -
      have "unat v \<le> 1" using that by (simp add: word_le_nat_alt)
      then have "unat v = unat (0 :: u32) \<or> unat v = unat (1 :: u32)" by auto
      then have "v = 0 \<or> v = 1" by (simp only: word_unat_eq_iff)
      then show ?thesis by auto
    qed
    show ?thesis using c v by (simp add: read_gain_def 1 2 3 Let_def split: option.split sum.split)
  qed
  then show ?thesis
    by (auto simp: ca_mt11_thermal_get_gain_def with_controls_def unlock_controls_def split: option.split prod.splits sum.splits)
qed

end
