(* ===== verification/Web_Text.thy ===== *)
theory Web_Text
  imports C_Strings
begin

text \<open>
  The text functions of the web server, \<^verbatim>\<open>web/mt11-web.c\<close>: escaping for HTML, URLs and the log
  view, URL and base64 decoding, the comparison that does not stop at the first difference,
  normalising line ends, and clipping at a UTF-8 boundary. A string buffer is the text it holds
  (allocation succeeds); a C string is the list of its characters, without a NUL.
\<close>

subsection \<open>Escaping\<close>

definition html_char :: "char \<Rightarrow> string" where
  "html_char c =
     (if c = CHR ''&'' then ''&amp;''
      else if c = CHR ''<'' then ''&lt;''
      else if c = CHR ''>'' then ''&gt;''
      else if c = QUOTE then ''&quot;''
      else if c = CHR 0x27 then ''&#39;''
      else if 32 \<le> code c \<or> c = NL \<or> c = CR \<or> c = TAB then [c] else [])"

fun sb_append_html :: "string \<Rightarrow> string \<Rightarrow> string" where
  "sb_append_html sb [] = sb"
| "sb_append_html sb (c # cs) = sb_append_html (sb @ html_char c) cs"

definition hex_upper :: "nat \<Rightarrow> char" where
  "hex_upper n = ''0123456789ABCDEF'' ! n"

definition url_char :: "char \<Rightarrow> string" where
  "url_char c =
     (if isalnum c \<or> c = CHR ''-'' \<or> c = CHR ''_'' \<or> c = CHR ''.'' \<or> c = CHR ''~'' then [c]
      else [CHR ''%'', hex_upper (code c div 16), hex_upper (code c mod 16)])"

fun sb_append_url :: "string \<Rightarrow> string \<Rightarrow> string" where
  "sb_append_url sb [] = sb"
| "sb_append_url sb (c # cs) = sb_append_url (sb @ url_char c) cs"

text \<open>An escape sequence is skipped up to its final byte.\<close>

definition csi_final :: "char \<Rightarrow> bool" where
  "csi_final c \<longleftrightarrow> 64 \<le> code c \<and> code c \<le> 126"

definition log_char :: "char \<Rightarrow> string" where
  "log_char c =
     (if c = CR then []
      else if c = CHR ''&'' then ''&amp;''
      else if c = CHR ''<'' then ''&lt;''
      else if c = CHR ''>'' then ''&gt;''
      else if 32 \<le> code c \<or> c = NL \<or> c = TAB then [c] else [])"

function sb_append_log_html :: "string \<Rightarrow> string \<Rightarrow> string" where
  "sb_append_log_html sb t =
     (case t of
        [] \<Rightarrow> sb
      | c # cs \<Rightarrow>
          if c = CHR 0x1B \<and> cs \<noteq> [] \<and> hd cs = CHR ''[''
          then sb_append_log_html sb (drop 1 (dropWhile (\<lambda>c. \<not> csi_final c) (tl cs)))
          else sb_append_log_html (sb @ log_char c) cs)"
  by pat_completeness auto
termination
proof (relation "measure (\<lambda>(sb, t). length t)", goal_cases)
  case (2 sb t c cs)
  have "length (dropWhile (\<lambda>c. \<not> csi_final c) (tl cs)) \<le> length (tl cs)" by (rule length_dropWhile_le)
  with 2 show ?case by (auto simp: less_Suc_eq_le)
qed auto

declare sb_append_log_html.simps [simp del]

subsection \<open>Decoding\<close>

definition hex_value :: "char \<Rightarrow> int" where
  "hex_value c =
     (if isdigit c then int (code c) - 48
      else if 97 \<le> code c \<and> code c \<le> 102 then int (code c) - 97 + 10
      else if 65 \<le> code c \<and> code c \<le> 70 then int (code c) - 65 + 10
      else -1)"

text \<open>One character into the output of \<^verbatim>\<open>url_decode\<close>, which a NUL makes fail.\<close>

definition url_emit :: "nat \<Rightarrow> string option \<Rightarrow> string option" where
  "url_emit v rest = (if v = 0 then None else map_option (\<lambda>s. char_of v # s) rest)"

fun url_decode :: "string \<Rightarrow> string option" where
  "url_decode [] = Some []"
| "url_decode (c # cs) =
     (if c = CHR ''+'' then url_emit 32 (url_decode cs)
      else if c = CHR ''%'' \<and> 2 \<le> length cs then
        let high = hex_value (cs ! 0); low = hex_value (cs ! 1) in
        if high < 0 \<or> low < 0 then None
        else url_emit (nat (high * 16 + low)) (url_decode (drop 2 cs))
      else url_emit (code c) (url_decode cs))"

text \<open>\<^verbatim>\<open>encoded_value\<close>: the value of the first pair with this key.\<close>

function encoded_value :: "string \<Rightarrow> string \<Rightarrow> string option" where
  "encoded_value p key =
     (if p = [] then None
      else
        let pair = takeWhile (\<lambda>c. c \<noteq> CHR ''&'') p in
        case split_at (CHR ''='') pair of
          Some (k, v) \<Rightarrow>
            if k = key then url_decode v
            else encoded_value (tl (dropWhile (\<lambda>c. c \<noteq> CHR ''&'') p)) key
        | None \<Rightarrow> encoded_value (tl (dropWhile (\<lambda>c. c \<noteq> CHR ''&'') p)) key)"
  by pat_completeness auto
termination
proof (relation "measure (\<lambda>(p, key). length p)", goal_cases)
  case (2 p key)
  then show ?case using length_dropWhile_le [of "\<lambda>c. c \<noteq> CHR ''&''" p] by (cases p) auto
next
  case (3 p key)
  then show ?case using length_dropWhile_le [of "\<lambda>c. c \<noteq> CHR ''&''" p] by (cases p) auto
qed simp

declare encoded_value.simps [simp del]

definition b64_value :: "char \<Rightarrow> int" where
  "b64_value c =
     (if isupper c then int (code c) - 65
      else if islower c then int (code c) - 97 + 26
      else if isdigit c then int (code c) - 48 + 52
      else if c = CHR ''+'' then 62
      else if c = CHR ''/'' then 63
      else -1)"

text \<open>The loop of \<^verbatim>\<open>decode_base64\<close>: a 32-bit accumulator that wraps around, the bits it holds, and
  the output so far. The last byte of the output is kept for the terminating NUL.\<close>

fun b64_loop :: "nat \<Rightarrow> nat \<Rightarrow> nat \<Rightarrow> string \<Rightarrow> string \<Rightarrow> string option" where
  "b64_loop output_size accumulator bits out [] = Some out"
| "b64_loop output_size accumulator bits out (c # cs) =
     (if c = CHR ''='' then Some out
      else if isspace c then b64_loop output_size accumulator bits out cs
      else if b64_value c < 0 then None
      else
        let acc = (accumulator * 2 ^ 6 + nat (b64_value c)) mod 2 ^ 32; n = bits + 6 in
        if 8 \<le> n then
          if output_size \<le> length out + 1 then None
          else b64_loop output_size acc (n - 8) (out @ [char_of (acc div 2 ^ (n - 8) mod 256)]) cs
        else b64_loop output_size acc n out cs)"

definition decode_base64 :: "string \<Rightarrow> nat \<Rightarrow> string option" where
  "decode_base64 input output_size = b64_loop output_size 0 0 [] input"

subsection \<open>Comparing\<close>

definition byte_at :: "string \<Rightarrow> nat \<Rightarrow> u32" where
  "byte_at s i = (if i < length s then of_nat (code (s ! i)) else 0)"

definition constant_time_equal :: "string \<Rightarrow> string \<Rightarrow> bool" where
  "constant_time_equal a b =
     (foldl (\<lambda>difference i. difference OR (byte_at a i XOR byte_at b i))
        (of_nat (length a XOR length b) :: u32)
        [0..<max (length a) (length b)] = 0)"

subsection \<open>Lines and clipping\<close>

fun normalize_newlines :: "string \<Rightarrow> string" where
  "normalize_newlines [] = []"
| "normalize_newlines (c # cs) =
     (if c = CR then NL # normalize_newlines (if cs \<noteq> [] \<and> hd cs = NL then tl cs else cs)
      else c # normalize_newlines cs)"

text \<open>The loop that steps back over continuation bytes, at most four from the end.\<close>

fun utf8_start :: "string \<Rightarrow> nat \<Rightarrow> nat \<Rightarrow> nat" where
  "utf8_start t n 0 = 0"
| "utf8_start t n (Suc s) =
     (if n - Suc s < 4 \<and> code (t ! s) div 64 = 2 then utf8_start t n s else Suc s)"

definition utf8_complete_length :: "string \<Rightarrow> nat \<Rightarrow> nat" where
  "utf8_complete_length t n =
     (let start = utf8_start t n n in
      if start = 0 then n
      else
        let lead = code (t ! (start - 1)) in
        if lead < 0x80 then n
        else
          let expected = (if 0xf0 \<le> lead then 4 else if 0xe0 \<le> lead then 3
                          else if 0xc0 \<le> lead then 2 else 1 :: nat)
          in if expected \<le> n - start + 1 then n else start - 1)"

text \<open>\<^verbatim>\<open>sb_append_js\<close>: text inside a single-quoted JavaScript string.\<close>

definition hex_lower :: "nat \<Rightarrow> char" where
  "hex_lower n = ''0123456789abcdef'' ! n"

definition js_char :: "char \<Rightarrow> string" where
  "js_char c =
     (if c = CHR 0x5C \<or> c = CHR 0x27 then [CHR 0x5C, c]
      else if code c < 32 \<or> c = CHR ''<'' \<or> c = CHR ''>'' \<or> c = CHR ''&''
      then [CHR 0x5C, CHR ''x'', hex_lower (code c div 16), hex_lower (code c mod 16)]
      else [c])"

fun sb_append_js :: "string \<Rightarrow> string \<Rightarrow> string" where
  "sb_append_js sb [] = sb"
| "sb_append_js sb (c # cs) = sb_append_js (sb @ js_char c) cs"

subsection \<open>HTML\<close>

text \<open>What a browser reads back: the five character references that the server writes.\<close>

function html_decode :: "string \<Rightarrow> string" where
  "html_decode s =
     (if s = [] then []
      else if take 5 s = ''&amp;'' then CHR ''&'' # html_decode (drop 5 s)
      else if take 4 s = ''&lt;'' then CHR ''<'' # html_decode (drop 4 s)
      else if take 4 s = ''&gt;'' then CHR ''>'' # html_decode (drop 4 s)
      else if take 6 s = ''&quot;'' then QUOTE # html_decode (drop 6 s)
      else if take 5 s = ''&#39;'' then CHR 0x27 # html_decode (drop 5 s)
      else hd s # html_decode (tl s))"
  by pat_completeness auto
termination by (relation "measure length") (auto simp: neq_Nil_conv)

declare html_decode.simps [simp del]

text \<open>The characters that HTML text may show.\<close>

definition shown :: "char \<Rightarrow> bool" where
  "shown c \<longleftrightarrow> 32 \<le> code c \<or> c = NL \<or> c = CR \<or> c = TAB"

definition html_special :: "char \<Rightarrow> bool" where
  "html_special c \<longleftrightarrow> c = CHR ''<'' \<or> c = CHR ''>'' \<or> c = QUOTE \<or> c = CHR 0x27"

lemma sb_append_html_eq: "sb_append_html sb s = sb @ concat (map html_char s)"
  by (induction s arbitrary: sb) simp_all

lemma sb_append_url_eq: "sb_append_url sb s = sb @ concat (map url_char s)"
  by (induction s arbitrary: sb) simp_all

lemma sb_append_js_eq: "sb_append_js sb s = sb @ concat (map js_char s)"
  by (induction s arbitrary: sb) simp_all

lemma html_char_cases:
  obtains "c = CHR ''&''" "html_char c = ''&amp;''" | "c = CHR ''<''" "html_char c = ''&lt;''"
  | "c = CHR ''>''" "html_char c = ''&gt;''" | "c = QUOTE" "html_char c = ''&quot;''"
  | "c = CHR 0x27" "html_char c = ''&#39;''"
  | "\<not> html_special c" "c \<noteq> CHR ''&''" "shown c" "html_char c = [c]"
  | "\<not> html_special c" "\<not> shown c" "html_char c = []"
  by (cases "c = CHR ''&''"; cases "c = CHR ''<''"; cases "c = CHR ''>''"; cases "c = QUOTE";
      cases "c = CHR 0x27"; cases "shown c") (simp_all add: html_char_def html_special_def shown_def)

lemma shown_specials: "shown (CHR ''&'')" "shown (CHR ''<'')" "shown (CHR ''>'')" "shown QUOTE" "shown (CHR 0x27)"
  by (simp_all add: shown_def code_def)

lemma html_decode_char: "html_decode (html_char c @ s) = (if shown c then [c] else []) @ html_decode s"
  by (cases rule: html_char_cases [of c]) (simp_all add: html_decode.simps [of "_ # _"] shown_specials)

lemma html_decode_escape: "html_decode (concat (map html_char s)) = filter shown s"
  by (induction s) (simp_all add: html_decode_char, simp add: html_decode.simps)

lemma html_char_plain: "\<forall>x\<in>set (html_char c). \<not> html_special x"
  by (cases rule: html_char_cases [of c]) (simp_all add: html_special_def)

subsection \<open>URLs\<close>

lemma hex_upper_value: "n < 16 \<Longrightarrow> hex_value (hex_upper n) = int n"
proof -
  have "\<forall>n\<in>{0..<16}. hex_value (hex_upper n) = int n" by code_simp
  then show "n < 16 \<Longrightarrow> hex_value (hex_upper n) = int n" by simp
qed

lemma code_nibbles: "code c div 16 < 16" "code c mod 16 < 16"
  using code_less [of c] by (simp_all add: less_mult_imp_div_less)

lemma isalnum_plain: "isalnum c \<or> c = CHR ''-'' \<or> c = CHR ''_'' \<or> c = CHR ''.'' \<or> c = CHR ''~'' \<Longrightarrow>
    c \<noteq> CHR ''+'' \<and> c \<noteq> CHR ''%'' \<and> code c \<noteq> 0 \<and> c \<noteq> CHR ''&'' \<and> c \<noteq> CHR ''=''"
  by (auto simp: isalnum_def isdigit_def isupper_def islower_def code_def)

lemma code_char [simp]: "char_of (code c) = c"
  by (simp add: code_def)

lemma url_decode_char:
  assumes "c \<noteq> NUL" and "url_decode s = Some t"
  shows "url_decode (url_char c @ s) = Some (c # t)"
proof -
  have nz: "code c \<noteq> 0" using assms(1) by (auto simp: code_eq_iff) (simp add: code_def)
  show ?thesis
  proof (cases "isalnum c \<or> c = CHR ''-'' \<or> c = CHR ''_'' \<or> c = CHR ''.'' \<or> c = CHR ''~''")
    case True
    with isalnum_plain [OF True] assms(2) show ?thesis by (auto simp: url_char_def url_emit_def)
  next
    case False
    have h: "hex_value (hex_upper (code c div 16)) = int (code c div 16)"
      "hex_value (hex_upper (code c mod 16)) = int (code c mod 16)"
      by (rule hex_upper_value code_nibbles)+
    have "nat (int (code c div 16) * 16 + int (code c mod 16)) = code c"
      by (metis div_mult_mod_eq nat_int of_nat_add of_nat_mult of_nat_numeral)
    with False h assms(2) nz show ?thesis by (simp add: url_char_def url_emit_def Let_def)
  qed
qed

lemma url_decode_encode: "NUL \<notin> set s \<Longrightarrow> url_decode (concat (map url_char s)) = Some s"
  by (induction s) (auto simp: url_decode_char)

lemma url_char_plain: "\<forall>x\<in>set (url_char c). isalnum x \<or> x \<in> set ''-_.~%''"
proof -
  have h: "\<forall>n\<in>{0..<16}. isalnum (hex_upper n)" by code_simp
  with code_nibbles [of c] have "isalnum (hex_upper (code c div 16))" "isalnum (hex_upper (code c mod 16))" by simp_all
  then show ?thesis by (auto simp: url_char_def)
qed

subsection \<open>Forms\<close>

text \<open>How a browser encodes a form: a character of a value goes as it is, if it has no meaning in a form, or
  as its two hexadecimal digits in either case; a space also as a plus sign.\<close>

definition url_codes :: "char \<Rightarrow> string \<Rightarrow> bool" where
  "url_codes c s \<longleftrightarrow>
     s = [c] \<and> c \<noteq> CHR ''+'' \<and> c \<noteq> CHR ''%'' \<and> c \<noteq> CHR ''&'' \<or>
     s = ''+'' \<and> c = CHR '' '' \<or>
     (\<exists>h l. s = [CHR ''%'', h, l] \<and> 0 \<le> hex_value h \<and> 0 \<le> hex_value l \<and> hex_value h * 16 + hex_value l = int (code c))"

inductive url_encodes :: "string \<Rightarrow> string \<Rightarrow> bool" where
  url_encodes_Nil: "url_encodes [] []"
| url_encodes_Cons: "c \<noteq> NUL \<Longrightarrow> url_codes c s \<Longrightarrow> url_encodes v u \<Longrightarrow> url_encodes (c # v) (s @ u)"

fun form_body :: "(string \<times> string) list \<Rightarrow> string" where
  "form_body [] = []"
| "form_body [(k, u)] = k @ CHR ''='' # u"
| "form_body ((k, u) # ps) = k @ CHR ''='' # u @ CHR ''&'' # form_body ps"

definition form_encode :: "(string \<times> string) list \<Rightarrow> string" where
  "form_encode ps = form_body (map (\<lambda>(k, v). (k, sb_append_url [] v)) ps)"

definition plain_key :: "string \<Rightarrow> bool" where
  "plain_key k \<longleftrightarrow> CHR ''&'' \<notin> set k \<and> CHR ''='' \<notin> set k"

lemma takeWhile_until: "c \<notin> set xs \<Longrightarrow> takeWhile (\<lambda>x. x \<noteq> c) (xs @ c # ys) = xs"
  by (induction xs) auto

lemma dropWhile_until: "c \<notin> set xs \<Longrightarrow> dropWhile (\<lambda>x. x \<noteq> c) (xs @ c # ys) = c # ys"
  by (induction xs) auto

lemma split_at_append: "c \<notin> set xs \<Longrightarrow> split_at c (xs @ c # ys) = Some (xs, ys)"
  by (simp add: split_at_def takeWhile_until dropWhile_until)

lemma takeWhile_none: "c \<notin> set xs \<Longrightarrow> takeWhile (\<lambda>x. x \<noteq> c) xs = xs"
  by (induction xs) auto

lemma dropWhile_none: "c \<notin> set xs \<Longrightarrow> dropWhile (\<lambda>x. x \<noteq> c) xs = []"
  by (induction xs) auto

lemma url_decode_code:
  assumes "c \<noteq> NUL" "url_codes c s" "url_decode u = Some v"
  shows "url_decode (s @ u) = Some (c # v)"
proof -
  have nz: "code c \<noteq> 0" using assms(1) by (auto simp: code_eq_iff) (simp add: code_def)
  from assms(2) consider "s = [c]" "c \<noteq> CHR ''+''" "c \<noteq> CHR ''%''" | "s = ''+''" "c = CHR '' ''"
    | h l where "s = [CHR ''%'', h, l]" "0 \<le> hex_value h" "0 \<le> hex_value l" "hex_value h * 16 + hex_value l = int (code c)"
    by (auto simp: url_codes_def)
  then show ?thesis
  proof cases
    case 1
    then show ?thesis using assms(3) nz by (simp add: url_emit_def)
  next
    case 2
    have "char_of (32 :: nat) = CHR '' ''" by code_simp
    with 2 show ?thesis using assms(3) by (simp add: url_emit_def)
  next
    case 3
    then show ?thesis using assms(3) nz by (simp add: url_emit_def Let_def not_less)
  qed
qed

lemma url_decode_encodes: "url_encodes v u \<Longrightarrow> url_decode u = Some v"
  by (induction rule: url_encodes.induct) (simp, rule url_decode_code)

lemma url_codes_plain: "url_codes c s \<Longrightarrow> CHR ''&'' \<notin> set s"
  by (auto simp: url_codes_def hex_value_def isdigit_def code_def)

lemma url_encodes_plain: "url_encodes v u \<Longrightarrow> CHR ''&'' \<notin> set u"
  by (induction rule: url_encodes.induct) (simp_all add: url_codes_plain)

text \<open>What the server itself puts into a URL is such an encoding.\<close>

lemma url_codes_char: "url_codes c (url_char c)"
proof (cases "isalnum c \<or> c = CHR ''-'' \<or> c = CHR ''_'' \<or> c = CHR ''.'' \<or> c = CHR ''~''")
  case True
  with isalnum_plain [OF True] show ?thesis by (auto simp: url_char_def url_codes_def)
next
  case False
  have h: "hex_value (hex_upper (code c div 16)) = int (code c div 16)"
    "hex_value (hex_upper (code c mod 16)) = int (code c mod 16)"
    by (rule hex_upper_value code_nibbles)+
  have "int (code c div 16) * 16 + int (code c mod 16) = int (code c)"
    by (metis div_mult_mod_eq of_nat_add of_nat_mult of_nat_numeral)
  with False h show ?thesis by (simp add: url_char_def url_codes_def)
qed

lemma url_encodes_own: "NUL \<notin> set v \<Longrightarrow> url_encodes v (sb_append_url [] v)"
  unfolding sb_append_url_eq
  by (induction v) (auto intro: url_encodes.intros url_codes_char)

lemma encoded_value_pair:
  assumes "plain_key k" and "url_encodes v u"
  shows "encoded_value (k @ CHR ''='' # u @ CHR ''&'' # rest) key =
      (if k = key then Some v else encoded_value rest key)"
    and "encoded_value (k @ CHR ''='' # u) key = (if k = key then Some v else None)"
proof -
  let ?pair = "k @ CHR ''='' # u"
  have p: "CHR ''&'' \<notin> set ?pair" using assms(1) url_encodes_plain [OF assms(2)] by (simp add: plain_key_def)
  have k: "split_at (CHR ''='') ?pair = Some (k, u)"
    using assms(1) by (intro split_at_append) (simp add: plain_key_def)
  note d = url_decode_encodes [OF assms(2)]
  show "encoded_value (k @ CHR ''='' # u @ CHR ''&'' # rest) key =
      (if k = key then Some v else encoded_value rest key)"
    using takeWhile_until [OF p, of rest] dropWhile_until [OF p, of rest] k d
    by (subst encoded_value.simps) simp
  show "encoded_value (k @ CHR ''='' # u) key = (if k = key then Some v else None)"
  proof -
    define pair where "pair = ?pair"
    have f: "takeWhile (\<lambda>x. x \<noteq> CHR ''&'') pair = pair" "dropWhile (\<lambda>x. x \<noteq> CHR ''&'') pair = []"
      "split_at (CHR ''='') pair = Some (k, u)" "pair \<noteq> []"
      using takeWhile_none [OF p] dropWhile_none [OF p] k by (simp_all only: pair_def) simp
    have "encoded_value pair key = (if k = key then Some v else None)"
      by (subst encoded_value.simps) (simp add: f d encoded_value.simps [of "[]"])
    then show ?thesis by (simp add: pair_def)
  qed
qed

definition coded_form :: "(string \<times> string) list \<Rightarrow> (string \<times> string) list \<Rightarrow> bool" where
  "coded_form fields coded \<longleftrightarrow>
     list_all2 (\<lambda>(k, v) (k', u). k' = k \<and> plain_key k \<and> url_encodes v u) fields coded"

lemma encoded_value_coded: "coded_form fields coded \<Longrightarrow> encoded_value (form_body coded) key = map_of fields key"
proof (induction coded arbitrary: fields rule: form_body.induct)
  case 1
  then show ?case by (simp add: coded_form_def encoded_value.simps [of "[]"])
next
  case (2 k u)
  then obtain v where "fields = [(k, v)]" "plain_key k" "url_encodes v u"
    by (auto simp: coded_form_def list_all2_Cons2)
  then show ?case by (simp add: encoded_value_pair)
next
  case (3 k u p ps)
  then obtain v vs where "fields = (k, v) # vs" "plain_key k" "url_encodes v u" "coded_form vs (p # ps)"
    by (auto simp: coded_form_def list_all2_Cons2)
  then show ?case using "3.IH" by (simp add: encoded_value_pair)
qed

lemma encoded_value_form:
  "\<forall>(k, v)\<in>set ps. plain_key k \<and> NUL \<notin> set v \<Longrightarrow> encoded_value (form_encode ps) key = map_of ps key"
  unfolding form_encode_def
  by (rule encoded_value_coded) (auto simp: coded_form_def list_all2_map2 url_encodes_own intro!: list.rel_refl_strong)

subsection \<open>Base64\<close>

definition b64_digit :: "nat \<Rightarrow> char" where
  "b64_digit n = char_of
     (if n < 26 then 65 + n else if n < 52 then 71 + n else if n < 62 then n - 4 else if n = 62 then 43 else 47)"

fun b64_encode :: "string \<Rightarrow> string" where
  "b64_encode [] = []"
| "b64_encode [x] = [b64_digit (code x div 4), b64_digit (code x mod 4 * 16), CHR ''='', CHR ''='']"
| "b64_encode [x, y] = [b64_digit (code x div 4), b64_digit (code x mod 4 * 16 + code y div 16),
     b64_digit (code y mod 16 * 4), CHR ''='']"
| "b64_encode (x # y # z # r) = [b64_digit (code x div 4), b64_digit (code x mod 4 * 16 + code y div 16),
     b64_digit (code y mod 16 * 4 + code z div 64), b64_digit (code z mod 64)] @ b64_encode r"

lemma b64_digit_value:
  assumes "n < 64"
  shows "b64_value (b64_digit n) = int n" "b64_digit n \<noteq> CHR ''=''" "\<not> isspace (b64_digit n)"
proof -
  let ?k = "if n < 26 then 65 + n else if n < 52 then 71 + n else if n < 62 then n - 4 else if n = 62 then 43 else 47"
  have c: "code (b64_digit n) = ?k" using assms by (simp add: b64_digit_def)
  have p: "b64_digit n = CHR ''+'' \<longleftrightarrow> code (b64_digit n) = 43" "b64_digit n = CHR ''/'' \<longleftrightarrow> code (b64_digit n) = 47"
    by (simp_all only: code_eq_iff [of "b64_digit n"]) (simp_all add: code_def)
  show "b64_value (b64_digit n) = int n"
    using assms unfolding b64_value_def isupper_def islower_def isdigit_def p c by auto
  show "b64_digit n \<noteq> CHR ''=''" using assms c by (auto simp: code_eq_iff [of "b64_digit n"]) (auto simp: code_def)
  show "\<not> isspace (b64_digit n)" using assms c by (auto simp: isspace_def)
qed

lemma mod_div_mod:
  fixes x d :: nat
  assumes "(4294967296 :: nat) = d * 256 * e"
  shows "x mod 4294967296 div d mod 256 = x div d mod 256"
proof -
  have d: "0 < d" "0 < e" using assms by (auto intro!: Nat.gr0I)
  have "x mod (d * (256 * e)) div d = x div d mod (256 * e)"
    using d by (simp add: mod_mult2_eq)
  then show ?thesis unfolding assms mult.assoc by (simp add: mod_mod_cancel)
qed

lemma b64_steps:
  fixes v :: nat
  assumes "v < 64"
  defines "A acc \<equiv> (acc * 64 + v) mod 4294967296"
  shows "b64_loop m acc 0 out (b64_digit v # cs) = b64_loop m (A acc) 6 out cs"
    and "length out + 1 < m \<Longrightarrow> b64_loop m acc 6 out (b64_digit v # cs) =
      b64_loop m (A acc) 4 (out @ [char_of (A acc div 16 mod 256)]) cs"
    and "length out + 1 < m \<Longrightarrow> b64_loop m acc 4 out (b64_digit v # cs) =
      b64_loop m (A acc) 2 (out @ [char_of (A acc div 4 mod 256)]) cs"
    and "length out + 1 < m \<Longrightarrow> b64_loop m acc 2 out (b64_digit v # cs) =
      b64_loop m (A acc) 0 (out @ [char_of (A acc div 1 mod 256)]) cs"
  using b64_digit_value [OF assms(1)] by (simp_all add: Let_def A_def)

lemma b64_loop_length: "b64_loop m acc n out cs = Some r \<Longrightarrow> length out < m \<Longrightarrow> length r < m"
  by (induction m acc n out cs rule: b64_loop.induct) (auto simp: Let_def split: if_splits)

lemma b64_end: "b64_loop m acc n out [] = Some out" "b64_loop m acc n out (CHR ''='' # cs) = Some out"
  by simp_all

declare b64_loop.simps [simp del]

lemma b64_bytes:
  fixes acc p q r s :: nat
  defines "a1 \<equiv> (acc * 64 + p) mod 4294967296"
  defines "a2 \<equiv> (a1 * 64 + q) mod 4294967296"
  defines "a3 \<equiv> (a2 * 64 + r) mod 4294967296"
  defines "a4 \<equiv> (a3 * 64 + s) mod 4294967296"
  shows "a2 div 16 mod 256 = (p * 64 + q) div 16 mod 256"
    and "a3 div 4 mod 256 = (q * 64 + r) div 4 mod 256"
    and "a4 div 1 mod 256 = (r * 64 + s) mod 256"
proof -
  have two: "((x * 64 + u) mod 4294967296 * 64 + v) mod 4294967296 = (x * 4096 + (u * 64 + v)) mod 4294967296"
    for x u v :: nat
  proof -
    have "((x * 64 + u) mod 4294967296 * 64 + v) mod 4294967296 = ((x * 64 + u) * 64 + v) mod 4294967296"
      by (metis mod_add_left_eq mod_mult_left_eq)
    then show ?thesis by (simp add: algebra_simps)
  qed
  have "a2 div 16 mod 256 = (acc * 4096 + (p * 64 + q)) div 16 mod 256"
    unfolding a2_def a1_def two by (rule mod_div_mod [where e = "1048576"]) simp
  also have "\<dots> = (acc * 256 + (p * 64 + q) div 16) mod 256"
    using div_mult_self3 [of 16 "acc * 256" "p * 64 + q"] by (simp add: mult.commute [of acc])
  finally show "a2 div 16 mod 256 = (p * 64 + q) div 16 mod 256" by simp
  have "a3 div 4 mod 256 = (a1 * 4096 + (q * 64 + r)) div 4 mod 256"
    unfolding a3_def a2_def two by (rule mod_div_mod [where e = "4194304"]) simp
  also have "\<dots> = (a1 * 1024 + (q * 64 + r) div 4) mod 256"
    using div_mult_self3 [of 4 "a1 * 1024" "q * 64 + r"] by (simp add: mult.commute [of a1])
  also have "a1 * 1024 = a1 * 4 * 256" by simp
  also have "(a1 * 4 * 256 + (q * 64 + r) div 4) mod 256 = (q * 64 + r) div 4 mod 256" by (rule mod_mult_self3)
  finally show "a3 div 4 mod 256 = (q * 64 + r) div 4 mod 256" by simp
  have "a4 div 1 mod 256 = (a2 * 4096 + (r * 64 + s)) div 1 mod 256"
    unfolding a4_def a3_def two by (rule mod_div_mod [where e = "16777216"]) simp
  also have "a2 * 4096 = a2 * 16 * 256" by simp
  also have "(a2 * 16 * 256 + (r * 64 + s)) div 1 mod 256 = (r * 64 + s) mod 256"
    unfolding div_by_1 by (rule mod_mult_self3)
  finally show "a4 div 1 mod 256 = (r * 64 + s) mod 256" by simp
qed

lemma b64_split:
  fixes x y z :: nat
  assumes "x < 256" "y < 256" "z < 256"
  shows "(x div 4 * 64 + (x mod 4 * 16 + y div 16)) div 16 mod 256 = x"
    and "((x mod 4 * 16 + y div 16) * 64 + (y mod 16 * 4 + z div 64)) div 4 mod 256 = y"
    and "((y mod 16 * 4 + z div 64) * 64 + z mod 64) mod 256 = z"
    and "x div 4 < 64" "x mod 4 * 16 + y div 16 < 64" "y mod 16 * 4 + z div 64 < 64" "z mod 64 < 64"
proof -
  have q: "y div 16 < 16" "z div 64 < 4" "x div 4 < 64" using assms by (simp_all add: less_mult_imp_div_less)
  have "x div 4 * 64 + (x mod 4 * 16 + y div 16) = x * 16 + y div 16"
    using div_mult_mod_eq [of x 4] by linarith
  then have "(x div 4 * 64 + (x mod 4 * 16 + y div 16)) div 16 = x" using q(1) by simp
  then show "(x div 4 * 64 + (x mod 4 * 16 + y div 16)) div 16 mod 256 = x" using assms(1) by simp
  have "(x mod 4 * 16 + y div 16) * 64 + (y mod 16 * 4 + z div 64) = (x mod 4 * 256 + y) * 4 + z div 64"
  proof -
    have "y = y div 16 * 16 + y mod 16" by simp
    then show ?thesis by (simp only: distrib_right mult.assoc)
  qed
  then have "((x mod 4 * 16 + y div 16) * 64 + (y mod 16 * 4 + z div 64)) div 4 = x mod 4 * 256 + y"
    using q(2) by simp
  then show "((x mod 4 * 16 + y div 16) * 64 + (y mod 16 * 4 + z div 64)) div 4 mod 256 = y"
    using assms(2) by simp
  have "(k * 4 + z div 64) * 64 + z mod 64 = k * 256 + z" for k
    using div_mult_mod_eq [of z 64] by (simp add: distrib_right)
  then show "((y mod 16 * 4 + z div 64) * 64 + z mod 64) mod 256 = z" using assms(3) by simp
  have "x mod 4 < 4" "y mod 16 < 16" by simp_all
  then show "x div 4 < 64" "x mod 4 * 16 + y div 16 < 64" "y mod 16 * 4 + z div 64 < 64" "z mod 64 < 64"
    using q by simp_all
qed

lemma b64_group:
  assumes "length out + 3 < m" "p < 64" "q < 64" "u < 64" "w < 64"
    and bytes: "(p * 64 + q) div 16 mod 256 = code x" "(q * 64 + u) div 4 mod 256 = code y"
    "(u * 64 + w) mod 256 = code z"
  shows "\<exists>acc'. b64_loop m acc 0 out (b64_digit p # b64_digit q # b64_digit u # b64_digit w # cs) =
    b64_loop m acc' 0 (out @ [x, y, z]) cs"
proof -
  define a1 where "a1 = (acc * 64 + p) mod 4294967296"
  define a2 where "a2 = (a1 * 64 + q) mod 4294967296"
  define a3 where "a3 = (a2 * 64 + u) mod 4294967296"
  define a4 where "a4 = (a3 * 64 + w) mod 4294967296"
  have b: "a2 div 16 mod 256 = code x" "a3 div 4 mod 256 = code y" "a4 div 1 mod 256 = code z"
    using bytes b64_bytes(1) [of acc p q] b64_bytes(2) [of acc p q u] b64_bytes(3) [of acc p q u w]
    by (simp_all only: a1_def a2_def a3_def a4_def)
  note st = b64_steps(1) [OF assms(2), where acc = acc, folded a1_def]
    b64_steps(2) [OF assms(3), where acc = a1, folded a2_def]
    b64_steps(3) [OF assms(4), where acc = a2, folded a3_def] b64_steps(4) [OF assms(5), where acc = a3, folded a4_def]
  show ?thesis
    using assms(1) b by (intro exI [of _ a4]) (simp add: st)
qed

lemma b64_roundtrip:
  "length out + length xs < m \<Longrightarrow> b64_loop m acc 0 out (b64_encode xs) = Some (out @ xs)"
proof (induction xs arbitrary: out acc rule: b64_encode.induct)
  case (2 x)
  have lt: "code x < 256" "(0::nat) < 256" "(0::nat) < 256" by simp_all
  note v = b64_split [OF lt]
  define p q where "p = code x div 4" and "q = code x mod 4 * 16"
  have pq: "p < 64" "q < 64" "(p * 64 + q) div 16 mod 256 = code x" using v(1,4,5) by (simp_all add: p_def q_def)
  define a1 where "a1 = (acc * 64 + p) mod 4294967296"
  define a2 where "a2 = (a1 * 64 + q) mod 4294967296"
  have "a2 div 16 mod 256 = code x" using b64_bytes(1) [of acc p q] pq by (simp add: a1_def a2_def)
  moreover have "b64_encode [x] = [b64_digit p, b64_digit q, CHR ''='', CHR ''='']" by (simp add: p_def q_def)
  ultimately show ?case
    using 2 by (simp add: b64_end b64_steps(1) [OF pq(1), where acc = acc, folded a1_def] b64_steps(2) [OF pq(2), where acc = a1, folded a2_def])
next
  case (3 x y)
  have lt: "code x < 256" "code y < 256" "(0::nat) < 256" by simp_all
  note v = b64_split [OF lt]
  define p q u where "p = code x div 4" and "q = code x mod 4 * 16 + code y div 16" and "u = code y mod 16 * 4"
  have pq: "p < 64" "q < 64" "u < 64" "(p * 64 + q) div 16 mod 256 = code x" "(q * 64 + u) div 4 mod 256 = code y"
    using v(1,2,4,5,6) by (simp_all add: p_def q_def u_def)
  define a1 where "a1 = (acc * 64 + p) mod 4294967296"
  define a2 where "a2 = (a1 * 64 + q) mod 4294967296"
  define a3 where "a3 = (a2 * 64 + u) mod 4294967296"
  have "a2 div 16 mod 256 = code x" "a3 div 4 mod 256 = code y"
    using b64_bytes(1) [of acc p q] b64_bytes(2) [of acc p q u] pq(4,5) by (simp_all only: a1_def a2_def a3_def)
  note bytes = this
  have enc: "b64_encode [x, y] = [b64_digit p, b64_digit q, b64_digit u, CHR ''='']"
    by (simp add: p_def q_def u_def)
  have "length out + 2 < m" using 3 by simp
  then show ?case
    unfolding enc using bytes by (simp add: b64_end b64_steps(1) [OF pq(1), where acc = acc, folded a1_def] b64_steps(2) [OF pq(2), where acc = a1, folded a2_def]
        b64_steps(3) [OF pq(3), where acc = a2, folded a3_def])
next
  case (4 x y z r)
  have lt: "code x < 256" "code y < 256" "code z < 256" by simp_all
  note v = b64_split [OF lt]
  from 4(2) have "length out + 3 < m" by simp
  from b64_group [OF this v(4-7) v(1-3), of acc "b64_encode r"] obtain acc' where
    "b64_loop m acc 0 out (b64_encode (x # y # z # r)) = b64_loop m acc' 0 (out @ [x, y, z]) (b64_encode r)"
    by auto
  with 4(1) [of "out @ [x, y, z]" acc'] 4(2) show ?case by (simp del: b64_encode.simps)
qed (simp add: b64_end)

lemma decode_base64_encode: "length xs < m \<Longrightarrow> decode_base64 (b64_encode xs) m = Some xs"
  by (simp add: decode_base64_def b64_roundtrip)

subsection \<open>Comparison in constant time\<close>

lemma foldl_or_zero:
  fixes d :: u32
  shows "foldl (\<lambda>d i. d OR f i) d is = 0 \<longleftrightarrow> d = 0 \<and> (\<forall>i\<in>set is. f i = 0)"
  by (induction "is" arbitrary: d) (auto simp: or_eq_0_iff)

lemma xor_zero_nat: "(m :: nat) XOR n = 0 \<Longrightarrow> m = n"
  by (metis xor.assoc xor.left_neutral xor.right_neutral xor_self_eq)

lemma xor_zero_u32: "(m :: u32) XOR n = 0 \<Longrightarrow> m = n"
  by (metis xor.assoc xor.left_neutral xor.right_neutral xor_self_eq)

lemma unat_of_small: "n < 2 ^ 32 \<Longrightarrow> unat (of_nat n :: u32) = n"
  by (simp add: unat_of_nat)

lemma byte_at_eq: "byte_at a i = byte_at b i \<Longrightarrow> i < length a \<Longrightarrow> i < length b \<Longrightarrow> a ! i = b ! i"
proof -
  assume h: "byte_at a i = byte_at b i" "i < length a" "i < length b"
  have "unat (of_nat (code c) :: u32) = code c" for c
    by (intro unat_of_small less_trans [OF code_less [of c]]) simp
  with h show ?thesis by (metis byte_at_def code_eq_iff)
qed

lemma constant_time_equal_iff:
  assumes "length a < 2 ^ 32" and "length b < 2 ^ 32"
  shows "constant_time_equal a b \<longleftrightarrow> a = b"
proof
  assume h: "constant_time_equal a b"
  then have len: "(of_nat (length a XOR length b) :: u32) = 0"
    and eq: "\<forall>i<max (length a) (length b). byte_at a i XOR byte_at b i = 0"
    by (auto simp: constant_time_equal_def foldl_or_zero)
  have "take_bit 32 (length a XOR length b) = length a XOR length b"
    using assms by (simp only: take_bit_xor take_bit_nat_eq_self)
  then have "length a XOR length b < 2 ^ 32" by (simp only: take_bit_nat_eq_self_iff)
  from unat_of_small [OF this] have "length a XOR length b = 0" unfolding len by simp
  then have l: "length a = length b" by (rule xor_zero_nat)
  show "a = b"
  proof (rule nth_equalityI [OF l])
    fix i assume "i < length a"
    with eq l have "byte_at a i XOR byte_at b i = 0" by simp
    then have "byte_at a i = byte_at b i" by (rule xor_zero_u32)
    with \<open>i < length a\<close> l show "a ! i = b ! i" by (intro byte_at_eq) simp_all
  qed
next
  assume "a = b"
  then show "constant_time_equal a b" by (simp only: constant_time_equal_def foldl_or_zero) simp
qed

subsection \<open>The log view, scripts and lines\<close>

definition log_plain :: "char \<Rightarrow> bool" where
  "log_plain c \<longleftrightarrow> c \<noteq> CHR ''<'' \<and> c \<noteq> CHR ''>'' \<and> (32 \<le> code c \<or> c = NL \<or> c = TAB)"

lemma log_char_plain: "list_all log_plain (log_char c)"
proof -
  have "list_all log_plain ''&amp;''" "list_all log_plain ''&lt;''" "list_all log_plain ''&gt;''"
    by (simp_all add: log_plain_def code_def)
  then show ?thesis by (simp add: log_char_def) (simp add: log_plain_def)
qed

lemma sb_append_log_html_plain:
  "\<exists>e. sb_append_log_html sb t = sb @ e \<and> list_all log_plain e"
proof (induction sb t rule: sb_append_log_html.induct)
  case (1 sb t)
  show ?case
  proof (cases t)
    case Nil
    then show ?thesis by (simp add: sb_append_log_html.simps)
  next
    case (Cons c cs)
    show ?thesis
    proof (cases "c = CHR 0x1B \<and> cs \<noteq> [] \<and> hd cs = CHR ''[''")
      case True
      with 1(1) [OF Cons] Cons show ?thesis by (subst sb_append_log_html.simps) simp
    next
      case False
      with 1(2) [OF Cons] obtain e where
        "sb_append_log_html (sb @ log_char c) cs = (sb @ log_char c) @ e" "list_all log_plain e" by blast
      with False Cons log_char_plain [of c] show ?thesis
        by (subst sb_append_log_html.simps) (auto intro!: exI [of _ "log_char c @ e"])
    qed
  qed
qed

text \<open>What JavaScript reads in a single-quoted string literal.\<close>

fun js_decode :: "string \<Rightarrow> string" where
  "js_decode [] = []"
| "js_decode [c] = [c]"
| "js_decode (c # d # r) =
     (if c \<noteq> CHR 0x5C then c # js_decode (d # r)
      else if d = CHR ''x'' then
        (case r of h # l # r' \<Rightarrow> char_of (nat (hex_value h * 16 + hex_value l)) # js_decode r' | _ \<Rightarrow> [])
      else d # js_decode r)"

lemma hex_lower_value: "n < 16 \<Longrightarrow> hex_value (hex_lower n) = int n \<and> isalnum (hex_lower n)"
proof -
  have "\<forall>n\<in>{0..<16}. hex_value (hex_lower n) = int n \<and> isalnum (hex_lower n)" by code_simp
  then show "n < 16 \<Longrightarrow> hex_value (hex_lower n) = int n \<and> isalnum (hex_lower n)" by simp
qed

lemma nibbles_join: "nat (int (code c div 16) * 16 + int (code c mod 16)) = code c"
  by (metis div_mult_mod_eq nat_int of_nat_add of_nat_mult of_nat_numeral)

lemma js_decode_char: "js_decode (js_char c @ s) = c # js_decode s"
proof -
  consider "c = CHR 0x5C \<or> c = CHR 0x27"
    | "c \<noteq> CHR 0x5C" "c \<noteq> CHR 0x27" "code c < 32 \<or> c = CHR ''<'' \<or> c = CHR ''>'' \<or> c = CHR ''&''"
    | "c \<noteq> CHR 0x5C" "c \<noteq> CHR 0x27" "\<not> (code c < 32 \<or> c = CHR ''<'' \<or> c = CHR ''>'' \<or> c = CHR ''&'')" by blast
  then show ?thesis
  proof cases
    case 1
    then show ?thesis by (auto simp: js_char_def)
  next
    case 2
    then have "js_char c = [CHR 0x5C, CHR ''x'', hex_lower (code c div 16), hex_lower (code c mod 16)]"
      by (simp add: js_char_def)
    moreover have "hex_value (hex_lower (code c div 16)) = int (code c div 16)"
      "hex_value (hex_lower (code c mod 16)) = int (code c mod 16)"
      using hex_lower_value code_nibbles by blast+
    ultimately show ?thesis by (simp add: nibbles_join)
  next
    case 3
    then have "js_char c = [c]" by (simp add: js_char_def)
    with 3 show ?thesis by (cases s) simp_all
  qed
qed

lemma js_decode_escape: "js_decode (concat (map js_char s)) = s"
  by (induction s) (simp_all add: js_decode_char)

definition js_plain :: "char \<Rightarrow> bool" where
  "js_plain x \<longleftrightarrow> 32 \<le> code x \<and> x \<noteq> CHR ''<'' \<and> x \<noteq> CHR ''>'' \<and> x \<noteq> CHR ''&''"

lemma isalnum_js_plain: "isalnum c \<Longrightarrow> js_plain c"
  by (auto simp: js_plain_def isalnum_def isdigit_def isupper_def islower_def) (auto simp: code_def)

lemma js_char_plain: "\<forall>x\<in>set (js_char c). js_plain x"
proof -
  have "js_plain (hex_lower (code c div 16))" "js_plain (hex_lower (code c mod 16))"
    using hex_lower_value code_nibbles isalnum_js_plain by blast+
  moreover have "js_plain (CHR 0x5C)" "js_plain (CHR ''x'')" "js_plain (CHR 0x27)"
    by (simp_all add: js_plain_def code_def)
  ultimately show ?thesis by (simp add: js_char_def) (simp add: js_plain_def)
qed

lemma normalize_newlines_no_cr: "CR \<notin> set (normalize_newlines s)"
  by (induction s rule: normalize_newlines.induct) auto

lemma normalize_newlines_id: "CR \<notin> set s \<Longrightarrow> normalize_newlines s = s"
  by (induction s rule: normalize_newlines.induct) auto

lemma utf8_start_le: "utf8_start t n s \<le> s"
  by (induction s) auto

lemma utf8_complete_le: "utf8_complete_length t n \<le> n"
  using utf8_start_le [of t n n] by (auto simp: utf8_complete_length_def Let_def)

subsection \<open>Properties\<close>

text \<open>Nothing a camera, a file name or a user supplies can become markup: the text that the page,
  the log view and a script receive holds no angle bracket, the page text no quote either, a
  browser reads back exactly the displayable characters of the original from the page text and
  exactly the original from the script string, and no control character breaks the script.\<close>

theorem web_escaping:
  "(\<exists>e. sb_append_html sb s = sb @ e \<and> list_all (\<lambda>x. \<not> html_special x) e \<and> html_decode e = filter shown s)
   \<and> (\<exists>e. sb_append_log_html sb s = sb @ e \<and> CHR ''<'' \<notin> set e \<and> CHR ''>'' \<notin> set e)
   \<and> (\<exists>e. sb_append_js sb s = sb @ e \<and> js_decode e = s
        \<and> list_all js_plain e)"
proof (intro conjI)
  show "\<exists>e. sb_append_html sb s = sb @ e \<and> list_all (\<lambda>x. \<not> html_special x) e \<and> html_decode e = filter shown s"
    using html_char_plain by (auto simp: sb_append_html_eq html_decode_escape list_all_iff)
  show "\<exists>e. sb_append_log_html sb s = sb @ e \<and> CHR ''<'' \<notin> set e \<and> CHR ''>'' \<notin> set e"
    using sb_append_log_html_plain [of sb s] by (auto simp: list_all_iff log_plain_def)
  show "\<exists>e. sb_append_js sb s = sb @ e \<and> js_decode e = s \<and> list_all js_plain e"
    using js_char_plain by (auto simp: sb_append_js_eq js_decode_escape list_all_iff)
qed

text \<open>C18: forms and credentials arrive as they were sent. From a body that encodes any list of fields, in
  any of the ways a browser may write each character (as it is, in hexadecimal, a space as a plus sign),
  the lookup of a key returns the value of the first field of that name, exactly, and nothing when there is
  none; what the server writes into its own URLs is one of these encodings; and the Base64 form of
  credentials that fit the buffer is decoded to exactly these credentials.\<close>

theorem web_form_roundtrip:
  assumes "coded_form fields coded"
  shows "encoded_value (form_body coded) key = map_of fields key
    \<and> (NUL \<notin> set v \<longrightarrow> url_encodes v (sb_append_url [] v) \<and> url_decode (sb_append_url [] v) = Some v)
    \<and> (length credentials < n \<longrightarrow> decode_base64 (b64_encode credentials) n = Some credentials)"
  using encoded_value_coded [OF assms] url_encodes_own url_decode_encodes decode_base64_encode by blast

theorem web_form_roundtrip_witness:
  "encoded_value ''user=a%26b&path=/x+y%2bz%20%3D'' ''path'' = Some ''/x y+z =''
   \<and> decode_base64 (b64_encode ''admin:secret'') 64 = Some ''admin:secret''
   \<and> url_decode (sb_append_url [] ''a b'') = Some ''a b''"
proof -
  have c: "url_codes c [c]" if "c \<noteq> CHR ''+''" "c \<noteq> CHR ''%''" "c \<noteq> CHR ''&''" for c
    using that by (simp add: url_codes_def)
  have h: "url_codes (CHR ''&'') ''%26''" "url_codes (CHR ''+'') ''%2b''" "url_codes (CHR ''='') ''%3D''" "url_codes (CHR '' '') ''%20''"
    "url_codes (CHR '' '') ''+''"
    by (auto simp: url_codes_def hex_value_def isdigit_def code_def)
  have e: "url_encodes ''a&b'' (''a'' @ ''%26'' @ ''b'' @ [])"
    "url_encodes ''/x y+z ='' (''/'' @ ''x'' @ ''+'' @ ''y'' @ ''%2b'' @ ''z'' @ ''%20'' @ ''%3D'' @ [])"
    by (intro url_encodes.intros c h; simp)+
  then have "coded_form [(''user'', ''a&b''), (''path'', ''/x y+z ='')] [(''user'', ''a%26b''), (''path'', ''/x+y%2bz%20%3D'')]"
    by (simp add: coded_form_def plain_key_def)
  from web_form_roundtrip [OF this, of "''path''" "''a b''" "''admin:secret''" 64] show ?thesis by simp
qed

end
