(* ===== verification/Web_Session.thy ===== *)
theory Web_Session
  imports Web_Text
begin

text \<open>
  The login sessions of the web server, \<^verbatim>\<open>web/mt11-web.c\<close>: a small file of token and expiry lines,
  headed by the boot it belongs to, that the workers read and rewrite under a lock. The file is its
  contents; the lock makes each operation atomic. The boot id, the monotonic clock, the random
  bytes and what the system calls answer are parameters.
\<close>

definition SESSION_LIFETIME_SECONDS :: nat where "SESSION_LIFETIME_SECONDS = 24 * 60 * 60"
definition MAX_SESSIONS :: nat where "MAX_SESSIONS = 16"
definition MAX_SESSION_FILE :: nat where "MAX_SESSION_FILE = MAX_SESSIONS * 128"

record session_entry =
  token :: string
  expiry :: nat

definition valid_token_text :: "string \<Rightarrow> bool" where
  "valid_token_text t \<longleftrightarrow> length t = 64 \<and> list_all (\<lambda>c. \<not> (hex_value c < 0 \<or> isupper c)) t"

text \<open>\<^verbatim>\<open>random_token\<close> prints 32 random bytes (None when the source fails).\<close>

definition random_token :: "bytes option \<Rightarrow> string option" where
  "random_token source =
     map_option (\<lambda>bs. concat (map (\<lambda>b. [hex_lower (unat b div 16), hex_lower (unat b mod 16)]) (take 32 bs))) source"

text \<open>\<^verbatim>\<open>read_boot_id\<close> on the contents of the kernel's file, of which at most 63 bytes are read.\<close>

definition read_boot_id :: "string option \<Rightarrow> string option" where
  "read_boot_id file =
     (case file of
        None \<Rightarrow> None
      | Some contents \<Rightarrow>
          let output = take 63 contents in
          if length output = 63 \<or> length output < 33 \<or> last output \<noteq> NL then None
          else
            let boot = c_str (butlast output) in
            if list_all (\<lambda>c. \<not> (hex_value c < 0 \<and> c \<noteq> CHR ''-'')) boot then Some boot else None)"

definition session_line :: "nat \<Rightarrow> string \<Rightarrow> session_entry option" where
  "session_line now line =
     (case split_at (CHR '' '') line of
        None \<Rightarrow> None
      | Some (tok, rest) \<Rightarrow>
          if \<not> valid_token_text tok \<or> rest = [] \<or> \<not> isdigit (hd rest) then None
          else
            case strtoul rest of
              None \<Rightarrow> None
            | Some (e, end, overflow) \<Rightarrow>
                if overflow \<or> end \<noteq> [] \<or> e \<le> now then None else Some \<lparr>token = tok, expiry = e\<rparr>)"

function load_lines :: "nat \<Rightarrow> nat \<Rightarrow> string \<Rightarrow> session_entry list" where
  "load_lines now capacity s =
     (if s = [] \<or> capacity = 0 then []
      else case split_at NL s of
        None \<Rightarrow> []
      | Some (line, rest) \<Rightarrow>
          (case session_line now line of
             None \<Rightarrow> load_lines now capacity rest
           | Some e \<Rightarrow> e # load_lines now (capacity - 1) rest))"
  by pat_completeness auto
termination
proof (relation "measure (\<lambda>(now, n, s). length s)", goal_cases)
  case (2 now n s lr line rest)
  then show ?case
    using length_dropWhile_le [of "\<lambda>c. c \<noteq> NL" s] by (cases s) (auto simp: split_at_def split: if_splits)
next
  case (3 now n s lr line rest e)
  then show ?case
    using length_dropWhile_le [of "\<lambda>c. c \<noteq> NL" s] by (cases s) (auto simp: split_at_def split: if_splits)
qed simp

declare load_lines.simps [simp del]

text \<open>None is a failure to read; the sessions must then not be rewritten. A file of another boot
  holds none.\<close>

definition load_sessions :: "string \<Rightarrow> string option \<Rightarrow> nat \<Rightarrow> session_entry list option" where
  "load_sessions contents boot now =
     (if MAX_SESSION_FILE < length contents then None
      else case boot of
        None \<Rightarrow> None
      | Some b \<Rightarrow>
          (case split_at NL (c_str contents) of
             None \<Rightarrow> Some []
           | Some (line, rest) \<Rightarrow>
               if line \<noteq> ''boot '' @ b then Some [] else Some (load_lines now MAX_SESSIONS rest)))"

definition entry_text :: "session_entry \<Rightarrow> string" where
  "entry_text e = token e @ CHR '' '' # dec_nat (expiry e) @ [NL]"

definition sessions_text :: "string \<Rightarrow> session_entry list \<Rightarrow> string" where
  "sessions_text b entries = ''boot '' @ b @ NL # concat (map entry_text entries)"

text \<open>What can go wrong while storing, and what it leaves in the file.\<close>

datatype store_failure = Truncate_fails | Write_stops nat | Sync_fails

definition store_sessions ::
  "string option \<Rightarrow> session_entry list \<Rightarrow> store_failure option \<Rightarrow> string \<Rightarrow> bool \<times> string" where
  "store_sessions boot entries failure contents =
     (case boot of
        None \<Rightarrow> (False, contents)
      | Some b \<Rightarrow>
          let t = sessions_text b entries in
          if MAX_SESSION_FILE < length t then (False, contents)
          else case failure of
            None \<Rightarrow> (True, t)
          | Some Truncate_fails \<Rightarrow> (False, contents)
          | Some (Write_stops n) \<Rightarrow> (False, take n t)
          | Some Sync_fails \<Rightarrow> (False, t))"

text \<open>What one operation meets: the boot id, the clock at its start and when it stamps the expiry, the
  random source, whether the session file could be opened and locked, and a storing failure.\<close>

record session_env =
  boot :: "string option"
  clock :: nat
  stamp :: nat
  entropy :: "bytes option"
  opened :: bool
  failure :: "store_failure option"

definition create_session :: "session_env \<Rightarrow> string \<Rightarrow> string option \<times> string" where
  "create_session env contents =
     (case random_token (entropy env) of
        None \<Rightarrow> (None, contents)
      | Some t \<Rightarrow>
          if \<not> opened env then (None, contents)
          else case load_sessions contents (boot env) (clock env) of
            None \<Rightarrow> (None, contents)
          | Some entries \<Rightarrow>
              let kept = (if length entries = MAX_SESSIONS then tl entries else entries);
                  (ok, contents') = store_sessions (boot env)
                    (kept @ [\<lparr>token = t, expiry = stamp env + SESSION_LIFETIME_SECONDS\<rparr>]) (failure env) contents
              in (if ok then Some t else None, contents'))"

definition session_valid :: "session_env \<Rightarrow> string \<Rightarrow> string \<Rightarrow> bool" where
  "session_valid env contents t =
     (if \<not> valid_token_text t then False
      else if \<not> opened env then False
      else case load_sessions contents (boot env) (clock env) of
        None \<Rightarrow> False
      | Some entries \<Rightarrow> list_ex (\<lambda>e. constant_time_equal (token e) t) entries)"

definition destroy_session :: "session_env \<Rightarrow> string \<Rightarrow> string \<Rightarrow> bool \<times> string" where
  "destroy_session env contents t =
     (if \<not> valid_token_text t then (True, contents)
      else if \<not> opened env then (False, contents)
      else case load_sessions contents (boot env) (clock env) of
        None \<Rightarrow> (False, contents)
      | Some entries \<Rightarrow>
          let kept = filter (\<lambda>e. token e \<noteq> t) entries in
          if length kept = length entries then (True, contents)
          else store_sessions (boot env) kept (failure env) contents)"

subsection \<open>Reading back what was stored\<close>

definition unspaced :: "string \<Rightarrow> bool" where
  "unspaced s \<longleftrightarrow> CHR '' '' \<notin> set s \<and> NL \<notin> set s \<and> NUL \<notin> set s"

definition entry_ok :: "session_entry \<Rightarrow> bool" where
  "entry_ok e \<longleftrightarrow> valid_token_text (token e) \<and> expiry e < 2 ^ 64"

definition boot_ok :: "string \<Rightarrow> bool" where
  "boot_ok b \<longleftrightarrow> length b \<le> 61 \<and> list_all (\<lambda>c. 0 \<le> hex_value c \<or> c = CHR ''-'') b"

lemma hex_value_plain: "0 \<le> hex_value c \<Longrightarrow> c \<noteq> CHR '' '' \<and> c \<noteq> NL \<and> c \<noteq> NUL"
  by (auto simp: hex_value_def isdigit_def code_def)

lemma valid_token_unspaced: "valid_token_text t \<Longrightarrow> unspaced t"
proof -
  assume "valid_token_text t"
  then have "\<forall>c\<in>set t. c \<noteq> CHR '' '' \<and> c \<noteq> NL \<and> c \<noteq> NUL"
    using hex_value_plain unfolding valid_token_text_def list_all_iff by (metis not_less)
  then show "unspaced t" by (auto simp: unspaced_def)
qed

lemma boot_unspaced: "boot_ok b \<Longrightarrow> unspaced b"
proof -
  assume "boot_ok b"
  then have "\<forall>c\<in>set b. 0 \<le> hex_value c \<or> c = CHR ''-''" by (simp add: boot_ok_def list_all_iff)
  moreover have "CHR ''-'' \<noteq> CHR '' '' \<and> CHR ''-'' \<noteq> NL \<and> CHR ''-'' \<noteq> NUL" by simp
  ultimately have "\<forall>c\<in>set b. c \<noteq> CHR '' '' \<and> c \<noteq> NL \<and> c \<noteq> NUL" using hex_value_plain by metis
  then show "unspaced b" by (auto simp: unspaced_def)
qed

lemma isdigit_plain: "isdigit c \<Longrightarrow> c \<noteq> CHR '' '' \<and> c \<noteq> NL \<and> c \<noteq> NUL"
  by (auto simp: isdigit_def code_def)

lemma dec_nat_unspaced: "unspaced (dec_nat n)"
proof -
  have "\<forall>c\<in>set (dec_nat n). c \<noteq> CHR '' '' \<and> c \<noteq> NL \<and> c \<noteq> NUL"
    using dec_nat_digits(1) [of n] isdigit_plain by (auto simp only: list_all_iff)
  then show ?thesis by (auto simp: unspaced_def)
qed

lemma read_boot_id_ok: "read_boot_id f = Some b \<Longrightarrow> boot_ok b"
proof -
  assume h: "read_boot_id f = Some b"
  then obtain c where c: "length (take 63 c) \<noteq> 63" "b = c_str (butlast (take 63 c))"
    "list_all (\<lambda>c. \<not> (hex_value c < 0 \<and> c \<noteq> CHR ''-'')) b"
    by (auto simp: read_boot_id_def Let_def split: option.splits if_splits)
  have "length b \<le> length (butlast (take 63 c))" unfolding c(2) c_str_def by (rule length_takeWhile_le)
  then have "length b \<le> 61" using c(1) by auto
  with c(3) show "boot_ok b" by (auto simp: boot_ok_def list_all_iff)
qed

lemma dec_nat_length: "n < 10 ^ Suc k \<Longrightarrow> length (dec_nat n) \<le> Suc k"
proof (induction k arbitrary: n)
  case 0
  then show ?case by (simp add: dec_nat.simps [of n])
next
  case (Suc k)
  show ?case
  proof (cases "n < 10")
    case True
    then show ?thesis by (simp add: dec_nat.simps [of n])
  next
    case False
    have "n div 10 < 10 ^ Suc k" using Suc.prems by (simp add: less_mult_imp_div_less mult.commute)
    from Suc.IH [OF this] False show ?thesis by (simp add: dec_nat.simps [of n])
  qed
qed

lemma strtoul_dec_nat: "n < 2 ^ 64 \<Longrightarrow> strtoul (dec_nat n) = Some (n, [], False)"
proof -
  have "dec_int (int n) = dec_nat n" by (simp add: dec_int_def)
  then have "number_prefix (dec_nat n) = Some (False, n, [])" using number_prefix_dec [of "int n"] by simp
  then show "n < 2 ^ 64 \<Longrightarrow> strtoul (dec_nat n) = Some (n, [], False)" by (simp add: strtoul_def)
qed

lemma session_line_entry:
  assumes "entry_ok e"
  shows "session_line now (token e @ CHR '' '' # dec_nat (expiry e)) = (if expiry e \<le> now then None else Some e)"
proof -
  obtain c cs where d: "dec_nat (expiry e) = c # cs" "isdigit c" using dec_nat_Cons by blast
  have sp: "CHR '' '' \<notin> set (token e)" using valid_token_unspaced assms by (auto simp: entry_ok_def unspaced_def)
  have "strtoul (dec_nat (expiry e)) = Some (expiry e, [], False)"
    using assms by (intro strtoul_dec_nat) (simp add: entry_ok_def)
  then show ?thesis
    using assms d by (simp add: session_line_def split_at_append [OF sp] entry_ok_def)
qed

lemma entry_text_split:
  assumes "entry_ok e"
  shows "split_at NL (entry_text e @ s) = Some (token e @ CHR '' '' # dec_nat (expiry e), s)"
proof -
  have "NL \<notin> set (token e @ CHR '' '' # dec_nat (expiry e))"
    using valid_token_unspaced assms dec_nat_unspaced by (auto simp: entry_ok_def unspaced_def)
  from split_at_append [OF this, of s] show ?thesis by (simp add: entry_text_def)
qed

lemma entry_text_length: "entry_ok e \<Longrightarrow> length (entry_text e) \<le> 86"
  using dec_nat_length [of "expiry e" 19]
  by (simp add: entry_ok_def valid_token_text_def entry_text_def)

lemma entries_length: "\<forall>e\<in>set es. entry_ok e \<Longrightarrow> length (concat (map entry_text es)) \<le> 86 * length es"
proof (induction es)
  case (Cons e es)
  then show ?case using entry_text_length [of e] by simp
qed simp

lemma load_lines_text:
  "\<forall>e\<in>set es. entry_ok e \<Longrightarrow>
   load_lines now n (concat (map entry_text es)) = take n (filter (\<lambda>e. now < expiry e) es)"
proof (induction es arbitrary: n)
  case Nil
  then show ?case by (simp add: load_lines.simps [of _ _ "[]"])
next
  case (Cons e es)
  have ne: "entry_text e \<noteq> []" by (simp add: entry_text_def)
  have e: "entry_ok e" using Cons.prems by simp
  show ?case
  proof (cases n)
    case 0
    then show ?thesis by (simp add: load_lines.simps [of _ 0])
  next
    case (Suc k)
    then show ?thesis
      using Cons ne by (subst load_lines.simps)
        (simp add: entry_text_split [OF e] session_line_entry [OF e] not_le)
  qed
qed

text \<open>A store that stopped half way leaves a prefix, in which the last line may be cut.\<close>

lemma no_NL_split: "NL \<notin> set s \<Longrightarrow> split_at NL s = None"
  by (simp add: split_at_def)

lemma take_init: "n \<le> length xs \<Longrightarrow> c \<notin> set xs \<Longrightarrow> c \<notin> set (take n (xs @ c # ys))"
  by (auto dest: in_set_takeD)

lemma load_lines_prefix:
  "\<forall>e\<in>set es. entry_ok e \<Longrightarrow>
   \<exists>k. \<forall>now m. load_lines now m (take n (concat (map entry_text es))) = take m (filter (\<lambda>e. now < expiry e) (take k es))"
proof (induction es arbitrary: n)
  case Nil
  then show ?case by (simp add: load_lines.simps [of _ _ "[]"])
next
  case (Cons e es)
  have e: "entry_ok e" using Cons.prems by simp
  let ?line = "token e @ CHR '' '' # dec_nat (expiry e)"
  have line: "entry_text e = ?line @ [NL]" by (simp add: entry_text_def)
  have nl: "NL \<notin> set ?line"
    using valid_token_unspaced e dec_nat_unspaced by (auto simp: entry_ok_def unspaced_def)
  show ?case
  proof (cases "n \<le> length ?line")
    case True
    then have "NL \<notin> set (take n (concat (map entry_text (e # es))))"
      using take_init [OF True nl, of "concat (map entry_text es)"] by (simp add: line)
    then have "load_lines now m (take n (concat (map entry_text (e # es)))) = []" for now m
      by (subst load_lines.simps) (simp add: no_NL_split)
    then show ?thesis by (intro exI [of _ 0]) simp
  next
    case False
    let ?rest = "take (n - length (entry_text e)) (concat (map entry_text es))"
    have "length (entry_text e) \<le> n" using False by (simp add: line)
    then have cut: "take n (concat (map entry_text (e # es))) = entry_text e @ ?rest" by simp
    have "entry_text e \<noteq> []" by (simp add: line)
    then have step: "load_lines now m (entry_text e @ ?rest) =
        (if m = 0 then [] else if expiry e \<le> now then load_lines now m ?rest else e # load_lines now (m - 1) ?rest)" for now m
      by (subst load_lines.simps) (simp add: entry_text_split [OF e] session_line_entry [OF e])
    obtain k where k: "\<forall>now m. load_lines now m ?rest = take m (filter (\<lambda>e. now < expiry e) (take k es))"
      using Cons.IH [of "n - length (entry_text e)"] Cons.prems by auto
    show ?thesis
      unfolding cut step by (intro exI [of _ "Suc k"] allI) (simp add: k take_Cons' not_le)
  qed
qed

lemma load_lines_ok:
  "set (load_lines now n s) \<subseteq> {e. entry_ok e \<and> now < expiry e} \<and> length (load_lines now n s) \<le> n"
proof (induction now n s rule: load_lines.induct)
  case (1 now n s)
  have line: "session_line now l = Some e \<Longrightarrow> entry_ok e \<and> now < expiry e" for l e
    by (auto simp: session_line_def strtoul_def entry_ok_def Let_def split: option.splits if_splits prod.splits)
  show ?case
  proof (cases "s = [] \<or> n = 0")
    case True
    then show ?thesis by (subst (1 2) load_lines.simps) simp
  next
    case False
    show ?thesis
    proof (cases "split_at NL s")
      case None
      with False show ?thesis by (subst (1 2) load_lines.simps) simp
    next
      case (Some lr)
      obtain l r where lr: "lr = (l, r)" by (cases lr)
      show ?thesis
      proof (cases "session_line now l")
        case None
        with False Some lr show ?thesis
          using 1(1) [OF False Some lr [symmetric]] by (subst (1 2) load_lines.simps) simp
      next
        case (Some e)
        with False \<open>split_at NL s = Some lr\<close> lr line [OF Some] show ?thesis
          using 1(2) [OF False \<open>split_at NL s = Some lr\<close> lr [symmetric] Some] by (subst (1 2) load_lines.simps) auto
      qed
    qed
  qed
qed

lemma no_NUL_c_str: "NUL \<notin> set s \<Longrightarrow> c_str s = s"
  by (simp add: c_str_def takeWhile_none)

lemma entry_no_NUL: "entry_ok e \<Longrightarrow> NUL \<notin> set (entry_text e)"
  using valid_token_unspaced dec_nat_unspaced by (auto simp: entry_ok_def unspaced_def entry_text_def)

lemma sessions_no_NUL:
  "boot_ok b \<Longrightarrow> \<forall>e\<in>set es. entry_ok e \<Longrightarrow> NUL \<notin> set (sessions_text b es)"
  using boot_unspaced entry_no_NUL by (auto simp: sessions_text_def unspaced_def)

lemma boot_line:
  assumes "boot_ok b"
  shows "split_at NL (sessions_text b es) = Some (''boot '' @ b, concat (map entry_text es))"
proof -
  have "NL \<notin> set (''boot '' @ b)" using boot_unspaced [OF assms] by (simp add: unspaced_def)
  from split_at_append [OF this] show ?thesis by (simp add: sessions_text_def)
qed

lemma sessions_text_fits:
  assumes "boot_ok b" "\<forall>e\<in>set es. entry_ok e" "length es \<le> MAX_SESSIONS"
  shows "length (sessions_text b es) \<le> MAX_SESSION_FILE"
  using entries_length [OF assms(2)] assms(1,3)
  by (simp add: sessions_text_def boot_ok_def MAX_SESSION_FILE_def MAX_SESSIONS_def)

lemma load_stored:
  assumes "boot_ok b" "\<forall>e\<in>set es. entry_ok e" "length es \<le> MAX_SESSIONS"
  shows "load_sessions (sessions_text b es) (Some b') now =
    Some (if b' = b then filter (\<lambda>e. now < expiry e) es else [])"
proof -
  have "length (filter (\<lambda>e. now < expiry e) es) \<le> MAX_SESSIONS"
    using length_filter_le [of "\<lambda>e. now < expiry e" es] assms(3) by linarith
  then show ?thesis
    using sessions_text_fits [OF assms] sessions_no_NUL [OF assms(1,2)] boot_line [OF assms(1), of es]
    by (auto simp: load_sessions_def no_NUL_c_str load_lines_text [OF assms(2)])
qed

lemma load_stored_prefix:
  assumes "boot_ok b" "\<forall>e\<in>set es. entry_ok e" "length es \<le> MAX_SESSIONS"
  shows "\<exists>k. \<forall>now. load_sessions (take n (sessions_text b es)) (Some b) now =
    Some (filter (\<lambda>e. now < expiry e) (take k es))"
proof -
  let ?head = "''boot '' @ b"
  have nl: "NL \<notin> set ?head" using boot_unspaced [OF assms(1)] by (simp add: unspaced_def)
  have "NUL \<notin> set (take n (sessions_text b es))"
    using sessions_no_NUL [OF assms(1,2)] by (auto dest: in_set_takeD)
  then have c: "c_str (take n (sessions_text b es)) = take n (sessions_text b es)" by (rule no_NUL_c_str)
  note fits = sessions_text_fits [OF assms]
  show ?thesis
  proof (cases "n \<le> length ?head")
    case True
    then have "split_at NL (take n (sessions_text b es)) = None"
      using take_init [OF True nl, of "concat (map entry_text es)"]
      by (intro no_NL_split) (simp add: sessions_text_def)
    with c fits show ?thesis by (intro exI [of _ 0]) (simp add: load_sessions_def)
  next
    case False
    let ?rest = "take (n - length (?head @ [NL])) (concat (map entry_text es))"
    have "take n (sessions_text b es) = ?head @ NL # ?rest"
      using False take_append [of n "?head @ [NL]" "concat (map entry_text es)"] by (simp add: sessions_text_def)
    then have split: "split_at NL (take n (sessions_text b es)) = Some (?head, ?rest)"
      using split_at_append [OF nl] by simp
    obtain k where "\<forall>now m. load_lines now m ?rest = take m (filter (\<lambda>e. now < expiry e) (take k es))"
      using load_lines_prefix [OF assms(2)] by blast
    moreover have "length (filter p (take k es)) \<le> MAX_SESSIONS" for p
      using length_filter_le [of p "take k es"] assms(3) by simp
    ultimately show ?thesis
      using c fits split by (intro exI [of _ k]) (simp add: load_sessions_def)
  qed
qed

lemma load_sessions_ok:
  "load_sessions contents bid now = Some es \<Longrightarrow>
   (\<forall>e\<in>set es. entry_ok e \<and> now < expiry e) \<and> length es \<le> MAX_SESSIONS"
  using load_lines_ok [of now MAX_SESSIONS]
  by (fastforce simp: load_sessions_def split: if_splits option.splits prod.splits)

lemma random_token_valid:
  assumes "length bs = 32"
  shows "valid_token_text (concat (map (\<lambda>b. [hex_lower (unat (b :: u8) div 16), hex_lower (unat b mod 16)]) (take 32 bs)))"
proof -
  have h: "\<forall>n\<in>{0..<16}. \<not> (hex_value (hex_lower n) < 0 \<or> isupper (hex_lower n))" by code_simp
  have "unat b div 16 < 16 \<and> unat b mod 16 < 16" for b :: u8
    using unsigned_less [of b, where 'a = nat] by (simp add: less_mult_imp_div_less)
  with h have "list_all (\<lambda>c. \<not> (hex_value c < 0 \<or> isupper c))
      (concat (map (\<lambda>b. [hex_lower (unat (b :: u8) div 16), hex_lower (unat b mod 16)]) bs))" for bs
    by (induction bs) auto
  moreover have "length (concat (map (\<lambda>b. [hex_lower (unat (b :: u8) div 16), hex_lower (unat b mod 16)]) bs)) = 2 * length bs" for bs
    by (induction bs) auto
  ultimately show ?thesis using assms by (simp add: valid_token_text_def)
qed

lemma constant_time_tokens:
  "valid_token_text a \<Longrightarrow> valid_token_text b \<Longrightarrow> constant_time_equal a b \<longleftrightarrow> a = b"
  by (rule constant_time_equal_iff) (simp_all add: valid_token_text_def)

definition live_tokens :: "string \<Rightarrow> string \<Rightarrow> nat \<Rightarrow> string list" where
  "live_tokens b contents now =
     (case load_sessions contents (Some b) now of None \<Rightarrow> [] | Some es \<Rightarrow> map token es)"

lemma session_valid_iff:
  "session_env.boot env = Some b \<Longrightarrow> session_valid env contents t \<longleftrightarrow>
   valid_token_text t \<and> opened env \<and> t \<in> set (live_tokens b contents (clock env))"
  using load_sessions_ok [of contents "Some b" "clock env"] constant_time_tokens
  by (auto simp: session_valid_def live_tokens_def list_ex_iff entry_ok_def split: option.splits)

subsection \<open>The file the server keeps\<close>

definition session_file :: "string \<Rightarrow> bool" where
  "session_file contents \<longleftrightarrow> (\<exists>b es n. boot_ok b \<and> (\<forall>e\<in>set es. entry_ok e) \<and> length es \<le> MAX_SESSIONS
     \<and> contents = take n (sessions_text b es))"

lemma session_file_empty: "session_file []"
  unfolding session_file_def
  by (intro exI [of _ "[]"] exI [of _ 0]) (simp add: boot_ok_def)

lemma load_other_boot:
  assumes "boot_ok b" "\<forall>e\<in>set es. entry_ok e" "length es \<le> MAX_SESSIONS" "b' \<noteq> b"
  shows "load_sessions (take n (sessions_text b es)) (Some b') now = Some []"
proof -
  let ?head = "''boot '' @ b"
  have nl: "NL \<notin> set ?head" using boot_unspaced [OF assms(1)] by (simp add: unspaced_def)
  have nn: "NUL \<notin> set (''boot '' @ b)" using boot_unspaced [OF assms(1)] by (simp add: unspaced_def)
  show ?thesis
  proof (cases "n \<le> length ?head")
    case True
    have "NL \<notin> set (c_str (take n (sessions_text b es)))"
      using take_init [OF True nl, of "concat (map entry_text es)"]
      by (auto simp: sessions_text_def c_str_def dest: set_takeWhileD)
    then show ?thesis using sessions_text_fits [OF assms(1-3)] by (simp add: load_sessions_def no_NL_split)
  next
    case False
    define rest where "rest = take (n - length (?head @ [NL])) (concat (map entry_text es))"
    have t: "take n (sessions_text b es) = ?head @ NL # rest"
      using False take_append [of n "?head @ [NL]" "concat (map entry_text es)"]
      by (simp add: sessions_text_def rest_def)
    have c: "c_str (?head @ NL # rest) = ?head @ NL # c_str rest"
      unfolding c_str_def using nn by (subst takeWhile_append2) auto
    have "split_at NL (c_str (take n (sessions_text b es))) = Some (?head, c_str rest)"
      unfolding t c by (rule split_at_append [OF nl])
    with assms(4) show ?thesis using sessions_text_fits [OF assms(1-3)] by (simp add: load_sessions_def)
  qed
qed

lemma session_file_load:
  assumes "session_file contents"
  obtains es :: "session_entry list"
  where "\<forall>now. load_sessions contents (Some b) now = Some (filter (\<lambda>e. now < expiry e) es)"
proof -
  obtain b0 es n where f: "boot_ok b0" "\<forall>e\<in>set es. entry_ok e" "length es \<le> MAX_SESSIONS"
    "contents = take n (sessions_text b0 es)" using assms by (auto simp: session_file_def)
  show ?thesis
  proof (cases "b = b0")
    case True
    obtain k where "\<forall>now. load_sessions contents (Some b) now = Some (filter (\<lambda>e. now < expiry e) (take k es))"
      using load_stored_prefix [OF f(1-3)] f(4) True by blast
    then show ?thesis by (intro that [of "take k es"]) simp
  next
    case False
    show ?thesis using load_other_boot [OF f(1-3) False] by (intro that [of "[]"]) (simp add: f(4))
  qed
qed

lemma load_later:
  assumes "session_file contents" "load_sessions contents (Some b) now = Some es" "now \<le> later"
  shows "load_sessions contents (Some b) later = Some (filter (\<lambda>e. later < expiry e) es)"
proof -
  obtain all :: "session_entry list"
    where all: "\<forall>now. load_sessions contents (Some b) now = Some (filter (\<lambda>e. now < expiry e) all)"
    by (rule session_file_load [OF assms(1), of b])
  have "es = filter (\<lambda>e. now < expiry e) all" using all [rule_format, of now] assms(2) by simp
  moreover have "filter (\<lambda>e. later < expiry e) (filter (\<lambda>e. now < expiry e) all) = filter (\<lambda>e. later < expiry e) all"
    unfolding filter_filter using assms(3) by (intro filter_cong) auto
  ultimately show ?thesis using all [rule_format, of later] by simp
qed

lemma live_later:
  assumes "session_file contents" "now \<le> later"
  shows "set (live_tokens b contents later) \<subseteq> set (live_tokens b contents now)"
proof -
  obtain es where "load_sessions contents (Some b) now = Some es"
    by (rule session_file_load [OF assms(1), of b]) blast
  with load_later [OF assms(1) this assms(2)] show ?thesis by (auto simp: live_tokens_def)
qed

lemma store_file:
  assumes "store_sessions (Some b) es f contents = (ok, contents')" "session_file contents"
    and "boot_ok b" "\<forall>e\<in>set es. entry_ok e" "length es \<le> MAX_SESSIONS"
  shows "session_file contents'" and "contents' = contents \<or> (\<exists>n. contents' = take n (sessions_text b es))"
    and "ok \<Longrightarrow> contents' = sessions_text b es"
proof -
  show *: "contents' = contents \<or> (\<exists>n. contents' = take n (sessions_text b es))" "ok \<Longrightarrow> contents' = sessions_text b es"
    using assms(1) by (auto simp: store_sessions_def Let_def split: if_splits option.splits store_failure.splits)
      (metis take_all_iff order_refl)+
  then show "session_file contents'" using assms(2-5) unfolding session_file_def by blast
qed

lemma stored_live:
  assumes "boot_ok b" "\<forall>e\<in>set es. entry_ok e" "length es \<le> MAX_SESSIONS"
  shows "set (live_tokens b (take n (sessions_text b es)) now) \<subseteq> token ` set es"
proof -
  obtain k where "load_sessions (take n (sessions_text b es)) (Some b) now = Some (filter (\<lambda>e. now < expiry e) (take k es))"
    using load_stored_prefix [OF assms] by blast
  then show ?thesis by (auto simp: live_tokens_def dest: in_set_takeD)
qed

subsection \<open>Histories\<close>

locale session_store =
  fixes live :: "'s \<Rightarrow> nat \<Rightarrow> 't set"
    and run :: "'o \<Rightarrow> 's \<Rightarrow> 's"
    and op_time :: "'o \<Rightarrow> nat"
    and issued :: "'o \<Rightarrow> 't option"
    and wf :: "'s \<Rightarrow> bool"
    and good :: "'o \<Rightarrow> bool"
  assumes run_wf: "wf s \<Longrightarrow> good x \<Longrightarrow> wf (run x s)"
    and live_ages: "wf s \<Longrightarrow> now \<le> later \<Longrightarrow> live s later \<subseteq> live s now"
    and run_live: "wf s \<Longrightarrow> good x \<Longrightarrow> op_time x \<le> later \<Longrightarrow>
      live (run x s) later \<subseteq> live s (op_time x) \<union> set_option (issued x)"
begin

lemma dead_forever:
  "wf s \<Longrightarrow> t \<notin> live s now \<Longrightarrow> \<forall>x\<in>set ops. good x \<and> issued x \<noteq> Some t \<Longrightarrow>
   sorted (now # map op_time ops @ [later]) \<Longrightarrow> t \<notin> live (fold run ops s) later"
proof (induction ops arbitrary: s now)
  case Nil
  then show ?case using live_ages [of s now later] by auto
next
  case (Cons x ops)
  have x: "good x" "issued x \<noteq> Some t" "now \<le> op_time x" using Cons.prems by auto
  have "t \<notin> live s (op_time x)" using live_ages [OF Cons.prems(1) x(3)] Cons.prems(2) by blast
  then have "t \<notin> live (run x s) (op_time x)"
    using run_live [OF Cons.prems(1) x(1) order.refl] x(2) by (auto simp: elem_set)
  moreover have "wf (run x s)" using run_wf Cons.prems(1) x(1) by blast
  ultimately show ?case
    using Cons.IH [of "run x s" "op_time x"] Cons.prems(3,4) by auto
qed

end

datatype session_op = Login session_env | Logout session_env string

fun op_env :: "session_op \<Rightarrow> session_env" where
  "op_env (Login env) = env"
| "op_env (Logout env t) = env"

fun run_op :: "session_op \<Rightarrow> string \<Rightarrow> string" where
  "run_op (Login env) contents = snd (create_session env contents)"
| "run_op (Logout env t) contents = snd (destroy_session env contents t)"

fun issued_token :: "session_op \<Rightarrow> string option" where
  "issued_token (Login env) = random_token (entropy env)"
| "issued_token (Logout env t) = None"

text \<open>An operation of one boot: the boot id is readable or not, the random source gives 32 bytes or
  fails, and the clock is not within a day of 2^64 seconds.\<close>

definition op_good :: "string \<Rightarrow> session_op \<Rightarrow> bool" where
  "op_good b x \<longleftrightarrow> boot_ok b \<and> session_env.boot (op_env x) \<in> {None, Some b}
     \<and> (\<forall>bs. entropy (op_env x) = Some bs \<longrightarrow> length bs = 32)
     \<and> stamp (op_env x) + SESSION_LIFETIME_SECONDS < 2 ^ 64"

lemma load_none: "load_sessions contents None now = None"
  by (simp add: load_sessions_def)

lemma create_cases:
  assumes "op_good b (Login env)"
  obtains "create_session env contents = (None, contents)"
  | es t ok contents' where "session_env.boot env = Some b" "random_token (entropy env) = Some t" "valid_token_text t"
      "load_sessions contents (Some b) (clock env) = Some es" "opened env"
      "store_sessions (Some b) ((if length es = MAX_SESSIONS then tl es else es)
         @ [\<lparr>token = t, expiry = stamp env + SESSION_LIFETIME_SECONDS\<rparr>]) (failure env) contents = (ok, contents')"
      "create_session env contents = (if ok then Some t else None, contents')"
proof -
  show thesis
  proof (cases "random_token (entropy env) = None \<or> \<not> opened env \<or> session_env.boot env = None
      \<or> load_sessions contents (Some b) (clock env) = None")
    case True
    with assms show ?thesis
      by (intro that(1)) (auto simp: create_session_def op_good_def load_none split: option.splits)
  next
    case False
    with assms have e: "session_env.boot env = Some b" "opened env" by (auto simp: op_good_def)
    obtain es t where es: "load_sessions contents (Some b) (clock env) = Some es" "random_token (entropy env) = Some t"
      using False by auto
    obtain bs where "entropy env = Some bs" "t = concat (map (\<lambda>b. [hex_lower (unat b div 16), hex_lower (unat b mod 16)]) (take 32 bs))"
      using es(2) by (auto simp: random_token_def)
    with assms have "valid_token_text t" using random_token_valid [of bs] by (simp add: op_good_def)
    with e es show ?thesis
      by (cases "store_sessions (Some b) ((if length es = MAX_SESSIONS then tl es else es)
         @ [\<lparr>token = t, expiry = stamp env + SESSION_LIFETIME_SECONDS\<rparr>]) (failure env) contents")
        (intro that(2), auto simp: create_session_def Let_def)
  qed
qed

lemma kept_ok:
  assumes "load_sessions contents bid now = Some es" "valid_token_text t" "x < 2 ^ 64"
  defines "new \<equiv> (if length es = MAX_SESSIONS then tl es else es) @ [\<lparr>token = t, expiry = x\<rparr>]"
  shows "\<forall>e\<in>set new. entry_ok e" "length new \<le> MAX_SESSIONS" "token ` set new \<subseteq> insert t (token ` set es)"
proof -
  note l = load_sessions_ok [OF assms(1)]
  have sub: "set (if length es = MAX_SESSIONS then tl es else es) \<subseteq> set es"
    by (cases es) auto
  show "\<forall>e\<in>set new. entry_ok e" using sub l assms(2,3) by (auto simp: new_def entry_ok_def)
  show "length new \<le> MAX_SESSIONS" using l by (auto simp: new_def MAX_SESSIONS_def)
  show "token ` set new \<subseteq> insert t (token ` set es)" using sub by (auto simp: new_def)
qed

lemma run_op_laws:
  assumes "session_file contents" "op_good b x"
  shows "session_file (run_op x contents)"
    and "clock (op_env x) \<le> later \<Longrightarrow> set (live_tokens b (run_op x contents) later) \<subseteq>
      set (live_tokens b contents (clock (op_env x))) \<union> set_option (issued_token x)"
proof -
  have b: "boot_ok b" using assms(2) by (simp add: op_good_def)
  have "session_file (run_op x contents) \<and> (clock (op_env x) \<le> later \<longrightarrow>
      set (live_tokens b (run_op x contents) later) \<subseteq>
      set (live_tokens b contents (clock (op_env x))) \<union> set_option (issued_token x))"
  proof (cases x)
    case (Login env)
    with assms(2) have good: "op_good b (Login env)" by simp
    show ?thesis
    proof (cases rule: create_cases [OF good, of contents])
      case 1
      then show ?thesis using Login assms(1) live_later [OF assms(1)] by auto
    next
      case (2 es t ok contents')
      let ?new = "(if length es = MAX_SESSIONS then tl es else es)
         @ [\<lparr>token = t, expiry = stamp env + SESSION_LIFETIME_SECONDS\<rparr>]"
      have x: "stamp env + SESSION_LIFETIME_SECONDS < 2 ^ 64" using good by (simp add: op_good_def)
      note k = kept_ok [OF 2(4,3) x]
      note st = store_file [OF 2(6) assms(1) b k(1,2)]
      have live: "live_tokens b contents (clock env) = map token es" by (simp add: live_tokens_def 2(4))
      have "set (live_tokens b contents' later) \<subseteq> insert t (set (live_tokens b contents (clock env)))"
        if "clock env \<le> later"
        using st(2)
      proof (elim disjE exE)
        fix n assume "contents' = take n (sessions_text b ?new)"
        then show ?thesis using stored_live [OF b k(1,2), of n later] k(3) live by (metis order_trans set_map)
      qed (use live_later [OF assms(1) that, of b] in blast)
      then show ?thesis using Login 2(2,7) st(1) by auto
    qed
  next
    case (Logout env t)
    show ?thesis
    proof (cases "snd (destroy_session env contents t) = contents")
      case True
      then show ?thesis using Logout assms(1) live_later [OF assms(1)] by auto
    next
      case False
      then obtain es where es: "load_sessions contents (Some b) (clock env) = Some es" "session_env.boot env = Some b"
        and d: "destroy_session env contents t = store_sessions (Some b) (filter (\<lambda>e. token e \<noteq> t) es) (failure env) contents"
        using assms(2) Logout load_none [of contents "clock env"]
        by (auto simp: destroy_session_def op_good_def Let_def split: if_splits option.splits)
      note l = load_sessions_ok [OF es(1)]
      have k: "\<forall>e\<in>set (filter (\<lambda>e. token e \<noteq> t) es). entry_ok e" "length (filter (\<lambda>e. token e \<noteq> t) es) \<le> MAX_SESSIONS"
        using l le_trans [OF length_filter_le] by auto
      obtain ok contents' where s: "store_sessions (Some b) (filter (\<lambda>e. token e \<noteq> t) es) (failure env) contents = (ok, contents')"
        by (cases "store_sessions (Some b) (filter (\<lambda>e. token e \<noteq> t) es) (failure env) contents")
      note st = store_file [OF s assms(1) b k]
      have live: "live_tokens b contents (clock env) = map token es" by (simp add: live_tokens_def es)
      have "set (live_tokens b contents' later) \<subseteq> set (live_tokens b contents (clock env))"
        if "clock env \<le> later"
        using st(2)
      proof (elim disjE exE)
        fix n assume "contents' = take n (sessions_text b (filter (\<lambda>e. token e \<noteq> t) es))"
        then show ?thesis using stored_live [OF b k, of n later] live by auto
      qed (use live_later [OF assms(1) that, of b] in blast)
      then show ?thesis using Logout d s st(1) by simp
    qed
  qed
  then show "session_file (run_op x contents)"
    "clock (op_env x) \<le> later \<Longrightarrow> set (live_tokens b (run_op x contents) later) \<subseteq>
      set (live_tokens b contents (clock (op_env x))) \<union> set_option (issued_token x)" by blast+
qed

interpretation sessions: session_store "\<lambda>contents now. set (live_tokens b contents now)" run_op
  "\<lambda>x. clock (op_env x)" issued_token session_file "op_good b" for b
  by unfold_locales (simp_all add: run_op_laws live_later)

subsection \<open>Properties\<close>

text \<open>Logging out is final and expiry too: a token that is not live is not accepted at any later
  time of that boot, whatever logins, logouts and storing failures (half-written files included)
  happen in between, unless the random source issues the same token again.\<close>

theorem web_session_dead_forever:
  assumes "session_file contents" and "t \<notin> set (live_tokens b contents now)"
    and "\<forall>x\<in>set ops. op_good b x \<and> issued_token x \<noteq> Some t"
    and "sorted (now # map (\<lambda>x. clock (op_env x)) ops @ [clock env])" and "session_env.boot env = Some b"
  shows "\<not> session_valid env (fold run_op ops contents) t"
  using sessions.dead_forever [OF assms(1,2,3,4)] session_valid_iff [OF assms(5)] by simp

text \<open>A logout that reports success has removed exactly that session: its token is not live any
  more, and every other session is.\<close>

theorem web_logout_session:
  assumes "destroy_session env contents t = (True, contents')" and "session_env.boot env = Some b" and "boot_ok b"
    and "session_file contents" and "valid_token_text t" and "clock env \<le> later"
  shows "t \<notin> set (live_tokens b contents' later)
    \<and> (\<forall>u. u \<noteq> t \<longrightarrow> u \<in> set (live_tokens b contents' later) \<longleftrightarrow> u \<in> set (live_tokens b contents later))"
proof -
  obtain es where es: "load_sessions contents (Some b) (clock env) = Some es"
    using assms(1,2,5) by (auto simp: destroy_session_def Let_def split: if_splits option.splits)
  let ?kept = "filter (\<lambda>e. token e \<noteq> t) es"
  show ?thesis
  proof (cases "length ?kept = length es")
    case True
    then have "contents' = contents" using assms(1,2,5) es
      by (auto simp: destroy_session_def Let_def split: if_splits)
    moreover have "t \<notin> set (map token es)"
      using True by (metis (mono_tags, lifting) filter_True filter_id_conv imageE length_filter_less less_irrefl set_map)
    ultimately show ?thesis
      using live_later [OF assms(4,6), of b] es by (auto simp: live_tokens_def)
  next
    case False
    note l = load_sessions_ok [OF es]
    have k: "\<forall>e\<in>set ?kept. entry_ok e" "length ?kept \<le> MAX_SESSIONS"
      using l le_trans [OF length_filter_le] by auto
    have "store_sessions (Some b) ?kept (failure env) contents = (True, contents')"
      using assms(1,2,5) es False by (auto simp: destroy_session_def Let_def split: if_splits)
    then have "contents' = sessions_text b ?kept" using store_file(3) [OF _ assms(4,3) k] by blast
    then have "live_tokens b contents' later = map token (filter (\<lambda>e. later < expiry e) ?kept)"
      using load_stored [OF assms(3) k] by (simp add: live_tokens_def)
    moreover have "live_tokens b contents later = map token (filter (\<lambda>e. later < expiry e) es)"
      using load_later [OF assms(4) es assms(6)] by (simp add: live_tokens_def)
    ultimately show ?thesis by auto
  qed
qed

text \<open>A session with fewer than sixteen newer ones behind it stays in the file, unless it is logged out or
  the writing of the file breaks off.\<close>

definition kept :: "string \<Rightarrow> session_entry \<Rightarrow> nat \<Rightarrow> string \<Rightarrow> bool" where
  "kept b e k contents \<longleftrightarrow> (\<exists>older newer. length newer \<le> k \<and>
     (\<forall>now. load_sessions contents (Some b) now = Some (filter (\<lambda>e. now < expiry e) (older @ e # newer))))"

definition store_whole :: "session_op \<Rightarrow> bool" where
  "store_whole x \<longleftrightarrow> (case failure (op_env x) of Some (Write_stops n) \<Rightarrow> False | _ \<Rightarrow> True)"

definition is_login :: "session_op \<Rightarrow> bool" where
  "is_login x \<longleftrightarrow> (case x of Login env \<Rightarrow> True | Logout env t \<Rightarrow> False)"

lemma kept_mono: "kept b e k contents \<Longrightarrow> k \<le> k' \<Longrightarrow> kept b e k' contents"
  unfolding kept_def by (meson order_trans)

lemma store_whole_cases:
  assumes "store_sessions (Some b) es f contents = (ok, contents')" "\<forall>n. f \<noteq> Some (Write_stops n)"
  shows "contents' = contents \<or> contents' = sessions_text b es"
  using assms by (auto simp: store_sessions_def Let_def split: if_splits option.splits store_failure.splits)

lemma stored_kept:
  assumes "boot_ok b" "\<forall>e\<in>set es. entry_ok e" "length es \<le> MAX_SESSIONS" "es = older @ e # newer" "length newer \<le> k"
  shows "kept b e k (sessions_text b es)"
  unfolding kept_def using load_stored [OF assms(1-3)] assms(4,5) by auto

lemma filter_around: "P e \<Longrightarrow> filter P (xs @ e # ys) = filter P xs @ e # filter P ys"
  by simp

lemma run_op_kept:
  assumes "kept b e k contents" "session_file contents" "op_good b x" "store_whole x" "clock (op_env x) < expiry e"
    and "\<forall>env. x \<noteq> Logout env (token e)" and "is_login x \<longrightarrow> k < 15"
  shows "kept b e (if is_login x then k + 1 else k) (run_op x contents)"
proof -
  have b: "boot_ok b" using assms(3) by (simp add: op_good_def)
  have whole: "\<forall>n. failure (op_env x) \<noteq> Some (Write_stops n)" using assms(4) by (auto simp: store_whole_def)
  obtain older newer where k: "length newer \<le> k"
    "\<forall>now. load_sessions contents (Some b) now = Some (filter (\<lambda>e. now < expiry e) (older @ e # newer))"
    using assms(1) by (auto simp: kept_def)
  define live where "live = (\<lambda>e :: session_entry. clock (op_env x) < expiry e)"
  have load: "load_sessions contents (Some b) (clock (op_env x)) = Some (filter live older @ e # filter live newer)"
    using k(2) assms(5) by (simp add: live_def)
  have short: "length (filter live newer) \<le> k" using k(1) length_filter_le [of live newer] by linarith
  show ?thesis
  proof (cases x)
    case (Login env)
    then have good: "op_good b (Login env)" using assms(3) by simp
    show ?thesis
    proof (cases rule: create_cases [OF good, of contents])
      case 1
      then show ?thesis using assms(1) kept_mono Login by (simp add: is_login_def)
    next
      case (2 es t ok contents')
      define new where "new = (if length es = MAX_SESSIONS then tl es else es)
         @ [\<lparr>token = t, expiry = stamp env + SESSION_LIFETIME_SECONDS\<rparr>]"
      have es: "es = filter live older @ e # filter live newer" using 2(4) load Login by simp
      have x: "stamp env + SESSION_LIFETIME_SECONDS < 2 ^ 64" using good by (simp add: op_good_def)
      note ok = kept_ok [OF 2(4,3) x, folded new_def]
      have "length es = MAX_SESSIONS \<longrightarrow> filter live older \<noteq> []"
        using short assms(7) Login by (auto simp: es MAX_SESSIONS_def is_login_def)
      then have "\<exists>older'. new = older' @ e # (filter live newer @ [\<lparr>token = t, expiry = stamp env + SESSION_LIFETIME_SECONDS\<rparr>])"
        unfolding new_def es by (cases "filter live older") auto
      then have "kept b e (k + 1) (sessions_text b new)" using stored_kept [OF b ok(1,2)] short by auto
      then show ?thesis
        using store_whole_cases [OF 2(6)] whole 2(7) kept_mono [OF assms(1), of "k + 1"] Login
        by (auto simp: is_login_def new_def)
    qed
  next
    case (Logout env t)
    then have t: "token e \<noteq> t" using assms(6) by auto
    show ?thesis
    proof (cases "snd (destroy_session env contents t) = contents")
      case True
      then show ?thesis using assms(1) Logout by (simp add: is_login_def)
    next
      case False
      then have d: "session_env.boot env = Some b"
        using assms(3) Logout load_none by (auto simp: destroy_session_def op_good_def split: if_splits)
      define new where "new = filter (\<lambda>e. token e \<noteq> t) (filter live older @ e # filter live newer)"
      have s: "destroy_session env contents t = store_sessions (Some b) new (failure env) contents"
        using False Logout load d by (auto simp: destroy_session_def new_def Let_def split: if_splits)
      obtain ok contents' where st: "store_sessions (Some b) new (failure env) contents = (ok, contents')" by fastforce
      note l = load_sessions_ok [OF load]
      have fine: "\<forall>e\<in>set new. entry_ok e" using l by (auto simp: new_def)
      have "length new \<le> MAX_SESSIONS" unfolding new_def by (rule order_trans [OF length_filter_le conjunct2 [OF l]])
      note ok = fine this
      have "new = filter (\<lambda>e. token e \<noteq> t) (filter live older) @ e # filter (\<lambda>e. token e \<noteq> t) (filter live newer)"
        unfolding new_def using t by (intro filter_around)
      moreover have "length (filter (\<lambda>e. token e \<noteq> t) (filter live newer)) \<le> k"
        using short le_trans [OF length_filter_le] by blast
      ultimately have "kept b e k (sessions_text b new)" using stored_kept [OF b ok] by blast
      then show ?thesis
        using store_whole_cases [OF st] whole assms(1) Logout s st by (auto simp: is_login_def)
    qed
  qed
qed

lemma run_ops_kept:
  "kept b e k contents \<Longrightarrow> session_file contents \<Longrightarrow> \<forall>x\<in>set ops. op_good b x \<and> store_whole x \<and> clock (op_env x) < expiry e
     \<and> (\<forall>env. x \<noteq> Logout env (token e)) \<Longrightarrow> k + length (filter is_login ops) \<le> 15 \<Longrightarrow>
   \<exists>k'. kept b e k' (fold run_op ops contents)"
proof (induction ops arbitrary: contents k)
  case (Cons x ops)
  have x: "op_good b x" "store_whole x" "clock (op_env x) < expiry e" "\<forall>env. x \<noteq> Logout env (token e)"
    using Cons.prems(3) by auto
  have few: "is_login x \<longrightarrow> k < 15" using Cons.prems(4) by (simp split: if_splits)
  have rest: "(if is_login x then k + 1 else k) + length (filter is_login ops) \<le> 15" using Cons.prems(4) by (cases "is_login x") simp_all
  have all: "\<forall>y\<in>set ops. op_good b y \<and> store_whole y \<and> clock (op_env y) < expiry e \<and> (\<forall>env. y \<noteq> Logout env (token e))"
    using Cons.prems(3) by simp
  show ?case
    using Cons.IH [OF run_op_kept [OF Cons.prems(1,2) x few] run_op_laws(1) [OF Cons.prems(2) x(1)] all rest] by simp
qed auto

text \<open>No operation makes a session live longer, not even one whose writing breaks off.\<close>

lemma run_op_expired:
  assumes "session_file contents" "op_good b x" "issued_token x \<noteq> Some t" "t \<notin> set (live_tokens b contents later)"
    and "clock (op_env x) \<le> later"
  shows "t \<notin> set (live_tokens b (run_op x contents) later)"
proof -
  have b: "boot_ok b" using assms(2) by (simp add: op_good_def)
  have old: "t \<notin> token ` set (filter (\<lambda>e. later < expiry e) es)"
    if "load_sessions contents (Some b) (clock (op_env x)) = Some es" for es
    using load_later [OF assms(1) that assms(5)] assms(4) by (auto simp: live_tokens_def)
  have gone: "t \<notin> set (live_tokens b contents' later)"
    if written: "contents' = contents \<or> (\<exists>n. contents' = take n (sessions_text b new))"
      and fine: "\<forall>e\<in>set new. entry_ok e" and few: "length new \<le> MAX_SESSIONS"
      and short: "\<forall>e\<in>set new. token e = t \<longrightarrow> expiry e \<le> later" for contents' new
  proof -
    obtain k where "\<And>n. contents' = take n (sessions_text b new) \<Longrightarrow>
       load_sessions contents' (Some b) later = Some (filter (\<lambda>e. later < expiry e) (take (k n) new))"
      using load_stored_prefix [OF b fine few] by metis
    then show ?thesis
      using written short assms(4) by (fastforce simp: live_tokens_def dest: in_set_takeD)
  qed
  show ?thesis
  proof (cases x)
    case (Login env)
    then have good: "op_good b (Login env)" using assms(2) by simp
    show ?thesis
    proof (cases rule: create_cases [OF good, of contents])
      case 1
      then show ?thesis using Login assms(4) by simp
    next
      case (2 es u ok contents')
      have x: "stamp env + SESSION_LIFETIME_SECONDS < 2 ^ 64" using good by (simp add: op_good_def)
      note k = kept_ok [OF 2(4,3) x]
      have "u \<noteq> t" using 2(2) assms(3) Login by simp
      moreover have "set (if length es = MAX_SESSIONS then tl es else es) \<subseteq> set es" by (cases es) auto
      ultimately have "\<forall>e\<in>set ((if length es = MAX_SESSIONS then tl es else es)
          @ [\<lparr>token = u, expiry = stamp env + SESSION_LIFETIME_SECONDS\<rparr>]). token e = t \<longrightarrow> expiry e \<le> later"
        using old [of es] 2(4) Login by (fastforce simp: not_less)
      from gone [OF store_file(2) [OF 2(6) assms(1) b k(1,2)] k(1,2) this] show ?thesis using 2(7) Login by simp
    qed
  next
    case (Logout env u)
    show ?thesis
    proof (cases "snd (destroy_session env contents u) = contents")
      case True
      then show ?thesis using assms(4) Logout by simp
    next
      case False
      then obtain es where es: "load_sessions contents (Some b) (clock env) = Some es" "session_env.boot env = Some b"
        and d: "destroy_session env contents u = store_sessions (Some b) (filter (\<lambda>e. token e \<noteq> u) es) (failure env) contents"
        using assms(2) Logout load_none [of contents "clock env"]
        by (auto simp: destroy_session_def op_good_def Let_def split: if_splits option.splits)
      note l = load_sessions_ok [OF es(1)]
      have k: "\<forall>e\<in>set (filter (\<lambda>e. token e \<noteq> u) es). entry_ok e" "length (filter (\<lambda>e. token e \<noteq> u) es) \<le> MAX_SESSIONS"
        using l le_trans [OF length_filter_le] by auto
      obtain ok contents' where s: "store_sessions (Some b) (filter (\<lambda>e. token e \<noteq> u) es) (failure env) contents = (ok, contents')"
        by fastforce
      have "\<forall>e\<in>set (filter (\<lambda>e. token e \<noteq> u) es). token e = t \<longrightarrow> expiry e \<le> later"
        using old [of es] es(1) Logout by (fastforce simp: not_less)
      from gone [OF store_file(2) [OF s assms(1) b k] k this] show ?thesis using d s Logout by simp
    qed
  qed
qed

lemma run_ops_expired:
  "session_file contents \<Longrightarrow> \<forall>x\<in>set ops. op_good b x \<and> issued_token x \<noteq> Some t \<and> clock (op_env x) \<le> later \<Longrightarrow>
   t \<notin> set (live_tokens b contents later) \<Longrightarrow> t \<notin> set (live_tokens b (fold run_op ops contents) later)"
proof (induction ops arbitrary: contents)
  case (Cons x ops)
  have x: "op_good b x" "issued_token x \<noteq> Some t" "clock (op_env x) \<le> later" using Cons.prems(2) by auto
  show ?case
    using Cons.IH [OF run_op_laws(1) [OF Cons.prems(1) x(1)] _ run_op_expired [OF Cons.prems(1) x(1,2) Cons.prems(3) x(3)]]
      Cons.prems(2) by simp
qed simp

lemma run_ops_file: "session_file contents \<Longrightarrow> \<forall>x\<in>set ops. op_good b x \<Longrightarrow> session_file (fold run_op ops contents)"
proof (induction ops arbitrary: contents)
  case (Cons x ops)
  have x: "op_good b x" using Cons.prems(2) by simp
  show ?case using Cons.IH [OF run_op_laws(1) [OF Cons.prems(1) x]] Cons.prems(2) by simp
qed simp

lemma login_stored:
  assumes "create_session env contents = (Some t, contents')" "op_good b (Login env)" "session_file contents"
  obtains es where "session_env.boot env = Some b" "load_sessions contents (Some b) (clock env) = Some es"
    "contents' = sessions_text b ((if length es = 16 then tl es else es) @ [\<lparr>token = t, expiry = stamp env + 86400\<rparr>])"
    "\<forall>e\<in>set ((if length es = 16 then tl es else es) @ [\<lparr>token = t, expiry = stamp env + 86400\<rparr>]). entry_ok e"
    "length ((if length es = 16 then tl es else es) @ [\<lparr>token = t, expiry = stamp env + 86400\<rparr>]) \<le> MAX_SESSIONS"
proof -
  have b: "boot_ok b" using assms(2) by (simp add: op_good_def)
  show thesis
  proof (cases rule: create_cases [OF assms(2), of contents])
    case 1
    with assms(1) show ?thesis by simp
  next
    case (2 es t' ok c')
    have t: "t' = t" "ok" "c' = contents'" using 2(7) assms(1) by (auto split: if_splits)
    have x: "stamp env + SESSION_LIFETIME_SECONDS < 2 ^ 64" using assms(2) by (simp add: op_good_def)
    note k = kept_ok [OF 2(4,3) x]
    show ?thesis
      by (rule that [OF 2(1,4)])
        (use store_file(3) [OF 2(6) assms(3) b k(1,2) t(2)] k t in \<open>simp_all add: MAX_SESSIONS_def SESSION_LIFETIME_SECONDS_def\<close>)
  qed
qed

text \<open>C19: a login that reports success is a session for one day, and no longer. Right after it the file
  holds the sessions that were live (less the oldest one when there were 16) and the new one, and none of
  another boot. Then let any operations follow. The token is accepted until 24 hours after the login, as
  long as it is not logged out, at most fifteen newer logins follow, and no writing of the session file
  breaks off half way. Whatever happens, failures included, it is not accepted once the 24 hours are
  over, nor after a logout of it that reports success. (The random source does not issue it again.)\<close>

theorem web_login_session:
  assumes "create_session env contents = (Some t, contents')" and "op_good b (Login env)" and "session_file contents"
    and "t \<notin> set (live_tokens b contents (clock env))"
    and "\<forall>x\<in>set ops. op_good b x \<and> issued_token x \<noteq> Some t"
    and "sorted (clock env # map (\<lambda>x. clock (op_env x)) ops @ [clock env'])"
    and "session_env.boot env' = Some b" and "opened env'"
  defines "now_valid \<equiv> session_valid env' (fold run_op ops contents') t"
  shows "(\<exists>es. load_sessions contents (Some b) (clock env) = Some es
        \<and> (\<forall>now. live_tokens b contents' now =
            map token (filter (\<lambda>e. now < expiry e) (if length es = 16 then tl es else es))
            @ (if now < stamp env + 86400 then [t] else [])))
    \<and> (\<forall>b' now. b' \<noteq> b \<longrightarrow> live_tokens b' contents' now = [])
    \<and> ((\<forall>x\<in>set ops. store_whole x \<and> (\<forall>e. x \<noteq> Logout e t)) \<and> length (filter is_login ops) \<le> 15 \<and>
        clock env' < stamp env + 86400 \<longrightarrow> now_valid)
    \<and> (stamp env + 86400 \<le> clock env' \<longrightarrow> \<not> now_valid)
    \<and> (\<forall>before e after. ops = before @ Logout e t # after \<and> fst (destroy_session e (fold run_op before contents') t) \<longrightarrow>
        \<not> now_valid)"
proof -
  have b: "boot_ok b" using assms(2) by (simp add: op_good_def)
  obtain es where es: "session_env.boot env = Some b" "load_sessions contents (Some b) (clock env) = Some es"
    and stored: "contents' = sessions_text b ((if length es = 16 then tl es else es) @ [\<lparr>token = t, expiry = stamp env + 86400\<rparr>])"
      "\<forall>e\<in>set ((if length es = 16 then tl es else es) @ [\<lparr>token = t, expiry = stamp env + 86400\<rparr>]). entry_ok e"
      "length ((if length es = 16 then tl es else es) @ [\<lparr>token = t, expiry = stamp env + 86400\<rparr>]) \<le> MAX_SESSIONS"
    by (rule login_stored [OF assms(1-3)])
  let ?e = "\<lparr>token = t, expiry = stamp env + 86400\<rparr>"
  note load = load_stored [OF b stored(2,3), folded stored(1)]
  have sf: "session_file contents'" using run_op_laws(1) [OF assms(3,2)] assms(1) by simp
  have live: "live_tokens b contents' now = map token (filter (\<lambda>e. now < expiry e) (if length es = 16 then tl es else es))
      @ (if now < stamp env + 86400 then [t] else [])" for now
    by (simp add: live_tokens_def load)
  have other: "b' \<noteq> b \<Longrightarrow> live_tokens b' contents' now = []" for b' now by (simp add: live_tokens_def load)
  have tok: "valid_token_text t" using stored(2) by (simp add: entry_ok_def)
  have valid: "now_valid \<longleftrightarrow> t \<in> set (live_tokens b (fold run_op ops contents') (clock env'))"
    unfolding now_valid_def using session_valid_iff [OF assms(7)] tok assms(8) by simp
  have clocks: "\<forall>x\<in>set ops. clock (op_env x) \<le> clock env'" using assms(6) by (auto simp: sorted_append)
  have stays: now_valid
    if whole: "\<forall>x\<in>set ops. store_whole x \<and> (\<forall>e. x \<noteq> Logout e t)" and few: "length (filter is_login ops) \<le> 15"
      and early: "clock env' < stamp env + 86400"
  proof -
    have "kept b ?e 0 contents'" unfolding stored(1) by (rule stored_kept [OF b stored(2,3) refl]) simp
    moreover have "\<forall>x\<in>set ops. op_good b x \<and> store_whole x \<and> clock (op_env x) < expiry ?e \<and> (\<forall>env. x \<noteq> Logout env (token ?e))"
      using whole early assms(5) clocks by fastforce
    ultimately obtain k where "kept b ?e k (fold run_op ops contents')" using run_ops_kept [OF _ sf] few by fastforce
    then show ?thesis using early by (auto simp: valid kept_def live_tokens_def)
  qed
  have ends: "\<not> now_valid" if "stamp env + 86400 \<le> clock env'"
  proof -
    have "set (if length es = 16 then tl es else es) \<subseteq> set es" by (cases es) auto
    moreover have "t \<notin> token ` set es" using assms(4) es(2) by (simp add: live_tokens_def)
    ultimately have "t \<notin> set (live_tokens b contents' (clock env'))" using that by (auto simp: live)
    with run_ops_expired [OF sf] assms(5) clocks show ?thesis by (simp add: valid)
  qed
  have out: "\<not> now_valid"
    if split: "ops = before @ Logout e t # after" and gone: "fst (destroy_session e (fold run_op before contents') t)" for before e after
  proof -
    define mid where "mid = fold run_op before contents'"
    have good: "\<forall>x\<in>set before. op_good b x" "op_good b (Logout e t)" "\<forall>x\<in>set after. op_good b x \<and> issued_token x \<noteq> Some t"
      using assms(5) split by auto
    have m: "session_file mid" unfolding mid_def by (rule run_ops_file [OF sf good(1)])
    have d: "destroy_session e mid t = (True, run_op (Logout e t) mid)" using gone by (simp add: mid_def prod_eq_iff)
    have boot: "session_env.boot e = Some b"
      using good(2) d tok load_none by (auto simp: op_good_def destroy_session_def split: if_splits)
    have m2: "session_file (run_op (Logout e t) mid)" by (rule run_op_laws(1) [OF m good(2)])
    have "t \<notin> set (live_tokens b (run_op (Logout e t) mid) (clock e))"
      using web_logout_session [OF d boot b m tok order.refl] by simp
    moreover have "sorted (clock e # map (\<lambda>x. clock (op_env x)) after @ [clock env'])"
      using assms(6) split by (simp add: sorted_append)
    ultimately show ?thesis
      using sessions.dead_forever [OF m2 _ good(3)] by (simp add: valid split mid_def)
  qed
  show ?thesis using es(2) live other stays ends out by blast
qed

subsection \<open>Witnesses\<close>

definition example_env :: "nat \<Rightarrow> session_env" where
  "example_env now = \<lparr>session_env.boot = read_boot_id (Some (replicate 36 (CHR ''a'') @ [NL])), clock = now,
     stamp = now, entropy = Some (replicate 32 7), opened = True, failure = None\<rparr>"

definition example_token :: string where
  "example_token = concat (replicate 32 ''07'')"

lemma example_boot: "read_boot_id (Some (replicate 36 (CHR ''a'') @ [NL])) = Some (replicate 36 (CHR ''a''))"
  by code_simp

lemma load_empty: "load_sessions [] (Some b) now = Some []"
  by (simp add: load_sessions_def c_str_def split_at_def)

lemma example_random: "random_token (Some (replicate 32 7)) = Some example_token"
  by code_simp

lemma example_token_valid: "valid_token_text example_token"
  by code_simp

definition example_file :: string where
  "example_file = sessions_text (replicate 36 (CHR ''a'')) [\<lparr>token = example_token, expiry = 86500\<rparr>]"

lemma example_file_fits: "\<not> MAX_SESSION_FILE < length example_file"
  using sessions_text_fits [OF read_boot_id_ok [OF example_boot], of "[\<lparr>token = example_token, expiry = 86500\<rparr>]"]
  by (simp add: example_file_def entry_ok_def example_token_valid MAX_SESSIONS_def)

lemma example_load: "load_sessions example_file (Some (replicate 36 (CHR ''a''))) now =
    Some (filter (\<lambda>e. now < expiry e) [\<lparr>token = example_token, expiry = 86500\<rparr>])"
  unfolding example_file_def using load_stored [OF read_boot_id_ok [OF example_boot]]
  by (simp add: entry_ok_def example_token_valid MAX_SESSIONS_def)

lemma example_login: "create_session (example_env 100) [] = (Some example_token, example_file)"
  using example_file_fits
  by (simp add: create_session_def example_env_def example_random example_boot load_empty store_sessions_def
      SESSION_LIFETIME_SECONDS_def example_file_def Let_def MAX_SESSIONS_def)

lemma example_good: "op_good (replicate 36 (CHR ''a'')) (Login (example_env n))" if "n < 1000000"
  using that read_boot_id_ok [OF example_boot]
  by (simp add: op_good_def example_env_def example_boot SESSION_LIFETIME_SECONDS_def)

theorem web_login_session_witness:
  "session_valid (example_env 86499) (fold run_op [Logout (example_env 200) (replicate 64 (CHR ''b''))] example_file) example_token
   \<and> \<not> session_valid (example_env 86500) example_file example_token"
proof -
  let ?b = "replicate 36 (CHR ''a'')"
  have f: "example_token \<notin> set (live_tokens ?b [] (clock (example_env 100)))" by (simp add: live_tokens_def load_empty)
  have e: "session_env.boot (example_env n) = Some ?b" "opened (example_env n)" "clock (example_env n) = n" "stamp (example_env n) = n"
    "store_whole (Logout (example_env n) u)" for n u
    by (simp_all add: example_env_def example_boot store_whole_def)
  have n: "replicate 64 (CHR ''b'') \<noteq> example_token" by code_simp
  have o: "\<forall>x\<in>set [Logout (example_env 200) (replicate 64 (CHR ''b''))]. op_good ?b x \<and> issued_token x \<noteq> Some example_token"
    using read_boot_id_ok [OF example_boot]
    by (simp add: op_good_def e) (simp add: example_env_def SESSION_LIFETIME_SECONDS_def)
  note w = web_login_session [OF example_login example_good session_file_empty f]
  show ?thesis
    using w [where ops = "[Logout (example_env 200) (replicate 64 (CHR ''b''))]" and env' = "example_env 86499"] o
      w [where ops = "[]" and env' = "example_env 86500"] e n by (auto simp: is_login_def)
qed

theorem web_session_dead_forever_witness:
  "\<not> session_valid (example_env 300) (fold run_op [Login (example_env 100), Login (example_env 200)] []) (replicate 64 (CHR ''b''))"
proof -
  let ?t = "replicate 64 (CHR ''b'')"
  let ?ops = "[Login (example_env 100), Login (example_env 200)]"
  note example_random
  moreover have "example_token \<noteq> ?t" by code_simp
  ultimately have "\<forall>x\<in>set ?ops. op_good (replicate 36 (CHR ''a'')) x \<and> issued_token x \<noteq> Some ?t"
    using example_good by (simp add: example_env_def)
  moreover have "?t \<notin> set (live_tokens (replicate 36 (CHR ''a'')) [] 50)"
    by (simp add: live_tokens_def load_sessions_def c_str_def split_at_def)
  moreover have "sorted (50 # map (\<lambda>x. clock (op_env x)) ?ops @ [clock (example_env 300)])"
    by (simp add: example_env_def)
  moreover have "session_env.boot (example_env 300) = Some (replicate 36 (CHR ''a''))"
    by (simp add: example_env_def example_boot)
  ultimately show ?thesis using web_session_dead_forever [OF session_file_empty] by blast
qed

theorem web_logout_session_witness:
  "example_token \<notin> set (live_tokens (replicate 36 (CHR ''a''))
     (snd (destroy_session (example_env 200) example_file example_token)) 300)"
proof -
  have d: "destroy_session (example_env 200) example_file example_token =
      (True, snd (destroy_session (example_env 200) example_file example_token))"
    by (simp add: destroy_session_def example_env_def example_boot example_load example_token_valid store_sessions_def
        Let_def sessions_text_def MAX_SESSION_FILE_def MAX_SESSIONS_def)
  have "session_file example_file"
    using run_op_laws(1) [OF session_file_empty example_good [of 100]] by (simp add: example_login)
  moreover note example_token_valid
  moreover have "session_env.boot (example_env 200) = Some (replicate 36 (CHR ''a''))" "clock (example_env 200) \<le> 300"
    by (simp_all add: example_env_def example_boot)
  ultimately show ?thesis
    using web_logout_session [OF d _ read_boot_id_ok [OF example_boot]] by blast
qed

end
