(* ===== verification/Web_Request.thy ===== *)
theory Web_Request
  imports Web_Session
begin

text \<open>
  Requests of the web server, \<^verbatim>\<open>web/mt11-web.c\<close>: receiving one, its headers, cookies and form
  values, authentication, the checks against cross-site requests, and byte ranges. A header block holds no NUL, because the search for its end stops at
  one; a body is a list of characters that may hold some. What \<^verbatim>\<open>recv\<close> delivers and the contents
  of the password file are parameters.
\<close>

definition MAX_HEADER :: nat where "MAX_HEADER = 16 * 1024"
definition MAX_BODY :: nat where "MAX_BODY = 256 * 1024"

record request =
  req_method :: string
  req_path :: string
  req_query :: string
  headers :: string
  body :: string
  content_length :: nat
  streaming_body :: bool

subsection \<open>Headers\<close>

definition caseless :: "string \<Rightarrow> string \<Rightarrow> bool" where
  "caseless a b \<longleftrightarrow> map tolower a = map tolower b"

text \<open>The value of a header line, when it is the header called \<^term>\<open>name\<close>.\<close>

definition header_line :: "string \<Rightarrow> string \<Rightarrow> string option" where
  "header_line name line =
     (if length name + 1 < length line \<and> caseless (take (length name) line) name \<and> line ! length name = CHR '':''
      then Some (trim (drop (length name + 1) line)) else None)"

function find_header_span :: "string \<Rightarrow> string \<Rightarrow> string option" where
  "find_header_span p name =
     (if p = [] then None
      else case header_line name (takeWhile (\<lambda>c. c \<noteq> NL) p) of
        Some v \<Rightarrow> Some v
      | None \<Rightarrow> find_header_span (tl (dropWhile (\<lambda>c. c \<noteq> NL) p)) name)"
  by pat_completeness auto
termination
proof (relation "measure (\<lambda>(p, name). length p)", goal_cases)
  case (2 p name)
  then show ?case using length_dropWhile_le [of "\<lambda>c. c \<noteq> NL" p] by (cases p) auto
qed simp

declare find_header_span.simps [simp del]

text \<open>A value that does not fit the caller's buffer counts as absent.\<close>

definition find_header :: "string \<Rightarrow> string \<Rightarrow> nat \<Rightarrow> string option" where
  "find_header hs name value_size =
     (case find_header_span hs name of
        None \<Rightarrow> None
      | Some v \<Rightarrow> if value_size \<le> length v then None else Some v)"

text \<open>None: malformed; else the length and whether the header is there. \<^verbatim>\<open>size_t\<close> has 64 bits.\<close>

definition parse_content_length :: "string \<Rightarrow> (nat \<times> bool) option" where
  "parse_content_length hs =
     (case find_header hs ''Content-Length'' 64 of
        None \<Rightarrow> Some (0, False)
      | Some value \<Rightarrow>
          (case strtoul value of
             None \<Rightarrow> None
           | Some (parsed, end, overflow) \<Rightarrow> if overflow \<or> end \<noteq> [] then None else Some (parsed, True)))"

subsection \<open>Receiving\<close>

text \<open>What successive calls of \<^verbatim>\<open>recv\<close> meet: an error, or data of which a call takes as much as it
  has room for; at the end the peer has closed the connection.\<close>

fun recv :: "nat \<Rightarrow> (errno + string) list \<Rightarrow> (errno + string) \<times> (errno + string) list" where
  "recv room [] = (Inr [], [])"
| "recv room (Inl e # evs) = (Inl e, evs)"
| "recv room (Inr s # evs) = (if length s \<le> room then (Inr s, evs) else (Inr (take room s), Inr (drop room s) # evs))"

lemma recv_error: "recv room evs = (Inl e, evs') \<Longrightarrow> length evs' < length evs"
  by (induction room evs rule: recv.induct) (auto split: if_splits)

lemma recv_data: "recv room evs = (Inr s, evs') \<Longrightarrow>
    length s \<le> room \<and> (s \<noteq> [] \<longrightarrow> length evs' < length evs \<or> length evs' = length evs \<and> length s = room)"
  by (induction room evs rule: recv.induct) (auto split: if_splits)

definition BOUNDARY :: string where "BOUNDARY = [CR, NL, CR, NL]"

text \<open>\<^verbatim>\<open>strstr\<close>: what precedes the first occurrence.\<close>

fun strstr :: "string \<Rightarrow> string \<Rightarrow> nat option" where
  "strstr s t =
     (if take (length t) s = t then Some 0
      else case s of [] \<Rightarrow> None | c # cs \<Rightarrow> map_option Suc (strstr cs t))"

declare strstr.simps [simp del]

datatype receive_status = Incomplete | Status nat

text \<open>The loop that reads up to the end of the headers: the storage and the header length, 0 when the
  peer closed or the room ran out before it.\<close>

function receive_head :: "(errno + string) list \<Rightarrow> string \<Rightarrow> (string \<times> nat \<times> (errno + string) list) option" where
  "receive_head evs storage =
     (if MAX_HEADER \<le> length storage then Some (storage, 0, evs)
      else
        case recv (MAX_HEADER - length storage) evs of
          (Inl e, evs') \<Rightarrow> if e = EINTR then receive_head evs' storage else None
        | (Inr s, evs') \<Rightarrow>
            if s = [] then Some (storage, 0, evs')
            else
              let storage' = storage @ s in
              (case strstr (c_str storage') BOUNDARY of
                 Some n \<Rightarrow> Some (storage', n + 4, evs')
               | None \<Rightarrow> receive_head evs' storage'))"
  by pat_completeness auto
termination
  by (relation "measure (\<lambda>(evs, storage). length evs + (MAX_HEADER - length storage))")
    (auto dest!: recv_error [OF sym] recv_data [OF sym])

declare receive_head.simps [simp del]

text \<open>\<^verbatim>\<open>sscanf\<close> with \<^verbatim>\<open>%ns\<close>: a word of at most n characters, and what follows it.\<close>

definition scan_word :: "nat \<Rightarrow> string \<Rightarrow> (string \<times> string) option" where
  "scan_word n s =
     (let t = dropWhile isspace s; w = take n (takeWhile (\<lambda>c. \<not> isspace c) t)
      in if w = [] then None else Some (w, drop (length w) t))"

definition scan_request_line :: "string \<Rightarrow> (string \<times> string) option" where
  "scan_request_line s =
     (case scan_word 11 s of
        None \<Rightarrow> None
      | Some (m, rest) \<Rightarrow> (case scan_word 4095 rest of None \<Rightarrow> None | Some (p, _) \<Rightarrow> Some (m, p)))"

text \<open>The loop that reads the rest of the body: the buffer has room for the whole request, or for
  \<^const>\<open>MAX_HEADER\<close> bytes when that is more.\<close>

function receive_body :: "nat \<Rightarrow> (errno + string) list \<Rightarrow> string \<Rightarrow> string option" where
  "receive_body need evs storage =
     (if need \<le> length storage then Some storage
      else
        case recv (max need MAX_HEADER - length storage) evs of
          (Inl e, evs') \<Rightarrow> if e = EINTR then receive_body need evs' storage else None
        | (Inr s, evs') \<Rightarrow> if s = [] then None else receive_body need evs' (storage @ s))"
  by pat_completeness auto
termination
  by (relation "measure (\<lambda>(need, evs, storage). length evs + (max need MAX_HEADER - length storage))")
    (auto dest!: recv_error [OF sym] recv_data [OF sym])

declare receive_body.simps [simp del]

definition receive_request :: "(errno + string) list \<Rightarrow> receive_status + request" where
  "receive_request evs =
     (case receive_head evs [] of
        None \<Rightarrow> Inl Incomplete
      | Some (storage, header_len, evs') \<Rightarrow>
          if header_len = 0 then Inl (if MAX_HEADER \<le> length storage then Status 431 else Incomplete)
          else case scan_request_line (c_str storage) of
            None \<Rightarrow> Inl (Status 400)
          | Some (m, target) \<Rightarrow>
              let (p, q) = (case split_at (CHR ''?'') target of None \<Rightarrow> (target, []) | Some (a, b) \<Rightarrow> (a, b));
                  hs = take header_len storage; got = drop header_len storage
              in case parse_content_length hs of
                None \<Rightarrow> Inl (Status 400)
              | Some (n, present) \<Rightarrow>
                  if find_header hs ''Transfer-Encoding'' 64 \<noteq> None then Inl (Status 400)
                  else
                    let streaming = (m = ''POST'' \<and> p = ''/upgrade'');
                        req = \<lparr>req_method = m, req_path = p, req_query = q, headers = hs, body = got,
                               content_length = n, streaming_body = streaming\<rparr>
                    in if n < length got \<or> (m = ''POST'' \<or> m = ''PUT'') \<and> \<not> present then Inl (Status 400)
                       else if streaming then Inr req
                       else if MAX_BODY < n then Inl (Status 413)
                       else case receive_body (header_len + n) evs' storage of
                         None \<Rightarrow> Inl Incomplete
                       | Some st \<Rightarrow> Inr (req\<lparr>body := take n (drop header_len st)\<rparr>))"

text \<open>Values of a form and of a query.\<close>

definition form_value :: "request \<Rightarrow> string \<Rightarrow> string option" where
  "form_value r key = encoded_value (body r) key"

definition query_value :: "request \<Rightarrow> string \<Rightarrow> string option" where
  "query_value r key = encoded_value (req_query r) key"

subsection \<open>Authentication\<close>

text \<open>\<^verbatim>\<open>read_file\<close>: a file that is missing or longer than the limit is not read.\<close>

definition read_file :: "string option \<Rightarrow> nat \<Rightarrow> string option" where
  "read_file file limit =
     (case file of None \<Rightarrow> None | Some s \<Rightarrow> if limit < length s then None else Some s)"

text \<open>The password is the contents of the password file, read with a limit of 512 bytes, without the
  line ends after it.\<close>

definition stored_password :: "string \<Rightarrow> string" where
  "stored_password contents = rev (dropWhile (\<lambda>c. c = NL \<or> c = CR) (rev contents))"

definition check_password :: "string option \<Rightarrow> string \<Rightarrow> string \<Rightarrow> int" where
  "check_password pw user candidate =
     (case pw of
        None \<Rightarrow> -1
      | Some contents \<Rightarrow>
          let password = stored_password contents in
          if password = [] then -1
          else if user = ''admin'' \<and> constant_time_equal candidate password then 1 else 0)"

definition authenticate_basic :: "string option \<Rightarrow> string \<Rightarrow> int" where
  "authenticate_basic pw hs =
     (case find_header hs ''Authorization'' 1024 of
        None \<Rightarrow> 0
      | Some authorization \<Rightarrow>
          if \<not> caseless (take 6 authorization) ''Basic '' then 0
          else case decode_base64 (drop 6 authorization) 768 of
            None \<Rightarrow> 0
          | Some decoded \<Rightarrow>
              (case split_at (CHR '':'') decoded of
                 None \<Rightarrow> 0
               | Some (user, candidate) \<Rightarrow> check_password pw user candidate))"

function cookie_search :: "string \<Rightarrow> string \<Rightarrow> nat \<Rightarrow> string option" where
  "cookie_search p name value_size =
     (if p = [] then None
      else
        let item = dropWhile (\<lambda>c. c = CHR '' '') (takeWhile (\<lambda>c. c \<noteq> CHR '';'') p);
            rest = tl (dropWhile (\<lambda>c. c \<noteq> CHR '';'') p)
        in case split_at (CHR ''='') item of
             Some (n, v) \<Rightarrow>
               if n = name then (if value_size \<le> length v then None else Some v)
               else cookie_search rest name value_size
           | None \<Rightarrow> cookie_search rest name value_size)"
  by pat_completeness auto
termination
proof (relation "measure (\<lambda>(p, name, n). length p)", goal_cases)
  case (2 p name n)
  then show ?case using length_dropWhile_le [of "\<lambda>c. c \<noteq> CHR '';''" p] by (cases p) auto
next
  case (3 p name n)
  then show ?case using length_dropWhile_le [of "\<lambda>c. c \<noteq> CHR '';''" p] by (cases p) auto
qed simp

declare cookie_search.simps [simp del]

definition cookie_value :: "string \<Rightarrow> string \<Rightarrow> nat \<Rightarrow> string option" where
  "cookie_value hs name value_size =
     (case find_header hs ''Cookie'' 4096 of None \<Rightarrow> None | Some cookies \<Rightarrow> cookie_search cookies name value_size)"

definition authenticate :: "string option \<Rightarrow> session_env \<Rightarrow> string \<Rightarrow> string \<Rightarrow> int \<times> string" where
  "authenticate pw env sessions hs =
     (case pw of
        None \<Rightarrow> (-1, [])
      | Some contents \<Rightarrow>
          if stored_password contents = [] then (-1, [])
          else if find_header_span hs ''Authorization'' \<noteq> None then
            (if authenticate_basic pw hs = 1 then 1 else 0, [])
          else case cookie_value hs ''session'' 65 of
            None \<Rightarrow> (0, [])
          | Some t \<Rightarrow> if session_valid env sessions t then (2, t) else (0, []))"

subsection \<open>Cross-site requests and redirects\<close>

definition valid_csrf :: "string \<Rightarrow> request \<Rightarrow> bool" where
  "valid_csrf csrf_token r =
     (case form_value r ''csrf'' of None \<Rightarrow> False | Some t \<Rightarrow> constant_time_equal t csrf_token)"

definition valid_csrf_header :: "string \<Rightarrow> request \<Rightarrow> bool" where
  "valid_csrf_header csrf_token r =
     (case find_header (headers r) ''X-CSRF-Token'' 128 of None \<Rightarrow> False | Some t \<Rightarrow> constant_time_equal t csrf_token)"

definition same_origin :: "string \<Rightarrow> bool" where
  "same_origin hs =
     (case find_header_span hs ''Origin'' of
        None \<Rightarrow> True
      | Some origin \<Rightarrow>
          (case find_header_span hs ''Host'' of
             None \<Rightarrow> False
           | Some host \<Rightarrow> length origin = length host + 7 \<and> caseless (take 7 origin) ''http://''
               \<and> caseless (drop 7 origin) host))"

definition safe_local_path :: "string option \<Rightarrow> bool" where
  "safe_local_path path =
     (case path of
        None \<Rightarrow> False
      | Some p \<Rightarrow>
          if p = [] \<or> 2048 \<le> length p \<or> hd p \<noteq> CHR ''/''
             \<or> (tl p \<noteq> [] \<and> (hd (tl p) = CHR ''/'' \<or> hd (tl p) = CHR 0x5C)) then False
          else list_all (\<lambda>c. isalnum c \<or> c \<in> set ''/?=&%._~-'') p)"

text \<open>The name offered for a download: at most 255 characters.\<close>

definition last_component :: "string \<Rightarrow> string" where
  "last_component p = rev (takeWhile (\<lambda>c. c \<noteq> CHR ''/'') (rev p))"

definition safe_download_name :: "string \<Rightarrow> string" where
  "safe_download_name path =
     (let out = map (\<lambda>c. if 32 \<le> code c \<and> code c < 127 \<and> c \<noteq> QUOTE \<and> c \<noteq> CHR 0x5C then c else CHR ''_'')
                  (take 255 (last_component path))
      in if out = [] then ''_'' else out)"

subsection \<open>Byte ranges\<close>

datatype range_result = RANGE_NONE | RANGE_VALID nat nat | RANGE_INVALID

text \<open>The two numbers around the dash, the first of which may be missing, and so may the second.\<close>

definition range_of :: "string \<Rightarrow> string \<Rightarrow> nat \<Rightarrow> range_result" where
  "range_of a b fsize =
     (if a = [] then
        (case strtoul b of
           None \<Rightarrow> RANGE_INVALID
         | Some (n, end, overflow) \<Rightarrow>
             if overflow \<or> end \<noteq> [] \<or> n = 0 then RANGE_INVALID
             else RANGE_VALID (fsize - (if fsize < n then fsize else n)) (fsize - 1))
      else
        case strtoul a of
          None \<Rightarrow> RANGE_INVALID
        | Some (first, end, overflow) \<Rightarrow>
            if overflow \<or> end \<noteq> [] \<or> fsize \<le> first then RANGE_INVALID
            else if b = [] then RANGE_VALID first (fsize - 1)
            else case strtoul b of
              None \<Rightarrow> RANGE_INVALID
            | Some (n, end, overflow) \<Rightarrow>
                if overflow \<or> end \<noteq> [] \<or> n < first then RANGE_INVALID
                else RANGE_VALID first (if fsize \<le> n then fsize - 1 else n))"

definition parse_byte_range :: "string \<Rightarrow> nat \<Rightarrow> range_result" where
  "parse_byte_range hs fsize =
     (case find_header hs ''Range'' 256 of
        None \<Rightarrow> RANGE_NONE
      | Some value \<Rightarrow>
          if take 6 value \<noteq> ''bytes='' \<or> CHR '','' \<in> set (drop 6 value) \<or> fsize = 0 then RANGE_INVALID
          else case split_at (CHR ''-'') (drop 6 value) of None \<Rightarrow> RANGE_INVALID | Some (a, b) \<Rightarrow> range_of a b fsize)"

lemma range_of_inside: "range_of a b fsize = RANGE_VALID s e \<Longrightarrow> 0 < fsize \<Longrightarrow> s \<le> e \<and> e < fsize"
  unfolding range_of_def by (auto split: option.split_asm prod.split_asm if_split_asm)

lemma parse_byte_range_inside:
  assumes "parse_byte_range hs fsize = RANGE_VALID s e"
  shows "s \<le> e \<and> e < fsize"
proof -
  from assms obtain v where v: "find_header hs ''Range'' 256 = Some v"
    by (cases "find_header hs ''Range'' 256") (simp_all add: parse_byte_range_def)
  from assms v have r: "fsize \<noteq> 0"
    "(case split_at (CHR ''-'') (drop 6 v) of None \<Rightarrow> RANGE_INVALID | Some (a, b) \<Rightarrow> range_of a b fsize) = RANGE_VALID s e"
    by (simp_all add: parse_byte_range_def split: if_split_asm)
  show ?thesis
    by (cases "split_at (CHR ''-'') (drop 6 v)") (use r range_of_inside in auto)
qed

subsection \<open>The stream\<close>

definition net_stream :: "(errno + string) list \<Rightarrow> string" where
  "net_stream evs = concat (map (\<lambda>e. case e of Inl _ \<Rightarrow> [] | Inr s \<Rightarrow> s) evs)"

lemma net_stream_simps [simp]: "net_stream [] = []" "net_stream (Inl e # evs) = net_stream evs" "net_stream (Inr s # evs) = s @ net_stream evs"
  by (simp_all add: net_stream_def)

lemma recv_stream:
  "recv room evs = (Inl e, evs') \<Longrightarrow> net_stream evs' = net_stream evs"
  "recv room evs = (Inr s, evs') \<Longrightarrow> s @ net_stream evs' = net_stream evs"
  by (induction room evs rule: recv.induct) (auto split: if_splits)

lemma strstr_Some: "strstr s t = Some i \<Longrightarrow> take (length t) (drop i s) = t \<and> i + length t \<le> length s"
proof (induction s t arbitrary: i rule: strstr.induct)
  case (1 s t)
  show ?case
  proof (cases "take (length t) s = t")
    case True
    then have "length t \<le> length s" by (metis length_take min.cobounded1)
    with True 1(2) show ?thesis by (subst (asm) strstr.simps) simp
  next
    case False
    with 1(2) obtain c cs j where "s = c # cs" "strstr cs t = Some j" "i = Suc j"
      by (subst (asm) strstr.simps) (auto split: list.splits)
    with 1(1) [OF False] show ?thesis by simp
  qed
qed

lemma c_str_prefix: "\<exists>r. s = c_str s @ r"
  by (metis c_str_def takeWhile_dropWhile_id)

lemma receive_head_stream:
  "receive_head evs st = Some (st', n, evs') \<Longrightarrow>
   st' @ net_stream evs' = st @ net_stream evs \<and> length st' \<le> max (length st) MAX_HEADER
   \<and> (n \<noteq> 0 \<longrightarrow> 4 \<le> n \<and> strstr (c_str st') BOUNDARY = Some (n - 4))"
proof (induction evs st rule: receive_head.induct)
  case (1 evs st)
  show ?case
  proof (cases "MAX_HEADER \<le> length st")
    case True
    with 1(3) show ?thesis by (subst (asm) receive_head.simps) auto
  next
    case False
    obtain x r where x: "recv (MAX_HEADER - length st) evs = (x, r)" by (cases "recv (MAX_HEADER - length st) evs")
    show ?thesis
    proof (cases x)
      case (Inl e)
      with 1(3) x False have "e = EINTR" "receive_head r st = Some (st', n, evs')"
        by (subst (asm) receive_head.simps, simp split: if_splits)+
      with 1(1) [OF False x [symmetric] Inl] recv_stream(1) [of "MAX_HEADER - length st" evs e r] x Inl
      show ?thesis by simp
    next
      case (Inr s)
      have s: "s @ net_stream r = net_stream evs" "length s \<le> MAX_HEADER - length st"
        using recv_stream(2) recv_data x Inr by blast+
      show ?thesis
      proof (cases "s = [] \<or> strstr (c_str (st @ s)) BOUNDARY \<noteq> None")
        case True
        with 1(3) x False Inr s show ?thesis
          by (subst (asm) receive_head.simps) (auto simp: Let_def split: if_splits option.splits)
      next
        case more: False
        with 1(3) x False Inr have "receive_head r (st @ s) = Some (st', n, evs')"
          by (subst (asm) receive_head.simps) simp
        with 1(2) [OF False x [symmetric] Inr] more s show ?thesis by auto
      qed
    qed
  qed
qed

lemma receive_body_stream:
  "receive_body need evs st = Some st' \<Longrightarrow> need \<le> length st' \<and> (\<exists>r. st' @ r = st @ net_stream evs)"
proof (induction need evs st rule: receive_body.induct)
  case (1 need evs st)
  show ?case
  proof (cases "need \<le> length st")
    case True
    with 1(3) show ?thesis by (subst (asm) receive_body.simps) auto
  next
    case False
    obtain x r where x: "recv (max need MAX_HEADER - length st) evs = (x, r)"
      by (cases "recv (max need MAX_HEADER - length st) evs")
    show ?thesis
    proof (cases x)
      case (Inl e)
      with 1(3) x False have "e = EINTR" "receive_body need r st = Some st'"
        by (subst (asm) receive_body.simps, simp split: if_splits)+
      with 1(1) [OF False x [symmetric] Inl] recv_stream(1) [of "max need MAX_HEADER - length st" evs e r] x Inl
      show ?thesis by simp
    next
      case (Inr s)
      with 1(3) x False have s: "s \<noteq> []" "receive_body need r (st @ s) = Some st'"
        by (subst (asm) receive_body.simps, simp split: if_splits)+
      with 1(2) [OF False x [symmetric] Inr] recv_stream(2) [of "max need MAX_HEADER - length st" evs s r] x Inr
      show ?thesis by auto
    qed
  qed
qed

lemma split_at_Some: "split_at c s = Some (a, b) \<Longrightarrow> s = a @ c # b \<and> c \<notin> set a"
proof -
  assume h: "split_at c s = Some (a, b)"
  then have "c \<in> set s" "a = takeWhile (\<lambda>x. x \<noteq> c) s" "b = tl (dropWhile (\<lambda>x. x \<noteq> c) s)"
    by (auto simp: split_at_def split: if_splits)
  then show "s = a @ c # b \<and> c \<notin> set a"
    by (induction s arbitrary: a b) (auto split: if_splits)
qed

lemma stored_password_length: "length (stored_password s) \<le> length s"
  using length_dropWhile_le [of "\<lambda>c. c = NL \<or> c = CR" "rev s"] by (simp add: stored_password_def)

lemma check_password_iff:
  assumes "length candidate < 2 ^ 32"
  shows "check_password (read_file file 512) user candidate = 1 \<longleftrightarrow>
    (\<exists>contents. file = Some contents \<and> length contents \<le> 512 \<and> stored_password contents \<noteq> []
      \<and> user = ''admin'' \<and> candidate = stored_password contents)"
proof -
  have "length contents \<le> 512 \<Longrightarrow> constant_time_equal candidate (stored_password contents) \<longleftrightarrow>
      candidate = stored_password contents" for contents
    using assms stored_password_length [of contents] by (intro constant_time_equal_iff) auto
  then show ?thesis by (auto simp: check_password_def read_file_def Let_def split: option.splits)
qed

lemma decoded_length: "decode_base64 s m = Some r \<Longrightarrow> 0 < m \<Longrightarrow> length r < m"
  unfolding decode_base64_def using b64_loop_length [of m 0 0 "[]" s r] by simp

lemma authenticate_basic_iff:
  "authenticate_basic (read_file file 512) hs = 1 \<longleftrightarrow>
   (\<exists>contents a. file = Some contents \<and> length contents \<le> 512 \<and> stored_password contents \<noteq> []
     \<and> find_header hs ''Authorization'' 1024 = Some a \<and> caseless (take 6 a) ''Basic ''
     \<and> decode_base64 (drop 6 a) 768 = Some (''admin:'' @ stored_password contents))"
  (is "?l = ?r")
proof
  assume ?l
  then obtain a decoded user candidate where h: "find_header hs ''Authorization'' 1024 = Some a"
    "caseless (take 6 a) ''Basic ''" "decode_base64 (drop 6 a) 768 = Some decoded"
    "split_at (CHR '':'') decoded = Some (user, candidate)" "check_password (read_file file 512) user candidate = 1"
    by (auto simp: authenticate_basic_def split: option.splits if_splits prod.splits)
  have d: "decoded = user @ CHR '':'' # candidate" using split_at_Some [OF h(4)] by simp
  then have "length candidate < 2 ^ 32" using decoded_length [OF h(3)] by simp
  from h(5) [unfolded check_password_iff [OF this]] h(1-3) d show ?r by auto
next
  assume ?r
  then obtain contents a where h: "file = Some contents" "length contents \<le> 512" "stored_password contents \<noteq> []"
    "find_header hs ''Authorization'' 1024 = Some a" "caseless (take 6 a) ''Basic ''"
    "decode_base64 (drop 6 a) 768 = Some (''admin:'' @ stored_password contents)" by blast
  have "split_at (CHR '':'') (''admin'' @ CHR '':'' # stored_password contents) = Some (''admin'', stored_password contents)"
    by (rule split_at_append) simp
  moreover have "length (stored_password contents) < 2 ^ 32"
    using h(2) stored_password_length [of contents] by simp
  ultimately show ?l
    using h check_password_iff [of "stored_password contents"] by (simp add: authenticate_basic_def)
qed

lemma safe_download_chars:
  "\<forall>c\<in>set (safe_download_name path). 32 \<le> code c \<and> code c < 127 \<and> c \<noteq> QUOTE \<and> c \<noteq> CHR 0x5C"
proof -
  have u: "32 \<le> code (CHR ''_'') \<and> code (CHR ''_'') < 127 \<and> CHR ''_'' \<noteq> QUOTE \<and> CHR ''_'' \<noteq> CHR 0x5C"
    by (simp add: code_def)
  have "set (safe_download_name path) \<subseteq> insert (CHR ''_'') {c. 32 \<le> code c \<and> code c < 127 \<and> c \<noteq> QUOTE \<and> c \<noteq> CHR 0x5C}"
    by (auto simp: safe_download_name_def Let_def)
  with u show ?thesis by blast
qed

lemma safe_path_char:
  "isalnum c \<or> c \<in> set ''/?=&%._~-'' \<Longrightarrow> c \<noteq> CR \<and> c \<noteq> NL \<and> c \<noteq> QUOTE \<and> c \<noteq> CHR '' ''"
  by (auto simp: isalnum_def isdigit_def isupper_def islower_def code_def)

lemma strstr_take: "strstr s t = Some i \<Longrightarrow> i + length t \<le> k \<Longrightarrow> strstr (take k s) t = Some i"
proof (induction s t arbitrary: i k rule: strstr.induct)
  case (1 s t)
  have same: "take (length t) (take k s) = take (length t) s" using 1(3) by (simp add: min_def)
  show ?case
  proof (cases "take (length t) s = t")
    case True
    with 1(2) have "i = 0" by (subst (asm) strstr.simps) simp
    with True same show ?thesis by (subst strstr.simps) simp
  next
    case False
    with 1(2) obtain c cs j where s: "s = c # cs" "strstr cs t = Some j" "i = Suc j"
      by (subst (asm) strstr.simps) (auto split: list.splits)
    from 1(3) s obtain k' where k: "k = Suc k'" by (cases k) auto
    from 1(1) [OF False s(1,2), of k'] 1(3) s k have "strstr (take k' cs) t = Some j" by simp
    with False same s k show ?thesis by (subst strstr.simps) simp
  qed
qed

text \<open>The headers that the first loop finds: no NUL in them, and the first blank line at their end.\<close>

lemma receive_head_headers:
  assumes "receive_head evs [] = Some (st, n, evs')" and "n \<noteq> 0"
  shows "st @ net_stream evs' = net_stream evs" and "4 \<le> n" and "n \<le> length st" and "n \<le> MAX_HEADER"
    and "NUL \<notin> set (take n st)" and "strstr (take n st) BOUNDARY = Some (n - 4)"
proof -
  from receive_head_stream [OF assms(1)] assms(2)
  have h: "st @ net_stream evs' = net_stream evs" "length st \<le> MAX_HEADER" "4 \<le> n" "strstr (c_str st) BOUNDARY = Some (n - 4)"
    by auto
  from strstr_Some [OF h(4)] h(3) have len: "n \<le> length (c_str st)"
    by (simp add: BOUNDARY_def del: append_take_drop_id) arith
  obtain r where r: "st = c_str st @ r" using c_str_prefix by blast
  with len have t: "take n st = take n (c_str st)" by (metis append_eq_conv_conj diff_is_0_eq take_0 take_append append_Nil2)
  have "NUL \<notin> set (c_str st)" by (auto simp: c_str_def dest: set_takeWhileD)
  with t show "NUL \<notin> set (take n st)" by (metis in_set_takeD)
  from r len have "n \<le> length st" by (metis le_trans length_append le_add1)
  with h show "st @ net_stream evs' = net_stream evs" "4 \<le> n" "n \<le> length st" "n \<le> MAX_HEADER" by simp_all
  show "strstr (take n st) BOUNDARY = Some (n - 4)"
    unfolding t using h(3) by (intro strstr_take [OF h(4)]) (simp add: BOUNDARY_def)
qed

lemma ascii_digits: "digit 0 = CHR ''0''" "digit 2 = CHR ''2''" "digit (Suc 0) = CHR ''1''" "digit 5 = CHR ''5''"
  by code_simp+

text \<open>Two requests, read.\<close>

definition form_post :: string where
  "form_post = ''POST /a HTTP/1.1'' @ [CR, NL] @ ''Content-Length: 3'' @ BOUNDARY @ ''a=b''"
definition long_transfer_encoding :: string where
  "long_transfer_encoding = ''POST /x HTTP/1.1'' @ [CR, NL] @ ''Content-Length: 0'' @ [CR, NL]
     @ ''Transfer-Encoding: gzip;x=yyyyyyyyyyyyyyyyyyyyyyyyyyyyyyyyyyyyyyyyyyyyyyyyyy,chunked'' @ BOUNDARY"

lemmas scan_rules = BOUNDARY_def scan_request_line_def scan_word_def find_header_def find_header_span.simps header_line_def
  caseless_def tolower_def isupper_def isspace_def code_def trim_def rstrip_def

lemma form_post_read:
  "receive_head [Inr (take 7 form_post), Inl EINTR, Inr (drop 7 form_post)] [] = Some (form_post, 39, [])"
  "c_str form_post = form_post"
  "scan_request_line form_post = Some (''POST'', ''/a'')"
  "parse_content_length (take 39 form_post) = Some (3, True)"
  "find_header (take 39 form_post) ''Transfer-Encoding'' 64 = None"
  "drop 39 form_post = ''a=b''" "length form_post = 42"
  apply (simp add: receive_head.simps form_post_def BOUNDARY_def strstr.simps MAX_HEADER_def c_str_def)
  apply (simp add: form_post_def BOUNDARY_def c_str_def)
  apply (simp add: form_post_def scan_rules)
  apply (simp add: form_post_def scan_rules parse_content_length_def strtoul_def number_prefix_def isdigit_def digits_value_def)
  apply (simp add: form_post_def scan_rules)
  by (simp_all add: form_post_def BOUNDARY_def)

lemma form_post_request:
  "receive_request [Inr (take 7 form_post), Inl EINTR, Inr (drop 7 form_post)] =
   Inr \<lparr>req_method = ''POST'', req_path = ''/a'', req_query = [], headers = take 39 form_post, body = ''a=b'',
     content_length = 3, streaming_body = False\<rparr>"
  by (simp add: receive_request_def form_post_read split_at_def MAX_BODY_def receive_body.simps)

lemma long_read:
  "receive_head [Inr long_transfer_encoding] [] = Some (long_transfer_encoding, 125, [])"
  "c_str long_transfer_encoding = long_transfer_encoding"
  "scan_request_line long_transfer_encoding = Some (''POST'', ''/x'')"
  "parse_content_length long_transfer_encoding = Some (0, True)"
  "find_header_span long_transfer_encoding ''Transfer-Encoding'' = Some (''gzip;x=yyyyyyyyyyyyyyyyyyyyyyyyyyyyyyyyyyyyyyyyyyyyyyyyyy,chunked'')"
  "length long_transfer_encoding = 125"
  apply (simp add: receive_head.simps long_transfer_encoding_def BOUNDARY_def strstr.simps MAX_HEADER_def c_str_def)
  apply (simp add: long_transfer_encoding_def BOUNDARY_def c_str_def)
  apply (simp add: long_transfer_encoding_def scan_rules)
  apply (simp add: long_transfer_encoding_def scan_rules parse_content_length_def strtoul_def number_prefix_def isdigit_def digits_value_def)
  apply (simp add: long_transfer_encoding_def scan_rules)
  by (simp_all add: long_transfer_encoding_def BOUNDARY_def)

subsection \<open>Properties\<close>

text \<open>C21: a request is read exactly and within its bounds, however the network cuts it: its headers end
  at the first blank line, hold no NUL and have at most 16 KiB, and with the body they are a prefix
  of the bytes received, in order; the body has exactly the announced length, at most 256 KiB; a
  POST or PUT announced one; and no Transfer-Encoding header of fewer than 64 characters was there.\<close>

theorem web_receive_request:
  assumes "receive_request evs = Inr r" and "\<not> streaming_body r"
  shows "(\<exists>rest. headers r @ body r @ rest = net_stream evs)
    \<and> length (headers r) \<le> MAX_HEADER \<and> NUL \<notin> set (headers r)
    \<and> strstr (headers r) BOUNDARY = Some (length (headers r) - 4)
    \<and> length (body r) = content_length r \<and> content_length r \<le> MAX_BODY
    \<and> (\<exists>present. parse_content_length (headers r) = Some (content_length r, present)
        \<and> (req_method r \<in> {''POST'', ''PUT''} \<longrightarrow> present))
    \<and> find_header (headers r) ''Transfer-Encoding'' 64 = None"
proof -
  from assms(1) obtain st n evs' where h: "receive_head evs [] = Some (st, n, evs')" "n \<noteq> 0"
    by (auto simp: receive_request_def split: option.splits if_splits)
  note head = receive_head_headers [OF h]
  define hs where "hs = take n st"
  from assms h obtain m target len present where
    r: "scan_request_line (c_str st) = Some (m, target)" "parse_content_length hs = Some (len, present)"
      "find_header hs ''Transfer-Encoding'' 64 = None" "m = ''POST'' \<or> m = ''PUT'' \<longrightarrow> present" "len \<le> MAX_BODY"
      "headers r = hs" "content_length r = len" "req_method r = m"
      "\<exists>st'. receive_body (n + len) evs' st = Some st' \<and> body r = take len (drop n st')"
    unfolding receive_request_def hs_def
    by (auto simp: Let_def split: option.splits if_splits prod.splits)
  from r(9) obtain st' where b: "receive_body (n + len) evs' st = Some st'" "body r = take len (drop n st')" by blast
  from receive_body_stream [OF b(1)] obtain rest where st': "n + len \<le> length st'" "st' @ rest = net_stream evs"
    using head(1) by auto
  have "take n st' = hs"
  proof -
    have "take n st' = take n (st' @ rest)" using st'(1) by simp
    also have "\<dots> = take n (st @ net_stream evs')" using st'(2) head(1) by simp
    finally show ?thesis using head(3) by (simp add: hs_def)
  qed
  then have "hs @ body r @ drop (n + len) st' @ rest = st' @ rest"
    by (metis append.assoc append_take_drop_id b(2) drop_drop add.commute)
  with st' have "\<exists>rest. hs @ body r @ rest = net_stream evs" by auto
  moreover have "length hs = n" "length (body r) = len" using head(3) st'(1) b(2) by (simp_all add: hs_def)
  ultimately show ?thesis using r head(4-6) unfolding hs_def [symmetric] by auto
qed

theorem web_receive_request_witness:
  "\<exists>r. receive_request [Inr (take 7 form_post), Inl EINTR, Inr (drop 7 form_post)] = Inr r
     \<and> (\<exists>rest. headers r @ body r @ rest = net_stream [Inr (take 7 form_post), Inl EINTR, Inr (drop 7 form_post)])
     \<and> length (body r) = 3"
  using web_receive_request [OF form_post_request] form_post_request by simp

text \<open>The Transfer-Encoding check can be passed: a value of 64 characters or more does not fit the
  buffer of the lookup and counts as absent, so a POST that announces a chunked body after a long
  list of parameters is accepted and its chunks are not part of it.\<close>

theorem web_transfer_encoding_long:
  "\<exists>r. receive_request [Inr long_transfer_encoding] = Inr r \<and> content_length r = 0
     \<and> find_header_span (headers r) ''Transfer-Encoding'' = Some (''gzip;x=yyyyyyyyyyyyyyyyyyyyyyyyyyyyyyyyyyyyyyyyyyyyyyyyyy,chunked'')"
  using long_read
  by (simp add: receive_request_def split_at_def MAX_BODY_def receive_body.simps find_header_def)

text \<open>C20: authentication is sound and complete: HTTP Basic succeeds exactly for the user admin with the
  stored password (a file of at most 512 bytes, less its line ends, and not empty) in a header that
  decodes to it, case of the scheme aside; an Authorization header, right or wrong, is never
  followed by a look at the cookie; and a cookie counts only with a session that is live.\<close>

theorem web_authenticate:
  "(fst (authenticate (read_file file 512) env sessions hs) = 1 \<longleftrightarrow>
      (\<exists>contents a. file = Some contents \<and> length contents \<le> 512 \<and> stored_password contents \<noteq> []
        \<and> find_header hs ''Authorization'' 1024 = Some a \<and> caseless (take 6 a) ''Basic ''
        \<and> decode_base64 (drop 6 a) 768 = Some (''admin:'' @ stored_password contents)))
   \<and> (fst (authenticate (read_file file 512) env sessions hs) = 2 \<longleftrightarrow>
      (\<exists>contents t. file = Some contents \<and> length contents \<le> 512 \<and> stored_password contents \<noteq> []
        \<and> find_header_span hs ''Authorization'' = None \<and> cookie_value hs ''session'' 65 = Some t
        \<and> session_valid env sessions t
        \<and> snd (authenticate (read_file file 512) env sessions hs) = t))"
proof
  show "fst (authenticate (read_file file 512) env sessions hs) = 1 \<longleftrightarrow>
      (\<exists>contents a. file = Some contents \<and> length contents \<le> 512 \<and> stored_password contents \<noteq> []
        \<and> find_header hs ''Authorization'' 1024 = Some a \<and> caseless (take 6 a) ''Basic ''
        \<and> decode_base64 (drop 6 a) 768 = Some (''admin:'' @ stored_password contents))"
  proof
    assume h: "fst (authenticate (read_file file 512) env sessions hs) = 1"
    then have "authenticate_basic (read_file file 512) hs = 1"
      by (auto simp: authenticate_def split: option.splits if_splits)
    then show "\<exists>contents a. file = Some contents \<and> length contents \<le> 512 \<and> stored_password contents \<noteq> []
        \<and> find_header hs ''Authorization'' 1024 = Some a \<and> caseless (take 6 a) ''Basic ''
        \<and> decode_base64 (drop 6 a) 768 = Some (''admin:'' @ stored_password contents)"
      by (simp only: authenticate_basic_iff)
  next
    assume h: "\<exists>contents a. file = Some contents \<and> length contents \<le> 512 \<and> stored_password contents \<noteq> []
        \<and> find_header hs ''Authorization'' 1024 = Some a \<and> caseless (take 6 a) ''Basic ''
        \<and> decode_base64 (drop 6 a) 768 = Some (''admin:'' @ stored_password contents)"
    then have "authenticate_basic (read_file file 512) hs = 1" by (simp only: authenticate_basic_iff)
    moreover from h have "find_header_span hs ''Authorization'' \<noteq> None"
      by (cases "find_header_span hs ''Authorization''") (auto simp: find_header_def)
    ultimately show "fst (authenticate (read_file file 512) env sessions hs) = 1"
      using h by (auto simp: authenticate_def read_file_def)
  qed
  show "fst (authenticate (read_file file 512) env sessions hs) = 2 \<longleftrightarrow>
      (\<exists>contents t. file = Some contents \<and> length contents \<le> 512 \<and> stored_password contents \<noteq> []
        \<and> find_header_span hs ''Authorization'' = None \<and> cookie_value hs ''session'' 65 = Some t
        \<and> session_valid env sessions t
        \<and> snd (authenticate (read_file file 512) env sessions hs) = t)"
    by (auto simp: authenticate_def read_file_def split: option.splits if_splits)
qed

text \<open>A byte range is inside the file, and the range asked for: whatever the header, a range that is
  accepted lies in the file and is not empty; and \<^verbatim>\<open>bytes=a-b\<close> with a not after b and inside the
  file gives the bytes from a to b, cut at the end of the file.\<close>

theorem web_byte_range:
  assumes "a \<le> b" and "a < fsize" and "b < 2 ^ 64"
    and "find_header hs ''Range'' 256 = Some (''bytes='' @ dec_nat a @ CHR ''-'' # dec_nat b)"
  shows "parse_byte_range hs fsize = RANGE_VALID a (min b (fsize - 1))
    \<and> (\<forall>hs' n s e. parse_byte_range hs' n = RANGE_VALID s e \<longrightarrow> s \<le> e \<and> e < n)"
proof
  have "CHR ''-'' \<notin> set (dec_nat a)"
    using dec_nat_digits(1) [of a] isdigit_not by (auto simp: list_all_iff)
  moreover have "CHR '','' \<notin> set (dec_nat n)" for n
  proof -
    have "\<not> isdigit (CHR '','')" by (simp add: isdigit_def code_def)
    with dec_nat_digits(1) [of n] show ?thesis by (auto simp: list_all_iff)
  qed
  ultimately show "parse_byte_range hs fsize = RANGE_VALID a (min b (fsize - 1))"
    using assms strtoul_dec_nat [of a] strtoul_dec_nat [of b] dec_nat_digits(2)
    by (auto simp: parse_byte_range_def range_of_def split_at_append)
  show "\<forall>hs' n s e. parse_byte_range hs' n = RANGE_VALID s e \<longrightarrow> s \<le> e \<and> e < n"
    using parse_byte_range_inside by blast
qed

theorem web_byte_range_witness:
  "parse_byte_range (''Range: bytes=2-50'' @ [CR, NL]) 10 = RANGE_VALID 2 9"
proof -
  have "find_header (''Range: bytes=2-50'' @ [CR, NL]) ''Range'' 256 = Some (''bytes='' @ dec_nat 2 @ CHR ''-'' # dec_nat 50)"
    by (simp add: scan_rules ascii_digits dec_nat.simps)
  from web_byte_range [OF _ _ _ this, of 10] show ?thesis by simp
qed

text \<open>Nothing can be smuggled into a header: a redirect target that is accepted starts with one
  slash and holds no line end, space or quote; and every download name has 1 to 255 printable
  characters, none of them a quote or a backslash.\<close>

theorem web_header_values:
  assumes "safe_local_path (Some p)"
  shows "hd p = CHR ''/'' \<and> take 2 p \<noteq> ''//'' \<and> take 2 p \<noteq> [CHR ''/'', CHR 0x5C] \<and> length p < 2048
      \<and> (\<forall>c\<in>set p. c \<noteq> CR \<and> c \<noteq> NL \<and> c \<noteq> QUOTE \<and> c \<noteq> CHR '' '')
    \<and> (\<forall>q. safe_download_name q \<noteq> [] \<and> length (safe_download_name q) \<le> 255
        \<and> (\<forall>c\<in>set (safe_download_name q). 32 \<le> code c \<and> code c < 127 \<and> c \<noteq> QUOTE \<and> c \<noteq> CHR 0x5C))"
proof -
  have "\<forall>c\<in>set p. isalnum c \<or> c \<in> set ''/?=&%._~-''" "p \<noteq> []" "hd p = CHR ''/''" "length p < 2048"
    "tl p \<noteq> [] \<longrightarrow> hd (tl p) \<noteq> CHR ''/'' \<and> hd (tl p) \<noteq> CHR 0x5C"
    using assms by (auto simp: safe_local_path_def list_all_iff simp del: set_simps split: if_split_asm)
  moreover have "safe_download_name q \<noteq> [] \<and> length (safe_download_name q) \<le> 255" for q
    by (simp add: safe_download_name_def Let_def)
  ultimately show ?thesis
    using safe_path_char safe_download_chars by (cases p; cases "tl p") auto
qed

theorem web_header_values_witness:
  "safe_local_path (Some ''/logs?page=2'') \<and> hd ''/logs?page=2'' = CHR ''/''
   \<and> safe_download_name ''a/b.txt'' \<noteq> []"
proof -
  have "safe_local_path (Some ''/logs?page=2'')"
    by (simp add: safe_local_path_def isalnum_def isdigit_def isupper_def islower_def code_def)
  with web_header_values [OF this] show ?thesis by simp
qed

end
