(* ===== verification/Web_Accept.thy ===== *)
theory Web_Accept
  imports Web_Request
begin

text \<open>
  Language and media type negotiation of the web server, \<^verbatim>\<open>web/mt11-web.c\<close>: the elements of an
  \<^verbatim>\<open>Accept\<close> or \<^verbatim>\<open>Accept-Language\<close> header, their q values and the choice made from them. A q value
  has at most three decimals; it is kept as the number of thousandths, on which the order and the
  equality of the C doubles agree with those of the exact values.
\<close>

subsection \<open>The elements of a header\<close>

definition language_from_code :: "string \<Rightarrow> nat option" where
  "language_from_code lc =
     (if caseless ''en'' lc then Some 0
      else if caseless ''zh'' lc then Some 1
      else if caseless ''ja'' lc then Some 2 else None)"

text \<open>\<^verbatim>\<open>header_element_end\<close>: how many characters are before the comma that ends an element.\<close>

fun element_end :: "bool \<Rightarrow> string \<Rightarrow> nat" where
  "element_end quoted [] = 0"
| "element_end quoted (c # p) =
     (if c = QUOTE then Suc (element_end (\<not> quoted) p)
      else if c = CHR 0x5C \<and> quoted \<and> p \<noteq> [] then Suc (Suc (element_end quoted (tl p)))
      else if c = CHR '','' \<and> \<not> quoted then 0
      else Suc (element_end quoted p))"

definition header_element_end :: "string \<Rightarrow> nat" where
  "header_element_end p = element_end False p"

definition blank :: "char \<Rightarrow> bool" where
  "blank c \<longleftrightarrow> c = CHR '' '' \<or> c = TAB"

definition token_char :: "char \<Rightarrow> bool" where
  "token_char c \<longleftrightarrow> isalnum c \<or> c \<in> set (''!#$%&'' @ [CHR 0x27] @ ''*+-.^_`|~'')"

text \<open>The end of a quoted value, after its closing quote.\<close>

fun quoted_end :: "string \<Rightarrow> string option" where
  "quoted_end [] = None"
| "quoted_end (c # p) =
     (if c = QUOTE then Some p
      else if c = CHR 0x5C \<and> p \<noteq> [] then quoted_end (tl p)
      else quoted_end p)"

lemma quoted_end_length: "quoted_end p = Some r \<Longrightarrow> length r < length p"
proof (induction p rule: quoted_end.induct)
  case (2 c p)
  then show ?case by (cases p) (auto split: if_splits)
qed simp

text \<open>A q value, in thousandths.\<close>

definition qvalue :: "string \<Rightarrow> nat option" where
  "qvalue v =
     (if v = [] \<or> 5 < length v \<or> (hd v \<noteq> CHR ''0'' \<and> hd v \<noteq> CHR ''1'') then None
      else if 1 < length v \<and> (v ! 1 \<noteq> CHR ''.'' \<or> \<not> list_all isdigit (drop 2 v)) then None
      else
        let digits = drop 2 v;
            r = 1000 * (code (hd v) - 48) + digits_value digits * 10 ^ (3 - length digits)
        in if 1000 < r then None else Some r)"

text \<open>\<^verbatim>\<open>header_element_quality\<close>, from a parameter on; \<^term>\<open>q\<close> is the value so far.\<close>

definition parameter_value :: "string \<Rightarrow> (string \<times> string) option" where
  "parameter_value v =
     (if v \<noteq> [] \<and> hd v = QUOTE then
        (case quoted_end (tl v) of None \<Rightarrow> None | Some r \<Rightarrow> Some (take (length v - length r) v, r))
      else
        let w = takeWhile token_char v
        in if w = [] then None else Some (w, dropWhile token_char v))"

lemma parameter_value_length: "parameter_value v = Some (w, r) \<Longrightarrow> length r < length v"
proof (cases v)
  case (Cons c cs)
  assume h: "parameter_value v = Some (w, r)"
  show ?thesis
  proof (cases "c = QUOTE")
    case True
    with h Cons quoted_end_length [of cs r] show ?thesis
      by (auto simp: parameter_value_def split: option.splits)
  next
    case False
    with h Cons length_dropWhile_le [of token_char cs] show ?thesis
      by (auto simp: parameter_value_def Let_def split: if_splits)
  qed
qed (simp add: parameter_value_def)

function quality_loop :: "bool \<Rightarrow> nat \<Rightarrow> string \<Rightarrow> nat option" where
  "quality_loop weight_only q p =
     (if p = [] then Some q
      else if hd p \<noteq> CHR '';'' then None
      else
        let p1 = dropWhile blank (tl p); name = takeWhile token_char p1; p2 = dropWhile token_char p1
        in if name = [] \<or> p2 = [] \<or> hd p2 \<noteq> CHR ''='' then None
           else case parameter_value (tl p2) of
             None \<Rightarrow> None
           | Some (v, r) \<Rightarrow>
               if name = ''q'' \<or> name = ''Q'' then
                 (case qvalue v of None \<Rightarrow> None | Some q' \<Rightarrow> quality_loop weight_only q' (dropWhile blank r))
               else if weight_only then None
               else quality_loop weight_only q (dropWhile blank r))"
  by pat_completeness auto
termination
proof (relation "measure (\<lambda>(w, q, p). length p)", goal_cases)
  case (2 w q p p1 name p2 x v r q')
  then show ?case
    using parameter_value_length [of "tl p2" v r] length_dropWhile_le [of blank r]
      length_dropWhile_le [of blank "tl p"] length_dropWhile_le [of token_char "dropWhile blank (tl p)"]
    by simp
next
  case (3 w q p p1 name p2 x v r)
  then show ?case
    using parameter_value_length [of "tl p2" v r] length_dropWhile_le [of blank r]
      length_dropWhile_le [of blank "tl p"] length_dropWhile_le [of token_char "dropWhile blank (tl p)"]
    by simp
qed simp

declare quality_loop.simps [simp del]

definition header_element_quality :: "bool \<Rightarrow> string \<Rightarrow> nat option" where
  "header_element_quality weight_only params = quality_loop weight_only 1000 (dropWhile blank params)"

subsection \<open>The choices\<close>

definition isalpha :: "char \<Rightarrow> bool" where
  "isalpha c \<longleftrightarrow> isupper c \<or> islower c"

text \<open>The subtags after the primary one: what follows them, None when one of them is malformed.\<close>

function subtags :: "string \<Rightarrow> string option" where
  "subtags t =
     (if t = [] \<or> hd t \<noteq> CHR ''-'' then Some t
      else
        let sub = takeWhile isalnum (tl t)
        in if sub = [] \<or> 8 < length sub then None else subtags (dropWhile isalnum (tl t)))"
  by pat_completeness auto
termination
proof (relation "measure length", goal_cases)
  case (2 t sub)
  then show ?case using length_dropWhile_le [of isalnum "tl t"] by (cases t) auto
qed simp

declare subtags.simps [simp del]

text \<open>What an element of \<^verbatim>\<open>Accept-Language\<close> asks for: its primary subtag and its q value.\<close>

definition language_range :: "string \<Rightarrow> (string \<times> nat) option" where
  "language_range item =
     (let t = dropWhile blank item; primary = takeWhile isalpha t
      in if primary = [] \<or> 8 < length primary then None
         else case subtags (dropWhile isalpha t) of
           None \<Rightarrow> None
         | Some params \<Rightarrow>
             (case header_element_quality True params of None \<Rightarrow> None | Some q \<Rightarrow> Some (primary, q)))"

function accept_loop :: "string \<Rightarrow> nat \<Rightarrow> nat option \<Rightarrow> nat option" where
  "accept_loop p best result =
     (if p = [] then result
      else
        let n = header_element_end p;
            (best', result') =
              (case language_range (take n p) of
                 None \<Rightarrow> (best, result)
               | Some (primary, q) \<Rightarrow>
                   (if best < q then
                      (case language_from_code primary of None \<Rightarrow> (best, result) | Some l \<Rightarrow> (q, Some l))
                    else (best, result)))
        in accept_loop (drop (Suc n) p) best' result')"
  by pat_completeness auto
termination
  by (relation "measure (\<lambda>(p, b, r). length p)") auto

declare accept_loop.simps [simp del]

definition language_from_accept :: "string \<Rightarrow> nat option" where
  "language_from_accept header = accept_loop header 0 None"

text \<open>A cookie \<^verbatim>\<open>lang\<close> with a known code wins, then the header, then English.\<close>

definition select_language :: "string \<Rightarrow> nat" where
  "select_language hs =
     (case (case cookie_value hs ''lang'' 16 of None \<Rightarrow> None | Some c \<Rightarrow> language_from_code c) of
        Some l \<Rightarrow> l
      | None \<Rightarrow>
          (case (case find_header_span hs ''Accept-Language'' of None \<Rightarrow> None | Some a \<Rightarrow> language_from_accept a) of
             Some l \<Rightarrow> l
           | None \<Rightarrow> 0))"

definition html_element :: "string \<Rightarrow> bool" where
  "html_element item =
     (let t = dropWhile blank item; ty = takeWhile (\<lambda>c. c \<noteq> CHR '';'' \<and> \<not> blank c) t
      in caseless ty ''text/html''
         \<and> (case header_element_quality False (drop (length ty) t) of None \<Rightarrow> False | Some q \<Rightarrow> 0 < q))"

function html_loop :: "string \<Rightarrow> bool" where
  "html_loop p =
     (if p = [] then False
      else let n = header_element_end p in html_element (take n p) \<or> html_loop (drop (Suc n) p))"
  by pat_completeness auto
termination
  by (relation "measure length") auto

declare html_loop.simps [simp del]

definition wants_html :: "string \<Rightarrow> bool" where
  "wants_html hs = (case find_header_span hs ''Accept'' of None \<Rightarrow> False | Some a \<Rightarrow> html_loop a)"

subsection \<open>The elements as a list\<close>

function header_elements :: "string \<Rightarrow> string list" where
  "header_elements p =
     (if p = [] then [] else take (header_element_end p) p # header_elements (drop (Suc (header_element_end p)) p))"
  by pat_completeness auto
termination
  by (relation "measure length") auto

declare header_elements.simps [simp del]

text \<open>The language that an element asks for, when the camera has it.\<close>

definition offer :: "string \<Rightarrow> (nat \<times> nat) option" where
  "offer item =
     (case language_range item of
        None \<Rightarrow> None
      | Some (primary, q) \<Rightarrow> map_option (\<lambda>l. (l, q)) (language_from_code primary))"

text \<open>The first of the best offers, among those better than \<^term>\<open>best\<close>.\<close>

fun best_offer :: "string list \<Rightarrow> nat \<Rightarrow> nat option \<Rightarrow> nat option" where
  "best_offer [] best result = result"
| "best_offer (e # es) best result =
     (case offer e of
        Some (l, q) \<Rightarrow> if best < q then best_offer es q (Some l) else best_offer es best result
      | None \<Rightarrow> best_offer es best result)"

lemma accept_loop_elements: "accept_loop p best result = best_offer (header_elements p) best result"
proof (induction p best result rule: accept_loop.induct)
  case (1 p best result)
  show ?case
  proof (cases "p = []")
    case True
    then show ?thesis by (simp add: accept_loop.simps [of "[]"] header_elements.simps [of "[]"])
  next
    case False
    note IH = 1 [OF False refl, unfolded Let_def]
    show ?thesis
      using IH False
      by (simp add: accept_loop.simps [of p] header_elements.simps [of p] offer_def Let_def split: option.splits prod.splits)
  qed
qed

lemma best_offer_keep:
  "(\<And>e l q. e \<in> set es \<Longrightarrow> offer e = Some (l, q) \<Longrightarrow> q \<le> best) \<Longrightarrow> best_offer es best result = result"
proof (induction es)
  case (Cons e es)
  have "best_offer es best result = result" using Cons.prems by (intro Cons.IH) auto
  with Cons.prems [of e] show ?case by (fastforce split: option.splits)
qed simp

lemma best_offer_first:
  assumes "offer e = Some (l, q)" and "best < q"
    and "\<And>e l' q'. e \<in> set as \<Longrightarrow> offer e = Some (l', q') \<Longrightarrow> q' < q"
    and "\<And>e l' q'. e \<in> set bs \<Longrightarrow> offer e = Some (l', q') \<Longrightarrow> q' \<le> q"
  shows "best_offer (as @ e # bs) best result = Some l"
  using assms(2,3)
proof (induction as arbitrary: best result)
  case Nil
  with assms(1) best_offer_keep [of bs q, OF assms(4)] show ?case by simp
next
  case (Cons a as)
  have IH: "best_offer (as @ e # bs) b r = Some l" if "b < q" for b r
    by (rule Cons.IH [OF that]) (use Cons.prems(2) in auto)
  from Cons.prems(2) [of a] IH Cons.prems(1) show ?case by (auto split: option.splits)
qed

lemma best_offer_Some: "best_offer es best (Some l) \<noteq> None"
proof (induction es arbitrary: best l)
  case (Cons e es)
  then show ?case by (auto split: option.splits)
qed simp

lemma best_offer_None: "best_offer es best None = None \<longleftrightarrow> (\<forall>e\<in>set es. \<forall>l q. offer e = Some (l, q) \<longrightarrow> q \<le> best)"
proof (induction es)
  case (Cons e es)
  show ?case
  proof (cases "offer e")
    case (Some x)
    then obtain l q where x: "offer e = Some (l, q)" by (cases x) simp
    show ?thesis
    proof (cases "best < q")
      case True
      then show ?thesis using x best_offer_Some [of es q l] by (auto simp: not_le)
    next
      case False
      with x Cons show ?thesis by simp
    qed
  qed (use Cons in simp)
qed simp

lemma html_loop_elements: "html_loop p \<longleftrightarrow> (\<exists>e\<in>set (header_elements p). html_element e)"
proof (induction p rule: html_loop.induct)
  case (1 p)
  show ?case
  proof (cases "p = []")
    case False
    with 1 [OF False refl] show ?thesis by (simp add: html_loop.simps [of p] header_elements.simps [of p] Let_def)
  qed (simp add: html_loop.simps [of "[]"] header_elements.simps [of "[]"])
qed

lemma header_element_end_append:
  "CHR '','' \<notin> set a \<Longrightarrow> QUOTE \<notin> set a \<Longrightarrow> header_element_end (a @ CHR '','' # p) = length a"
  unfolding header_element_end_def by (induction a) auto

lemma header_elements_Cons:
  "CHR '','' \<notin> set a \<Longrightarrow> QUOTE \<notin> set a \<Longrightarrow> header_elements (a @ CHR '','' # p) = a # header_elements p"
  using header_element_end_append [of a p] by (subst header_elements.simps) simp

subsection \<open>Properties\<close>

text \<open>Language negotiation: without a language cookie the camera answers in the language of the
  first element of \<^verbatim>\<open>Accept-Language\<close> whose q value no other supported element exceeds; a header
  chooses no language exactly when every supported element has q value 0; and a page is sent only to
  a client whose \<^verbatim>\<open>Accept\<close> header lists text/html with a q value that is not 0.\<close>

theorem web_language:
  assumes "cookie_value hs ''lang'' 16 = None" and "find_header_span hs ''Accept-Language'' = Some h"
    and "header_elements h = as @ e # bs" and "offer e = Some (l, q)" and "0 < q"
    and "\<forall>a\<in>set as. \<forall>l' q'. offer a = Some (l', q') \<longrightarrow> q' < q"
    and "\<forall>b\<in>set bs. \<forall>l' q'. offer b = Some (l', q') \<longrightarrow> q' \<le> q"
  shows "select_language hs = l
    \<and> (\<forall>g. language_from_accept g = None \<longleftrightarrow> (\<forall>e\<in>set (header_elements g). \<forall>l q. offer e = Some (l, q) \<longrightarrow> q = 0))
    \<and> (wants_html hs \<longleftrightarrow> (\<exists>a. find_header_span hs ''Accept'' = Some a \<and> (\<exists>e\<in>set (header_elements a). html_element e)))"
proof -
  have "language_from_accept h = Some l"
    unfolding language_from_accept_def accept_loop_elements assms(3)
    using assms(6,7) by (intro best_offer_first [OF assms(4,5)]) blast+
  then show ?thesis
    using assms(1,2)
    by (simp add: select_language_def language_from_accept_def accept_loop_elements best_offer_None wants_html_def
        html_loop_elements split: option.splits)
qed

definition accept_zh :: string where
  "accept_zh = ''Accept-Language: fr, zh-CN;q=0.8,ja; q=0.80'' @ [CR, NL]"

lemmas accept_rules = scan_rules language_range_def blank_def isalpha_def islower_def subtags.simps isalnum_def isdigit_def
  header_element_quality_def quality_loop.simps token_char_def parameter_value_def qvalue_def digits_value_def
  language_from_code_def offer_def

lemma accept_zh_read:
  "cookie_value accept_zh ''lang'' 16 = None"
  "find_header_span accept_zh ''Accept-Language'' = Some ''fr, zh-CN;q=0.8,ja; q=0.80''"
  "header_elements ''fr, zh-CN;q=0.8,ja; q=0.80'' = [''fr''] @ '' zh-CN;q=0.8'' # [''ja; q=0.80'']"
  "offer ''fr'' = None"
  "offer '' zh-CN;q=0.8'' = Some (1, 800)"
  "offer ''ja; q=0.80'' = Some (2, 800)"
  apply (simp add: accept_zh_def cookie_value_def scan_rules)
  apply (simp add: accept_zh_def scan_rules)
  apply (simp add: header_elements.simps header_element_end_def)
  by (simp_all add: accept_rules)

theorem web_language_witness:
  "select_language accept_zh = 1"
  using web_language [OF accept_zh_read(1-3,5)] accept_zh_read(4,6) by simp

end
