(* ===== verification/Web_Ini.thy ===== *)
theory Web_Ini
  imports Web_Text
begin

text \<open>
  The configuration file as the web server reads and edits it, \<^verbatim>\<open>web/mt11-web.c\<close>: the check of a
  file, the lookup of a key and the update of a set of keys that leaves every other byte alone.
  Texts hold no NUL. Allocation does not fail. The abstract view of a file is its list of entries,
  keyed by section and key, of which the first for a key counts.
\<close>

definition MAX_CONFIG :: nat where "MAX_CONFIG = 64 * 1024"

subsection \<open>Lines\<close>

text \<open>The lines of the loops over a file: up to the next line end, and what follows it.\<close>

definition first_line :: "string \<Rightarrow> string" where
  "first_line p = takeWhile (\<lambda>c. c \<noteq> NL) p"

definition next_lines :: "string \<Rightarrow> string" where
  "next_lines p = tl (dropWhile (\<lambda>c. c \<noteq> NL) p)"

definition line_end :: "string \<Rightarrow> string" where
  "line_end p = (if NL \<in> set p then [NL] else [])"

lemma next_lines_shorter: "p \<noteq> [] \<Longrightarrow> length (next_lines p) < length p"
  using length_dropWhile_le [of "\<lambda>c. c \<noteq> NL" p] by (cases p) (auto simp: next_lines_def)

definition is_section :: "string \<Rightarrow> bool" where
  "is_section t \<longleftrightarrow> t \<noteq> [] \<and> hd t = CHR ''[''"

definition is_comment :: "string \<Rightarrow> bool" where
  "is_comment t \<longleftrightarrow> t = [] \<or> hd t = CHR ''#'' \<or> hd t = CHR '';''"

text \<open>The current section after a section line: at most 79 characters of the name.\<close>

definition section_name :: "string \<Rightarrow> string \<Rightarrow> string" where
  "section_name t section =
     (case split_at (CHR '']'') (tl t) of None \<Rightarrow> section | Some (name, _) \<Rightarrow> take 79 (trim name))"

definition assignment :: "string \<Rightarrow> (string \<times> string) option" where
  "assignment t =
     (if is_comment t then None
      else case split_at (CHR ''='') t of None \<Rightarrow> None | Some (k, v) \<Rightarrow> Some (trim k, trim v))"

definition ini_unquote :: "string \<Rightarrow> string \<Rightarrow> string" where
  "ini_unquote section v =
     (if 1 < length v \<and> hd v = QUOTE \<and> last v = QUOTE then
        let w = butlast (tl v) in if section \<noteq> ''support_proxy'' then trim w else w
      else v)"

subsection \<open>Checking a file\<close>

datatype ini_error =
    Config_size
  | Unterminated_section nat
  | Text_after_section nat
  | Not_assignment nat
  | Empty_key nat
  | No_section
  | Duplicate_key string string
  | Missing_key string string
  | Config_too_large

function validate_loop :: "string \<Rightarrow> nat \<Rightarrow> nat \<Rightarrow> nat \<Rightarrow> ini_error option" where
  "validate_loop p line_number sections assignments =
     (if p = [] then (if sections = 0 \<or> assignments = 0 then Some No_section else None)
      else
        let t = trim (first_line p); n = line_number + 1
        in if is_comment t then validate_loop (next_lines p) n sections assignments
           else if is_section t then
             (case split_at (CHR '']'') (tl t) of
                None \<Rightarrow> Some (Unterminated_section n)
              | Some (_, after) \<Rightarrow>
                  if \<not> list_all isspace after then Some (Text_after_section n)
                  else validate_loop (next_lines p) n (sections + 1) assignments)
           else case split_at (CHR ''='') t of
             None \<Rightarrow> Some (Not_assignment n)
           | Some (k, _) \<Rightarrow>
               if rstrip k = [] then Some (Empty_key n)
               else validate_loop (next_lines p) n sections (assignments + 1))"
  by pat_completeness auto
termination
  by (relation "measure (\<lambda>(p, n, s, a). length p)") (auto simp: next_lines_shorter)

declare validate_loop.simps [simp del]

definition validate_ini :: "string \<Rightarrow> ini_error option" where
  "validate_ini config =
     (if config = [] \<or> MAX_CONFIG < length config then Some Config_size else validate_loop config 0 0 0)"

subsection \<open>Looking up a key\<close>

function ini_get_loop :: "string \<Rightarrow> string \<Rightarrow> string \<Rightarrow> string \<Rightarrow> string option" where
  "ini_get_loop p section wanted_section wanted_key =
     (if p = [] then None
      else
        let t = trim (first_line p)
        in if is_section t then ini_get_loop (next_lines p) (section_name t section) wanted_section wanted_key
           else if section = wanted_section then
             (case assignment t of
                Some (k, v) \<Rightarrow>
                  if k = wanted_key then Some (ini_unquote section v)
                  else ini_get_loop (next_lines p) section wanted_section wanted_key
              | None \<Rightarrow> ini_get_loop (next_lines p) section wanted_section wanted_key)
           else ini_get_loop (next_lines p) section wanted_section wanted_key)"
  by pat_completeness auto
termination
  by (relation "measure (\<lambda>(p, s, ws, wk). length p)") (auto simp: next_lines_shorter)

declare ini_get_loop.simps [simp del]

definition ini_get_value :: "string \<Rightarrow> string \<Rightarrow> string \<Rightarrow> nat \<Rightarrow> string option" where
  "ini_get_value config wanted_section wanted_key output_size =
     (case ini_get_loop config [] wanted_section wanted_key of
        None \<Rightarrow> None
      | Some v \<Rightarrow> if output_size \<le> length v then None else Some v)"

subsection \<open>Updating keys\<close>

record ini_update =
  upd_section :: string
  upd_key :: string
  upd_value :: string
  upd_found :: bool

fun find_update :: "ini_update list \<Rightarrow> string \<Rightarrow> string \<Rightarrow> nat option" where
  "find_update [] section key = None"
| "find_update (u # us) section key =
     (if upd_section u = section \<and> upd_key u = key then Some 0 else map_option Suc (find_update us section key))"

text \<open>The first loop: the rest of the new file and the updates with the found ones marked.\<close>

function apply_loop :: "string \<Rightarrow> string \<Rightarrow> ini_update list \<Rightarrow> ini_error + (string \<times> ini_update list)" where
  "apply_loop p section updates =
     (if p = [] then Inr ([], updates)
      else
        let line = first_line p; t = trim line;
            continue = (\<lambda>new section' updates'.
              case apply_loop (next_lines p) section' updates' of
                Inl e \<Rightarrow> Inl e
              | Inr (q, us) \<Rightarrow> Inr (new @ line_end p @ q, us))
        in if is_section t then continue line (section_name t section) updates
           else case assignment t of
             None \<Rightarrow> continue line section updates
           | Some (k, v) \<Rightarrow>
               (case find_update updates section k of
                  None \<Rightarrow> continue line section updates
                | Some i \<Rightarrow>
                    if upd_found (updates ! i) then Inl (Duplicate_key section k)
                    else
                      let u = updates ! i; updates' = updates[i := u\<lparr>upd_found := True\<rparr>]
                      in if ini_unquote section v = upd_value u then continue line section updates'
                         else continue (takeWhile (\<lambda>c. c \<noteq> CHR ''='') line @ ''= '' @ [QUOTE] @ upd_value u @ [QUOTE])
                                section updates'))"
  by pat_completeness auto
termination
  by (relation "measure (\<lambda>(p, s, us). length p)") (auto simp: next_lines_shorter)

declare apply_loop.simps [simp del]

text \<open>The second: a section at the end for the keys of a section that were not found.\<close>

definition entry_line :: "ini_update \<Rightarrow> string" where
  "entry_line u = upd_key u @ '' = '' @ [QUOTE] @ upd_value u @ [QUOTE, NL]"

fun append_keys :: "string \<Rightarrow> ini_update list \<Rightarrow> string \<times> ini_update list" where
  "append_keys section [] = ([], [])"
| "append_keys section (u # us) =
     (let (q, us') = append_keys section us
      in if upd_found u \<or> upd_section u \<noteq> section then (q, u # us')
         else (entry_line u @ q, u\<lparr>upd_found := True\<rparr> # us'))"

lemma append_keys_length [simp]: "length (snd (append_keys section us)) = length us"
  by (induction us) (auto simp: Let_def split: prod.splits)

function append_missing :: "string \<Rightarrow> ini_update list \<Rightarrow> string" where
  "append_missing sofar [] = sofar"
| "append_missing sofar (u # us) =
     (if upd_found u then append_missing sofar us
      else
        let out1 = (if sofar \<noteq> [] \<and> last sofar \<noteq> NL then sofar @ [NL] else sofar);
            out2 = (if out1 \<noteq> [] then out1 @ [NL] else out1);
            (q, us') = append_keys (upd_section u) (u # us)
        in append_missing (out2 @ ''['' @ upd_section u @ '']'' @ [NL] @ q) (tl us'))"
  by pat_completeness auto
termination
proof (relation "measure (\<lambda>(sofar, us). length us)", goal_cases)
  case (3 sofar u us out1 out2 x q us')
  have "length us' = Suc (length us)"
    using 3(4,5) append_keys_length [of "upd_section u" "u # us"] by (metis length_Cons snd_conv)
  then show ?case by simp
qed auto

declare append_missing.simps [simp del]

definition ini_apply_updates :: "string \<Rightarrow> ini_update list \<Rightarrow> bool \<Rightarrow> ini_error + string" where
  "ini_apply_updates config updates add_missing =
     (case apply_loop config [] (map (\<lambda>u. u\<lparr>upd_found := False\<rparr>) updates) of
        Inl e \<Rightarrow> Inl e
      | Inr (sofar, us) \<Rightarrow>
          (case (if add_missing then None else find (\<lambda>u. \<not> upd_found u) us) of
             Some u \<Rightarrow> Inl (Missing_key (upd_section u) (upd_key u))
           | None \<Rightarrow>
               let sofar' = (if add_missing then append_missing sofar us else sofar)
               in if MAX_CONFIG < length sofar' then Inl Config_too_large else Inr sofar'))"

subsection \<open>The entries of a file\<close>

definition line_step :: "string \<Rightarrow> string \<Rightarrow> string \<times> ((string \<times> string) \<times> string) list" where
  "line_step section line =
     (let t = trim line
      in if is_section t then (section_name t section, [])
         else case assignment t of
           None \<Rightarrow> (section, [])
         | Some (k, v) \<Rightarrow> (section, [((section, k), ini_unquote section v)]))"

definition then_scan :: "string \<times> 'a list \<Rightarrow> (string \<Rightarrow> string \<times> 'a list) \<Rightarrow> string \<times> 'a list" where
  "then_scan x f = (fst (f (fst x)), snd x @ snd (f (fst x)))"

function ini_scan :: "string \<Rightarrow> string \<Rightarrow> string \<times> ((string \<times> string) \<times> string) list" where
  "ini_scan section p =
     (if p = [] then (section, [])
      else
        let x = line_step section (first_line p); y = ini_scan (fst x) (next_lines p)
        in (fst y, snd x @ snd y))"
  by pat_completeness auto
termination
  by (relation "measure (\<lambda>(s, p). length p)") (auto simp: next_lines_shorter)

declare ini_scan.simps [simp del]

definition ini_entries :: "string \<Rightarrow> ((string \<times> string) \<times> string) list" where
  "ini_entries config = snd (ini_scan [] config)"

lemma ini_scan_Nil [simp]: "ini_scan s [] = (s, [])"
  by (simp add: ini_scan.simps)

lemma ini_scan_step: "p \<noteq> [] \<Longrightarrow> ini_scan s p = then_scan (line_step s (first_line p)) (\<lambda>s'. ini_scan s' (next_lines p))"
  by (simp add: ini_scan.simps [of s p] then_scan_def Let_def)

lemma line_step_Nil [simp]: "line_step s [] = (s, [])"
  by (simp add: line_step_def trim_def rstrip_def is_section_def assignment_def is_comment_def)

lemma then_scan_simps [simp]: "then_scan (s, []) f = f s" "then_scan x (\<lambda>s. (s, [])) = x"
  "then_scan (then_scan x f) g = then_scan x (\<lambda>s. then_scan (f s) g)"
  by (simp_all add: then_scan_def)

lemma lines_plain: "NL \<notin> set l \<Longrightarrow> first_line l = l \<and> next_lines l = []"
  by (simp add: first_line_def next_lines_def takeWhile_none dropWhile_none)

lemma lines_append: "NL \<in> set x \<Longrightarrow> first_line (x @ y) = first_line x \<and> next_lines (x @ y) = next_lines x @ y"
  by (auto simp: first_line_def next_lines_def dropWhile_append dropWhile_eq_Nil_conv takeWhile_append tl_append
      split: list.splits)

lemma lines_until: "NL \<notin> set l \<Longrightarrow> first_line (l @ NL # q) = l \<and> next_lines (l @ NL # q) = q"
  by (simp add: first_line_def next_lines_def takeWhile_until dropWhile_until)

lemma ini_scan_line: "NL \<notin> set l \<Longrightarrow> ini_scan s l = line_step s l"
  by (cases "l = []") (simp_all add: ini_scan_step lines_plain)

lemma ini_scan_append: "ini_scan s (x @ NL # y) = then_scan (ini_scan s x) (\<lambda>s'. ini_scan s' y)"
proof (induction s x rule: ini_scan.induct)
  case (1 s x)
  show ?case
  proof (cases "NL \<in> set x")
    case True
    then have "x \<noteq> []" by auto
    with 1 [OF this refl] True show ?thesis
      by (simp add: ini_scan_step [of "x @ NL # y"] ini_scan_step [OF \<open>x \<noteq> []\<close>] lines_append then_scan_def)
  next
    case False
    then show ?thesis by (simp add: ini_scan_step [of "x @ NL # y"] lines_until ini_scan_line)
  qed
qed

lemma ini_scan_append_line:
  "x = [] \<or> last x = NL \<Longrightarrow> ini_scan s (x @ y) = then_scan (ini_scan s x) (\<lambda>s'. ini_scan s' y)"
proof (cases "x = []")
  case False
  assume "x = [] \<or> last x = NL"
  with False obtain z where "x = z @ [NL]" by (metis append_butlast_last_id)
  then show ?thesis by (simp add: ini_scan_append)
qed simp

lemma ini_scan_line_end:
  "NL \<notin> set l \<Longrightarrow> q = [] \<or> NL \<in> set p \<Longrightarrow>
   ini_scan s (l @ line_end p @ q) = then_scan (line_step s l) (\<lambda>s'. ini_scan s' q)"
  by (auto simp: line_end_def ini_scan_append ini_scan_line)

lemma ini_get_loop_entries: "ini_get_loop p s ws wk = map_of (snd (ini_scan s p)) (ws, wk)"
proof (induction p s ws wk rule: ini_get_loop.induct)
  case (1 p s ws wk)
  show ?case
  proof (cases "p = []")
    case False
    note IH = 1 [OF False refl]
    show ?thesis
    proof (cases "is_section (trim (first_line p))")
      case True
      with IH(1) False show ?thesis
        by (simp add: ini_get_loop.simps [of p] ini_scan_step then_scan_def line_step_def Let_def)
    next
      case sec: False
      show ?thesis
      proof (cases "assignment (trim (first_line p))")
        case None
        with IH(2) [OF sec _ None] IH(4) [OF sec] sec False show ?thesis
          by (simp add: ini_get_loop.simps [of p] ini_scan_step then_scan_def line_step_def Let_def)
      next
        case (Some kv)
        then obtain k v where "assignment (trim (first_line p)) = Some (k, v)" by (cases kv) simp
        with IH(3) [OF sec _ this refl] IH(4) [OF sec] sec False show ?thesis
          by (simp add: ini_get_loop.simps [of p] ini_scan_step then_scan_def line_step_def Let_def)
      qed
    qed
  qed (simp add: ini_get_loop.simps [of "[]"])
qed

subsection \<open>What an update does to the entries\<close>

definition ini_value_ok :: "ini_update \<Rightarrow> bool" where
  "ini_value_ok u \<longleftrightarrow> NL \<notin> set (upd_value u) \<and> (upd_section u = ''support_proxy'' \<or> trim (upd_value u) = upd_value u)"

lemma rstrip_prefix: "\<exists>r. s = rstrip s @ r"
  by (metis rev_append rev_rev_ident rstrip_def takeWhile_dropWhile_id)

lemma dropWhile_hd: "t \<noteq> [] \<Longrightarrow> \<not> P (hd t) \<Longrightarrow> dropWhile P t = t"
  by (cases t) auto

lemma trim_self: "t \<noteq> [] \<Longrightarrow> \<not> isspace (hd t) \<Longrightarrow> \<not> isspace (last t) \<Longrightarrow> trim t = t"
  by (simp add: trim_def rstrip_def dropWhile_hd hd_rev)

lemma quote_not_space [simp]: "\<not> isspace QUOTE" "\<not> isspace (CHR ''='')" "isspace (CHR '' '')" "\<not> isspace (CHR ''['')"
  "\<not> isspace (CHR '']'')"
  by code_simp+

lemma unquote_quoted:
  "section = ''support_proxy'' \<or> trim x = x \<Longrightarrow> ini_unquote section (trim ('' '' @ [QUOTE] @ x @ [QUOTE])) = x"
proof -
  assume h: "section = ''support_proxy'' \<or> trim x = x"
  have "trim ('' '' @ [QUOTE] @ x @ [QUOTE]) = trim (QUOTE # x @ [QUOTE])" by (simp add: trim_def)
  also have "\<dots> = QUOTE # x @ [QUOTE]" by (rule trim_self) simp_all
  finally show ?thesis using h by (auto simp: ini_unquote_def)
qed

text \<open>A line, from the key on: what comes before the equals sign stays, the value is replaced.\<close>

lemma trim_replace:
  assumes "CHR ''='' \<in> set (trim line)"
  shows "trim (takeWhile (\<lambda>c. c \<noteq> CHR ''='') line @ CHR ''='' # y @ [QUOTE])
    = takeWhile (\<lambda>c. c \<noteq> CHR ''='') (trim line) @ CHR ''='' # y @ [QUOTE]"
proof -
  let ?b = "dropWhile isspace line"
  obtain r where r: "?b = trim line @ r" using rstrip_prefix [of ?b] by (auto simp: trim_def)
  with assms have b: "takeWhile (\<lambda>c. c \<noteq> CHR ''='') ?b = takeWhile (\<lambda>c. c \<noteq> CHR ''='') (trim line)" "CHR ''='' \<in> set ?b"
    by (auto simp: takeWhile_append1)
  have "dropWhile isspace (takeWhile (\<lambda>c. c \<noteq> CHR ''='') line @ CHR ''='' # z)
      = takeWhile (\<lambda>c. c \<noteq> CHR ''='') ?b @ CHR ''='' # z" for z
    by (induction line) auto
  then show ?thesis using b(1) by (simp add: trim_def rstrip_def)
qed

lemma hd_takeWhile_eq: "c \<in> set t \<Longrightarrow> hd (takeWhile (\<lambda>x. x \<noteq> c) t @ c # y) = hd t"
  by (cases t) auto

lemma line_step_replace:
  assumes "\<not> is_section (trim line)" and "assignment (trim line) = Some (k, v)"
    and "section = ''support_proxy'' \<or> trim x = x"
  shows "line_step section (takeWhile (\<lambda>c. c \<noteq> CHR ''='') line @ ''= '' @ [QUOTE] @ x @ [QUOTE]) = (section, [((section, k), x)])"
proof -
  let ?t = "trim line"
  have t: "\<not> is_comment ?t" "CHR ''='' \<in> set ?t" "k = trim (takeWhile (\<lambda>c. c \<noteq> CHR ''='') ?t)"
    using assms(2) by (auto simp: assignment_def split_at_def split: if_splits)
  define new where "new = takeWhile (\<lambda>c. c \<noteq> CHR ''='') ?t @ CHR ''='' # '' '' @ [QUOTE] @ x @ [QUOTE]"
  have trim_new: "trim (takeWhile (\<lambda>c. c \<noteq> CHR ''='') line @ ''= '' @ [QUOTE] @ x @ [QUOTE]) = new"
    using trim_replace [OF t(2), of "'' '' @ [QUOTE] @ x"] by (simp add: new_def)
  have hd_new: "hd new = hd ?t" unfolding new_def by (rule hd_takeWhile_eq [OF t(2)])
  have "split_at (CHR ''='') new = Some (takeWhile (\<lambda>c. c \<noteq> CHR ''='') ?t, '' '' @ [QUOTE] @ x @ [QUOTE])"
    unfolding new_def by (rule split_at_append) (auto dest: set_takeWhileD)
  moreover have "new \<noteq> []" "?t \<noteq> []" using t(2) by (auto simp: new_def)
  ultimately show ?thesis
    using assms(1) t unquote_quoted [OF assms(3)] trim_new hd_new
    by (simp add: line_step_def is_section_def is_comment_def assignment_def)
qed

definition base :: "ini_update list \<Rightarrow> ini_update list" where
  "base us = map (\<lambda>u. u\<lparr>upd_found := False\<rparr>) us"

lemma find_update_base: "find_update (base us) s k = find_update us s k"
  by (induction us) (simp_all add: base_def)

lemma find_update_Some: "find_update us s k = Some i \<Longrightarrow> i < length us \<and> upd_section (us ! i) = s \<and> upd_key (us ! i) = k"
  by (induction us arbitrary: i) (auto split: if_splits)

lemma find_update_None: "find_update us s k = None \<longleftrightarrow> (s, k) \<notin> set (map (\<lambda>u. (upd_section u, upd_key u)) us)"
  by (induction us) auto

lemma find_update_distinct:
  "distinct (map (\<lambda>u. (upd_section u, upd_key u)) us) \<Longrightarrow> i < length us \<Longrightarrow>
   find_update us (upd_section (us ! i)) (upd_key (us ! i)) = Some i"
proof (induction us arbitrary: i)
  case (Cons u us)
  show ?case
  proof (cases i)
    case (Suc j)
    with Cons.prems have "us ! j \<in> set us" by simp
    with Cons.prems(1) have "(upd_section u, upd_key u) \<noteq> (upd_section (us ! j), upd_key (us ! j))" by auto
    with Cons Suc show ?thesis by auto
  qed simp
qed simp

text \<open>What the value of a key becomes.\<close>

definition new_value :: "ini_update list \<Rightarrow> string \<times> string \<Rightarrow> string \<Rightarrow> string" where
  "new_value us key v = (case find_update us (fst key) (snd key) of None \<Rightarrow> v | Some i \<Rightarrow> upd_value (us ! i))"

definition overridden :: "ini_update list \<Rightarrow> ((string \<times> string) \<times> string) list \<Rightarrow> ((string \<times> string) \<times> string) list" where
  "overridden us es = map (\<lambda>(key, v). (key, new_value us key v)) es"

lemma overridden_simps [simp]: "overridden us [] = []"
  "overridden us ((key, v) # es) = (key, new_value us key v) # overridden us es"
  "overridden us (es @ es') = overridden us es @ overridden us es'"
  by (simp_all add: overridden_def)

lemma map_of_overridden: "map_of (overridden us es) key = map_option (new_value us key) (map_of es key)"
  by (induction es) (auto simp: overridden_def)

lemma base_eq_value:
  assumes "base us = base us'"
  shows "find_update us = find_update us'" and "new_value us = new_value us'" and "overridden us = overridden us'"
    and "length us = length us'" and "(\<forall>u\<in>set us. ini_value_ok u) = (\<forall>u\<in>set us'. ini_value_ok u)"
proof -
  show f: "find_update us = find_update us'" using assms find_update_base by (metis ext)
  have l: "length us = length us'" using assms by (metis base_def length_map)
  have eq: "upd_value (us ! i) = upd_value (us' ! i) \<and> upd_section (us ! i) = upd_section (us' ! i)" if "i < length us" for i
  proof -
    have "(us ! i)\<lparr>upd_found := False\<rparr> = (us' ! i)\<lparr>upd_found := False\<rparr>"
      using assms l that unfolding base_def by (metis (no_types, lifting) nth_map)
    from arg_cong [OF this, of upd_value] arg_cong [OF this, of upd_section] show ?thesis by simp
  qed
  show n: "new_value us = new_value us'"
    by (intro ext) (auto simp: new_value_def f [symmetric] eq dest: find_update_Some split: option.splits)
  show "overridden us = overridden us'" by (intro ext) (simp add: overridden_def n)
  show "length us = length us'" by (rule l)
  show "(\<forall>u\<in>set us. ini_value_ok u) = (\<forall>u\<in>set us'. ini_value_ok u)"
    using eq l by (auto simp: all_set_conv_all_nth ini_value_ok_def)
qed

lemma base_mark: "i < length us \<Longrightarrow> base (us[i := (us ! i)\<lparr>upd_found := b\<rparr>]) = base us"
  by (simp add: base_def map_update list_update_same_conv)

lemma apply_loop_Nil [simp]: "apply_loop [] s us = Inr ([], us)"
  by (simp add: apply_loop.simps)

abbreviation replaced_line :: "string \<Rightarrow> string \<Rightarrow> string" where
  "replaced_line line x \<equiv> takeWhile (\<lambda>c. c \<noteq> CHR ''='') line @ ''= '' @ [QUOTE] @ x @ [QUOTE]"

text \<open>One turn of the loop: a line that is copied, or the line of an update.\<close>

lemma apply_loop_step:
  assumes "apply_loop p s us = Inr (q, us')" and "p \<noteq> []"
  obtains (copied) q1 where "q = first_line p @ line_end p @ q1"
      "apply_loop (next_lines p) (fst (line_step s (first_line p))) us = Inr (q1, us')"
      "\<forall>e\<in>set (snd (line_step s (first_line p))). find_update us (fst (fst e)) (snd (fst e)) = None"
  | (update) q1 new i k v where "q = new @ line_end p @ q1" "find_update us s k = Some i" "\<not> upd_found (us ! i)"
      "apply_loop (next_lines p) s (us[i := (us ! i)\<lparr>upd_found := True\<rparr>]) = Inr (q1, us')"
      "\<not> is_section (trim (first_line p))" "assignment (trim (first_line p)) = Some (k, v)"
      "new = (if ini_unquote s v = upd_value (us ! i) then first_line p else replaced_line (first_line p) (upd_value (us ! i)))"
proof (cases "is_section (trim (first_line p)) \<or> assignment (trim (first_line p)) = None")
  case True
  define s1 where "s1 = (if is_section (trim (first_line p)) then section_name (trim (first_line p)) s else s)"
  from True have step: "line_step s (first_line p) = (s1, [])"
    by (auto simp: line_step_def Let_def s1_def)
  have "apply_loop p s us = (case apply_loop (next_lines p) s1 us of Inl e \<Rightarrow> Inl e
      | Inr (q, us) \<Rightarrow> Inr (first_line p @ line_end p @ q, us))"
    using True assms(2) by (auto simp: apply_loop.simps [of p] Let_def s1_def)
  with assms(1) obtain q1 where "apply_loop (next_lines p) s1 us = Inr (q1, us')" "q = first_line p @ line_end p @ q1"
    by (auto split: sum.splits)
  with copied step show ?thesis by simp
next
  case False
  then obtain k v where a: "assignment (trim (first_line p)) = Some (k, v)" "\<not> is_section (trim (first_line p))" by auto
  then have step: "line_step s (first_line p) = (s, [((s, k), ini_unquote s v)])" by (simp add: line_step_def)
  show ?thesis
  proof (cases "find_update us s k")
    case None
    with assms a obtain q1 where "apply_loop (next_lines p) s us = Inr (q1, us')" "q = first_line p @ line_end p @ q1"
      by (auto simp: apply_loop.simps [of p] Let_def split: sum.splits)
    with None copied step show ?thesis by simp
  next
    case (Some i)
    with assms a have f: "\<not> upd_found (us ! i)" by (auto simp: apply_loop.simps [of p] Let_def split: if_splits)
    define new where "new = (if ini_unquote s v = upd_value (us ! i) then first_line p else replaced_line (first_line p) (upd_value (us ! i)))"
    have "apply_loop p s us = (case apply_loop (next_lines p) s (us[i := (us ! i)\<lparr>upd_found := True\<rparr>]) of Inl e \<Rightarrow> Inl e
        | Inr (q, us) \<Rightarrow> Inr (new @ line_end p @ q, us))"
      using Some f a assms(2) unfolding new_def
      by (cases "ini_unquote s v = upd_value (us ! i)") (simp_all add: apply_loop.simps [of p] Let_def)
    with assms(1) obtain q1 where "apply_loop (next_lines p) s (us[i := (us ! i)\<lparr>upd_found := True\<rparr>]) = Inr (q1, us')"
      "q = new @ line_end p @ q1"
      by (auto split: sum.splits)
    with update [OF _ Some f _ a(2,1) new_def] show ?thesis by blast
  qed
qed

lemma first_line_plain: "NL \<notin> set (first_line p)"
  by (auto simp: first_line_def dest: set_takeWhileD)

lemma apply_loop_rest: "apply_loop (next_lines p) s us = Inr (q, us') \<Longrightarrow> q = [] \<or> NL \<in> set p"
  using lines_plain [of p] by (cases "NL \<in> set p") auto

definition updates_found :: "ini_update list \<Rightarrow> ((string \<times> string) \<times> string) list \<Rightarrow> nat \<Rightarrow> bool" where
  "updates_found us es i \<longleftrightarrow> (\<exists>e\<in>set es. find_update us (fst (fst e)) (snd (fst e)) = Some i)"

lemma apply_loop_entries:
  "apply_loop p s us = Inr (q, us') \<Longrightarrow> \<forall>u\<in>set us. ini_value_ok u \<Longrightarrow>
   ini_scan s q = (fst (ini_scan s p), overridden us (snd (ini_scan s p))) \<and> base us' = base us
   \<and> (\<forall>i<length us. upd_found (us' ! i) \<longleftrightarrow> upd_found (us ! i) \<or> updates_found us (snd (ini_scan s p)) i)"
proof (induction "length p" arbitrary: p s us q us' rule: less_induct)
  case less
  show ?case
  proof (cases "p = []")
    case True
    with less.prems(1) show ?thesis by (simp add: updates_found_def)
  next
    case False
    note shorter = next_lines_shorter [OF False]
    from less.prems(1) False show ?thesis
    proof (cases rule: apply_loop_step)
      case (copied q1)
      let ?x = "line_step s (first_line p)"
      note IH = less.hyps [OF shorter copied(2) less.prems(2)]
      have "overridden us (snd ?x) = snd ?x"
        using copied(3) by (auto simp: overridden_def new_value_def intro!: map_idI)
      moreover have "ini_scan s q = then_scan ?x (\<lambda>s'. ini_scan s' q1)"
        using apply_loop_rest [OF copied(2)] first_line_plain by (simp add: copied(1) ini_scan_line_end)
      moreover have "updates_found us (snd ?x @ es) i = updates_found us es i" for es i
        using copied(3) by (auto simp: updates_found_def)
      ultimately show ?thesis
        using IH by (simp add: ini_scan_step [OF False] then_scan_def)
    next
      case (update q1 new i k v)
      define us1 where "us1 = us[i := (us ! i)\<lparr>upd_found := True\<rparr>]"
      from find_update_Some [OF update(2)] have i: "i < length us" "upd_section (us ! i) = s" "upd_key (us ! i) = k" by auto
      have b: "base us1 = base us" unfolding us1_def by (rule base_mark [OF i(1)])
      note eq = base_eq_value [OF b]
      have ok: "NL \<notin> set (upd_value (us ! i))" "s = ''support_proxy'' \<or> trim (upd_value (us ! i)) = upd_value (us ! i)"
        using less.prems(2) i by (auto simp: ini_value_ok_def)
      have x: "line_step s (first_line p) = (s, [((s, k), ini_unquote s v)])"
        using update(5,6) by (simp add: line_step_def)
      have new: "line_step s new = (s, [((s, k), upd_value (us ! i))])"
        unfolding update(7) using x line_step_replace [OF update(5,6) ok(2)] by simp
      have "NL \<notin> set new"
        using first_line_plain [of p] ok(1) unfolding update(7) by (auto dest: set_takeWhileD)
      then have "ini_scan s q = then_scan (line_step s new) (\<lambda>s'. ini_scan s' q1)"
        using apply_loop_rest [OF update(4)] by (simp add: update(1) ini_scan_line_end)
      moreover have "new_value us (s, k) w = upd_value (us ! i)" for w
        using update(2) by (simp add: new_value_def)
      moreover have "ini_scan s q1 = (fst (ini_scan s (next_lines p)), overridden us1 (snd (ini_scan s (next_lines p))))
          \<and> base us' = base us1 \<and> (\<forall>j<length us1. upd_found (us' ! j) \<longleftrightarrow> upd_found (us1 ! j)
            \<or> updates_found us1 (snd (ini_scan s (next_lines p))) j)"
        using less.hyps [OF shorter, of s us1 q1 us'] update(4) less.prems(2) eq(5) unfolding us1_def by blast
      moreover have "upd_found (us1 ! j) \<longleftrightarrow> upd_found (us ! j) \<or> j = i" if "j < length us" for j
        using that by (cases "j = i") (simp_all add: us1_def)
      moreover have "updates_found us (((s, k), w) # es) j \<longleftrightarrow> j = i \<or> updates_found us es j" for w es j
        using update(2) by (auto simp: updates_found_def)
      moreover have "updates_found us1 = updates_found us"
        by (intro ext) (simp add: updates_found_def eq(1))
      ultimately show ?thesis
        using b eq by (auto simp: ini_scan_step [OF False] then_scan_def x new)
    qed
  qed
qed

text \<open>What can be written as a new line and read back.\<close>

definition name_ok :: "ini_update \<Rightarrow> bool" where
  "name_ok u \<longleftrightarrow>
     NL \<notin> set (upd_section u) \<and> CHR '']'' \<notin> set (upd_section u) \<and> trim (upd_section u) = upd_section u
     \<and> length (upd_section u) \<le> 79 \<and> NL \<notin> set (upd_key u) \<and> CHR ''='' \<notin> set (upd_key u) \<and> upd_key u \<noteq> []
     \<and> \<not> isspace (hd (upd_key u)) \<and> \<not> isspace (last (upd_key u)) \<and> hd (upd_key u) \<notin> set ''[#;''"

definition entry :: "ini_update \<Rightarrow> (string \<times> string) \<times> string" where
  "entry u = ((upd_section u, upd_key u), upd_value u)"

lemma section_line_step:
  assumes "name_ok u"
  shows "line_step s (''['' @ upd_section u @ '']'') = (upd_section u, [])"
proof -
  have "trim (''['' @ upd_section u @ '']'') = ''['' @ upd_section u @ '']''" by (rule trim_self) simp_all
  moreover have "split_at (CHR '']'') (upd_section u @ '']'') = Some (upd_section u, [])"
    using assms by (intro split_at_append) (simp add: name_ok_def)
  ultimately show ?thesis using assms by (simp add: line_step_def is_section_def section_name_def name_ok_def)
qed

lemma key_line_step:
  assumes "name_ok u" and "ini_value_ok u"
  shows "line_step (upd_section u) (upd_key u @ '' = '' @ [QUOTE] @ upd_value u @ [QUOTE]) = (upd_section u, [entry u])"
proof -
  let ?l = "upd_key u @ '' = '' @ [QUOTE] @ upd_value u @ [QUOTE]"
  have k: "upd_key u \<noteq> []" "\<not> isspace (hd (upd_key u))" "\<not> isspace (last (upd_key u))" "hd (upd_key u) \<notin> set ''[#;''"
    "CHR ''='' \<notin> set (upd_key u)" using assms(1) by (simp_all add: name_ok_def)
  have "trim ?l = ?l" using k(1,2) by (intro trim_self) simp_all
  moreover have "split_at (CHR ''='') ?l = Some (upd_key u @ '' '', '' '' @ [QUOTE] @ upd_value u @ [QUOTE])"
    using split_at_append [of "CHR ''=''" "upd_key u @ '' ''" "'' '' @ [QUOTE] @ upd_value u @ [QUOTE]"] k(5) by simp
  moreover have "trim (upd_key u @ '' '') = upd_key u"
    using k(1-3) trim_self [OF k(1-3)] by (cases "upd_key u") (simp_all add: trim_def rstrip_def)
  ultimately show ?thesis
    using k unquote_quoted [of "upd_section u" "upd_value u"] assms(2)
    by (simp add: line_step_def is_section_def is_comment_def assignment_def entry_def ini_value_ok_def)
qed

lemma append_keys_scan:
  "\<forall>u\<in>set us. name_ok u \<and> ini_value_ok u \<Longrightarrow>
   ini_scan s (fst (append_keys s us)) = (s, map entry (filter (\<lambda>u. \<not> upd_found u \<and> upd_section u = s) us))
   \<and> snd (append_keys s us) = map (\<lambda>u. if upd_section u = s then u\<lparr>upd_found := True\<rparr> else u) us"
proof (induction us)
  case (Cons u us)
  obtain q us' where q: "append_keys s us = (q, us')" by (cases "append_keys s us")
  show ?case
  proof (cases "upd_found u \<or> upd_section u \<noteq> s")
    case True
    with Cons q show ?thesis by (cases u) auto
  next
    case False
    let ?l = "upd_key u @ '' = '' @ [QUOTE] @ upd_value u @ [QUOTE]"
    have "entry_line u @ q = ?l @ NL # q" by (simp add: entry_line_def)
    moreover have n: "NL \<notin> set ?l" using Cons.prems by (simp add: name_ok_def ini_value_ok_def)
    ultimately have "ini_scan s (entry_line u @ q) = then_scan (line_step s ?l) (\<lambda>s'. ini_scan s' q)"
      by (simp only: ini_scan_append ini_scan_line [OF n])
    with False Cons q key_line_step [of u] show ?thesis by (simp add: then_scan_def)
  qed
qed simp

lemma append_missing_scan:
  "\<forall>u\<in>set us. name_ok u \<and> ini_value_ok u \<Longrightarrow>
   \<exists>es. snd (ini_scan s (append_missing sofar us)) = snd (ini_scan s sofar) @ es
      \<and> set es = entry ` {u \<in> set us. \<not> upd_found u}"
proof (induction sofar us arbitrary: s rule: append_missing.induct)
  case (1 sofar)
  then show ?case by (simp add: append_missing.simps)
next
  case (2 sofar u us)
  show ?case
  proof (cases "upd_found u")
    case True
    then have "{v \<in> set (u # us). \<not> upd_found v} = {v \<in> set us. \<not> upd_found v}" by auto
    with 2(1) [OF True] 2(3) True show ?thesis by (simp add: append_missing.simps)
  next
    case False
    define out1 where "out1 = (if sofar \<noteq> [] \<and> last sofar \<noteq> NL then sofar @ [NL] else sofar)"
    define out2 where "out2 = (if out1 \<noteq> [] then out1 @ [NL] else out1)"
    define s' where "s' = upd_section u"
    define rest where "rest = map (\<lambda>u. if upd_section u = s' then u\<lparr>upd_found := True\<rparr> else u) us"
    obtain q us' where q: "append_keys s' (u # us) = (q, us')" by (cases "append_keys s' (u # us)")
    from append_keys_scan [OF 2(3), of s'] q
    have scan_q: "ini_scan s' q = (s', map entry (filter (\<lambda>u. \<not> upd_found u \<and> upd_section u = s') (u # us)))"
      and us': "tl us' = rest" by (simp_all add: rest_def)
    let ?out = "out2 @ ''['' @ s' @ '']'' @ [NL] @ q"
    have "\<forall>u\<in>set rest. name_ok u \<and> ini_value_ok u" using 2(3) by (auto simp: rest_def name_ok_def ini_value_ok_def)
    then obtain es where es: "snd (ini_scan s (append_missing ?out rest)) = snd (ini_scan s ?out) @ es"
      "set es = entry ` {u \<in> set rest. \<not> upd_found u}"
      using 2(2) [OF False out1_def out2_def q [unfolded s'_def, symmetric] refl, of s] us' by (auto simp: s'_def)
    have out1: "snd (ini_scan s out1) = snd (ini_scan s sofar)"
      using ini_scan_append [of s sofar "[]"] by (simp add: out1_def)
    have out2: "snd (ini_scan s out2) = snd (ini_scan s sofar)"
      using ini_scan_append [of s out1 "[]"] out1 by (cases "out1 = []") (auto simp: out2_def)
    have u: "name_ok u" "NL \<notin> set (''['' @ s' @ '']'')" using 2(3) by (simp_all add: s'_def name_ok_def)
    have "ini_scan s ?out = then_scan (ini_scan s out2) (\<lambda>s1. ini_scan s1 ((''['' @ s' @ '']'') @ NL # q))"
      by (subst ini_scan_append_line) (simp_all add: out2_def)
    also have "\<dots> = then_scan (ini_scan s out2) (\<lambda>s1. ini_scan s' q)"
      using section_line_step [OF u(1)] by (simp only: ini_scan_append ini_scan_line [OF u(2) [unfolded s'_def]] s'_def then_scan_simps)
    finally have out_entries: "snd (ini_scan s ?out) = snd (ini_scan s sofar)
        @ map entry (filter (\<lambda>u. \<not> upd_found u \<and> upd_section u = s') (u # us))"
      using scan_q out2 by (simp add: then_scan_def)
    have missing_rest: "append_missing sofar (u # us) = append_missing ?out rest"
      using False q us' by (simp add: append_missing.simps Let_def out1_def [symmetric] out2_def [symmetric] s'_def)
    have "{v \<in> set rest. \<not> upd_found v} = {v \<in> set us. \<not> upd_found v \<and> upd_section v \<noteq> s'}"
      by (auto simp: rest_def image_iff)
    then have "entry ` {v \<in> set (u # us). \<not> upd_found v}
        = entry ` set (filter (\<lambda>u. \<not> upd_found u \<and> upd_section u = s') (u # us)) \<union> entry ` {u \<in> set rest. \<not> upd_found u}"
      using False unfolding image_Un [symmetric] by (intro arg_cong [of _ _ "image entry"]) (auto simp: s'_def)
    with out_entries missing_rest show ?thesis using es by auto
  qed
qed

lemma line_parts: "first_line p @ line_end p @ next_lines p = p"
proof (cases "NL \<in> set p")
  case True
  then have "dropWhile (\<lambda>c. c \<noteq> NL) p = NL # next_lines p"
    unfolding next_lines_def by (induction p) auto
  with True show ?thesis unfolding first_line_def line_end_def by (metis append_Cons append_Nil takeWhile_dropWhile_id)
qed (simp add: line_end_def lines_plain)

lemma apply_loop_same:
  "apply_loop p s us = Inr (q, us') \<Longrightarrow>
   \<forall>e\<in>set (snd (ini_scan s p)). new_value us (fst e) (snd e) = snd e \<Longrightarrow> q = p"
proof (induction "length p" arbitrary: p s us q us' rule: less_induct)
  case less
  show ?case
  proof (cases "p = []")
    case True
    with less.prems(1) show ?thesis by simp
  next
    case False
    note shorter = next_lines_shorter [OF False]
    from less.prems(1) False show ?thesis
    proof (cases rule: apply_loop_step)
      case (copied q1)
      from less.prems(2) have "\<forall>e\<in>set (snd (ini_scan (fst (line_step s (first_line p))) (next_lines p))).
          new_value us (fst e) (snd e) = snd e" by (simp add: ini_scan_step [OF False] then_scan_def)
      from less.hyps [OF shorter copied(2) this] copied(1) show ?thesis by (simp add: line_parts)
    next
      case (update q1 new i k v)
      from find_update_Some [OF update(2)] have i: "i < length us" by simp
      note eq = base_eq_value [OF base_mark [OF i, of True]]
      have x: "line_step s (first_line p) = (s, [((s, k), ini_unquote s v)])"
        using update(5,6) by (simp add: line_step_def)
      from less.prems(2) have h: "new_value us (s, k) (ini_unquote s v) = ini_unquote s v"
        "\<forall>e\<in>set (snd (ini_scan s (next_lines p))). new_value us (fst e) (snd e) = snd e"
        by (simp_all add: ini_scan_step [OF False] then_scan_def x)
      from h(1) update(2) have "new = first_line p" unfolding update(7) by (simp add: new_value_def)
      moreover from less.hyps [OF shorter update(4)] h(2) eq(2) have "q1 = next_lines p" by simp
      ultimately show ?thesis using update(1) by (simp add: line_parts)
    qed
  qed
qed

text \<open>Success of the whole update, on the entries.\<close>

lemma ini_apply_entries:
  assumes "ini_apply_updates config us add_missing = Inr out" and "\<forall>u\<in>set us. ini_value_ok u \<and> name_ok u"
  obtains es where "ini_entries out = overridden us (ini_entries config) @ es"
    and "set es \<subseteq> entry ` set us"
    and "\<forall>i<length us. updates_found us (ini_entries config) i \<or> entry (us ! i) \<in> set es"
    and "length out \<le> MAX_CONFIG"
proof -
  have base: "map (\<lambda>u. u\<lparr>upd_found := False\<rparr>) us = base us" by (simp add: base_def)
  have idem: "base (base us) = base us" by (simp add: base_def)
  note eq = base_eq_value [OF idem]
  from assms(1) obtain q us' where loop: "apply_loop config [] (base us) = Inr (q, us')"
    and out: "out = (if add_missing then append_missing q us' else q)" "length out \<le> MAX_CONFIG"
    and missing: "add_missing \<or> find (\<lambda>u. \<not> upd_found u) us' = None"
    unfolding ini_apply_updates_def base
    by (auto simp: Let_def split: sum.splits option.splits if_splits)
  have ok: "\<forall>u\<in>set (base us). ini_value_ok u" using assms(2) eq(5) by simp
  note entries = apply_loop_entries [OF loop ok]
  have b: "base us' = base us" using entries idem by simp
  have len: "length us' = length us" using b by (metis base_def length_map)
  have upd: "entry (us' ! i) = entry (us ! i) \<and> ini_value_ok (us' ! i) = ini_value_ok (us ! i) \<and> name_ok (us' ! i) = name_ok (us ! i)"
    if "i < length us" for i
  proof -
    have "(us' ! i)\<lparr>upd_found := False\<rparr> = (us ! i)\<lparr>upd_found := False\<rparr>"
      using that b len unfolding base_def by (metis (no_types, lifting) nth_map)
    from arg_cong [OF this, of entry] arg_cong [OF this, of ini_value_ok] arg_cong [OF this, of name_ok]
    show ?thesis by (simp add: entry_def ini_value_ok_def name_ok_def)
  qed
  have ok': "\<forall>u\<in>set us'. name_ok u \<and> ini_value_ok u"
    using upd assms(2) len by (auto simp: all_set_conv_all_nth)
  have sub: "entry ` {u \<in> set us'. \<not> upd_found u} \<subseteq> entry ` set us"
  proof
    fix e assume "e \<in> entry ` {u \<in> set us'. \<not> upd_found u}"
    then obtain i where "i < length us'" "e = entry (us' ! i)" by (auto simp: in_set_conv_nth)
    with upd len show "e \<in> entry ` set us" by simp
  qed
  have q: "ini_entries q = overridden us (ini_entries config)"
    using entries eq(3) by (simp add: ini_entries_def)
  have found: "upd_found (us' ! i) \<longleftrightarrow> updates_found us (ini_entries config) i" if "i < length us" for i
    using entries that by (simp add: base_def [of us] updates_found_def find_update_base [unfolded base_def] ini_entries_def)
  show ?thesis
  proof (cases add_missing)
    case True
    from append_missing_scan [OF ok', of "[]" q] obtain es
      where es: "ini_entries out = ini_entries q @ es" "set es = entry ` {u \<in> set us'. \<not> upd_found u}"
      using True out(1) by (auto simp: ini_entries_def)
    have "\<forall>i<length us. updates_found us (ini_entries config) i \<or> entry (us ! i) \<in> set es"
      using found upd len es(2) by (metis (mono_tags, lifting) image_eqI mem_Collect_eq nth_mem)
    with that es q sub out(2) show ?thesis by auto
  next
    case False
    with missing have "\<forall>i<length us. upd_found (us' ! i)" using len by (auto simp: find_None_iff)
    with that [of "[]"] False found q out show ?thesis by simp
  qed
qed

lemma map_of_entries:
  "distinct (map (\<lambda>u. (upd_section u, upd_key u)) us) \<Longrightarrow> set es \<subseteq> entry ` set us \<Longrightarrow> u \<in> set us \<Longrightarrow>
   entry u \<in> set es \<Longrightarrow> map_of es (upd_section u, upd_key u) = Some (upd_value u)"
proof (induction es)
  case (Cons e es)
  from Cons.prems(2) obtain w where w: "w \<in> set us" "e = entry w" by auto
  show ?case
  proof (cases "fst e = (upd_section u, upd_key u)")
    case True
    with w Cons.prems(1,3) have "w = u" by (auto simp: distinct_map inj_on_def entry_def)
    with w show ?thesis by (simp add: entry_def)
  next
    case False
    then have "entry u \<in> set es" using Cons.prems(4) by (auto simp: entry_def)
    with Cons False show ?thesis by (cases e) auto
  qed
qed simp

lemma append_missing_found: "\<forall>u\<in>set us. upd_found u \<Longrightarrow> append_missing sofar us = sofar"
  by (induction sofar us rule: append_missing.induct) (simp_all add: append_missing.simps)

lemma ini_apply_same:
  assumes "ini_apply_updates config us add_missing = Inr out" and "\<forall>u\<in>set us. ini_value_ok u"
    and "\<forall>e\<in>set (ini_entries config). new_value us (fst e) (snd e) = snd e"
    and "\<forall>i<length us. updates_found us (ini_entries config) i"
  shows "out = config"
proof -
  have base: "map (\<lambda>u. u\<lparr>upd_found := False\<rparr>) us = base us" by (simp add: base_def)
  have idem: "base (base us) = base us" by (simp add: base_def)
  note eq = base_eq_value [OF idem]
  from assms(1) obtain q us' where loop: "apply_loop config [] (base us) = Inr (q, us')"
    and out: "out = (if add_missing then append_missing q us' else q)"
    unfolding ini_apply_updates_def base
    by (auto simp: Let_def split: sum.splits option.splits if_splits)
  have ok: "\<forall>u\<in>set (base us). ini_value_ok u" using assms(2) eq(5) by simp
  note entries = apply_loop_entries [OF loop ok]
  have len: "length us' = length us" using entries by (metis base_def length_map)
  have "upd_found (us' ! i)" if "i < length us" for i
    using entries that assms(4) by (simp add: base_def [of us] updates_found_def find_update_base [unfolded base_def] ini_entries_def)
  then have "\<forall>u\<in>set us'. upd_found u" using len by (auto simp: in_set_conv_nth)
  moreover have "q = config"
    using apply_loop_same [OF loop] assms(3) eq(2) by (simp add: ini_entries_def)
  ultimately show ?thesis using out append_missing_found by simp
qed

text \<open>The laws of the update.\<close>

lemma ini_update_lens:
  assumes "ini_apply_updates config us add_missing = Inr out"
    and "\<forall>u\<in>set us. ini_value_ok u \<and> name_ok u"
    and "distinct (map (\<lambda>u. (upd_section u, upd_key u)) us)"
  shows "(\<forall>u\<in>set us. \<forall>n. ini_get_value out (upd_section u) (upd_key u) n
        = (if n \<le> length (upd_value u) then None else Some (upd_value u)))
    \<and> (\<forall>s k n. (s, k) \<notin> set (map (\<lambda>u. (upd_section u, upd_key u)) us) \<longrightarrow>
        ini_get_value out s k n = ini_get_value config s k n)
    \<and> length out \<le> MAX_CONFIG
    \<and> ((\<forall>u\<in>set us. entry u \<in> set (ini_entries config) \<and>
          (\<forall>v. ((upd_section u, upd_key u), v) \<in> set (ini_entries config) \<longrightarrow> v = upd_value u)) \<longrightarrow> out = config)"
proof -
  from ini_apply_entries [OF assms(1,2)] obtain es where es: "ini_entries out = overridden us (ini_entries config) @ es"
    "set es \<subseteq> entry ` set us" "\<forall>i<length us. updates_found us (ini_entries config) i \<or> entry (us ! i) \<in> set es"
    "length out \<le> MAX_CONFIG" by metis
  have get: "ini_get_loop c [] s k = map_of (ini_entries c) (s, k)" for c s k
    by (simp add: ini_get_loop_entries ini_entries_def)
  have updated: "ini_get_loop out [] (upd_section u) (upd_key u) = Some (upd_value u)" if "u \<in> set us" for u
  proof -
    from that obtain i where i: "i < length us" "u = us ! i" by (auto simp: in_set_conv_nth)
    let ?key = "(upd_section u, upd_key u)"
    have new: "new_value us ?key v = upd_value u" for v
      using find_update_distinct [OF assms(3) i(1)] i(2) by (simp add: new_value_def)
    show ?thesis
    proof (cases "map_of (ini_entries config) ?key")
      case None
      then have "\<not> updates_found us (ini_entries config) i"
        using i by (auto simp: updates_found_def map_of_eq_None_iff image_iff dest!: find_update_Some)
      with es(3) i have "entry u \<in> set es" by auto
      from map_of_entries [OF assms(3) es(2) that this] None es(1) show ?thesis
        by (simp add: get map_add_def map_of_overridden)
    next
      case (Some v)
      with es(1) new show ?thesis by (auto simp: get map_add_Some_iff map_of_overridden map_of_eq_None_iff
            intro!: map_add_find_right [THEN subst] split: option.splits) 
    qed
  qed
  have others: "ini_get_loop out [] s k = ini_get_loop config [] s k"
    if "(s, k) \<notin> set (map (\<lambda>u. (upd_section u, upd_key u)) us)" for s k
  proof -
    from that have "find_update us s k = None" using find_update_None [of us s k] by blast
    then have "new_value us (s, k) = (\<lambda>v. v)" by (intro ext) (simp add: new_value_def)
    moreover have "map_of es (s, k) = None"
      using es(2) that by (fastforce simp: map_of_eq_None_iff entry_def)
    ultimately show ?thesis using es(1) by (simp add: get map_add_def map_of_overridden split: option.splits)
  qed
  have same: "out = config"
    if h: "\<forall>u\<in>set us. entry u \<in> set (ini_entries config) \<and>
      (\<forall>v. ((upd_section u, upd_key u), v) \<in> set (ini_entries config) \<longrightarrow> v = upd_value u)"
  proof (rule ini_apply_same [OF assms(1)])
    show "\<forall>u\<in>set us. ini_value_ok u" using assms(2) by blast
    show "\<forall>e\<in>set (ini_entries config). new_value us (fst e) (snd e) = snd e"
    proof
      fix e assume e: "e \<in> set (ini_entries config)"
      show "new_value us (fst e) (snd e) = snd e"
      proof (cases "find_update us (fst (fst e)) (snd (fst e))")
        case (Some i)
        from find_update_Some [OF this] have i: "us ! i \<in> set us" "fst e = (upd_section (us ! i), upd_key (us ! i))" by auto
        with h e have "snd e = upd_value (us ! i)" by (metis prod.collapse)
        with Some show ?thesis by (simp add: new_value_def)
      qed (simp add: new_value_def)
    qed
    show "\<forall>i<length us. updates_found us (ini_entries config) i"
    proof (intro allI impI)
      fix i assume i: "i < length us"
      with h have "entry (us ! i) \<in> set (ini_entries config)" by simp
      with find_update_distinct [OF assms(3) i] show "updates_found us (ini_entries config) i"
        unfolding updates_found_def by (intro bexI [of _ "entry (us ! i)"]) (simp_all add: entry_def)
    qed
  qed
  show ?thesis
    using updated others same es(4) by (simp add: ini_get_value_def)
qed

subsection \<open>Properties\<close>

text \<open>C22: the update of a configuration file is a lens: when it succeeds, every updated key reads back
  its new value, no other key of any section reads differently, the file stays within its bound,
  and when the file already had all the values it stays the same, byte for byte. For distinct keys,
  names that fit a line of their own, and values without line ends and without blanks around them
  (which only the section support_proxy keeps).\<close>

theorem web_ini_update:
  assumes "ini_apply_updates config us add_missing = Inr out"
    and "\<forall>u\<in>set us. ini_value_ok u \<and> name_ok u"
    and "distinct (map (\<lambda>u. (upd_section u, upd_key u)) us)"
  shows "(\<forall>u\<in>set us. \<forall>n. ini_get_value out (upd_section u) (upd_key u) n
        = (if n \<le> length (upd_value u) then None else Some (upd_value u)))
    \<and> (\<forall>s k n. (s, k) \<notin> set (map (\<lambda>u. (upd_section u, upd_key u)) us) \<longrightarrow>
        ini_get_value out s k n = ini_get_value config s k n)
    \<and> length out \<le> MAX_CONFIG
    \<and> ((\<forall>u\<in>set us. entry u \<in> set (ini_entries config) \<and>
          (\<forall>v. ((upd_section u, upd_key u), v) \<in> set (ini_entries config) \<longrightarrow> v = upd_value u)) \<longrightarrow> out = config)"
  using assms by (rule ini_update_lens)

definition old_config :: string where
  "old_config = ''[a]'' @ [NL] @ ''x = 1 '' @ [NL] @ ''z=4''"

definition ab_updates :: "ini_update list" where
  "ab_updates =
    [\<lparr>upd_section = ''a'', upd_key = ''x'', upd_value = ''2'', upd_found = False\<rparr>,
     \<lparr>upd_section = ''b'', upd_key = ''y'', upd_value = ''3'', upd_found = False\<rparr>]"

definition ab_config :: string where
  "ab_config = ''[a]'' @ [NL] @ ''x = '' @ [QUOTE] @ ''2'' @ [QUOTE, NL] @ ''z=4'' @ [NL, NL]
     @ ''[b]'' @ [NL] @ ''y = '' @ [QUOTE] @ ''3'' @ [QUOTE, NL]"

lemma ab_applied: "ini_apply_updates old_config ab_updates True = Inr ab_config"
  by (simp add: ini_apply_updates_def apply_loop.simps old_config_def ab_updates_def ab_config_def first_line_def
      next_lines_def line_end_def trim_def rstrip_def isspace_def code_def is_section_def section_name_def assignment_def
      is_comment_def split_at_def ini_unquote_def append_missing.simps entry_line_def MAX_CONFIG_def)

theorem web_ini_update_witness:
  "ini_get_value ab_config ''a'' ''x'' 160 = Some ''2'' \<and> ini_get_value ab_config ''b'' ''y'' 160 = Some ''3''
   \<and> ini_get_value ab_config ''a'' ''z'' 160 = ini_get_value old_config ''a'' ''z'' 160"
proof -
  have "\<forall>u\<in>set ab_updates. ini_value_ok u \<and> name_ok u" "distinct (map (\<lambda>u. (upd_section u, upd_key u)) ab_updates)"
    by (simp_all add: ab_updates_def ini_value_ok_def name_ok_def trim_def rstrip_def isspace_def code_def)
  from web_ini_update [OF ab_applied this] show ?thesis by (simp add: ab_updates_def)
qed

end
