(* ===== verification/Web_Params.thy ===== *)
theory Web_Params
  imports Config_Params Web_Request Web_Ini
begin

text \<open>
  The parameter form of the web server, \<^verbatim>\<open>web/mt11-web.c\<close>: its table of parameters, the check and the
  normal form of a submitted value, and the updates made of a form. The camera application has a
  table and checks of its own, \<^verbatim>\<open>camera_app/src/config.c\<close>; that they agree is a property here.
  The macros of \<^verbatim>\<open>include/apcam/target_*.h\<close> are the record \<^term>\<open>t\<close>. Labels and help texts are left
  out; an error names the parameter by its form name. A parameter of kind FLOAT, of which the table
  has none, is checked by the argument \<^term>\<open>float_ok\<close>.
\<close>

subsection \<open>The table\<close>

record web_target =
  app_target :: apcam_target
  have_image_controls :: bool
  have_thermal :: bool

definition web_targets :: "web_target list" where
  "web_targets =
    [\<lparr>app_target = target_mt11, have_image_controls = True, have_thermal = True\<rparr>,
     \<lparr>app_target = target_a8, have_image_controls = True, have_thermal = False\<rparr>,
     \<lparr>app_target = target_zr10, have_image_controls = False, have_thermal = False\<rparr>,
     \<lparr>app_target = target_z1mini, have_image_controls = False, have_thermal = False\<rparr>]"

datatype parameter_kind = PARAM_BOOLEAN | PARAM_INTEGER | PARAM_FLOAT | PARAM_IPV4 | PARAM_ENUM | PARAM_LUT
  | PARAM_TEXT | PARAM_PASSWORD

record parameter =
  form_name :: string
  p_section :: string
  p_key :: string
  p_kind :: parameter_kind
  p_minimum :: int
  p_maximum :: int
  p_options :: "string list"

definition enum_row :: "string \<Rightarrow> string \<Rightarrow> string \<Rightarrow> string list \<Rightarrow> parameter" where
  "enum_row name section key options =
     \<lparr>form_name = name, p_section = section, p_key = key, p_kind = PARAM_ENUM, p_minimum = 0, p_maximum = 0,
      p_options = options\<rparr>"

definition range_row :: "string \<Rightarrow> string \<Rightarrow> string \<Rightarrow> parameter_kind \<Rightarrow> int \<Rightarrow> int \<Rightarrow> parameter" where
  "range_row name section key knd minimum maximum =
     \<lparr>form_name = name, p_section = section, p_key = key, p_kind = knd, p_minimum = minimum, p_maximum = maximum,
      p_options = []\<rparr>"

definition web_boolean_options :: "string list" where
  "web_boolean_options = [''false'', ''true'']"

definition web_uart_protocol_options :: "web_target \<Rightarrow> string list" where
  "web_uart_protocol_options t =
     ''none'' # (if have_external_uart (app_target t) then [''siyi'', ''mavlink''] else [])"

text \<open>One list per mask, as the three tables of resolutions have it.\<close>

definition web_resolution_options :: "nat \<Rightarrow> string list" where
  "web_resolution_options supported =
     (if bit supported 0 then [''1280x720''] else []) @
     (if bit supported 1 then [''1920x1080''] else []) @
     (if bit supported 3 then [''2560x1440''] else []) @
     (if bit supported 2 then [''3840x2160''] else [])"

definition web_codec_options :: "web_target \<Rightarrow> string list" where
  "web_codec_options t = ''h264'' # (if bit (stream_codecs (app_target t)) 1 then [''h265''] else [])"

definition web_palette_options :: "string list" where
  "web_palette_options =
     [''white_hot'', ''sepia'', ''ironbow'', ''rainbow'', ''night'', ''aurora'', ''red_hot'', ''jungle'',
      ''medical'', ''black_hot'', ''glory_hot'']"

definition web_iso_options :: "string list" where
  "web_iso_options = [''auto'', ''100'', ''200'', ''400'', ''800'', ''1600'', ''3200'']"

definition web_shutter_options :: "string list" where
  "web_shutter_options =
     [''auto'', ''1/30'', ''1/50'', ''1/100'', ''1/250'', ''1/500'', ''1/750'', ''1/1000'', ''1/2000'']"

definition replacement_parameters :: "web_target \<Rightarrow> parameter list" where
  "replacement_parameters t =
    [range_row ''timezone'' ''general'' ''timezone'' PARAM_TEXT 1 127,
     enum_row ''photo_scope'' ''capture'' ''photo_scope'' [''thermal'', ''all''],
     enum_row ''orientation'' ''mount'' ''orientation'' [''auto'', ''upright'', ''inverted''],
     enum_row ''uart_protocol'' ''uart'' ''protocol'' (web_uart_protocol_options t),
     range_row ''mavlink_system_id'' ''mavlink'' ''system_id'' PARAM_INTEGER 0 255,
     enum_row ''mavlink_camera_component_id'' ''mavlink'' ''camera_component_id''
       [''100'', ''101'', ''102'', ''103'', ''104'', ''105''],
     range_row ''mavlink_tcp_port'' ''mavlink'' ''tcp_port'' PARAM_INTEGER 0 65535,
     range_row ''mavlink_udp_port'' ''mavlink'' ''udp_port'' PARAM_INTEGER 0 65535,
     enum_row ''position_targeting'' ''mavlink'' ''position_targeting'' web_boolean_options,
     enum_row ''log_disarmed'' ''logging'' ''disarmed'' web_boolean_options,
     enum_row ''tracking_method'' ''mavlink'' ''tracking_method'' [''angle'', ''rate''],
     enum_row ''thermal_palette'' ''thermal'' ''palette'' web_palette_options,
     enum_row ''autorecord'' ''recording'' ''autorecord'' [''false'', ''true'', ''while_armed''],
     enum_row ''recording_resolution'' ''recording'' ''resolution''
       (web_resolution_options (recording_resolutions (app_target t))),
     enum_row ''main_resolution'' ''stream.main'' ''resolution''
       (web_resolution_options (main_resolutions (app_target t))),
     enum_row ''main_codec'' ''stream.main'' ''codec'' (web_codec_options t),
     enum_row ''sub_resolution'' ''stream.sub'' ''resolution''
       (web_resolution_options (sub_resolutions (app_target t))),
     enum_row ''sub_codec'' ''stream.sub'' ''codec'' (web_codec_options t),
     range_row ''brightness'' ''image'' ''brightness'' PARAM_INTEGER 0 100,
     range_row ''saturation'' ''image'' ''saturation'' PARAM_INTEGER 0 100,
     range_row ''contrast'' ''image'' ''contrast'' PARAM_INTEGER 0 100,
     range_row ''exposure_compensation'' ''image'' ''exposure_compensation'' PARAM_INTEGER (-10) 10,
     enum_row ''iso'' ''image'' ''iso'' web_iso_options,
     enum_row ''shutter'' ''image'' ''shutter'' web_shutter_options,
     enum_row ''metering'' ''image'' ''metering'' [''average'', ''center'', ''spot''],
     enum_row ''white_balance'' ''image'' ''white_balance''
       [''auto'', ''daylight'', ''cloudy'', ''fluorescent'', ''incandescent''],
     enum_row ''proxy_enabled'' ''support_proxy'' ''enabled'' web_boolean_options,
     range_row ''proxy_host'' ''support_proxy'' ''host'' PARAM_TEXT 0 127,
     range_row ''proxy_mavlink_port'' ''support_proxy'' ''mavlink_port'' PARAM_INTEGER 0 65535,
     enum_row ''proxy_signing'' ''support_proxy'' ''signing'' web_boolean_options,
     range_row ''proxy_signing_passphrase'' ''support_proxy'' ''signing_passphrase'' PARAM_PASSWORD 0 127,
     range_row ''proxy_signing_link_id'' ''support_proxy'' ''signing_link_id'' PARAM_INTEGER 0 255,
     range_row ''proxy_video1_port'' ''support_proxy'' ''video1_port'' PARAM_INTEGER 0 65535,
     range_row ''proxy_video1_name'' ''support_proxy'' ''video1_name'' PARAM_TEXT 0 63,
     range_row ''proxy_video2_port'' ''support_proxy'' ''video2_port'' PARAM_INTEGER 0 65535,
     range_row ''proxy_video2_name'' ''support_proxy'' ''video2_name'' PARAM_TEXT 0 63,
     range_row ''proxy_publish_password'' ''support_proxy'' ''publish_password'' PARAM_PASSWORD 0 127,
     range_row ''proxy_network_interface'' ''support_proxy'' ''network_interface'' PARAM_TEXT 1 15,
     range_row ''proxy_network_address'' ''support_proxy'' ''network_address'' PARAM_TEXT 0 31,
     range_row ''proxy_network_gateway'' ''support_proxy'' ''network_gateway'' PARAM_TEXT 0 15]"

subsection \<open>Checking a value\<close>

definition parse_long_strict :: "string \<Rightarrow> int \<Rightarrow> int \<Rightarrow> int option" where
  "parse_long_strict s minimum maximum =
     (case strtol s of
        None \<Rightarrow> None
      | Some (value, end, erange) \<Rightarrow>
          if erange \<or> end \<noteq> [] \<or> value < minimum \<or> maximum < value then None else Some value)"

text \<open>The address of \<^verbatim>\<open>inet_pton\<close>, in host order.\<close>

fun address_bytes :: "nat \<Rightarrow> string \<Rightarrow> nat" where
  "address_bytes 0 s = digits_value s"
| "address_bytes (Suc n) s =
     (case split_at (CHR ''.'') s of
        None \<Rightarrow> 0
      | Some (a, b) \<Rightarrow> digits_value a * 256 ^ Suc n + address_bytes n b)"

definition valid_netmask :: "string \<Rightarrow> bool" where
  "valid_netmask s \<longleftrightarrow>
     inet_pton4 s \<and>
     (let mask = of_nat (address_bytes 3 s) :: u32; inverse = NOT mask in inverse AND (inverse + 1) = 0)"

definition option_contains :: "parameter \<Rightarrow> string \<Rightarrow> bool" where
  "option_contains p v \<longleftrightarrow> v \<in> set (p_options p)"

text \<open>Three numbers, each as \<^verbatim>\<open>strtol\<close> takes it, separated by commas.\<close>

fun lut_items :: "nat \<Rightarrow> string \<Rightarrow> bool" where
  "lut_items n s =
     (case strtol s of
        None \<Rightarrow> False
      | Some (value, end, erange) \<Rightarrow>
          \<not> erange \<and> - (2 ^ 31) \<le> value \<and> value \<le> 2 ^ 31 - 1 \<and>
          (case n of
             0 \<Rightarrow> end = []
           | Suc m \<Rightarrow> (case end of c # rest \<Rightarrow> c = CHR '','' \<and> lut_items m rest | [] \<Rightarrow> False)))"

definition valid_lut_value :: "string \<Rightarrow> bool" where
  "valid_lut_value s = lut_items 2 s"

definition valid_text_parameter :: "parameter \<Rightarrow> string \<Rightarrow> bool" where
  "valid_text_parameter p s \<longleftrightarrow>
     (if int (length s) < p_minimum p \<or> p_maximum p < int (length s) then False
      else if p_section p = ''support_proxy'' then
        list_all (\<lambda>c. 32 \<le> code c \<and> code c \<le> 126 \<and> c \<noteq> QUOTE
          \<and> (p_key p = ''host'' \<or> p_key p = ''network_interface'' \<longrightarrow>
              isalnum c \<or> c = CHR ''.'' \<or> c = CHR ''-'' \<or> c = CHR ''_'')) s
        \<and> (if s \<noteq> [] \<and> p_key p = ''network_gateway'' then inet_pton4 s
           else if s \<noteq> [] \<and> p_key p = ''network_address'' then
             (if 32 \<le> length s then False
              else case split_at (CHR ''/'') s of
                None \<Rightarrow> False
              | Some (address, prefix) \<Rightarrow> parse_long_strict prefix 1 32 \<noteq> None \<and> inet_pton4 address)
           else True)
      else list_all (\<lambda>c. \<not> iscntrl c \<and> \<not> isspace c) s)"

definition parameter_shown :: "web_target \<Rightarrow> parameter \<Rightarrow> bool" where
  "parameter_shown t p \<longleftrightarrow>
     \<not> (\<not> have_image_controls t \<and> p_section p = ''image'') \<and>
     \<not> (\<not> have_external_uart (app_target t) \<and> p_section p = ''uart'') \<and>
     \<not> (\<not> have_thermal t \<and> (p_section p = ''thermal'' \<or> p_key p = ''photo_scope''))"

text \<open>The value as it is stored, None when it is not valid.\<close>

definition normalized_value :: "(parameter \<Rightarrow> string \<Rightarrow> bool) \<Rightarrow> parameter \<Rightarrow> string \<Rightarrow> string option" where
  "normalized_value float_ok p v =
     (if 160 \<le> length v then None
      else case p_kind p of
        PARAM_BOOLEAN \<Rightarrow> if option_contains p v then Some v else None
      | PARAM_ENUM \<Rightarrow> if option_contains p v then Some v else None
      | PARAM_INTEGER \<Rightarrow> map_option dec_int (parse_long_strict v (p_minimum p) (p_maximum p))
      | PARAM_FLOAT \<Rightarrow> if float_ok p v then Some v else None
      | PARAM_IPV4 \<Rightarrow> if inet_pton4 v \<and> (p_key p = ''netmask'' \<longrightarrow> valid_netmask v) then Some v else None
      | PARAM_LUT \<Rightarrow> if valid_lut_value v then Some v else None
      | PARAM_TEXT \<Rightarrow> if valid_text_parameter p v then Some v else None
      | PARAM_PASSWORD \<Rightarrow> if valid_text_parameter p v then Some v else None)"

subsection \<open>The updates of a form\<close>

datatype form_error = Invalid_value string | Too_many_parameters

definition append_update ::
  "ini_update list \<Rightarrow> nat \<Rightarrow> string \<Rightarrow> string \<Rightarrow> string \<Rightarrow> form_error + ini_update list" where
  "append_update updates capacity section key v =
     (if capacity \<le> length updates \<or> 160 \<le> length v then Inl Too_many_parameters
      else Inr (updates @ [\<lparr>upd_section = section, upd_key = take 47 key, upd_value = v, upd_found = False\<rparr>]))"

fun collect_described_parameters ::
  "(parameter \<Rightarrow> string \<Rightarrow> bool) \<Rightarrow> web_target \<Rightarrow> request \<Rightarrow> parameter list \<Rightarrow> nat \<Rightarrow> ini_update list \<Rightarrow>
   form_error + ini_update list" where
  "collect_described_parameters float_ok t r [] capacity updates = Inr updates"
| "collect_described_parameters float_ok t r (p # ps) capacity updates =
     (if \<not> parameter_shown t p then collect_described_parameters float_ok t r ps capacity updates
      else
        case (case form_value r (form_name p) of None \<Rightarrow> None | Some v \<Rightarrow> normalized_value float_ok p v) of
          None \<Rightarrow> Inl (Invalid_value (form_name p))
        | Some normalized \<Rightarrow>
            (case append_update updates capacity (p_section p) (p_key p) normalized of
               Inl e \<Rightarrow> Inl e
             | Inr updates' \<Rightarrow> collect_described_parameters float_ok t r ps capacity updates'))"

text \<open>The last update of a key of the section \<^verbatim>\<open>support_proxy\<close>, or a default.\<close>

definition support_value :: "ini_update list \<Rightarrow> string \<Rightarrow> string \<Rightarrow> string" where
  "support_value updates key dflt =
     (case find (\<lambda>u. upd_section u = ''support_proxy'' \<and> upd_key u = key) (rev updates) of
        None \<Rightarrow> dflt
      | Some u \<Rightarrow> upd_value u)"

definition support_invalid :: "ini_update list \<Rightarrow> string option" where
  "support_invalid us =
     (if support_value us ''enabled'' ''false'' \<noteq> ''true'' then None
      else if support_value us ''host'' [] = [] then Some ''proxy_host''
      else if support_value us ''signing'' ''false'' = ''true'' \<and> support_value us ''signing_passphrase'' [] = [] then
        Some ''proxy_signing_passphrase''
      else if support_value us ''video1_port'' ''0'' \<noteq> ''0'' \<and> support_value us ''video1_name'' [] = [] then
        Some ''proxy_video1_name''
      else if support_value us ''video2_port'' ''0'' \<noteq> ''0'' \<and> support_value us ''video2_name'' [] = [] then
        Some ''proxy_video2_name''
      else if support_value us ''video1_port'' ''0'' \<noteq> ''0''
           \<and> support_value us ''video1_port'' ''0'' = support_value us ''video2_port'' ''0'' then
        Some ''proxy_video2_port''
      else None)"

definition collect_replacement_parameter_updates ::
  "(parameter \<Rightarrow> string \<Rightarrow> bool) \<Rightarrow> web_target \<Rightarrow> request \<Rightarrow> nat \<Rightarrow> form_error + ini_update list" where
  "collect_replacement_parameter_updates float_ok t r capacity =
     (case collect_described_parameters float_ok t r (replacement_parameters t) capacity [] of
        Inl e \<Rightarrow> Inl e
      | Inr us \<Rightarrow> (case support_invalid us of Some n \<Rightarrow> Inl (Invalid_value n) | None \<Rightarrow> Inr us))"

subsection \<open>Facts of the table\<close>

definition update_of :: "parameter \<Rightarrow> string \<Rightarrow> ini_update" where
  "update_of p v = \<lparr>upd_section = p_section p, upd_key = take 47 (p_key p), upd_value = v, upd_found = False\<rparr>"

text \<open>The names of a row can be written, and what it accepts can be read back.\<close>

definition row_ok :: "parameter \<Rightarrow> bool" where
  "row_ok p \<longleftrightarrow> name_ok (update_of p []) \<and> length (p_key p) \<le> 47 \<and>
     (case p_kind p of
        PARAM_ENUM \<Rightarrow> list_all (\<lambda>v. NL \<notin> set v \<and> trim v = v) (p_options p)
      | PARAM_INTEGER \<Rightarrow> -65535 \<le> p_minimum p \<and> p_maximum p \<le> 65535
      | PARAM_TEXT \<Rightarrow> True
      | PARAM_PASSWORD \<Rightarrow> True
      | _ \<Rightarrow> False)"

text \<open>The camera application's field accepts whatever the row accepts.\<close>

definition row_agrees :: "parameter \<Rightarrow> config_field \<Rightarrow> bool" where
  "row_agrees p f \<longleftrightarrow>
     (case p_kind p of
        PARAM_ENUM \<Rightarrow> list_all (\<lambda>v. parse_field f v \<noteq> None) (p_options p)
      | PARAM_INTEGER \<Rightarrow> f_size f = 4 \<and> f_minimum f \<le> p_minimum p \<and> p_maximum p \<le> f_maximum f
          \<and> (f_kind f = CONFIG_INT \<or> f_kind f = CONFIG_UINT \<and> 0 \<le> p_minimum p)
      | _ \<Rightarrow>
          if p_section p = ''support_proxy'' then
            f_kind f = CONFIG_STRING \<and> f_minimum f \<le> p_minimum p \<and> p_maximum p < int (f_size f)
          else f_kind f = CONFIG_TIMEZONE \<and> 1 \<le> p_minimum p \<and> p_maximum p < 128 \<and> f_size f = 128)"

lemma rows_ok: "list_all (\<lambda>t. list_all row_ok (replacement_parameters t)) web_targets"
  by code_simp

lemma rows_distinct:
  "list_all (\<lambda>t. distinct (map (\<lambda>p. (p_section p, p_key p)) (replacement_parameters t))) web_targets"
  by code_simp

lemma row_selectors [simp]:
  "p_section (enum_row n s k os) = s" "p_key (enum_row n s k os) = k" "form_name (enum_row n s k os) = n"
  "p_section (range_row n s k knd lo hi) = s" "p_key (range_row n s k knd lo hi) = k" "form_name (range_row n s k knd lo hi) = n"
  by (simp_all add: enum_row_def range_row_def)

lemma config_row_selectors:
  "f_section (config_row s k knd m sz os lo hi n) = s" "f_key (config_row s k knd m sz os lo hi n) = k"
  by (simp_all add: config_row_def)

definition has_field :: "apcam_target \<Rightarrow> parameter \<Rightarrow> bool" where
  "has_field t p \<longleftrightarrow> (\<exists>f\<in>set (config_fields t). f_section f = p_section p \<and> f_key f = p_key p \<and> row_agrees p f)"

lemma resolution_rows: "v \<in> set (web_resolution_options m) \<Longrightarrow> option_named (resolution_options m) v \<noteq> None"
  by (auto simp: web_resolution_options_def resolution_options_def option_named_def split: if_splits)

lemma component_rows:
  "strtoul ''100'' = Some (100, [], False)" "strtoul ''101'' = Some (101, [], False)" "strtoul ''102'' = Some (102, [], False)"
  "strtoul ''103'' = Some (103, [], False)" "strtoul ''104'' = Some (104, [], False)" "strtoul ''105'' = Some (105, [], False)"
  by (simp_all add: strtoul_def number_prefix_def isspace_def isdigit_def code_def digits_value_def)

lemma rows_have_fields:
  "list_all (\<lambda>p. parameter_shown t p \<longrightarrow> has_field (app_target t) p) (replacement_parameters t)"
  unfolding has_field_def config_fields_def replacement_parameters_def
  apply (simp only: list.pred_inject row_selectors list.set bex_simps config_row_selectors)
  apply simp
  apply (intro conjI impI)
  using resolution_rows
  apply (simp_all add: component_rows list_all_iff row_agrees_def enum_row_def range_row_def config_row_def parse_field_def option_named_def
      photo_scope_options_def orientation_options_def uart_protocol_options_def palette_options_def autorecord_options_def
      tracking_options_def main_resolution_options_def sub_resolution_options_def recording_resolution_options_def
      iso_options_def shutter_options_def metering_options_def wb_options_def codec_options_def
      web_uart_protocol_options_def web_boolean_options_def web_palette_options_def web_codec_options_def
      web_iso_options_def web_shutter_options_def parameter_shown_def)
  done

subsection \<open>A value that passes the web server's check\<close>

lemma unspaced_ok: "list_all (\<lambda>c. \<not> isspace c) s \<Longrightarrow> trim s = s \<and> NL \<notin> set s"
proof (cases "s = []")
  case False
  assume h: "list_all (\<lambda>c. \<not> isspace c) s"
  with False have "trim s = s" by (intro trim_self) (simp_all add: list_all_iff)
  moreover have "isspace NL" by (simp add: isspace_def code_def)
  ultimately show ?thesis using h by (auto simp: list_all_iff)
qed (simp add: trim_def rstrip_def)

lemma dec_int_unspaced: "list_all (\<lambda>c. \<not> isspace c) (dec_int i)"
proof -
  have "list_all (\<lambda>c. \<not> isspace c) (dec_nat n)" for n
    using dec_nat_digits(1) [of n] isdigit_not by (auto simp: list_all_iff)
  moreover have "\<not> isspace (CHR ''-'')" by (simp add: isspace_def code_def)
  ultimately show ?thesis by (simp add: dec_int_def)
qed

lemma parse_long_strict_Some:
  "parse_long_strict s lo hi = Some i \<longleftrightarrow> strtol s = Some (i, [], False) \<and> lo \<le> i \<and> i \<le> hi"
  by (auto simp: parse_long_strict_def split: option.splits)

lemma text_ok:
  assumes "valid_text_parameter p v"
  shows "NL \<notin> set v \<and> (p_section p = ''support_proxy'' \<or> trim v = v)"
proof (cases "p_section p = ''support_proxy''")
  case True
  with assms have "\<forall>c\<in>set v. 32 \<le> code c" by (auto simp: valid_text_parameter_def list_all_iff split: if_splits)
  moreover have "\<not> 32 \<le> code NL" by (simp add: code_def)
  ultimately show ?thesis using True by blast
next
  case False
  with assms have "list_all (\<lambda>c. \<not> isspace c) v" by (simp add: valid_text_parameter_def list_all_iff split: if_splits)
  from unspaced_ok [OF this] show ?thesis by simp
qed

lemma normalized_ok:
  assumes "row_ok p" and "normalized_value float_ok p v = Some n"
  shows "ini_value_ok (update_of p n)" and "name_ok (update_of p n)"
proof -
  show "name_ok (update_of p n)" using assms(1) by (auto simp: row_ok_def name_ok_def update_of_def)
  have "NL \<notin> set n \<and> (p_section p = ''support_proxy'' \<or> trim n = n)"
  proof (cases "p_kind p")
    case PARAM_INTEGER
    with assms(2) obtain i where "n = dec_int i" by (auto simp: normalized_value_def split: if_splits)
    with unspaced_ok [OF dec_int_unspaced, of i] show ?thesis by simp
  next
    case PARAM_ENUM
    with assms have "n \<in> set (p_options p)" by (auto simp: normalized_value_def option_contains_def split: if_splits)
    with assms(1) PARAM_ENUM show ?thesis by (auto simp: row_ok_def list_all_iff)
  next
    case PARAM_TEXT
    with assms(2) text_ok [of p v] show ?thesis by (auto simp: normalized_value_def split: if_splits)
  next
    case PARAM_PASSWORD
    with assms(2) text_ok [of p v] show ?thesis by (auto simp: normalized_value_def split: if_splits)
  qed (use assms(1) in \<open>simp_all add: row_ok_def\<close>)
  then show "ini_value_ok (update_of p n)" by (simp add: ini_value_ok_def update_of_def)
qed

lemma address_agrees:
  assumes "length v \<le> 31"
    and "case split_at (CHR ''/'') v of None \<Rightarrow> False
      | Some (address, prefix) \<Rightarrow> parse_long_strict prefix 1 32 \<noteq> None \<and> inet_pton4 address"
  shows "valid_network_address v"
proof -
  from assms(2) obtain address prefix i where "split_at (CHR ''/'') v = Some (address, prefix)"
    "parse_long_strict prefix 1 32 = Some i" "inet_pton4 address"
    by (auto split: option.splits)
  with assms(1) show ?thesis by (simp add: valid_network_address_def parse_long_strict_Some)
qed

lemma text_agrees:
  assumes "row_agrees p f" and "f_section f = p_section p" and "f_key f = p_key p"
    and "p_kind p = PARAM_TEXT \<or> p_kind p = PARAM_PASSWORD" and "valid_text_parameter p v"
  shows "parse_field f v \<noteq> None"
proof (cases "p_section p = ''support_proxy''")
  case True
  with assms have f: "f_kind f = CONFIG_STRING" "f_minimum f \<le> p_minimum p" "p_maximum p < int (f_size f)"
    by (auto simp: row_agrees_def)
  from assms(5) True have v: "p_minimum p \<le> int (length v)" "int (length v) \<le> p_maximum p"
    "list_all (\<lambda>c. 32 \<le> code c \<and> code c \<le> 126 \<and> c \<noteq> QUOTE) v"
    "p_key p = ''host'' \<or> p_key p = ''network_interface'' \<longrightarrow>
       list_all (\<lambda>c. isalnum c \<or> c = CHR ''.'' \<or> c = CHR ''-'' \<or> c = CHR ''_'') v"
    "v \<noteq> [] \<and> p_key p = ''network_gateway'' \<longrightarrow> inet_pton4 v"
    by (auto simp: valid_text_parameter_def list_all_iff split: if_splits)
  have "v \<noteq> [] \<and> p_key p = ''network_address'' \<longrightarrow> valid_network_address v"
  proof
    assume h: "v \<noteq> [] \<and> p_key p = ''network_address''"
    with assms(5) True have "length v \<le> 31" "case split_at (CHR ''/'') v of None \<Rightarrow> False
      | Some (address, prefix) \<Rightarrow> parse_long_strict prefix 1 32 \<noteq> None \<and> inet_pton4 address"
      by (auto simp: valid_text_parameter_def split: if_splits)
    then show "valid_network_address v" by (rule address_agrees)
  qed
  with v f assms(3) have "valid_config_string f v" by (simp add: valid_config_string_def)
  with f show ?thesis by (simp add: parse_field_def)
next
  case False
  with assms have f: "f_kind f = CONFIG_TIMEZONE" "1 \<le> p_minimum p" "p_maximum p < 128" "f_size f = 128"
    by (auto simp: row_agrees_def)
  from assms(5) False have "p_minimum p \<le> int (length v)" "int (length v) \<le> p_maximum p"
    "list_all (\<lambda>c. \<not> iscntrl c \<and> \<not> isspace c) v"
    by (auto simp: valid_text_parameter_def split: if_splits)
  with f show ?thesis by (auto simp: parse_field_def valid_timezone_def CA_CONFIG_TIMEZONE_MAX_def)
qed

lemma agrees_parse:
  assumes "row_agrees p f" and "f_section f = p_section p" and "f_key f = p_key p" and "row_ok p"
    and "normalized_value float_ok p v = Some n"
  shows "parse_field f n \<noteq> None"
proof (cases "p_kind p")
  case PARAM_INTEGER
  with assms(5) obtain i where n: "n = dec_int i" "p_minimum p \<le> i" "i \<le> p_maximum p"
    by (auto simp: normalized_value_def parse_long_strict_Some split: if_splits)
  from PARAM_INTEGER assms(1,4) n have "\<bar>i\<bar> < 2 ^ 62" "f_size f = 4" "f_minimum f \<le> i" "i \<le> f_maximum f"
    "f_kind f = CONFIG_INT \<or> f_kind f = CONFIG_UINT \<and> 0 \<le> i"
    by (auto simp: row_agrees_def row_ok_def)
  then show ?thesis using n(1) strtol_dec [of i] strtoul_dec [of i] by (auto simp: parse_field_def)
next
  case PARAM_ENUM
  with assms(5) have "n \<in> set (p_options p)" by (auto simp: normalized_value_def option_contains_def split: if_splits)
  with assms(1) PARAM_ENUM show ?thesis by (simp add: row_agrees_def list_all_iff)
next
  case PARAM_TEXT
  with assms(5) have "valid_text_parameter p v" "n = v" by (auto simp: normalized_value_def split: if_splits)
  with text_agrees [OF assms(1-3)] PARAM_TEXT show ?thesis by blast
next
  case PARAM_PASSWORD
  with assms(5) have "valid_text_parameter p v" "n = v" by (auto simp: normalized_value_def split: if_splits)
  with text_agrees [OF assms(1-3)] PARAM_PASSWORD show ?thesis by blast
qed (use assms(4) in \<open>simp_all add: row_ok_def\<close>)

subsection \<open>The updates of a form\<close>

lemma collect_rows:
  "collect_described_parameters float_ok t r ps capacity us = Inr us' \<Longrightarrow>
   \<exists>ns. us' = us @ map2 update_of (filter (parameter_shown t) ps) ns \<and>
     list_all2 (\<lambda>p n. length n < 160 \<and> (\<exists>v. form_value r (form_name p) = Some v \<and> normalized_value float_ok p v = Some n))
       (filter (parameter_shown t) ps) ns"
proof (induction ps arbitrary: us)
  case (Cons p ps)
  show ?case
  proof (cases "parameter_shown t p")
    case True
    with Cons.prems obtain v n where v: "form_value r (form_name p) = Some v" "normalized_value float_ok p v = Some n"
      "length n < 160" "collect_described_parameters float_ok t r ps capacity (us @ [update_of p n]) = Inr us'"
      by (auto simp: append_update_def update_of_def split: option.splits sum.splits if_splits)
    from Cons.IH [OF v(4)] obtain ns where
      "us' = (us @ [update_of p n]) @ map2 update_of (filter (parameter_shown t) ps) ns"
      "list_all2 (\<lambda>p n. length n < 160 \<and> (\<exists>v. form_value r (form_name p) = Some v \<and> normalized_value float_ok p v = Some n))
        (filter (parameter_shown t) ps) ns" by blast
    with v True show ?thesis by (intro exI [of _ "n # ns"]) simp
  next
    case False
    with Cons show ?thesis by simp
  qed
qed simp

lemma update_keys: "row_ok p \<Longrightarrow> upd_section (update_of p n) = p_section p \<and> upd_key (update_of p n) = p_key p"
  by (simp add: update_of_def row_ok_def)

lemma map2_keys:
  "list_all2 P ps ns \<Longrightarrow> \<forall>p\<in>set ps. row_ok p \<Longrightarrow>
   map (\<lambda>u. (upd_section u, upd_key u)) (map2 update_of ps ns) = map (\<lambda>p. (p_section p, p_key p)) ps"
  by (induction rule: list_all2_induct) (simp_all add: update_keys)

lemma list_all2_update: "list_all2 P ps ns \<Longrightarrow> p \<in> set ps \<Longrightarrow> \<exists>n. P p n \<and> update_of p n \<in> set (map2 update_of ps ns)"
  by (induction rule: list_all2_induct) auto

lemma list_all2_updates:
  "list_all2 P ps ns \<Longrightarrow> u \<in> set (map2 update_of ps ns) \<Longrightarrow> \<exists>p\<in>set ps. \<exists>n. P p n \<and> u = update_of p n"
  by (induction rule: list_all2_induct) auto

lemma table_facts_web:
  assumes "t \<in> set web_targets"
  shows "\<forall>p\<in>set (replacement_parameters t). row_ok p"
    and "distinct (map (\<lambda>p. (p_section p, p_key p)) (replacement_parameters t))"
  using assms rows_ok rows_distinct by (auto simp: list_all_iff)

subsection \<open>Properties\<close>

text \<open>C1: what a user saves is what the camera gets: when a form is accepted and the file updated,
  every parameter that the camera has was in the form with a valid value, the file now holds its
  normal form under its section and key, the camera application has a field of that name and its
  parser accepts the text; and keys that are not parameters of the form keep their values.\<close>

theorem web_parameters_saved:
  assumes "t \<in> set web_targets" and "collect_replacement_parameter_updates float_ok t r 80 = Inr us"
    and "ini_apply_updates config us add_missing = Inr out"
  shows "(\<forall>p\<in>set (replacement_parameters t). parameter_shown t p \<longrightarrow>
      (\<exists>v n f. form_value r (form_name p) = Some v \<and> normalized_value float_ok p v = Some n
        \<and> ini_get_value out (p_section p) (p_key p) 160 = Some n
        \<and> f \<in> set (config_fields (app_target t)) \<and> f_section f = p_section p \<and> f_key f = p_key p
        \<and> parse_field f n \<noteq> None))
    \<and> (\<forall>s k m. (s, k) \<notin> set (map (\<lambda>p. (p_section p, p_key p)) (replacement_parameters t)) \<longrightarrow>
        ini_get_value out s k m = ini_get_value config s k m)"
proof -
  let ?rows = "filter (parameter_shown t) (replacement_parameters t)"
  let ?P = "\<lambda>p n. length n < 160 \<and> (\<exists>v. form_value r (form_name p) = Some v \<and> normalized_value float_ok p v = Some n)"
  note table = table_facts_web [OF assms(1)]
  from assms(2) have "collect_described_parameters float_ok t r (replacement_parameters t) 80 [] = Inr us"
    by (auto simp: collect_replacement_parameter_updates_def split: sum.splits option.splits)
  from collect_rows [OF this] obtain ns where us: "us = map2 update_of ?rows ns" and ns: "list_all2 ?P ?rows ns" by auto
  have keys: "map (\<lambda>u. (upd_section u, upd_key u)) us = map (\<lambda>p. (p_section p, p_key p)) ?rows"
    unfolding us using table(1) by (intro map2_keys [OF ns]) simp
  have ok: "\<forall>u\<in>set us. ini_value_ok u \<and> name_ok u"
    using list_all2_updates [OF ns] normalized_ok table(1) unfolding us by fastforce
  have "distinct (map (\<lambda>u. (upd_section u, upd_key u)) us)"
    unfolding keys by (rule distinct_map_filter [OF table(2)])
  note lens = ini_update_lens [OF assms(3) ok this]
  have "\<exists>v n f. form_value r (form_name p) = Some v \<and> normalized_value float_ok p v = Some n
        \<and> ini_get_value out (p_section p) (p_key p) 160 = Some n
        \<and> f \<in> set (config_fields (app_target t)) \<and> f_section f = p_section p \<and> f_key f = p_key p
        \<and> parse_field f n \<noteq> None"
    if p: "p \<in> set (replacement_parameters t)" "parameter_shown t p" for p
  proof -
    from p have "p \<in> set ?rows" by simp
    from list_all2_update [OF ns this] obtain n where "?P p n" and u: "update_of p n \<in> set us" unfolding us by blast
    then obtain v where n: "length n < 160" "form_value r (form_name p) = Some v" "normalized_value float_ok p v = Some n"
      by blast
    from table(1) p have row: "row_ok p" by blast
    have "upd_value (update_of p n) = n" by (simp add: update_of_def)
    with lens u n(1) update_keys [OF row, of n] have "ini_get_value out (p_section p) (p_key p) 160 = Some n"
      by (metis not_le)
    moreover from rows_have_fields [of t] p obtain f where "f \<in> set (config_fields (app_target t))"
      "f_section f = p_section p" "f_key f = p_key p" "row_agrees p f"
      by (auto simp: list_all_iff has_field_def)
    ultimately show ?thesis using n agrees_parse row by blast
  qed
  moreover have "ini_get_value out s k m = ini_get_value config s k m"
    if "(s, k) \<notin> set (map (\<lambda>p. (p_section p, p_key p)) (replacement_parameters t))" for s k m
  proof -
    from that have "(s, k) \<notin> set (map (\<lambda>u. (upd_section u, upd_key u)) us)" unfolding keys by auto
    with lens show ?thesis by blast
  qed
  ultimately show ?thesis by blast
qed

subsection \<open>Witness\<close>

text \<open>A form of a camera without image controls, UART and thermal lens, as a browser sends it.\<close>

definition example_fields :: "(string \<times> string) list" where
  "example_fields =
    [(''timezone'', ''UTC0''), (''orientation'', ''auto''), (''mavlink_system_id'', ''1''),
     (''mavlink_camera_component_id'', ''100''), (''mavlink_tcp_port'', ''0''), (''mavlink_udp_port'', ''0''),
     (''position_targeting'', ''true''), (''log_disarmed'', ''false''), (''tracking_method'', ''rate''),
     (''autorecord'', ''while_armed''), (''recording_resolution'', ''1920x1080''),
     (''main_resolution'', ''1920x1080''), (''main_codec'', ''h264''), (''sub_resolution'', ''1920x1080''),
     (''sub_codec'', ''h264''), (''proxy_enabled'', ''false''), (''proxy_host'', []),
     (''proxy_mavlink_port'', '' +7''), (''proxy_signing'', ''false''), (''proxy_signing_passphrase'', '' x ''),
     (''proxy_signing_link_id'', ''1''), (''proxy_video1_port'', ''0''), (''proxy_video1_name'', []),
     (''proxy_video2_port'', ''0''), (''proxy_video2_name'', []), (''proxy_publish_password'', []),
     (''proxy_network_interface'', ''eth0''), (''proxy_network_address'', []), (''proxy_network_gateway'', [])]"

definition example_target :: web_target where
  "example_target = \<lparr>app_target = target_z1mini, have_image_controls = False, have_thermal = False\<rparr>"

definition example_request :: request where
  "example_request = \<lparr>req_method = ''POST'', req_path = ''/parameters'', req_query = [], headers = [],
     body = form_encode example_fields, content_length = 0, streaming_body = False\<rparr>"

definition set_key :: "string \<Rightarrow> string \<Rightarrow> string \<Rightarrow> ini_update" where
  "set_key section key v = \<lparr>upd_section = section, upd_key = key, upd_value = v, upd_found = False\<rparr>"

definition example_updates :: "ini_update list" where
  "example_updates =
    [set_key ''general'' ''timezone'' ''UTC0'', set_key ''mount'' ''orientation'' ''auto'',
     set_key ''mavlink'' ''system_id'' ''1'', set_key ''mavlink'' ''camera_component_id'' ''100'',
     set_key ''mavlink'' ''tcp_port'' ''0'', set_key ''mavlink'' ''udp_port'' ''0'',
     set_key ''mavlink'' ''position_targeting'' ''true'', set_key ''logging'' ''disarmed'' ''false'',
     set_key ''mavlink'' ''tracking_method'' ''rate'', set_key ''recording'' ''autorecord'' ''while_armed'',
     set_key ''recording'' ''resolution'' ''1920x1080'', set_key ''stream.main'' ''resolution'' ''1920x1080'',
     set_key ''stream.main'' ''codec'' ''h264'', set_key ''stream.sub'' ''resolution'' ''1920x1080'',
     set_key ''stream.sub'' ''codec'' ''h264'', set_key ''support_proxy'' ''enabled'' ''false'',
     set_key ''support_proxy'' ''host'' [], set_key ''support_proxy'' ''mavlink_port'' ''7'',
     set_key ''support_proxy'' ''signing'' ''false'', set_key ''support_proxy'' ''signing_passphrase'' '' x '',
     set_key ''support_proxy'' ''signing_link_id'' ''1'', set_key ''support_proxy'' ''video1_port'' ''0'',
     set_key ''support_proxy'' ''video1_name'' [], set_key ''support_proxy'' ''video2_port'' ''0'',
     set_key ''support_proxy'' ''video2_name'' [], set_key ''support_proxy'' ''publish_password'' [],
     set_key ''support_proxy'' ''network_interface'' ''eth0'', set_key ''support_proxy'' ''network_address'' [],
     set_key ''support_proxy'' ''network_gateway'' []]"

lemma example_form: "form_value example_request key = map_of example_fields key"
proof -
  have "\<forall>(k, v)\<in>set example_fields. plain_key k \<and> NUL \<notin> set v"
    by (simp add: example_fields_def plain_key_def)
  from encoded_value_form [OF this] show ?thesis by (simp add: form_value_def example_request_def)
qed

lemma append_step:
  "length us < capacity \<Longrightarrow> length v < 160 \<Longrightarrow> length key \<le> 47 \<Longrightarrow>
   append_update us capacity section key v = Inr (us @ [set_key section key v])"
  by (simp add: append_update_def set_key_def)

lemma form_digits: "digit 0 = CHR ''0''" "digit (Suc 0) = CHR ''1''" "digit 7 = CHR ''7''" "bit (Suc 0) 0"
  by code_simp+

lemma example_collected:
  "collect_described_parameters float_ok example_target example_request (replacement_parameters example_target) 80 []
   = Inr example_updates"
  by (simp add: replacement_parameters_def parameter_shown_def example_target_def target_z1mini_def example_form
      example_fields_def normalized_value_def option_contains_def web_boolean_options_def web_resolution_options_def
      web_codec_options_def append_step enum_row_def range_row_def parse_long_strict_def strtol_def number_prefix_def
      isspace_def isdigit_def isalnum_def isupper_def islower_def iscntrl_def code_def digits_value_def dec_int_def dec_nat.simps
      form_digits valid_text_parameter_def example_updates_def)

lemma example_applied: "\<exists>out. ini_apply_updates [] example_updates True = Inr out"
  by (simp add: ini_apply_updates_def apply_loop_Nil example_updates_def set_key_def append_missing.simps entry_line_def
      MAX_CONFIG_def)

theorem web_parameters_saved_witness:
  "\<exists>out. ini_apply_updates [] example_updates True = Inr out
     \<and> (\<exists>n. ini_get_value out ''support_proxy'' ''mavlink_port'' 160 = Some n)"
proof -
  from example_applied obtain out where out: "ini_apply_updates [] example_updates True = Inr out" by blast
  have t: "example_target \<in> set web_targets" by (simp add: example_target_def web_targets_def)
  have "support_invalid example_updates = None"
    by (simp add: support_invalid_def support_value_def example_updates_def set_key_def)
  then have c: "collect_replacement_parameter_updates (\<lambda>_ _. False) example_target example_request 80 = Inr example_updates"
    by (simp add: collect_replacement_parameter_updates_def example_collected)
  have p: "range_row ''proxy_mavlink_port'' ''support_proxy'' ''mavlink_port'' PARAM_INTEGER 0 65535
      \<in> set (replacement_parameters example_target)" by (simp add: replacement_parameters_def)
  have "parameter_shown example_target (range_row ''proxy_mavlink_port'' ''support_proxy'' ''mavlink_port'' PARAM_INTEGER 0 65535)"
    by (simp add: parameter_shown_def)
  with web_parameters_saved [OF t c out] p out show ?thesis by fastforce
qed

end
