(* ===== verification/Mavlink_Command.thy ===== *)
theory Mavlink_Command
  imports Config_Params
begin

text \<open>
  The MAVLink commands of the camera and the gimbal, \<^verbatim>\<open>camera_app/src/protocol/mavlink_server.c\<close>:
  which command is for whom, what it does, the one acknowledgement it gets, and the capture of a
  series of photos that a command starts and the periodic work continues. Messages are decoded: the
  MAVLink library is not part of the source. The answers of the media layer and of the camera
  backend, the clock and the current zoom are parameters, the calls and the messages sent are
  recorded in order. Every float operation is rounded by the parameter \<^term>\<open>fl\<close>. A conversion of a
  float that does not fit the integer type is undefined in C; it makes the result None.
\<close>

subsection \<open>Floats\<close>

fun f_less :: "c_float \<Rightarrow> c_float \<Rightarrow> bool" where
  "f_less (FFin a) (FFin b) = (a < b)"
| "f_less (FFin a) (FInf s) = (\<not> s)"
| "f_less (FInf s) (FFin b) = s"
| "f_less (FInf s) (FInf t) = (s \<and> \<not> t)"
| "f_less _ _ = False"

fun f_add :: "(rat \<Rightarrow> c_float) \<Rightarrow> c_float \<Rightarrow> c_float \<Rightarrow> c_float" where
  "f_add fl (FFin a) (FFin b) = fl (a + b)"
| "f_add fl (FFin a) (FInf s) = FInf s"
| "f_add fl (FInf s) (FFin b) = FInf s"
| "f_add fl (FInf s) (FInf t) = (if s = t then FInf s else FNaN)"
| "f_add fl _ _ = FNaN"

fun f_mul :: "(rat \<Rightarrow> c_float) \<Rightarrow> c_float \<Rightarrow> c_float \<Rightarrow> c_float" where
  "f_mul fl (FFin a) (FFin b) = fl (a * b)"
| "f_mul fl (FFin a) (FInf s) = (if a = 0 then FNaN else FInf (s \<noteq> (a < 0)))"
| "f_mul fl (FInf s) (FFin b) = (if b = 0 then FNaN else FInf (s \<noteq> (b < 0)))"
| "f_mul fl (FInf s) (FInf t) = FInf (s \<noteq> t)"
| "f_mul fl _ _ = FNaN"

fun is_finite :: "c_float \<Rightarrow> bool" where
  "is_finite (FFin r) = True"
| "is_finite _ = False"

text \<open>Truncation toward zero, and the conversions to \<^verbatim>\<open>unsigned\<close>, \<^verbatim>\<open>int32_t\<close> and \<^verbatim>\<open>uint64_t\<close>.\<close>

definition f_trunc :: "rat \<Rightarrow> int" where
  "f_trunc r = (if r < 0 then \<lceil>r\<rceil> else \<lfloor>r\<rfloor>)"

fun to_range :: "int \<Rightarrow> int \<Rightarrow> c_float \<Rightarrow> int option" where
  "to_range lo hi (FFin r) = (if lo \<le> f_trunc r \<and> f_trunc r \<le> hi then Some (f_trunc r) else None)"
| "to_range lo hi _ = None"

definition to_uint :: "c_float \<Rightarrow> int option" where "to_uint = to_range 0 (2 ^ 32 - 1)"
definition to_int :: "c_float \<Rightarrow> int option" where "to_int = to_range (- (2 ^ 31)) (2 ^ 31 - 1)"
definition to_ulong :: "c_float \<Rightarrow> int option" where "to_ulong = to_range 0 (2 ^ 64 - 1)"

text \<open>The literals \<^verbatim>\<open>0.1f\<close> and \<^verbatim>\<open>0.01f\<close>.\<close>

definition tenth :: rat where "tenth = 13421773 / 134217728"
definition hundredth :: rat where "hundredth = 5368709 / 536870912"

subsection \<open>State, calls and messages\<close>

datatype mav_result = ACCEPTED | TEMPORARILY_REJECTED | DENIED | UNSUPPORTED | FAILED

datatype mav_cmd = REQUEST_MESSAGE | REQUEST_AUTOPILOT_CAPABILITIES | REQUEST_CAMERA_INFORMATION
  | REQUEST_CAMERA_SETTINGS | REQUEST_STORAGE_INFORMATION | REQUEST_CAMERA_CAPTURE_STATUS
  | REQUEST_VIDEO_STREAM_INFORMATION | REQUEST_VIDEO_STREAM_STATUS | SET_CAMERA_MODE | SET_CAMERA_ZOOM
  | SET_CAMERA_FOCUS | SET_CAMERA_SOURCE | IMAGE_START_CAPTURE | IMAGE_STOP_CAPTURE | VIDEO_START_CAPTURE
  | VIDEO_STOP_CAPTURE | VIDEO_START_STREAMING | VIDEO_STOP_STREAMING | DO_SET_ROI_LOCATION
  | DO_SET_ROI_NONE | OTHER_COMMAND nat

text \<open>The message numbers of the common message set that are requested by number.\<close>

definition MSG_AUTOPILOT_VERSION :: int where "MSG_AUTOPILOT_VERSION = 148"
definition MSG_CAMERA_INFORMATION :: int where "MSG_CAMERA_INFORMATION = 259"
definition MSG_CAMERA_SETTINGS :: int where "MSG_CAMERA_SETTINGS = 260"
definition MSG_STORAGE_INFORMATION :: int where "MSG_STORAGE_INFORMATION = 261"
definition MSG_CAMERA_CAPTURE_STATUS :: int where "MSG_CAMERA_CAPTURE_STATUS = 262"
definition MSG_VIDEO_STREAM_INFORMATION :: int where "MSG_VIDEO_STREAM_INFORMATION = 269"
definition MSG_VIDEO_STREAM_STATUS :: int where "MSG_VIDEO_STREAM_STATUS = 270"
definition MSG_GIMBAL_DEVICE_INFORMATION :: int where "MSG_GIMBAL_DEVICE_INFORMATION = 283"
definition MSG_GIMBAL_DEVICE_ATTITUDE_STATUS :: int where "MSG_GIMBAL_DEVICE_ATTITUDE_STATUS = 285"

datatype media_call = Capture_photo | Set_zoom c_float | Set_zoom_rate c_float | Autofocus_at nat nat
  | Manual_focus int | Focus_percent c_float | Thermal_main bool | Set_recording bool | Set_rates rat rat

text \<open>The messages, with the fields that depend on the state modelled here.\<close>

datatype mav_message =
    Ack (ack_component: u8) (ack_command: mav_cmd) (ack_result: mav_result) (ack_system: u8) (ack_peer: u8)
  | Protocol_version | Camera_information | Camera_settings u8 | Storage_information
  | Capture_status c_float bool u32 | Stream_information nat | Stream_status nat bool
  | Image_captured int bool | Gimbal_information | Gimbal_status

datatype 'r mav_event = Send 'r mav_message | Broadcast mav_message | Call media_call

record mav_target =
  t_have_zoom :: bool
  t_zoom_native_rate :: bool
  t_have_focus :: bool
  t_have_photo :: bool
  t_zoom_max :: rat
  t_num_streams :: nat

definition mav_mt11 :: mav_target where
  "mav_mt11 = \<lparr>t_have_zoom = True, t_zoom_native_rate = False, t_have_focus = True, t_have_photo = True,
     t_zoom_max = 10, t_num_streams = 2\<rparr>"

record mav_server =
  system_id :: u8
  camera_component_id :: u8
  camera_mode :: u8
  stream_enabled :: "bool list"
  zoom_rate :: c_float
  focus_percent :: c_float
  recording_started_ms :: nat
  next_capture_ms :: nat
  image_count :: u32
  next_image_index :: int
  captures_remaining :: int
  capture_interval_s :: c_float
  target_lat_e7 :: int
  target_lon_e7 :: int
  target_alt_amsl_m :: c_float
  target_location_active :: bool
  yaw_lock :: bool
  tracking_rate_active :: bool
  tracking :: "c_float list"
  last_target_location_ms :: nat
  position_targeting :: bool

text \<open>The surroundings of one call: the answers of the layers below (whether a call returns success),
  the clock, the current zoom, and whether the gimbal has reported an attitude.\<close>

record mav_env =
  call_ok :: "media_call \<Rightarrow> bool"
  now :: nat
  current_zoom :: c_float
  have_attitude :: bool

definition CA_GIMBAL_COMPONENT_ID :: u8 where "CA_GIMBAL_COMPONENT_ID = 154"

definition accepted_if :: "bool \<Rightarrow> mav_result" where
  "accepted_if ok = (if ok then ACCEPTED else FAILED)"

definition target_matches :: "mav_server \<Rightarrow> u8 \<Rightarrow> u8 \<Rightarrow> u8 \<Rightarrow> bool" where
  "target_matches s target_system target_component component \<longleftrightarrow>
     (target_system = 0 \<or> target_system = system_id s) \<and> (target_component = 0 \<or> target_component = component)"

subsection \<open>The camera\<close>

definition capture_status :: "mav_server \<Rightarrow> mav_message" where
  "capture_status s = Capture_status (capture_interval_s s) (captures_remaining s \<noteq> 0) (image_count s)"

definition capture_one :: "mav_env \<Rightarrow> int \<Rightarrow> mav_server \<Rightarrow> mav_result \<times> mav_server \<times> 'r mav_event list" where
  "capture_one e index s =
     (let ok = call_ok e Capture_photo; s1 = (if ok then s\<lparr>image_count := image_count s + 1\<rparr> else s)
      in (accepted_if ok, s1, [Call Capture_photo, Broadcast (Image_captured index ok), Broadcast (capture_status s1)]))"

definition set_zoom ::
  "(rat \<Rightarrow> c_float) \<Rightarrow> mav_target \<Rightarrow> mav_env \<Rightarrow> c_float \<Rightarrow> c_float \<Rightarrow> mav_server \<Rightarrow>
   mav_result \<times> mav_server \<times> 'r mav_event list" where
  "set_zoom fl t e ty v s =
     (if \<not> t_have_zoom t then (UNSUPPORTED, s, [])
      else case (ty, v) of
        (FFin z, FFin r) \<Rightarrow>
          if z < 0 \<or> 2 < z \<or> of_int \<lfloor>z\<rfloor> \<noteq> z then (UNSUPPORTED, s, [])
          else if z \<noteq> 2 \<and> (r < -1 \<or> 1 < r) then (DENIED, s, [])
          else if t_zoom_native_rate t \<and> z = 1 then
            (accepted_if (call_ok e (Set_zoom_rate v)), s, [Call (Set_zoom_rate v)])
          else if z = 2 then
            (if r < 0 \<or> 100 < r then (DENIED, s, [])
             else
               let c = Set_zoom (f_add fl (FFin 1) (f_mul fl v (fl ((t_zoom_max t - 1) / 100))))
               in (accepted_if (call_ok e c), s\<lparr>zoom_rate := FFin 0\<rparr>, [Call c]))
          else if z = 1 then (ACCEPTED, s\<lparr>zoom_rate := v\<rparr>, [])
          else if r = 0 then (ACCEPTED, s, [])
          else
            let z1 = f_add fl (current_zoom e) (FFin (if r < 0 then - tenth else tenth));
                z2 = (if f_less z1 (FFin 1) then FFin 1 else z1);
                z3 = (if f_less (FFin (t_zoom_max t)) z2 then FFin (t_zoom_max t) else z2)
            in (accepted_if (call_ok e (Set_zoom z3)), s, [Call (Set_zoom z3)])
      | _ \<Rightarrow> (DENIED, s, []))"

definition set_focus ::
  "mav_target \<Rightarrow> mav_env \<Rightarrow> c_float \<Rightarrow> c_float \<Rightarrow> mav_server \<Rightarrow>
   (mav_result \<times> mav_server \<times> 'r mav_event list) option" where
  "set_focus t e ty v s =
     (if \<not> t_have_focus t then Some (UNSUPPORTED, s, [])
      else case to_uint ty of
        None \<Rightarrow> None
      | Some focus_type \<Rightarrow>
          if focus_type = 4 \<or> focus_type = 5 \<or> focus_type = 6 then
            (let c = Autofocus_at 960 540
             in if call_ok e c then Some (ACCEPTED, s\<lparr>focus_percent := FNaN\<rparr>, [Call c]) else Some (FAILED, s, [Call c]))
          else if focus_type = 1 then
            (let direction = (if f_less (FFin hundredth) v then 1 else if f_less v (FFin (- hundredth)) then -1 else 0);
                 c = Manual_focus direction
             in if \<not> call_ok e c then Some (FAILED, s, [Call c])
                else Some (ACCEPTED, if direction \<noteq> 0 then s\<lparr>focus_percent := FNaN\<rparr> else s, [Call c]))
          else if focus_type = 2 then
            (if \<not> is_finite v \<or> f_less v (FFin 0) \<or> f_less (FFin 100) v then Some (DENIED, s, [])
             else if \<not> call_ok e (Focus_percent v) then Some (FAILED, s, [Call (Focus_percent v)])
             else Some (ACCEPTED, s\<lparr>focus_percent := v\<rparr>, [Call (Focus_percent v)]))
          else Some (UNSUPPORTED, s, []))"

definition stream_message :: "mav_server \<Rightarrow> bool \<Rightarrow> nat \<Rightarrow> mav_message" where
  "stream_message s info i =
     (if info then Stream_information i
      else Stream_status i (if i = 2 then stream_enabled s ! 1 else stream_enabled s ! 0))"

text \<open>None: there is no such stream.\<close>

definition send_stream_selection ::
  "mav_target \<Rightarrow> 'r \<Rightarrow> mav_server \<Rightarrow> bool \<Rightarrow> int \<Rightarrow> 'r mav_event list option" where
  "send_stream_selection t route s info stream_id =
     (if int (t_num_streams t) < stream_id then None
      else if stream_id = 0 then Some (map (\<lambda>i. Send route (stream_message s info i)) [1..<Suc (t_num_streams t)])
      else Some [Send route (stream_message s info (nat stream_id))])"

text \<open>A series of photos: None is an undefined conversion or addition.\<close>

definition image_start_capture ::
  "(rat \<Rightarrow> c_float) \<Rightarrow> mav_env \<Rightarrow> c_float \<Rightarrow> c_float \<Rightarrow> c_float \<Rightarrow> mav_server \<Rightarrow>
   (mav_result \<times> mav_server \<times> 'r mav_event list) option" where
  "image_start_capture fl e interval count_param index_param s =
     (case (if is_finite count_param then to_int count_param else Some 1) of
        None \<Rightarrow> None
      | Some count \<Rightarrow>
          (case (if is_finite index_param \<and> f_less (FFin 0) index_param then to_int index_param
                 else Some (next_image_index s)) of
             None \<Rightarrow> None
           | Some index \<Rightarrow>
               if count < 0 \<or> \<not> is_finite interval \<or> f_less interval (FFin 0) then Some (DENIED, s, [])
               else if index = 2 ^ 31 - 1 then None
               else
                 let s1 = s\<lparr>next_image_index := index + 1\<rparr>
                 in if count = 1 then
                      Some (capture_one e index (s1\<lparr>captures_remaining := 0, capture_interval_s := FFin 0\<rparr>))
                    else
                      let i = (if f_less interval (FFin tenth) then FFin tenth else interval)
                      in case to_ulong (f_mul fl i (FFin 1000)) of
                           None \<Rightarrow> None
                         | Some d \<Rightarrow>
                             Some (capture_one e index (s1\<lparr>capture_interval_s := i,
                               captures_remaining := (if count = 0 then -1 else count - 1),
                               next_capture_ms := (now e + nat d) mod 2 ^ 64\<rparr>))))"

record mav_request =
  r_len :: nat
  r_sysid :: u8
  r_compid :: u8
  r_target_system :: u8
  r_target_component :: u8
  r_command :: mav_cmd
  p0 :: c_float
  p1 :: c_float
  p2 :: c_float
  p3 :: c_float

definition video_streaming ::
  "mav_target \<Rightarrow> 'r \<Rightarrow> bool \<Rightarrow> c_float \<Rightarrow> mav_server \<Rightarrow> (mav_result \<times> mav_server \<times> 'r mav_event list) option" where
  "video_streaming t route enabled param s =
     (case to_uint param of
        None \<Rightarrow> None
      | Some stream \<Rightarrow>
          if int (t_num_streams t) < stream then Some (DENIED, s, [])
          else
            let s1 = (if stream = 0 then s\<lparr>stream_enabled := replicate (t_num_streams t) enabled\<rparr>
                      else s\<lparr>stream_enabled := (stream_enabled s)[nat stream - 1 := enabled]\<rparr>)
            in Some (ACCEPTED, s1, [Send route (stream_message s1 False (if stream = 0 then 1 else nat stream))]))"

definition handle_camera_command ::
  "(rat \<Rightarrow> c_float) \<Rightarrow> mav_target \<Rightarrow> mav_env \<Rightarrow> 'r \<Rightarrow> mav_request \<Rightarrow> mav_server \<Rightarrow>
   (mav_result \<times> mav_server \<times> 'r mav_event list) option" where
  "handle_camera_command fl t e route r s =
     (case r_command r of
        REQUEST_MESSAGE \<Rightarrow>
          (case to_uint (p0 r) of
             None \<Rightarrow> None
           | Some requested \<Rightarrow>
               (case (if is_finite (p1 r) then to_uint (p1 r) else Some 0) of
                  None \<Rightarrow> None
                | Some inst \<Rightarrow>
                    if requested = MSG_AUTOPILOT_VERSION then Some (ACCEPTED, s, [Send route Protocol_version])
                    else if requested = MSG_CAMERA_INFORMATION then Some (ACCEPTED, s, [Send route Camera_information])
                    else if requested = MSG_CAMERA_SETTINGS then
                      Some (ACCEPTED, s, [Send route (Camera_settings (camera_mode s))])
                    else if requested = MSG_STORAGE_INFORMATION then Some (ACCEPTED, s, [Send route Storage_information])
                    else if requested = MSG_CAMERA_CAPTURE_STATUS then
                      Some (ACCEPTED, s, [Send route (capture_status s)])
                    else if requested = MSG_VIDEO_STREAM_INFORMATION \<or> requested = MSG_VIDEO_STREAM_STATUS then
                      (case send_stream_selection t route s (requested = MSG_VIDEO_STREAM_INFORMATION) inst of
                         None \<Rightarrow> Some (UNSUPPORTED, s, [])
                       | Some ev \<Rightarrow> Some (ACCEPTED, s, ev))
                    else Some (UNSUPPORTED, s, [])))
      | REQUEST_AUTOPILOT_CAPABILITIES \<Rightarrow> Some (ACCEPTED, s, [Send route Protocol_version])
      | REQUEST_CAMERA_INFORMATION \<Rightarrow> Some (ACCEPTED, s, [Send route Camera_information])
      | REQUEST_CAMERA_SETTINGS \<Rightarrow> Some (ACCEPTED, s, [Send route (Camera_settings (camera_mode s))])
      | REQUEST_STORAGE_INFORMATION \<Rightarrow> Some (ACCEPTED, s, [Send route Storage_information])
      | REQUEST_CAMERA_CAPTURE_STATUS \<Rightarrow> Some (ACCEPTED, s, [Send route (capture_status s)])
      | REQUEST_VIDEO_STREAM_INFORMATION \<Rightarrow>
          (case to_uint (p0 r) of
             None \<Rightarrow> None
           | Some i \<Rightarrow>
               (case send_stream_selection t route s True i of
                  None \<Rightarrow> Some (DENIED, s, [])
                | Some ev \<Rightarrow> Some (ACCEPTED, s, ev)))
      | REQUEST_VIDEO_STREAM_STATUS \<Rightarrow>
          (case to_uint (p0 r) of
             None \<Rightarrow> None
           | Some i \<Rightarrow>
               (case send_stream_selection t route s False i of
                  None \<Rightarrow> Some (DENIED, s, [])
                | Some ev \<Rightarrow> Some (ACCEPTED, s, ev)))
      | SET_CAMERA_MODE \<Rightarrow>
          if (p1 r \<noteq> FFin 0 \<and> p1 r \<noteq> FFin 1) \<or> (\<not> t_have_photo t \<and> p1 r = FFin 0) then Some (UNSUPPORTED, s, [])
          else
            let m = (if p1 r = FFin 0 then 0 else 1) :: u8
            in Some (ACCEPTED, s\<lparr>camera_mode := m\<rparr>, [Send route (Camera_settings m)])
      | SET_CAMERA_ZOOM \<Rightarrow>
          (case set_zoom fl t e (p0 r) (p1 r) s of
             (result, s', ev) \<Rightarrow>
               Some (result, s', if result = ACCEPTED then ev @ [Send route (Camera_settings (camera_mode s'))] else ev))
      | SET_CAMERA_FOCUS \<Rightarrow> set_focus t e (p0 r) (p1 r) s
      | SET_CAMERA_SOURCE \<Rightarrow>
          (case to_uint (p1 r) of
             None \<Rightarrow> None
           | Some source \<Rightarrow>
               if source = 2 then Some (accepted_if (call_ok e (Thermal_main True)), s, [Call (Thermal_main True)])
               else if source = 0 \<or> source = 1 then
                 Some (accepted_if (call_ok e (Thermal_main False)), s, [Call (Thermal_main False)])
               else Some (UNSUPPORTED, s, []))
      | IMAGE_START_CAPTURE \<Rightarrow> image_start_capture fl e (p1 r) (p2 r) (p3 r) s
      | IMAGE_STOP_CAPTURE \<Rightarrow>
          let s1 = s\<lparr>captures_remaining := 0, capture_interval_s := FFin 0\<rparr>
          in Some (ACCEPTED, s1, [Broadcast (capture_status s1)])
      | VIDEO_START_CAPTURE \<Rightarrow>
          if \<not> call_ok e (Set_recording True) then Some (FAILED, s, [Call (Set_recording True)])
          else
            let s1 = (if recording_started_ms s = 0 then s\<lparr>recording_started_ms := now e\<rparr> else s)
            in Some (ACCEPTED, s1, [Call (Set_recording True), Broadcast (capture_status s1)])
      | VIDEO_STOP_CAPTURE \<Rightarrow>
          if \<not> call_ok e (Set_recording False) then Some (FAILED, s, [Call (Set_recording False)])
          else
            let s1 = s\<lparr>recording_started_ms := 0\<rparr>
            in Some (ACCEPTED, s1, [Call (Set_recording False), Broadcast (capture_status s1)])
      | VIDEO_START_STREAMING \<Rightarrow> video_streaming t route True (p0 r) s
      | VIDEO_STOP_STREAMING \<Rightarrow> video_streaming t route False (p0 r) s
      | _ \<Rightarrow> Some (UNSUPPORTED, s, []))"

subsection \<open>Requests\<close>

definition send_ack :: "'r \<Rightarrow> u8 \<Rightarrow> mav_result \<Rightarrow> mav_request \<Rightarrow> 'r mav_event" where
  "send_ack route component result r = Send route (Ack component (r_command r) result (r_sysid r) (r_compid r))"

text \<open>\<^verbatim>\<open>COMMAND_LONG\<close>: None is undefined behaviour.\<close>

definition camera_request ::
  "(rat \<Rightarrow> c_float) \<Rightarrow> mav_target \<Rightarrow> mav_env \<Rightarrow> 'r \<Rightarrow> mav_request \<Rightarrow> mav_server \<Rightarrow>
   (mav_server \<times> 'r mav_event list) option" where
  "camera_request fl t e route r s =
     (if \<not> target_matches s (r_target_system r) (r_target_component r) (camera_component_id s) then Some (s, [])
      else case handle_camera_command fl t e route r s of
        None \<Rightarrow> None
      | Some (result, s', ev) \<Rightarrow> Some (s', ev @ [send_ack route (camera_component_id s') result r]))"

definition handle_command_long ::
  "(rat \<Rightarrow> c_float) \<Rightarrow> mav_target \<Rightarrow> mav_env \<Rightarrow> 'r \<Rightarrow> mav_request \<Rightarrow> mav_server \<Rightarrow>
   (mav_server \<times> 'r mav_event list) option" where
  "handle_command_long fl t e route r s =
     (if r_len r < 32 then Some (s, [])
      else if target_matches s (r_target_system r) (r_target_component r) CA_GIMBAL_COMPONENT_ID then
        (case (if r_command r = REQUEST_MESSAGE then to_uint (p0 r) else Some 0) of
           None \<Rightarrow> None
         | Some requested \<Rightarrow>
             if requested = MSG_GIMBAL_DEVICE_INFORMATION then
               Some (s, [Send route Gimbal_information, send_ack route CA_GIMBAL_COMPONENT_ID ACCEPTED r])
             else if requested = MSG_GIMBAL_DEVICE_ATTITUDE_STATUS then
               Some (s, (if have_attitude e then [Send route Gimbal_status] else [])
                 @ [send_ack route CA_GIMBAL_COMPONENT_ID ACCEPTED r])
             else if r_target_component r = CA_GIMBAL_COMPONENT_ID then
               Some (s, [send_ack route CA_GIMBAL_COMPONENT_ID UNSUPPORTED r])
             else camera_request fl t e route r s)
      else camera_request fl t e route r s)"


text \<open>And the part that moves the zoom.\<close>

definition zoom_step ::
  "(rat \<Rightarrow> c_float) \<Rightarrow> mav_target \<Rightarrow> mav_env \<Rightarrow> c_float \<Rightarrow> mav_server \<Rightarrow> mav_server \<times> 'r mav_event list" where
  "zoom_step fl t e elapsed s =
     (if zoom_rate s \<noteq> FFin 0 \<and> f_less (FFin 0) elapsed then
        let z = f_add fl (current_zoom e) (f_mul fl (f_mul fl (zoom_rate s) (FFin 2)) elapsed);
            low = (\<not> f_less (FFin 1) z \<and> z \<noteq> FNaN);
            z1 = (if low then FFin 1 else z); s1 = (if low then s\<lparr>zoom_rate := FFin 0\<rparr> else s);
            high = (\<not> f_less z1 (FFin (t_zoom_max t)) \<and> z1 \<noteq> FNaN);
            z2 = (if high then FFin (t_zoom_max t) else z1); s2 = (if high then s1\<lparr>zoom_rate := FFin 0\<rparr> else s1)
        in (s2, [Call (Set_zoom z2)])
      else (s, []))"

subsection \<open>The target of the gimbal\<close>

definition stop_tracking_rate :: "mav_server \<Rightarrow> mav_server \<times> 'r mav_event list" where
  "stop_tracking_rate s =
     (s\<lparr>tracking_rate_active := False, tracking := replicate 6 (FFin 0)\<rparr>,
      if tracking_rate_active s then [Call (Set_rates 0 0)] else [])"

definition ca_mavlink_server_suspend_gimbal :: "mav_server \<Rightarrow> mav_server \<times> 'r mav_event list" where
  "ca_mavlink_server_suspend_gimbal s =
     (case stop_tracking_rate s of (s1, ev) \<Rightarrow> (s1\<lparr>last_target_location_ms := 0, yaw_lock := False\<rparr>, ev))"

definition clear_target_location :: "mav_server \<Rightarrow> mav_server \<times> 'r mav_event list" where
  "clear_target_location s = stop_tracking_rate (s\<lparr>target_location_active := False\<rparr>)"

datatype mav_frame = GLOBAL | GLOBAL_INT | OTHER_FRAME nat

record mav_request_int =
  i_len :: nat
  i_request :: mav_request
  i_frame :: mav_frame
  i_x :: int
  i_y :: int
  i_z :: c_float

definition location_ok :: "mav_request_int \<Rightarrow> bool" where
  "location_ok r \<longleftrightarrow> (i_frame r = GLOBAL \<or> i_frame r = GLOBAL_INT)
     \<and> -900000000 \<le> i_x r \<and> i_x r \<le> 900000000 \<and> -1800000000 \<le> i_y r \<and> i_y r \<le> 1800000000 \<and> is_finite (i_z r)"

definition handle_command_int ::
  "bool \<Rightarrow> 'r \<Rightarrow> mav_request_int \<Rightarrow> mav_server \<Rightarrow> mav_server \<times> 'r mav_event list" where
  "handle_command_int manual_control route r s =
     (let q = i_request r; c = r_command q; ack = (\<lambda>result. [send_ack route CA_GIMBAL_COMPONENT_ID result q])
      in if i_len r < 29 then (s, [])
         else if \<not> target_matches s (r_target_system q) (r_target_component q) CA_GIMBAL_COMPONENT_ID then (s, [])
         else if manual_control \<and> (c = DO_SET_ROI_LOCATION \<or> c = DO_SET_ROI_NONE) then (s, ack TEMPORARILY_REJECTED)
         else if c = DO_SET_ROI_LOCATION then
           (if \<not> position_targeting s then (s, ack UNSUPPORTED)
            else if \<not> location_ok r then (s, ack DENIED)
            else
              let changed = (\<not> target_location_active s \<or> target_lat_e7 s \<noteq> i_x r \<or> target_lon_e7 s \<noteq> i_y r
                    \<or> target_alt_amsl_m s \<noteq> i_z r);
                  s1 = s\<lparr>target_lat_e7 := i_x r, target_lon_e7 := i_y r, target_alt_amsl_m := i_z r,
                    target_location_active := True, yaw_lock := True\<rparr>
              in (if changed then s1\<lparr>last_target_location_ms := 0\<rparr> else s1, ack ACCEPTED))
         else if c = DO_SET_ROI_NONE then (case clear_target_location s of (s1, ev) \<Rightarrow> (s1, ev @ ack ACCEPTED))
         else (s, ack UNSUPPORTED))"

subsection \<open>One acknowledgement\<close>

text \<open>Whatever is sent before the acknowledgement goes to the same peer and is no acknowledgement.\<close>

definition answers_to :: "'r \<Rightarrow> 'r mav_event list \<Rightarrow> bool" where
  "answers_to route ev \<longleftrightarrow> list_all (\<lambda>x. case x of Send r m \<Rightarrow> r = route \<and> \<not> is_Ack m | Broadcast m \<Rightarrow> \<not> is_Ack m | _ \<Rightarrow> True) ev"

lemma answers_to_simps [simp]: "answers_to route []"
  "answers_to route (Send r m # ev) \<longleftrightarrow> r = route \<and> \<not> is_Ack m \<and> answers_to route ev"
  "answers_to route (Broadcast m # ev) \<longleftrightarrow> \<not> is_Ack m \<and> answers_to route ev"
  "answers_to route (Call c # ev) \<longleftrightarrow> answers_to route ev"
  "answers_to route (ev @ ev') \<longleftrightarrow> answers_to route ev \<and> answers_to route ev'"
  by (auto simp: answers_to_def)

lemma messages_no_ack [simp]: "\<not> is_Ack (capture_status s)" "\<not> is_Ack (stream_message s b i)"
  by (simp_all add: capture_status_def stream_message_def)

lemma stream_selection_answers: "send_stream_selection t route s info i = Some ev \<Longrightarrow> answers_to route ev"
  by (auto simp: send_stream_selection_def answers_to_def list_all_iff stream_message_def split: if_splits)

definition answer_ok :: "'r \<Rightarrow> mav_server \<Rightarrow> mav_result \<times> mav_server \<times> 'r mav_event list \<Rightarrow> bool" where
  "answer_ok route s x \<longleftrightarrow> (case x of (result, s', ev) \<Rightarrow>
     answers_to route ev \<and> camera_component_id s' = camera_component_id s \<and> system_id s' = system_id s
     \<and> result \<noteq> TEMPORARILY_REJECTED \<and> (result = DENIED \<or> result = UNSUPPORTED \<longrightarrow> s' = s \<and> ev = []))"

lemma accepted_if_cases [simp]: "accepted_if b \<noteq> DENIED" "accepted_if b \<noteq> UNSUPPORTED" "accepted_if b \<noteq> TEMPORARILY_REJECTED"
  by (simp_all add: accepted_if_def)

lemma capture_one_ok: "camera_component_id s1 = camera_component_id s \<Longrightarrow> system_id s1 = system_id s \<Longrightarrow>
    answer_ok route s (capture_one e i s1)"
  by (simp add: capture_one_def answer_ok_def Let_def)

lemma set_zoom_ok: "answer_ok route s (set_zoom fl t e ty v s)"
  by (cases ty; cases v) (simp_all add: set_zoom_def answer_ok_def Let_def)

lemma set_focus_ok: "set_focus t e ty v s = Some x \<Longrightarrow> answer_ok route s x"
  by (auto simp: set_focus_def answer_ok_def Let_def split: option.splits if_splits)

lemma image_start_ok: "image_start_capture fl e a b c s = Some x \<Longrightarrow> answer_ok route s x"
  by (auto simp: image_start_capture_def Let_def intro!: capture_one_ok split: option.splits if_splits) (simp_all add: answer_ok_def)

lemma video_streaming_ok: "video_streaming t route b p s = Some x \<Longrightarrow> answer_ok route s x"
  by (auto simp: video_streaming_def answer_ok_def Let_def split: option.splits if_splits)

lemma camera_command_ok:
  assumes "handle_camera_command fl t e route r s = Some x"
  shows "answer_ok route s x"
proof (cases "r_command r")
  case REQUEST_MESSAGE
  with assms show ?thesis
    by (auto simp: handle_camera_command_def answer_ok_def dest: stream_selection_answers split: option.splits if_splits)
next
  case SET_CAMERA_ZOOM
  with assms set_zoom_ok [of route s fl t e "p0 r" "p1 r"] show ?thesis
    by (auto simp: handle_camera_command_def answer_ok_def split: prod.splits if_splits)
next
  case SET_CAMERA_FOCUS
  with assms have "set_focus t e (p0 r) (p1 r) s = Some x" by (simp add: handle_camera_command_def)
  then show ?thesis by (rule set_focus_ok)
next
  case IMAGE_START_CAPTURE
  with assms have "image_start_capture fl e (p1 r) (p2 r) (p3 r) s = Some x" by (simp add: handle_camera_command_def)
  then show ?thesis by (rule image_start_ok)
next
  case VIDEO_START_STREAMING
  with assms have "video_streaming t route True (p0 r) s = Some x" by (simp add: handle_camera_command_def)
  then show ?thesis by (rule video_streaming_ok)
next
  case VIDEO_STOP_STREAMING
  with assms have "video_streaming t route False (p0 r) s = Some x" by (simp add: handle_camera_command_def)
  then show ?thesis by (rule video_streaming_ok)
qed (use assms in \<open>auto simp: handle_camera_command_def answer_ok_def Let_def dest: stream_selection_answers
    split: option.splits if_splits\<close>)

text \<open>Whom a \<^verbatim>\<open>COMMAND_LONG\<close> is for.\<close>

definition for_gimbal :: "mav_server \<Rightarrow> mav_request \<Rightarrow> bool" where
  "for_gimbal s r \<longleftrightarrow> target_matches s (r_target_system r) (r_target_component r) CA_GIMBAL_COMPONENT_ID \<and>
     (r_target_component r = CA_GIMBAL_COMPONENT_ID \<or> r_command r = REQUEST_MESSAGE \<and>
       (to_uint (p0 r) = Some MSG_GIMBAL_DEVICE_INFORMATION \<or> to_uint (p0 r) = Some MSG_GIMBAL_DEVICE_ATTITUDE_STATUS))"

definition for_camera :: "mav_server \<Rightarrow> mav_request \<Rightarrow> bool" where
  "for_camera s r \<longleftrightarrow> target_matches s (r_target_system r) (r_target_component r) (camera_component_id s)"


lemma camera_request_ok:
  assumes "camera_request fl t e route r s = Some (s', ev)" "for_camera s r"
  shows "\<exists>ev0 result. ev = ev0 @ [send_ack route (camera_component_id s) result r] \<and> answer_ok route s (result, s', ev0)"
  using assms camera_command_ok [of fl t e route r s]
  by (auto simp: camera_request_def for_camera_def answer_ok_def split: option.splits)

lemma camera_request_other: "\<not> for_camera s r \<Longrightarrow> camera_request fl t e route r s = Some (s, [])"
  by (simp add: camera_request_def for_camera_def)

definition addressed :: "mav_server \<Rightarrow> mav_request \<Rightarrow> bool" where
  "addressed s r \<longleftrightarrow> 32 \<le> r_len r \<and> (for_gimbal s r \<or> for_camera s r)"

definition answer_component :: "mav_server \<Rightarrow> mav_request \<Rightarrow> u8" where
  "answer_component s r = (if for_gimbal s r then CA_GIMBAL_COMPONENT_ID else camera_component_id s)"

lemmas requested_messages = MSG_GIMBAL_DEVICE_INFORMATION_def MSG_GIMBAL_DEVICE_ATTITUDE_STATUS_def

lemma for_gimbal_ok:
  assumes "handle_command_long fl t e route r s = Some (s', ev)" "32 \<le> r_len r" "for_gimbal s r"
  shows "\<exists>ev0 result. ev = ev0 @ [send_ack route CA_GIMBAL_COMPONENT_ID result r] \<and> answer_ok route s (result, s', ev0)"
  using assms
  by (auto simp: handle_command_long_def for_gimbal_def answer_ok_def requested_messages split: option.splits if_splits)

lemma not_for_gimbal:
  assumes "handle_command_long fl t e route r s = Some (s', ev)" "32 \<le> r_len r" "\<not> for_gimbal s r"
  shows "camera_request fl t e route r s = Some (s', ev)"
  using assms
  by (auto simp: handle_command_long_def for_gimbal_def requested_messages split: option.splits if_splits)

text \<open>C23: Every MAVLink command that is long enough and addressed to the camera or to the gimbal is
  answered with exactly one acknowledgement, sent last, to the peer that asked and with the result of
  the command; what is sent before it goes to the same peer or to all. A command that is denied or not
  supported changes nothing, calls nothing and sends nothing else. A command that is too short or is
  for somebody else is ignored.\<close>

theorem mavlink_command_answered:
  assumes "handle_command_long fl t e route r s = Some (s', ev)"
  shows "if addressed s r then
      (\<exists>ev0 result. ev = ev0 @ [send_ack route (answer_component s r) result r] \<and> answers_to route ev0
         \<and> (result = DENIED \<or> result = UNSUPPORTED \<longrightarrow> s' = s \<and> ev0 = []))
    else ev = [] \<and> s' = s"
proof (cases "32 \<le> r_len r")
  case len: True
  show ?thesis
  proof (cases "for_gimbal s r")
    case True
    with for_gimbal_ok [OF assms len] len show ?thesis
      by (fastforce simp: addressed_def answer_component_def answer_ok_def)
  next
    case False
    note c = not_for_gimbal [OF assms len this]
    with camera_request_ok [OF c] camera_request_other [of s r fl t e route] False len show ?thesis
      by (cases "for_camera s r") (fastforce simp: addressed_def answer_component_def answer_ok_def)+
  qed
qed (use assms in \<open>simp add: addressed_def handle_command_long_def\<close>)


definition demo_server :: mav_server where
  "demo_server = \<lparr>system_id = 1, camera_component_id = 100, camera_mode = 0, stream_enabled = [True, True],
     zoom_rate = FFin 0, focus_percent = FNaN, recording_started_ms = 0, next_capture_ms = 0, image_count = 0,
     next_image_index = 1, captures_remaining = 0, capture_interval_s = FFin 0, target_lat_e7 = 0,
     target_lon_e7 = 0, target_alt_amsl_m = FFin 0, target_location_active = False, yaw_lock = False,
     tracking_rate_active = False, tracking = replicate 6 (FFin 0), last_target_location_ms = 0,
     position_targeting = True\<rparr>"

definition demo_env :: "nat \<Rightarrow> mav_env" where
  "demo_env t = \<lparr>call_ok = (\<lambda>c. True), now = t, current_zoom = FFin 1, have_attitude = True\<rparr>"

definition demo_request :: "mav_cmd \<Rightarrow> c_float \<Rightarrow> mav_request" where
  "demo_request c v = \<lparr>r_len = 33, r_sysid = 255, r_compid = 190, r_target_system = 1, r_target_component = 100,
     r_command = c, p0 = FFin 2, p1 = v, p2 = FFin 3, p3 = FFin 0\<rparr>"

lemma demo_zoom_denied: "handle_command_long FFin mav_mt11 (demo_env 0) () (demo_request SET_CAMERA_ZOOM (FFin 101)) demo_server =
    Some (demo_server, [send_ack () 100 DENIED (demo_request SET_CAMERA_ZOOM (FFin 101))])"
  by (simp add: handle_command_long_def camera_request_def handle_camera_command_def set_zoom_def mav_mt11_def
      demo_server_def demo_request_def target_matches_def CA_GIMBAL_COMPONENT_ID_def)

lemma mavlink_command_answered_witness:
  "addressed demo_server (demo_request SET_CAMERA_ZOOM (FFin 101)) \<and>
   (\<exists>ev0 result. [send_ack () 100 DENIED (demo_request SET_CAMERA_ZOOM (FFin 101))] =
      ev0 @ [send_ack () 100 result (demo_request SET_CAMERA_ZOOM (FFin 101))] \<and> answers_to () ev0)"
proof -
  have a: "addressed demo_server (demo_request SET_CAMERA_ZOOM (FFin 101))"
    "answer_component demo_server (demo_request SET_CAMERA_ZOOM (FFin 101)) = 100"
    by (simp_all add: addressed_def answer_component_def for_gimbal_def for_camera_def target_matches_def demo_server_def demo_request_def
        CA_GIMBAL_COMPONENT_ID_def)
  show ?thesis using mavlink_command_answered [OF demo_zoom_denied] by (fastforce simp: a)
qed

subsection \<open>A series of photos\<close>



text \<open>What a series promises: a photo on the first occasion that is not too early, the next one a
  whole delay later, until none is left. A negative number of photos has no end.\<close>

fun photo_series :: "nat \<Rightarrow> nat \<Rightarrow> int \<Rightarrow> int \<Rightarrow> nat list \<Rightarrow> (int \<times> nat) list" where
  "photo_series d due left i [] = []"
| "photo_series d due left i (t # ts) =
     (if left \<noteq> 0 \<and> due \<le> t then (i, t) # photo_series d (t + d) (if 0 < left then left - 1 else left) (i + 1) ts
      else photo_series d due left i ts)"

lemma photo_series_none [simp]: "photo_series d due 0 i ts = []"
  by (induction ts) simp_all













lemma f_less_tenth: "is_finite v \<Longrightarrow> \<not> f_less v (FFin tenth) \<Longrightarrow> \<exists>r. v = FFin r \<and> tenth \<le> r"
  by (cases v) auto















subsection \<open>The region of interest\<close>

definition roi_command :: "mav_cmd \<Rightarrow> bool" where
  "roi_command c \<longleftrightarrow> c = DO_SET_ROI_LOCATION \<or> c = DO_SET_ROI_NONE"

definition without_target :: "mav_server \<Rightarrow> mav_server" where
  "without_target s = s\<lparr>target_lat_e7 := 0, target_lon_e7 := 0, target_alt_amsl_m := FFin 0, target_location_active := False,
     yaw_lock := False, last_target_location_ms := 0, tracking_rate_active := False, tracking := []\<rparr>"

text \<open>C25: A command to look at a place is accepted by the gimbal exactly when targeting is enabled, no
  manual control is going on, and the place is a finite global position; then exactly that place becomes
  the target and the yaw is locked. A command to stop looking is accepted unless there is manual control;
  then there is no target and a gimbal that was being turned is stopped, once. Any other command, and a
  refused one, changes nothing. The answer is one acknowledgement, sent last; nothing else changes.\<close>

theorem mavlink_roi:
  assumes "29 \<le> i_len r" "target_matches s (r_target_system (i_request r)) (r_target_component (i_request r)) CA_GIMBAL_COMPONENT_ID"
    and "handle_command_int manual_control route r s = (s', ev)" "c = r_command (i_request r)"
  shows "\<exists>ev0 result. ev = ev0 @ [send_ack route CA_GIMBAL_COMPONENT_ID result (i_request r)]
     \<and> (result = ACCEPTED \<longleftrightarrow> roi_command c \<and> \<not> manual_control
          \<and> (c = DO_SET_ROI_LOCATION \<longrightarrow> position_targeting s \<and> location_ok r))
     \<and> (result = TEMPORARILY_REJECTED \<longleftrightarrow> roi_command c \<and> manual_control)
     \<and> (result \<noteq> ACCEPTED \<longrightarrow> s' = s)
     \<and> (result = ACCEPTED \<and> c = DO_SET_ROI_LOCATION \<longrightarrow> target_location_active s' \<and> yaw_lock s'
          \<and> target_lat_e7 s' = i_x r \<and> target_lon_e7 s' = i_y r \<and> target_alt_amsl_m s' = i_z r
          \<and> tracking_rate_active s' = tracking_rate_active s)
     \<and> (result = ACCEPTED \<and> c = DO_SET_ROI_NONE \<longrightarrow> \<not> target_location_active s' \<and> \<not> tracking_rate_active s')
     \<and> ev0 = (if c = DO_SET_ROI_NONE \<and> result = ACCEPTED \<and> tracking_rate_active s then [Call (Set_rates 0 0)] else [])
     \<and> without_target s' = without_target s"
proof (cases "roi_command c \<and> manual_control")
  case True
  with assms show ?thesis
    by (intro exI [of _ "[]"] exI [of _ TEMPORARILY_REJECTED]) (auto simp: handle_command_int_def roi_command_def)
next
  case go: False
  show ?thesis
  proof (cases "c = DO_SET_ROI_LOCATION \<and> position_targeting s \<and> location_ok r")
    case True
    with assms go show ?thesis
      by (intro exI [of _ "[]"] exI [of _ ACCEPTED]) (auto simp: handle_command_int_def roi_command_def without_target_def Let_def split: if_splits)
  next
    case False
    show ?thesis
    proof (cases "c = DO_SET_ROI_NONE")
      case True
      with assms go show ?thesis
        by (intro exI [of _ "if tracking_rate_active s then [Call (Set_rates 0 0)] else []"] exI [of _ ACCEPTED])
          (auto simp: handle_command_int_def roi_command_def without_target_def clear_target_location_def stop_tracking_rate_def Let_def
            split: if_splits)
    next
      case other: False
      with False assms go show ?thesis
        by (intro exI [of _ "[]"] exI [of _ "if c = DO_SET_ROI_LOCATION \<and> position_targeting s then DENIED else UNSUPPORTED"])
          (auto simp: handle_command_int_def roi_command_def Let_def split: if_splits)
    qed
  qed
qed


definition demo_roi :: mav_request_int where
  "demo_roi = \<lparr>i_len = 33, i_request = (demo_request DO_SET_ROI_LOCATION (FFin 0))\<lparr>r_target_component := 154\<rparr>,
     i_frame = GLOBAL, i_x = 477000000, i_y = 85000000, i_z = FFin 400\<rparr>"

lemma mavlink_roi_witness:
  "\<exists>s' ev. handle_command_int False () demo_roi demo_server = (s', ev) \<and> target_lat_e7 s' = 477000000 \<and> yaw_lock s'"
proof -
  have r: "29 \<le> i_len demo_roi" "r_command (i_request demo_roi) = DO_SET_ROI_LOCATION" "location_ok demo_roi"
    "target_matches demo_server (r_target_system (i_request demo_roi)) (r_target_component (i_request demo_roi)) CA_GIMBAL_COMPONENT_ID"
    "i_x demo_roi = 477000000"
    by (simp_all add: demo_roi_def demo_request_def demo_server_def target_matches_def CA_GIMBAL_COMPONENT_ID_def location_ok_def)
  obtain s' and ev :: "unit mav_event list" where h: "handle_command_int False () demo_roi demo_server = (s', ev)" by fastforce
  show ?thesis using mavlink_roi [OF r(1,4) h refl] h r
    by (auto simp: roi_command_def demo_server_def)
qed

end
