(* ===== verification/Camera_Ftp.thy ===== *)
theory Camera_Ftp
  imports C_Strings
begin

text \<open>
  The file service of the camera, \<^verbatim>\<open>camera_app/src/protocol/camera_ftp.c\<close>: a MAVLink FTP server
  with one read-only file, the camera definition, and four sessions that all clients share. The
  abstract service is a map from clients to the time of their last use; the table of sessions
  refines it. A request and a response are the 251 bytes of the FTP payload.
\<close>

subsection \<open>The code\<close>

definition get32 :: "bytes \<Rightarrow> nat \<Rightarrow> u32" where
  "get32 p i = to32 (p ! i) OR push_bit 8 (to32 (p ! (i + 1))) OR push_bit 16 (to32 (p ! (i + 2)))
     OR push_bit 24 (to32 (p ! (i + 3)))"

definition put32 :: "u32 \<Rightarrow> bytes" where
  "put32 v = map (\<lambda>i. to8 (drop_bit (i * 8) v)) [0, 1, 2, 3]"

record ftp_session =
  fs_system :: u8
  fs_component :: u8
  fs_id :: u8
  fs_active :: bool
  fs_last_ms :: u64

definition ascii :: "string \<Rightarrow> bytes" where "ascii s = map of_char s"

definition CA_CAMERA_DEFINITION_PATH :: bytes where "CA_CAMERA_DEFINITION_PATH = ascii ''/camera.xml''"

text \<open>Errors: 3 is invalid data size, 4 invalid session, 5 no sessions, 6 end of file, 7 unknown
  command, 10 file not found.\<close>

definition ftp_expire :: "u64 \<Rightarrow> ftp_session \<Rightarrow> ftp_session" where
  "ftp_expire now_ms s = (if 60000 < now_ms - fs_last_ms s then s\<lparr>fs_active := False\<rparr> else s)"

definition ftp_match :: "u8 \<Rightarrow> u8 \<Rightarrow> u8 \<Rightarrow> ftp_session \<Rightarrow> bool" where
  "ftp_match sys cmp sid s \<longleftrightarrow> fs_active s \<and> fs_system s = sys \<and> fs_component s = cmp \<and> fs_id s = sid"

text \<open>The loop over the candidates keeps the last match.\<close>

fun find_session :: "(ftp_session \<Rightarrow> bool) \<Rightarrow> nat \<Rightarrow> ftp_session list \<Rightarrow> nat option \<Rightarrow> nat option" where
  "find_session P i [] found = found"
| "find_session P i (s # ss) found = find_session P (Suc i) ss (if P s then Some i else found)"

text \<open>The loop of \<^verbatim>\<open>OpenFileRO\<close>: the first match, or else the first slot that is free.\<close>

fun open_slot :: "(ftp_session \<Rightarrow> bool) \<Rightarrow> nat \<Rightarrow> ftp_session list \<Rightarrow> nat option \<Rightarrow> nat option" where
  "open_slot P i [] found = found"
| "open_slot P i (s # ss) found =
     (if P s then Some i else open_slot P (Suc i) ss (if \<not> fs_active s \<and> found = None then Some i else found))"

text \<open>\<^verbatim>\<open>char path[240]\<close> with the data of the request.\<close>

definition request_path :: "bytes \<Rightarrow> nat \<Rightarrow> bytes" where
  "request_path req sz = takeWhile (\<lambda>c. c \<noteq> 0) (take sz (drop 12 req))"

definition listing :: "nat \<Rightarrow> bool \<Rightarrow> bytes" where
  "listing len mtime = ascii ''F'' @ drop 1 CA_CAMERA_DEFINITION_PATH @ [9] @ ascii (dec_nat len) @ (if mtime then [9, 48] else [])"

definition ftp_header :: "bytes \<Rightarrow> bytes" where
  "ftp_header req = (let seq = get_u16_le req 0 + 1
     in le16 seq @ [req ! 2, 128, 0, req ! 3, 0, 0] @ take 4 (drop 8 req) @ replicate 239 0)"

definition ftp_list_directory :: "nat \<Rightarrow> bytes \<Rightarrow> nat \<Rightarrow> bytes \<Rightarrow> u8 \<times> bytes" where
  "ftp_list_directory len req sz resp =
     (let path = request_path req sz
      in if path \<noteq> [] \<and> path \<noteq> ascii ''/'' \<and> path \<noteq> ascii ''.'' \<and> path \<noteq> ascii ''./'' then (10, resp)
         else if get32 req 8 \<noteq> 0 then (6, resp)
         else
           let line = listing len (req ! 3 = 16);
               resp1 = blit resp 12 (take 238 line)
           in if 239 \<le> length line then (3, resp1)
              else (0, resp1[4 := of_nat (length line + 1)]))"

definition ftp_open ::
  "nat \<Rightarrow> u8 \<Rightarrow> u8 \<Rightarrow> u64 \<Rightarrow> bytes \<Rightarrow> nat \<Rightarrow> ftp_session list \<Rightarrow> bytes \<Rightarrow> u8 \<times> ftp_session list \<times> bytes" where
  "ftp_open len sys cmp now_ms req sz ss resp =
     (let path = request_path req sz
      in if path \<noteq> CA_CAMERA_DEFINITION_PATH \<and> path \<noteq> drop 1 CA_CAMERA_DEFINITION_PATH then (10, ss, resp)
         else case open_slot (ftp_match sys cmp (req ! 2)) 0 ss None of
           None \<Rightarrow> (5, ss, resp)
         | Some i \<Rightarrow>
             (0, ss[i := \<lparr>fs_system = sys, fs_component = cmp, fs_id = req ! 2, fs_active = True, fs_last_ms = now_ms\<rparr>],
              blit (resp[4 := 4]) 12 (put32 (of_nat len))))"

definition ftp_read ::
  "bytes \<Rightarrow> u64 \<Rightarrow> bytes \<Rightarrow> nat \<Rightarrow> nat option \<Rightarrow> ftp_session list \<Rightarrow> bytes \<Rightarrow> u8 \<times> ftp_session list \<times> bytes" where
  "ftp_read xml now_ms req sz session ss resp =
     (let offset = unat (get32 req 8)
      in case session of
        None \<Rightarrow> (4, ss, resp)
      | Some i \<Rightarrow>
          if sz = 0 then (3, ss, resp)
          else if length xml \<le> offset then (6, ss, resp)
          else
            let count = (if sz < length xml - offset then sz else length xml - offset)
            in (0, ss[i := (ss ! i)\<lparr>fs_last_ms := now_ms\<rparr>],
                blit (resp[4 := of_nat count, 6 := (if req ! 3 = 15 then 1 else 0)]) 12 (take count (drop offset xml))))"

definition ftp_finish :: "u8 \<times> ftp_session list \<times> bytes \<Rightarrow> ftp_session list \<times> bytes" where
  "ftp_finish x = (case x of (err, ss, resp) \<Rightarrow> (ss, if err \<noteq> 0 then resp[3 := 129, 4 := 1, 12 := err] else resp))"

definition ca_camera_ftp_reply ::
  "bytes \<Rightarrow> u8 \<Rightarrow> u8 \<Rightarrow> u64 \<Rightarrow> bytes \<Rightarrow> ftp_session list \<Rightarrow> ftp_session list \<times> bytes" where
  "ca_camera_ftp_reply xml sys cmp now_ms req sessions =
     (let resp = ftp_header req; opcode = req ! 3; sz = unat (req ! 4);
          ss = map (ftp_expire now_ms) sessions;
          session = find_session (ftp_match sys cmp (req ! 2)) 0 ss None
      in ftp_finish
        (if 239 < sz then (3, ss, resp)
         else if opcode = 2 then
           (0, map (\<lambda>s. if fs_system s = sys \<and> fs_component s = cmp then s\<lparr>fs_active := False\<rparr> else s) ss, resp)
         else if opcode = 3 \<or> opcode = 16 then
           (case ftp_list_directory (length xml) req sz resp of (err, resp1) \<Rightarrow> (err, ss, resp1))
         else if opcode = 4 then ftp_open (length xml) sys cmp now_ms req sz ss resp
         else if opcode = 1 then
           (case session of None \<Rightarrow> (4, ss, resp) | Some i \<Rightarrow> (0, ss[i := (ss ! i)\<lparr>fs_active := False\<rparr>], resp))
         else if opcode = 5 \<or> opcode = 15 then ftp_read xml now_ms req sz session ss resp
         else (7, ss, resp)))"

subsection \<open>The service\<close>

text \<open>A client is a system, a component and the session number it chose; the service remembers when
  each client last opened or read the file.\<close>

type_synonym ftp_client = "u8 \<times> u8 \<times> u8"
type_synonym ftp_service = "ftp_client \<Rightarrow> u64 option"

definition svc_expire :: "u64 \<Rightarrow> ftp_service \<Rightarrow> ftp_service" where
  "svc_expire now_ms m = (\<lambda>k. case m k of None \<Rightarrow> None | Some t \<Rightarrow> if 60000 < now_ms - t then None else Some t)"

definition svc_error :: "bytes \<Rightarrow> u8 \<Rightarrow> bytes" where
  "svc_error resp err = resp[3 := 129, 4 := 1, 12 := err]"

text \<open>The bytes of the file that a read gets.\<close>

definition svc_data :: "bytes \<Rightarrow> nat \<Rightarrow> nat \<Rightarrow> bytes" where
  "svc_data xml offset sz = take sz (drop offset xml)"

definition svc_reply ::
  "bytes \<Rightarrow> u8 \<Rightarrow> u8 \<Rightarrow> u64 \<Rightarrow> bytes \<Rightarrow> ftp_service \<Rightarrow> ftp_service \<times> bytes" where
  "svc_reply xml sys cmp now_ms req m0 =
     (let m = svc_expire now_ms m0; k = (sys, cmp, req ! 2); op = req ! 3; sz = unat (req ! 4);
          resp = ftp_header req; path = request_path req sz; offset = unat (get32 req 8)
      in if 239 < sz then (m, svc_error resp 3)
         else if op = 2 then (\<lambda>k'. if fst k' = sys \<and> fst (snd k') = cmp then None else m k', resp)
         else if op = 3 \<or> op = 16 then
           (m, case ftp_list_directory (length xml) req sz resp of (err, resp1) \<Rightarrow> if err = 0 then resp1 else svc_error resp1 err)
         else if op = 4 then
           (if path \<noteq> CA_CAMERA_DEFINITION_PATH \<and> path \<noteq> drop 1 CA_CAMERA_DEFINITION_PATH then (m, svc_error resp 10)
            else if m k = None \<and> 4 \<le> card (dom m) then (m, svc_error resp 5)
            else (m(k \<mapsto> now_ms), blit (resp[4 := 4]) 12 (put32 (of_nat (length xml)))))
         else if op = 1 then (if m k = None then (m, svc_error resp 4) else (m(k := None), resp))
         else if op = 5 \<or> op = 15 then
           (if m k = None then (m, svc_error resp 4)
            else if sz = 0 then (m, svc_error resp 3)
            else if length xml \<le> offset then (m, svc_error resp 6)
            else (m(k \<mapsto> now_ms),
              let d = svc_data xml offset sz
              in blit (resp[4 := of_nat (length d), 6 := (if op = 15 then 1 else 0)]) 12 d))
         else (m, svc_error resp 7))"

definition fs_key :: "ftp_session \<Rightarrow> ftp_client" where
  "fs_key s = (fs_system s, fs_component s, fs_id s)"

text \<open>The clients of a table, and the tables where no client has two sessions.\<close>

definition ftp_abs :: "ftp_session list \<Rightarrow> ftp_service" where
  "ftp_abs ss = (\<lambda>k. case find_session (\<lambda>s. fs_active s \<and> fs_key s = k) 0 ss None of
     None \<Rightarrow> None | Some i \<Rightarrow> Some (fs_last_ms (ss ! i)))"

definition live :: "ftp_session list \<Rightarrow> nat \<Rightarrow> ftp_client \<Rightarrow> u64 \<Rightarrow> bool" where
  "live ss i k t \<longleftrightarrow> i < length ss \<and> fs_active (ss ! i) \<and> fs_key (ss ! i) = k \<and> fs_last_ms (ss ! i) = t"

definition ftp_ok :: "ftp_session list \<Rightarrow> bool" where
  "ftp_ok ss \<longleftrightarrow> length ss = 4 \<and> (\<forall>i j k t t'. live ss i k t \<and> live ss j k t' \<longrightarrow> i = j)"

subsection \<open>The searches\<close>

lemma find_session_found: "find_session P i ss (Some j) \<noteq> None"
  by (induction ss arbitrary: i j) auto

lemma find_session_None: "find_session P i ss None = None \<longleftrightarrow> (\<forall>s \<in> set ss. \<not> P s)"
  using find_session_found by (induction ss arbitrary: i) auto

lemma find_session_Some: "find_session P i ss found = Some j \<Longrightarrow>
    (i \<le> j \<and> j < i + length ss \<and> P (ss ! (j - i))) \<or> found = Some j"
proof (induction ss arbitrary: i found)
  case (Cons s ss)
  then have "find_session P (Suc i) ss (if P s then Some i else found) = Some j" by simp
  from Cons.IH [OF this] show ?case by (auto simp: nth_Cons' split: if_splits)
qed simp

lemma find_unique:
  assumes "\<And>i j. i < length ss \<Longrightarrow> j < length ss \<Longrightarrow> P (ss ! i) \<Longrightarrow> P (ss ! j) \<Longrightarrow> i = j"
  shows "find_session P 0 ss None = Some i \<longleftrightarrow> i < length ss \<and> P (ss ! i)"
proof
  assume "find_session P 0 ss None = Some i"
  from find_session_Some [OF this] show "i < length ss \<and> P (ss ! i)" by simp
next
  assume i: "i < length ss \<and> P (ss ! i)"
  then have "find_session P 0 ss None \<noteq> None" by (auto simp: find_session_None)
  then obtain j where j: "find_session P 0 ss None = Some j" by blast
  from find_session_Some [OF this] i assms [of i j] j show "find_session P 0 ss None = Some i" by simp
qed

lemma open_slot_None: "open_slot P i ss found = None \<longleftrightarrow> found = None \<and> (\<forall>s \<in> set ss. \<not> P s \<and> fs_active s)"
  by (induction ss arbitrary: i found) auto

lemma open_slot_Some: "open_slot P i ss found = Some j \<Longrightarrow>
    (i \<le> j \<and> j < i + length ss \<and> P (ss ! (j - i)))
    \<or> (\<forall>s \<in> set ss. \<not> P s) \<and> (found = Some j \<or> found = None \<and> i \<le> j \<and> j < i + length ss \<and> \<not> fs_active (ss ! (j - i)))"
proof (induction ss arbitrary: i found)
  case (Cons s ss)
  show ?case
  proof (cases "P s")
    case False
    with Cons.prems have "open_slot P (Suc i) ss (if \<not> fs_active s \<and> found = None then Some i else found) = Some j" by simp
    from Cons.IH [OF this] False show ?thesis by (auto simp: nth_Cons' split: if_splits)
  qed (use Cons.prems in simp)
qed simp

lemma open_slot_cases:
  assumes "open_slot P 0 ss None = Some j"
  shows "j < length ss" "P (ss ! j) \<or> \<not> fs_active (ss ! j) \<and> (\<forall>s \<in> set ss. \<not> P s)"
  using open_slot_Some [OF assms] by auto

subsection \<open>The table and its clients\<close>

lemma ftp_match_key: "ftp_match sys cmp sid = (\<lambda>s. fs_active s \<and> fs_key s = (sys, cmp, sid))"
  by (auto simp: ftp_match_def fs_key_def)

lemma live_update: "live (ss[i := s']) j k t \<longleftrightarrow>
    (if j = i then i < length ss \<and> fs_active s' \<and> fs_key s' = k \<and> fs_last_ms s' = t else live ss j k t)"
  by (cases "j < length ss") (auto simp: live_def)

lemma ftp_ok_inj: "ftp_ok ss \<Longrightarrow> live ss i k t \<Longrightarrow> live ss j k t' \<Longrightarrow> i = j"
  unfolding ftp_ok_def by blast

lemma ftp_find:
  assumes "ftp_ok ss"
  shows "find_session (\<lambda>s. fs_active s \<and> fs_key s = k) 0 ss None = Some i \<longleftrightarrow> live ss i k (fs_last_ms (ss ! i))"
proof -
  have "i = j" if "i < length ss" "j < length ss" "fs_active (ss ! i) \<and> fs_key (ss ! i) = k" "fs_active (ss ! j) \<and> fs_key (ss ! j) = k" for i j
    using that ftp_ok_inj [OF assms, of i k "fs_last_ms (ss ! i)" j "fs_last_ms (ss ! j)"] by (simp add: live_def)
  then show ?thesis using find_unique [of ss "\<lambda>s. fs_active s \<and> fs_key s = k" i] by (auto simp: live_def)
qed

lemma no_live: "(\<forall>s \<in> set ss. \<not> (fs_active s \<and> fs_key s = k)) \<longleftrightarrow> (\<forall>i t. \<not> live ss i k t)"
  unfolding live_def all_set_conv_all_nth by blast

lemma ftp_abs_Some:
  assumes "ftp_ok ss"
  shows "ftp_abs ss k = Some t \<longleftrightarrow> (\<exists>i. live ss i k t)"
proof (cases "find_session (\<lambda>s. fs_active s \<and> fs_key s = k) 0 ss None")
  case None
  then show ?thesis unfolding find_session_None no_live using None by (simp add: ftp_abs_def)
next
  case (Some i)
  then have i: "live ss i k (fs_last_ms (ss ! i))" by (simp add: ftp_find [OF assms])
  have "live ss j k t \<Longrightarrow> j = i \<and> t = fs_last_ms (ss ! i)" for j
    using ftp_ok_inj [OF assms _ i] by (auto simp: live_def)
  with Some i show ?thesis by (auto simp: ftp_abs_def)
qed

lemma ftp_abs_None: "ftp_abs ss k = None \<longleftrightarrow> find_session (\<lambda>s. fs_active s \<and> fs_key s = k) 0 ss None = None"
  by (simp add: ftp_abs_def split: option.splits)

lemma map_eqI: "(\<And>k t. m k = Some t \<longleftrightarrow> m' k = Some t) \<Longrightarrow> m = m'"
  by (rule ext) (metis not_Some_eq)


text \<open>The three ways a request changes the table: sessions end, one is used, one is opened.\<close>

lemma ftp_drop:
  fixes Q :: "ftp_session \<Rightarrow> bool"
  assumes ok: "ftp_ok ss"
  defines "ss' \<equiv> map (\<lambda>s. if Q s then s\<lparr>fs_active := False\<rparr> else s) ss"
  shows "ftp_ok ss'" "ftp_abs ss' k = Some t \<longleftrightarrow> (\<exists>i. live ss i k t \<and> \<not> Q (ss ! i))"
proof -
  have l: "live ss' i k t \<longleftrightarrow> live ss i k t \<and> \<not> Q (ss ! i)" for i k t
    by (cases "i < length ss") (auto simp: live_def ss'_def fs_key_def)
  have "length ss' = length ss" by (simp add: ss'_def)
  then show ok': "ftp_ok ss'" using ok unfolding ftp_ok_def l by metis
  show "ftp_abs ss' k = Some t \<longleftrightarrow> (\<exists>i. live ss i k t \<and> \<not> Q (ss ! i))" by (simp add: ftp_abs_Some [OF ok'] l)
qed

lemma ftp_expire_abs:
  assumes "ftp_ok ss"
  shows "ftp_ok (map (ftp_expire now_ms) ss)" "ftp_abs (map (ftp_expire now_ms) ss) = svc_expire now_ms (ftp_abs ss)"
proof -
  have e: "map (ftp_expire now_ms) ss = map (\<lambda>s. if 60000 < now_ms - fs_last_ms s then s\<lparr>fs_active := False\<rparr> else s) ss"
    by (simp add: ftp_expire_def)
  show "ftp_ok (map (ftp_expire now_ms) ss)" unfolding e by (rule ftp_drop [OF assms])
  show "ftp_abs (map (ftp_expire now_ms) ss) = svc_expire now_ms (ftp_abs ss)"
  proof (rule map_eqI)
    fix k t
    have "svc_expire now_ms (ftp_abs ss) k = Some t \<longleftrightarrow> ftp_abs ss k = Some t \<and> \<not> 60000 < now_ms - t"
      by (auto simp: svc_expire_def split: option.splits if_splits)
    then show "ftp_abs (map (ftp_expire now_ms) ss) k = Some t \<longleftrightarrow> svc_expire now_ms (ftp_abs ss) k = Some t"
      unfolding e ftp_drop(2) [OF assms] by (auto simp: ftp_abs_Some [OF assms] live_def)
  qed
qed

lemma ftp_reset_abs:
  fixes sys cmp :: u8
  assumes "ftp_ok ss"
  defines "ss' \<equiv> map (\<lambda>s. if fs_system s = sys \<and> fs_component s = cmp then s\<lparr>fs_active := False\<rparr> else s) ss"
  shows "ftp_ok ss'" "ftp_abs ss' = (\<lambda>k. if fst k = sys \<and> fst (snd k) = cmp then None else ftp_abs ss k)"
proof -
  show "ftp_ok ss'" unfolding ss'_def by (rule ftp_drop [OF assms(1)])
  show "ftp_abs ss' = (\<lambda>k. if fst k = sys \<and> fst (snd k) = cmp then None else ftp_abs ss k)"
    unfolding ss'_def by (rule map_eqI, subst ftp_drop(2) [OF assms(1)]) (auto simp: ftp_abs_Some [OF assms(1)] live_def fs_key_def)
qed

lemma ftp_use:
  assumes ok: "ftp_ok ss" and i: "i < length ss" "fs_active s'" "fs_key s' = k"
    and slot: "fs_active (ss ! i) \<and> fs_key (ss ! i) = k \<or> \<not> fs_active (ss ! i) \<and> (\<forall>s \<in> set ss. \<not> (fs_active s \<and> fs_key s = k))"
  shows "ftp_ok (ss[i := s'])" "ftp_abs (ss[i := s']) = (ftp_abs ss)(k \<mapsto> fs_last_ms s')"
proof -
  have other: "\<not> live ss j k t" if "j \<noteq> i" for j t
    using slot [unfolded no_live] that ftp_ok_inj [OF ok, of i k "fs_last_ms (ss ! i)" j t] i by (auto simp: live_def)
  have at: "live ss i k' t \<Longrightarrow> k' = k" for k' t using slot by (auto simp: live_def)
  have l: "live (ss[i := s']) j k' t \<longleftrightarrow> (if k' = k then j = i \<and> t = fs_last_ms s' else live ss j k' t)" for j k' t
    using i other at unfolding live_update by (cases "j = i"; cases "k' = k") (simp_all, metis+)
  show ok': "ftp_ok (ss[i := s'])"
    using ok unfolding ftp_ok_def l by (metis length_list_update)
  show "ftp_abs (ss[i := s']) = (ftp_abs ss)(k \<mapsto> fs_last_ms s')"
    by (rule map_eqI) (auto simp: ftp_abs_Some [OF ok'] ftp_abs_Some [OF ok] l)
qed

lemma ftp_end:
  assumes ok: "ftp_ok ss" and i: "live ss i k t0"
  shows "ftp_ok (ss[i := (ss ! i)\<lparr>fs_active := False\<rparr>])" "ftp_abs (ss[i := (ss ! i)\<lparr>fs_active := False\<rparr>]) = (ftp_abs ss)(k := None)"
proof -
  have l: "live (ss[i := (ss ! i)\<lparr>fs_active := False\<rparr>]) j k' t \<longleftrightarrow> k' \<noteq> k \<and> live ss j k' t" for j k' t
    using i ftp_ok_inj [OF ok i, of j t] by (cases "j = i") (auto simp: live_update live_def)
  show ok': "ftp_ok (ss[i := (ss ! i)\<lparr>fs_active := False\<rparr>])"
    using ok unfolding ftp_ok_def l by (metis length_list_update)
  show "ftp_abs (ss[i := (ss ! i)\<lparr>fs_active := False\<rparr>]) = (ftp_abs ss)(k := None)"
    by (rule map_eqI) (auto simp: ftp_abs_Some [OF ok'] ftp_abs_Some [OF ok] l)
qed

lemma ftp_full:
  assumes ok: "ftp_ok ss"
  shows "4 \<le> card (dom (ftp_abs ss)) \<longleftrightarrow> (\<forall>s \<in> set ss. fs_active s)"
proof -
  define A where "A = {i. i < 4 \<and> fs_active (ss ! i)}"
  have fin: "finite A" by (simp add: A_def)
  have "k \<in> dom (ftp_abs ss) \<longleftrightarrow> k \<in> (\<lambda>i. fs_key (ss ! i)) ` A" for k
    using ok by (simp add: A_def domIff image_iff ftp_ok_def not_Some_eq [symmetric] ftp_abs_Some [OF ok] del: not_Some_eq)
      (auto simp: live_def)
  then have "dom (ftp_abs ss) = (\<lambda>i. fs_key (ss ! i)) ` A" by blast
  moreover have "inj_on (\<lambda>i. fs_key (ss ! i)) A"
    using ok by (auto simp: inj_on_def A_def ftp_ok_def live_def)
  ultimately have c: "card (dom (ftp_abs ss)) = card A" by (simp add: card_image)
  have "4 \<le> card A \<longleftrightarrow> A = {..<4}"
  proof
    assume "4 \<le> card A"
    then show "A = {..<4}" by (intro card_seteq) (auto simp: A_def)
  qed simp
  also have "\<dots> \<longleftrightarrow> (\<forall>s \<in> set ss. fs_active s)" using ok unfolding all_set_conv_all_nth by (auto simp: A_def ftp_ok_def)
  finally show ?thesis by (simp add: c)
qed


subsection \<open>The table implements the service\<close>

lemma length_ftp_header: "length req = 251 \<Longrightarrow> length (ftp_header req) = 251"
  by (simp add: ftp_header_def Let_def le16_def)

lemma ftp_open_refines:
  assumes ok: "ftp_ok ss" and open_file: "ftp_finish (ftp_open len sys cmp now_ms req sz ss resp) = (ss', out)"
  shows "ftp_ok ss' \<and>
    (if request_path req sz \<noteq> CA_CAMERA_DEFINITION_PATH \<and> request_path req sz \<noteq> drop 1 CA_CAMERA_DEFINITION_PATH
     then ftp_abs ss' = ftp_abs ss \<and> out = svc_error resp 10
     else if ftp_abs ss (sys, cmp, req ! 2) = None \<and> 4 \<le> card (dom (ftp_abs ss))
     then ftp_abs ss' = ftp_abs ss \<and> out = svc_error resp 5
     else ftp_abs ss' = (ftp_abs ss)((sys, cmp, req ! 2) \<mapsto> now_ms) \<and> out = blit (resp[4 := 4]) 12 (put32 (of_nat len)))"
    (is "_ \<and> (if ?path then _ else _)")
proof (cases ?path)
  case True
  with assms show ?thesis by (simp add: ftp_open_def ftp_finish_def svc_error_def)
next
  case path: False
  define P where "P = ftp_match sys cmp (req ! 2)"
  have P: "P = (\<lambda>s. fs_active s \<and> fs_key s = (sys, cmp, req ! 2))" by (simp add: P_def ftp_match_key)
  show ?thesis
  proof (cases "open_slot P 0 ss None")
    case None
    then have "\<forall>s \<in> set ss. \<not> P s \<and> fs_active s" by (simp add: open_slot_None)
    then have "ftp_abs ss (sys, cmp, req ! 2) = None \<and> 4 \<le> card (dom (ftp_abs ss))"
      by (simp add: ftp_abs_None find_session_None ftp_full [OF ok] P)
    with path None open_file ok show ?thesis by (auto simp: ftp_open_def ftp_finish_def svc_error_def P_def)
  next
    case (Some i)
    note slot = open_slot_cases [OF Some]
    then have "\<not> (ftp_abs ss (sys, cmp, req ! 2) = None \<and> 4 \<le> card (dom (ftp_abs ss)))"
      unfolding ftp_abs_None find_session_None ftp_full [OF ok] P by (meson nth_mem)
    moreover have "ftp_ok (ss[i := s'])" "ftp_abs (ss[i := s']) = (ftp_abs ss)((sys, cmp, req ! 2) \<mapsto> now_ms)"
      if "s' = \<lparr>fs_system = sys, fs_component = cmp, fs_id = req ! 2, fs_active = True, fs_last_ms = now_ms\<rparr>" for s'
      using ftp_use [OF ok slot(1), of s' "(sys, cmp, req ! 2)"] slot(2) that by (simp_all add: P fs_key_def)
    ultimately show ?thesis using path Some open_file by (auto simp: ftp_open_def ftp_finish_def P_def)
  qed
qed

lemma ftp_read_refines:
  assumes ok: "ftp_ok ss"
    and rd: "ftp_finish (ftp_read xml now_ms req sz (find_session (ftp_match sys cmp (req ! 2)) 0 ss None) ss resp) = (ss', out)"
    and offset: "offset = unat (get32 req 8)"
  shows "ftp_ok ss' \<and>
    (if ftp_abs ss (sys, cmp, req ! 2) = None then ftp_abs ss' = ftp_abs ss \<and> out = svc_error resp 4
     else if sz = 0 then ftp_abs ss' = ftp_abs ss \<and> out = svc_error resp 3
     else if length xml \<le> offset then ftp_abs ss' = ftp_abs ss \<and> out = svc_error resp 6
     else ftp_abs ss' = (ftp_abs ss)((sys, cmp, req ! 2) \<mapsto> now_ms) \<and>
       out = (let d = svc_data xml offset sz
         in blit (resp[4 := of_nat (length d), 6 := (if req ! 3 = 15 then 1 else 0)]) 12 d))"
proof (cases "find_session (ftp_match sys cmp (req ! 2)) 0 ss None")
  case None
  with assms show ?thesis by (auto simp: ftp_abs_None ftp_match_key ftp_read_def ftp_finish_def svc_error_def)
next
  case (Some i)
  then have i: "live ss i (sys, cmp, req ! 2) (fs_last_ms (ss ! i))" by (simp add: ftp_match_key ftp_find [OF ok])
  have n: "ftp_abs ss (sys, cmp, req ! 2) \<noteq> None" using Some by (simp add: ftp_abs_None ftp_match_key)
  have u: "ftp_ok (ss[i := (ss ! i)\<lparr>fs_last_ms := now_ms\<rparr>])"
      "ftp_abs (ss[i := (ss ! i)\<lparr>fs_last_ms := now_ms\<rparr>]) = (ftp_abs ss)((sys, cmp, req ! 2) \<mapsto> now_ms)"
    using ftp_use [OF ok, of i "(ss ! i)\<lparr>fs_last_ms := now_ms\<rparr>" "(sys, cmp, req ! 2)"] i by (auto simp: live_def fs_key_def)
  have c: "(if sz < length xml - offset then sz else length xml - offset) = length (svc_data xml offset sz)"
    "take (length (svc_data xml offset sz)) (drop offset xml) = svc_data xml offset sz"
    by (simp_all add: svc_data_def min_def)
  show ?thesis using rd n u ok unfolding offset [symmetric]
    by (auto simp: ftp_read_def ftp_finish_def svc_error_def Some offset [symmetric] c Let_def)
qed


lemma ftp_refines:
  assumes ok0: "ftp_ok ss0" and reply: "ca_camera_ftp_reply xml sys cmp now_ms req ss0 = (ss', out)"
  shows "ftp_ok ss' \<and> svc_reply xml sys cmp now_ms req (ftp_abs ss0) = (ftp_abs ss', out)"
proof -
  define ss where "ss = map (ftp_expire now_ms) ss0"
  note e = ftp_expire_abs [OF ok0, of now_ms, folded ss_def]
  define op where "op = req ! 3"
  define sz where "sz = unat (req ! 4)"
  note defs = ca_camera_ftp_reply_def svc_reply_def Let_def e(2) [symmetric] ss_def [symmetric] op_def [symmetric] sz_def [symmetric]
  show ?thesis
  proof (cases "239 < sz \<or> op \<notin> {1, 2, 3, 4, 5, 15, 16}")
    case True
    show ?thesis
    proof (cases "239 < sz")
      case big: True
      with reply e(1) show ?thesis by (simp add: defs ftp_finish_def svc_error_def)
    next
      case False
      with True have "op \<noteq> 1" "op \<noteq> 2" "op \<noteq> 3" "op \<noteq> 4" "op \<noteq> 5" "op \<noteq> 15" "op \<noteq> 16" by auto
      with False reply e(1) show ?thesis by (simp add: defs ftp_finish_def svc_error_def)
    qed
  next
    case small: False
    then consider "op = 2" | "op = 3 \<or> op = 16" | "op = 4" | "op = 1" | "op = 5 \<or> op = 15" by blast
    then show ?thesis
    proof cases
      case 1
      with reply small e ftp_reset_abs [OF e(1)] show ?thesis by (auto simp: defs ftp_finish_def)
    next
      case 2
      then have "op \<noteq> 2" by auto
      with 2 reply small e show ?thesis by (simp add: defs ftp_finish_def svc_error_def split: prod.splits if_splits)
    next
      case 3
      with reply small have "ftp_finish (ftp_open (length xml) sys cmp now_ms req sz ss (ftp_header req)) = (ss', out)" by (simp add: defs)
      from ftp_open_refines [OF e(1) this] 3 small show ?thesis by (simp add: defs split: if_splits)
    next
      case 4
      show ?thesis
      proof (cases "find_session (ftp_match sys cmp (req ! 2)) 0 ss None")
        case None
        with 4 reply small e show ?thesis by (auto simp: defs ftp_finish_def svc_error_def ftp_abs_None ftp_match_key)
      next
        case (Some i)
        then have i: "live ss i (sys, cmp, req ! 2) (fs_last_ms (ss ! i))" by (simp add: ftp_match_key ftp_find [OF e(1)])
        obtain y where "ftp_abs ss (sys, cmp, req ! 2) = Some y" using Some by (auto simp: ftp_abs_def ftp_match_key)
        with 4 reply small Some ftp_end [OF e(1) i] show ?thesis by (simp add: defs ftp_finish_def)
      qed
    next
      case 5
      then have "op \<noteq> 1" "op \<noteq> 2" "op \<noteq> 3" "op \<noteq> 4" "op \<noteq> 16" by auto
      note ops = this 5 small
      from reply ops have "ftp_finish (ftp_read xml now_ms req sz (find_session (ftp_match sys cmp (req ! 2)) 0 ss None) ss (ftp_header req)) = (ss', out)"
        by (simp add: defs)
      from ftp_read_refines [OF e(1) this refl] ops show ?thesis by (simp add: defs split: if_splits)
    qed
  qed
qed

subsection \<open>Runs\<close>

type_synonym ftp_event = "u64 \<times> u8 \<times> u8 \<times> bytes"

fun ftp_run :: "bytes \<Rightarrow> ftp_session list \<Rightarrow> ftp_event list \<Rightarrow> ftp_session list \<times> bytes list" where
  "ftp_run xml ss [] = (ss, [])"
| "ftp_run xml ss ((now_ms, sys, cmp, req) # rs) =
     (case ca_camera_ftp_reply xml sys cmp now_ms req ss of (ss1, out) \<Rightarrow>
        case ftp_run xml ss1 rs of (ss2, outs) \<Rightarrow> (ss2, out # outs))"

fun svc_run :: "bytes \<Rightarrow> ftp_service \<Rightarrow> ftp_event list \<Rightarrow> ftp_service \<times> bytes list" where
  "svc_run xml m [] = (m, [])"
| "svc_run xml m ((now_ms, sys, cmp, req) # rs) =
     (case svc_reply xml sys cmp now_ms req m of (m1, out) \<Rightarrow>
        case svc_run xml m1 rs of (m2, outs) \<Rightarrow> (m2, out # outs))"

text \<open>The server starts with zeroed memory.\<close>

definition ftp_init :: "ftp_session list" where
  "ftp_init = replicate 4 \<lparr>fs_system = 0, fs_component = 0, fs_id = 0, fs_active = False, fs_last_ms = 0\<rparr>"

lemma ftp_init_ok: "ftp_ok ftp_init" "ftp_abs ftp_init = Map.empty"
proof -
  have l: "\<not> live ftp_init i k t" for i k t by (cases "i < 4") (auto simp: live_def ftp_init_def)
  then show ok: "ftp_ok ftp_init" by (simp add: ftp_ok_def) (simp add: ftp_init_def)
  show "ftp_abs ftp_init = Map.empty" by (rule map_eqI) (simp add: ftp_abs_Some [OF ok] l)
qed

lemma ftp_run_refines:
  assumes "ftp_ok ss" "ftp_run xml ss rs = (ss', outs)"
  shows "ftp_ok ss' \<and> svc_run xml (ftp_abs ss) rs = (ftp_abs ss', outs)"
  using assms
proof (induction rs arbitrary: ss ss' outs)
  case (Cons r rs)
  obtain now_ms sys cmp req where r: "r = (now_ms, sys, cmp, req)" by (cases r)
  obtain ss1 out where 1: "ca_camera_ftp_reply xml sys cmp now_ms req ss = (ss1, out)" by fastforce
  obtain ss2 outs' where 2: "ftp_run xml ss1 rs = (ss2, outs')" by fastforce
  note r1 = ftp_refines [OF Cons.prems(1) 1]
  from Cons.IH [OF conjunct1 [OF r1] 2] r1 Cons.prems(2) 1 2 show ?case by (simp add: r)
qed simp

text \<open>C26: Whatever requests arrive from whatever clients at whatever times, the table of four sessions
  gives exactly the responses of the abstract service, which remembers for each client when it last
  used the file, forgets it after a minute, has room for four clients, answers a read with the
  bytes of the file and touches the state of no other client.\<close>

theorem camera_ftp_service:
  "snd (ftp_run xml ftp_init rs) = snd (svc_run xml Map.empty rs)"
  using ftp_run_refines [OF ftp_init_ok(1), of xml rs] by (cases "ftp_run xml ftp_init rs") (simp add: ftp_init_ok(2))


subsection \<open>Downloading the file\<close>

text \<open>The requests of one client among all others, and the condition on time: whenever anybody sends a
  request, the client's last successful use is at most a minute ago. Its requests are reads.\<close>

definition is_read :: "u8 \<Rightarrow> bytes \<Rightarrow> bool" where
  "is_read sid req \<longleftrightarrow> length req = 251 \<and> req ! 2 = sid \<and> (req ! 3 = 5 \<or> req ! 3 = 15)
     \<and> 0 < unat (req ! 4) \<and> unat (req ! 4) \<le> 239"

definition read_offset :: "bytes \<Rightarrow> nat" where "read_offset req = unat (get32 req 8)"

definition mine :: "ftp_client \<Rightarrow> ftp_event \<Rightarrow> bool" where
  "mine c e \<longleftrightarrow> (case e of (now_ms, sys, cmp, req) \<Rightarrow> sys = fst c \<and> cmp = fst (snd c))"

fun kept_alive :: "bytes \<Rightarrow> ftp_client \<Rightarrow> u64 \<Rightarrow> ftp_event list \<Rightarrow> bool" where
  "kept_alive xml c t [] = True"
| "kept_alive xml c t (e # rs) =
     (case e of (now_ms, sys, cmp, req) \<Rightarrow>
        now_ms - t \<le> 60000 \<and>
        (if mine c e then is_read (snd (snd c)) req \<and> kept_alive xml c (if read_offset req < length xml then now_ms else t) rs
         else kept_alive xml c t rs))"

definition read_answer :: "bytes \<Rightarrow> bytes \<Rightarrow> bytes" where
  "read_answer xml req =
     (let d = svc_data xml (read_offset req) (unat (req ! 4)); resp = ftp_header req
      in if length xml \<le> read_offset req then svc_error resp 6
         else blit (resp[4 := of_nat (length d), 6 := (if req ! 3 = 15 then 1 else 0)]) 12 d)"

text \<open>What a client takes from a response: nothing from an error.\<close>

definition ftp_data :: "bytes \<Rightarrow> bytes" where
  "ftp_data out = (if out ! 3 = 128 then take (unat (out ! 4)) (drop 12 out) else [])"

lemma svc_expire_alive: "m c = Some t \<Longrightarrow> now_ms - t \<le> 60000 \<Longrightarrow> svc_expire now_ms m c = Some t"
  by (simp add: svc_expire_def)

lemma svc_reply_other:
  assumes "m c = Some t" "now_ms - t \<le> 60000" "\<not> mine c (now_ms, sys, cmp, req)"
  shows "fst (svc_reply xml sys cmp now_ms req m) c = Some t"
proof -
  have k: "c \<noteq> (sys, cmp, req ! 2)" "\<not> (fst c = sys \<and> fst (snd c) = cmp)" using assms(3) by (auto simp: mine_def)
  with svc_expire_alive [of m, OF assms(1,2)] show ?thesis by (auto simp: svc_reply_def Let_def)
qed

lemma svc_reply_read:
  assumes "m c = Some t" "now_ms - t \<le> 60000" "mine c (now_ms, sys, cmp, req)" "is_read (snd (snd c)) req"
  shows "fst (svc_reply xml sys cmp now_ms req m) c = Some (if read_offset req < length xml then now_ms else t)"
    "snd (svc_reply xml sys cmp now_ms req m) = read_answer xml req"
proof -
  have k: "(sys, cmp, req ! 2) = c" using assms(3,4) by (cases c) (auto simp: mine_def is_read_def)
  have r: "req ! 3 = 5 \<or> req ! 3 = 15" "\<not> 239 < unat (req ! 4)" "unat (req ! 4) \<noteq> 0" using assms(4) by (auto simp: is_read_def)
  then have o: "req ! 3 \<noteq> 1" "req ! 3 \<noteq> 2" "req ! 3 \<noteq> 3" "req ! 3 \<noteq> 4" "req ! 3 \<noteq> 16" by auto
  note x = svc_expire_alive [of m, OF assms(1,2)]
  show "fst (svc_reply xml sys cmp now_ms req m) c = Some (if read_offset req < length xml then now_ms else t)"
    using r o x by (simp add: svc_reply_def Let_def k read_offset_def)
  show "snd (svc_reply xml sys cmp now_ms req m) = read_answer xml req"
    using r o x by (simp add: svc_reply_def Let_def k read_offset_def read_answer_def)
qed

text \<open>The client's responses among all of a run.\<close>

definition own_responses :: "ftp_client \<Rightarrow> ftp_event list \<Rightarrow> bytes list \<Rightarrow> bytes list" where
  "own_responses c rs outs = map snd (filter (\<lambda>(e, out). mine c e) (zip rs outs))"

definition own_requests :: "ftp_client \<Rightarrow> ftp_event list \<Rightarrow> bytes list" where
  "own_requests c rs = map (\<lambda>(now_ms, sys, cmp, req). req) (filter (mine c) rs)"

lemma svc_run_reads:
  assumes "m c = Some t" "kept_alive xml c t rs"
  shows "own_responses c rs (snd (svc_run xml m rs)) = map (read_answer xml) (own_requests c rs)"
  using assms
proof (induction rs arbitrary: m t)
  case (Cons e rs)
  obtain now_ms sys cmp req where e: "e = (now_ms, sys, cmp, req)" by (cases e)
  obtain m1 out where 1: "svc_reply xml sys cmp now_ms req m = (m1, out)" by fastforce
  obtain m2 outs where 2: "svc_run xml m1 rs = (m2, outs)" by fastforce
  show ?case
  proof (cases "mine c e")
    case True
    with Cons.prems have a: "now_ms - t \<le> 60000" "is_read (snd (snd c)) req"
      "kept_alive xml c (if read_offset req < length xml then now_ms else t) rs" by (simp_all add: e)
    note s = svc_reply_read [of m, OF Cons.prems(1) a(1) True [unfolded e] a(2), of xml, unfolded 1 fst_conv snd_conv]
    from Cons.IH [of m1, OF s(1) a(3)] True s(2) show ?thesis
      by (simp add: own_responses_def own_requests_def e 1 2)
  next
    case False
    with Cons.prems have a: "now_ms - t \<le> 60000" "kept_alive xml c t rs" by (simp_all add: e)
    note s = svc_reply_other [of m, OF Cons.prems(1) a(1) False [unfolded e], of xml, unfolded 1 fst_conv]
    from Cons.IH [of m1, OF s a(2)] False show ?thesis
      by (simp add: own_responses_def own_requests_def e 1 2)
  qed
qed (simp add: own_responses_def own_requests_def)

lemma read_answer_data:
  assumes "is_read sid req"
  shows "ftp_data (read_answer xml req) = svc_data xml (read_offset req) (unat (req ! 4))"
proof (cases "length xml \<le> read_offset req")
  case True
  have l: "length (ftp_header req) = 251" using assms by (simp add: length_ftp_header is_read_def)
  have "read_answer xml req ! 3 = 129" using True l by (simp add: read_answer_def svc_error_def)
  with True show ?thesis by (simp add: ftp_data_def svc_data_def)
next
  case False
  define d where "d = svc_data xml (read_offset req) (unat (req ! 4))"
  define hd' where "hd' = (ftp_header req)[4 := of_nat (length d), 6 := (if req ! 3 = 15 then 1 else 0)]"
  have d: "length d \<le> 239" using assms by (auto simp: d_def svc_data_def is_read_def min_def)
  have l: "length hd' = 251" using assms by (simp add: hd'_def length_ftp_header is_read_def)
  have a: "read_answer xml req = take 12 hd' @ d @ drop (12 + length d) hd'"
    using False by (simp add: read_answer_def d_def hd'_def Let_def) (simp add: blit_def)
  have "hd' ! 3 = 128" "hd' ! 4 = of_nat (length d)"
    using l by (simp_all add: hd'_def) (simp add: ftp_header_def Let_def le16_def)
  moreover have "unat (of_nat (length d) :: u8) = length d" using d by (simp add: unat_of_nat)
  ultimately show ?thesis using l by (simp add: ftp_data_def a nth_append d_def [symmetric])
qed

lemma concat_pieces: "concat (map (\<lambda>j. take n (drop (j * n) xs)) [0..<k]) = take (k * n) xs"
proof (induction k)
  case (Suc k)
  have "take (Suc k * n) xs = take (k * n) xs @ take n (drop (k * n) xs)" using take_add [of "k * n" n xs] by (simp add: add.commute)
  with Suc show ?case by simp
qed simp


lemma svc_open_ack:
  assumes "svc_reply xml sys cmp t req m = (m', out)" "length req = 251" "req ! 3 = 4" "out ! 3 = 128"
  shows "m' (sys, cmp, req ! 2) = Some t"
proof -
  have e: "svc_error (ftp_header req) err ! 3 = 129" for err
    using assms(2) by (simp add: svc_error_def length_ftp_header)
  from assms e show ?thesis by (auto simp: svc_reply_def Let_def split: if_splits)
qed

text \<open>C27: A client opens the file and then reads it in pieces of n bytes, one after the other, until it
  has asked for the whole length. Provided its reads are never more than a minute apart, it receives
  exactly the file, whatever had been sent before and whatever other clients do in between.\<close>

theorem camera_ftp_download:
  assumes "ftp_run xml ftp_init before = (ss, outs0)"
    and "ca_camera_ftp_reply xml sys cmp t open_req ss = (ss1, out)" "length open_req = 251" "open_req ! 3 = 4" "out ! 3 = 128"
    and "c = (sys, cmp, open_req ! 2)" "kept_alive xml c t rs" "ftp_run xml ss1 rs = (ss2, outs)"
    and "map (\<lambda>req. (read_offset req, unat (req ! 4))) (own_requests c rs) = map (\<lambda>j. (j * n, n)) [0..<k]" "length xml \<le> k * n"
  shows "concat (map ftp_data (own_responses c rs outs)) = xml"
proof -
  note b = ftp_run_refines [OF ftp_init_ok(1) assms(1)]
  note o = ftp_refines [OF conjunct1 [OF b] assms(2)]
  note r = ftp_run_refines [OF conjunct1 [OF o] assms(8)]
  have m: "ftp_abs ss1 c = Some t" using svc_open_ack [OF conjunct2 [OF o] assms(3,4,5)] assms(6) by simp
  have "list_all (is_read (snd (snd c))) (own_requests c rs)" using assms(7)
  proof (induction rs arbitrary: t)
    case (Cons e rs)
    then show ?case by (cases "mine c e") (auto simp: own_requests_def split: prod.splits)
  qed (simp add: own_requests_def)
  then have "map ftp_data (map (read_answer xml) (own_requests c rs))
      = map (\<lambda>req. svc_data xml (read_offset req) (unat (req ! 4))) (own_requests c rs)"
    by (auto simp: list_all_iff read_answer_data)
  also have "\<dots> = map (\<lambda>(a, b). svc_data xml a b) (map (\<lambda>req. (read_offset req, unat (req ! 4))) (own_requests c rs))" by simp
  also have "\<dots> = map (\<lambda>j. take n (drop (j * n) xml)) [0..<k]" unfolding assms(9) by (simp add: svc_data_def)
  finally show ?thesis
    using svc_run_reads [of "ftp_abs ss1", OF m assms(7)] r assms(10) by (simp add: concat_pieces)
qed

definition demo_ftp :: "u8 \<Rightarrow> u8 \<Rightarrow> u8 \<Rightarrow> bytes \<Rightarrow> bytes" where
  "demo_ftp op offset n dat = [0, 0, 9, op, n, 0, 0, 0, offset, 0, 0, 0] @ dat @ replicate (239 - length dat) 0"


lemma ftp_header_ack: "ftp_header req ! 3 = 128" by (simp add: ftp_header_def Let_def le16_def)

definition demo_open :: bytes where "demo_open = demo_ftp 4 0 10 (drop 1 CA_CAMERA_DEFINITION_PATH)"

lemma demo_open_fields: "length demo_open = 251" "demo_open ! 3 = 4" "demo_open ! 2 = 9" "demo_open ! 4 = 10"
  "request_path demo_open 10 = drop 1 CA_CAMERA_DEFINITION_PATH"
  by (simp_all add: demo_open_def demo_ftp_def CA_CAMERA_DEFINITION_PATH_def ascii_def request_path_def)

lemma demo_ftp_open: "snd (ca_camera_ftp_reply [1, 2, 3] 1 2 1000 demo_open ftp_init) ! 3 = 128"
proof -
  have i: "map (ftp_expire 1000) ftp_init = ftp_init" by (simp add: ftp_expire_def ftp_init_def)
  have o: "open_slot (ftp_match a b c) 0 ftp_init None = Some 0" for a b c
    by (simp add: ftp_init_def ftp_match_def numeral_eq_Suc)
  show ?thesis
    by (simp add: ca_camera_ftp_reply_def i Let_def ftp_finish_def ftp_open_def demo_open_fields o)
      (simp add: blit_def nth_append length_ftp_header demo_open_fields ftp_header_ack)
qed

definition demo_run :: "ftp_event list" where
  "demo_run = [(2000, 1, 2, demo_ftp 5 0 2 []), (2500, 7, 7, demo_ftp 2 0 0 []), (60000, 1, 2, demo_ftp 15 2 2 [])]"

lemma demo_reads: "read_offset (demo_ftp op 0 n []) = 0" "read_offset (demo_ftp op 2 n []) = 2" "is_read 9 (demo_ftp 5 off 2 [])"
    "is_read 9 (demo_ftp 15 off 2 [])" "demo_ftp op off n [] ! 4 = n"
  by (simp_all add: read_offset_def get32_def demo_ftp_def is_read_def)

lemma demo_run_alive: "kept_alive [1, 2, 3] (1, 2, demo_open ! 2) 1000 demo_run"
  by (simp add: demo_run_def demo_open_fields mine_def demo_reads)

lemma demo_run_reads:
  "map (\<lambda>req. (read_offset req, unat (req ! 4))) (own_requests (1, 2, demo_open ! 2) demo_run) = map (\<lambda>j. (j * 2, 2)) [0..<2]"
  by (simp add: demo_run_def own_requests_def mine_def demo_reads upt_rec)

lemma camera_ftp_download_witness:
  "concat (map ftp_data (own_responses (1, 2, 9) demo_run
     (snd (ftp_run [1, 2, 3] (fst (ca_camera_ftp_reply [1, 2, 3] 1 2 1000 demo_open ftp_init)) demo_run)))) = [1, 2, 3]"
proof -
  obtain ss1 out where 1: "ca_camera_ftp_reply [1, 2, 3] 1 2 1000 demo_open ftp_init = (ss1, out)" by fastforce
  obtain ss2 outs where 2: "ftp_run [1, 2, 3] ss1 demo_run = (ss2, outs)" by fastforce
  have 0: "ftp_run [1, 2, 3] ftp_init [] = (ftp_init, [])" by simp
  have out: "out ! 3 = 128" using demo_ftp_open 1 by simp
  have "concat (map ftp_data (own_responses (1, 2, demo_open ! 2) demo_run outs)) = [1, 2, 3]"
    by (rule camera_ftp_download [OF 0 1 demo_open_fields(1,2) out refl demo_run_alive 2 demo_run_reads]) simp
  then show ?thesis by (simp add: 1 2 demo_open_fields(3))
qed

end
