(* ===== verification/Web_Files.thy ===== *)
theory Web_Files
  imports Web_Ini File_System
begin

text \<open>
  How the web server writes files, \<^verbatim>\<open>src/web/mt11-web.c\<close>: \<^verbatim>\<open>save_atomic_file\<close> and \<^verbatim>\<open>save_config\<close>, on
  the file system of \<^verbatim>\<open>File_System\<close>, which may lose power at any moment.
\<close>

subsection \<open>Writing\<close>

text \<open>What \<^verbatim>\<open>write\<close> returns, call by call: it may take less than it is given. A list that ends before the
  data does stands for a program that is stopped there.\<close>

datatype write_result = Wrote nat | Write_interrupted | Write_failed

text \<open>The contents after each call, and whether all was written.\<close>

fun write_all :: "write_result list \<Rightarrow> string \<Rightarrow> string \<Rightarrow> string list \<times> bool" where
  "write_all ws sofar [] = ([], True)"
| "write_all [] sofar rest = ([], False)"
| "write_all (Write_interrupted # ws) sofar rest = write_all ws sofar rest"
| "write_all (Write_failed # ws) sofar rest = ([], False)"
| "write_all (Wrote n # ws) sofar rest =
     (if n = 0 then ([], False)
      else let sofar1 = sofar @ take n rest
        in case write_all ws sofar1 (drop n rest) of (ts, ok) \<Rightarrow> (sofar1 # ts, ok))"

record save_env =
  path_fits :: bool
  open_ok :: bool
  chmod_ok :: bool
  writes :: "write_result list"
  fsync_ok :: bool
  close_ok :: bool
  rename_ok :: bool
  dir_ok :: bool

text \<open>The temporary file of the process with this number.\<close>

definition web_new :: "path \<Rightarrow> nat \<Rightarrow> path" where
  "web_new p pid = p @ ''.web.new.'' @ dec_nat pid"

text \<open>Opening, setting the owner or mode, writing and syncing a new file, up to the first call that fails.\<close>

definition write_temp :: "save_env \<Rightarrow> path \<Rightarrow> string \<Rightarrow> disk \<Rightarrow> disk list \<times> bool" where
  "write_temp e tmp contents d =
     (if \<not> open_ok e then ([], False)
      else
        let d1 = fs_write tmp [] d
        in if \<not> chmod_ok e then ([d1], False)
           else case write_all (writes e) [] contents of (ts, ok) \<Rightarrow>
             let ds = d1 # map (\<lambda>t. fs_write tmp t d1) ts
             in if \<not> ok \<or> \<not> fsync_ok e then (ds, False) else (ds @ [fs_sync tmp (last ds)], True))"

definition save_atomic_file :: "save_env \<Rightarrow> nat \<Rightarrow> path \<Rightarrow> string \<Rightarrow> disk \<Rightarrow> disk list \<times> bool" where
  "save_atomic_file e pid p contents d0 =
     (if \<not> path_fits e then ([d0], False)
      else
        let tmp = web_new p pid; d1 = fs_unlink tmp d0
        in case write_temp e tmp contents d1 of (ds, ok) \<Rightarrow>
          let d2 = last (d1 # ds)
          in if \<not> ok \<or> \<not> close_ok e \<or> \<not> rename_ok e then (d1 # ds @ [fs_unlink tmp d2], False)
             else
               let d3 = fs_rename tmp p d2
               in if \<not> dir_ok e then (d1 # ds @ [d3], False) else (d1 # ds @ [d3, fs_sync_dir d3], True))"

text \<open>\<^verbatim>\<open>save_config\<close> keeps a copy of the old configuration; \<^verbatim>\<open>source_ok\<close> is that the old one can be opened and
  read. It ignores whether the directory was synced.\<close>

definition copy_to_temp :: "save_env \<Rightarrow> bool \<Rightarrow> path \<Rightarrow> path \<Rightarrow> disk \<Rightarrow> disk list \<times> bool" where
  "copy_to_temp e source_ok source tmp d =
     (case visible d source of
        None \<Rightarrow> ([fs_unlink tmp d], False)
      | Some (t, _) \<Rightarrow>
          if \<not> source_ok then ([fs_unlink tmp d], False)
          else case write_temp e tmp t d of (ds, ok) \<Rightarrow>
            if ok then (ds, True) else (ds @ [fs_unlink tmp (last (d # ds))], False))"

definition web_bak_new :: "path \<Rightarrow> nat \<Rightarrow> path" where
  "web_bak_new p pid = p @ ''.web.bak.new.'' @ dec_nat pid"

definition save_config ::
  "save_env \<Rightarrow> save_env \<Rightarrow> bool \<Rightarrow> bool \<Rightarrow> nat \<Rightarrow> path \<Rightarrow> path \<Rightarrow> string \<Rightarrow> disk \<Rightarrow> disk list \<times> bool" where
  "save_config ce e stat_ok source_ok pid config_path backup_path config d0 =
     (if validate_ini config \<noteq> None \<or> \<not> stat_ok \<or> \<not> path_fits e then ([d0], False)
      else
        let config_temp = web_new config_path pid; backup_temp = web_bak_new config_path pid;
            d1 = fs_unlink config_temp d0; d2 = fs_unlink backup_temp d1;
            finish = (\<lambda>ds ok. let d = last ds; d' = fs_unlink config_temp d in (ds @ [d', fs_unlink backup_temp d'], ok))
        in case copy_to_temp ce source_ok config_path backup_temp d2 of (ds, copied) \<Rightarrow>
          let ds1 = d1 # d2 # ds
          in if \<not> copied \<or> \<not> rename_ok ce then finish ds1 False
             else
               let d3 = fs_rename backup_temp backup_path (last ds1)
               in case write_temp e config_temp config d3 of (ds', written) \<Rightarrow>
                 let ds2 = ds1 @ d3 # ds'
                 in if \<not> written \<or> \<not> rename_ok e then finish ds2 False
                    else
                      let d4 = fs_rename config_temp config_path (last ds2)
                      in if dir_ok e then finish (ds2 @ [d4, fs_sync_dir d4]) True else finish (ds2 @ [d4]) True)"

subsection \<open>What the calls leave alone\<close>

lemma web_new_neq [simp]: "web_new p pid \<noteq> p" "p \<noteq> web_new p pid" "web_bak_new p pid \<noteq> p" "p \<noteq> web_bak_new p pid"
  "web_new p pid \<noteq> web_bak_new p pid" "web_bak_new p pid \<noteq> web_new p pid"
  by (simp_all add: web_new_def web_bak_new_def)

lemma write_all_last: "write_all ws sofar rest = (ts, True) \<Longrightarrow> last (sofar # ts) = sofar @ rest"
  by (induction ws sofar rest arbitrary: ts rule: write_all.induct) (auto simp: Let_def split: prod.splits if_splits)

lemma write_temp_result:
  assumes "write_temp e tmp contents d = (ds, ok)"
  shows "list_all (only_temp tmp d) ds" "ok \<longrightarrow> visible (last (d # ds)) tmp = Some (contents, True)"
    "ok \<longleftrightarrow> open_ok e \<and> chmod_ok e \<and> snd (write_all (writes e) [] contents) \<and> fsync_ok e"
proof -
  obtain ts wok where w: "write_all (writes e) [] contents = (ts, wok)" by fastforce
  show "list_all (only_temp tmp d) ds"
    using assms by (auto simp: write_temp_def w only_temp_def list_all_iff Let_def last_map split: if_splits)
  show "ok \<longrightarrow> visible (last (d # ds)) tmp = Some (contents, True)"
    using assms write_all_last [of "writes e" "[]" contents ts] by (auto simp: write_temp_def w Let_def last_map split: if_splits)
  show "ok \<longleftrightarrow> open_ok e \<and> chmod_ok e \<and> snd (write_all (writes e) [] contents) \<and> fsync_ok e"
    using assms by (auto simp: write_temp_def w Let_def split: if_splits)
qed

definition save_completes :: "save_env \<Rightarrow> string \<Rightarrow> bool" where
  "save_completes e contents \<longleftrightarrow> path_fits e \<and> open_ok e \<and> chmod_ok e \<and> snd (write_all (writes e) [] contents)
     \<and> fsync_ok e \<and> close_ok e \<and> rename_ok e"

text \<open>C28: Replacing a file is all or nothing. Whatever calls fail, however the writing is cut up, and
  whenever the power fails, the file afterwards holds either what it held before or the whole
  new contents. A reported success survives a loss of power. After a reported failure the file
  is as it was, unless only the last step, making the new name durable, failed. No temporary file
  stays behind and no other file is touched.\<close>

theorem web_save_atomic:
  assumes "safe_file d0 p c" "save_atomic_file e pid p contents d0 = (ds, ok)" "q \<noteq> p" "q \<noteq> web_new p pid"
  shows "list_all (\<lambda>d. \<forall>c'. after_crash d p c' \<longrightarrow> c' = c \<or> c' = Some contents) ds
     \<and> (if ok then safe_file (last ds) p (Some contents)
        else map_option fst (visible (last ds) p) = (if save_completes e contents then Some contents else c))
     \<and> (path_fits e \<longrightarrow> visible (last ds) (web_new p pid) = None)
     \<and> list_all (\<lambda>d. visible d q = visible d0 q \<and> (durable d q = durable d0 q \<or> durable d q = visible d0 q)) ds"
proof (cases "path_fits e")
  case True
  define tmp where "tmp = web_new p pid"
  have neq: "p \<noteq> tmp" "q \<noteq> tmp" using assms(4) by (simp_all add: tmp_def)
  define d1 where "d1 = fs_unlink tmp d0"
  obtain ws wok where w: "write_temp e tmp contents d1 = (ws, wok)" by fastforce
  note r = write_temp_result [OF w]
  note l = only_temp_last [OF r(1)]
  have "save_atomic_file e pid p contents d0 =
     (if \<not> wok \<or> \<not> close_ok e \<or> \<not> rename_ok e then (d1 # ws @ [fs_unlink tmp (last (d1 # ws))], False)
     else if \<not> dir_ok e then (d1 # ws @ [fs_rename tmp p (last (d1 # ws))], False)
     else (d1 # ws @ [fs_rename tmp p (last (d1 # ws)), fs_sync_dir (fs_rename tmp p (last (d1 # ws)))], True))"
    using True w unfolding d1_def by (simp add: save_atomic_file_def tmp_def [symmetric] Let_def del: last.simps)
  with assms(2) have e: "(ds, ok) = (if \<not> wok \<or> \<not> close_ok e \<or> \<not> rename_ok e then (d1 # ws @ [fs_unlink tmp (last (d1 # ws))], False)
     else if \<not> dir_ok e then (d1 # ws @ [fs_rename tmp p (last (d1 # ws))], False)
     else (d1 # ws @ [fs_rename tmp p (last (d1 # ws)), fs_sync_dir (fs_rename tmp p (last (d1 # ws)))], True))" by simp
  have mid: "list_all (\<lambda>d. visible d p = visible d0 p \<and> durable d = durable d0 \<and> visible d q = visible d0 q) (d1 # ws)"
    using r(1) neq by (auto simp: list_all_iff only_temp_def d1_def)
  have end_visible: "wok \<longrightarrow> visible (fs_rename tmp p (last (d1 # ws))) p = Some (contents, True)"
    using r(2) neq by simp
  have last_state: "visible (last (d1 # ws)) q = visible d0 q" "durable (last (d1 # ws)) = durable d0" "visible (last (d1 # ws)) p = visible d0 p"
    using l neq by (auto simp: only_temp_def d1_def)
  have c: "save_completes e contents \<longleftrightarrow> wok \<and> close_ok e \<and> rename_ok e" using r(3) True by (auto simp: save_completes_def)
  have "list_all (\<lambda>d. visible d q = visible d0 q \<and> (durable d q = durable d0 q \<or> durable d q = visible d0 q)) ds"
    using e mid last_state neq assms(3) by (auto simp: list_all_iff split: if_splits)
  moreover have "list_all (\<lambda>d. (visible d p = visible d0 p \<or> visible d p = Some (contents, True))
      \<and> (durable d p = durable d0 p \<or> durable d p = Some (contents, True))) ds"
    using e mid last_state neq end_visible by (auto simp: list_all_iff split: if_splits)
  then have "list_all (\<lambda>d. \<forall>c'. after_crash d p c' \<longrightarrow> c' = c \<or> c' = Some contents) ds"
    by (rule list.pred_mono_strong) (use assms(1) in \<open>auto simp: after_crash_def safe_file_def\<close>)
  moreover have "if ok then safe_file (last ds) p (Some contents)
        else map_option fst (visible (last ds) p) = (if save_completes e contents then Some contents else c)"
    using e c end_visible last_state neq assms(1) by (auto simp: safe_file_def split: if_splits)
  moreover have "visible (last ds) tmp = None" using e neq by (auto split: if_splits)
  ultimately show ?thesis by (simp add: tmp_def)
next
  case False
  with assms show ?thesis by (auto simp: save_atomic_file_def save_completes_def safe_file_crash) (auto simp: safe_file_def)
qed


definition demo_save_env :: "write_result list \<Rightarrow> save_env" where
  "demo_save_env ws = \<lparr>path_fits = True, open_ok = True, chmod_ok = True, writes = ws, fsync_ok = True, close_ok = True,
     rename_ok = True, dir_ok = True\<rparr>"

definition demo_disk :: disk where
  "demo_disk = \<lparr>visible = [''keys'' \<mapsto> (''old'', True)], durable = [''keys'' \<mapsto> (''old'', True)]\<rparr>"

lemma web_save_atomic_witness:
  "safe_file (last (fst (save_atomic_file (demo_save_env [Wrote 2, Write_interrupted, Wrote 9]) 7 ''keys'' ''fresh'' demo_disk)))
     ''keys'' (Some ''fresh'')"
proof -
  have d: "safe_file demo_disk ''keys'' (Some ''old'')" by (simp add: safe_file_def demo_disk_def)
  obtain ds ok where s: "save_atomic_file (demo_save_env [Wrote 2, Write_interrupted, Wrote 9]) 7 ''keys'' ''fresh'' demo_disk = (ds, ok)"
    by fastforce
  have "snd (save_atomic_file (demo_save_env [Wrote 2, Write_interrupted, Wrote 9]) 7 ''keys'' ''fresh'' demo_disk)"
    by (simp add: save_atomic_file_def demo_save_env_def write_temp_def Let_def del: last.simps)
  then have "ok" using s by simp
  with web_save_atomic [OF d s, of "''x''"] s show ?thesis by (simp add: web_new_def)
qed

subsection \<open>Saving the configuration\<close>

text \<open>The states between which the configuration and its backup move.\<close>

definition config_moves :: "path \<Rightarrow> path \<Rightarrow> fs_file \<Rightarrow> fs_file \<Rightarrow> fs_file \<Rightarrow> disk \<Rightarrow> bool" where
  "config_moves cp bp old new bak d \<longleftrightarrow>
     (visible d cp = old \<or> visible d cp = new) \<and> (durable d cp = old \<or> durable d cp = new)
     \<and> (visible d bp = bak \<or> visible d bp = old) \<and> (durable d bp = bak \<or> durable d bp = old)"

lemma config_moves_temp: "list_all (only_temp tmp d) ds \<Longrightarrow> config_moves cp bp old new bak d \<Longrightarrow> cp \<noteq> tmp \<Longrightarrow> bp \<noteq> tmp \<Longrightarrow>
   list_all (config_moves cp bp old new bak) ds"
  by (erule list.pred_mono_strong) (auto simp: only_temp_def config_moves_def)

lemma config_moves_unlink: "config_moves cp bp old new bak d \<Longrightarrow> cp \<noteq> q \<Longrightarrow> bp \<noteq> q \<Longrightarrow> config_moves cp bp old new bak (fs_unlink q d)"
  by (simp add: config_moves_def)

lemma copy_to_temp_result:
  assumes "copy_to_temp e source_ok source tmp d = (ds, ok)"
  shows "list_all (only_temp tmp d) ds" "ok \<longrightarrow> source_ok \<and> (\<exists>t b. visible d source = Some (t, b) \<and> visible (last (d # ds)) tmp = Some (t, True))"
proof -
  have "list_all (only_temp tmp d) ds \<and> (ok \<longrightarrow> source_ok \<and> (\<exists>t b. visible d source = Some (t, b) \<and> visible (last (d # ds)) tmp = Some (t, True)))"
  proof (cases "visible d source")
    case None
    with assms show ?thesis by (auto simp: copy_to_temp_def only_temp_def)
  next
    case (Some tb)
    obtain t b where t: "visible d source = Some (t, b)" using Some by (cases tb) simp
    obtain ws wok where w: "write_temp e tmp t d = (ws, wok)" by fastforce
    note r = write_temp_result [OF w]
    have "only_temp tmp d (fs_unlink tmp (last (d # ws)))" using only_temp_last [OF r(1)] by (simp add: only_temp_def)
    with assms t w r show ?thesis by (auto simp: copy_to_temp_def only_temp_def split: if_splits)
  qed
  then show "list_all (only_temp tmp d) ds" "ok \<longrightarrow> source_ok \<and> (\<exists>t b. visible d source = Some (t, b) \<and> visible (last (d # ds)) tmp = Some (t, True))"
    by auto
qed


text \<open>Saving the configuration is all or nothing too, and the backup is never the worse: at every
  moment, also after a loss of power, the configuration is the old or the whole new one and the
  backup is what it was or the old configuration. A text that is not a valid configuration is never
  written. After success the new configuration is in place and the backup holds the old one;
  after a failure the configuration is unchanged. No temporary file stays behind.\<close>

theorem web_save_config:
  assumes "safe_file d0 cp (Some old)" "safe_file d0 bp bak" "save_config ce e stat_ok source_ok pid cp bp config d0 = (ds, ok)"
    and "bp \<noteq> cp" "bp \<noteq> web_new cp pid" "bp \<noteq> web_bak_new cp pid"
  shows "list_all (\<lambda>d. (\<forall>c. after_crash d cp c \<longrightarrow> c = Some old \<or> c = Some config)
        \<and> (\<forall>c. after_crash d bp c \<longrightarrow> c = bak \<or> c = Some old)) ds
     \<and> (ok \<longrightarrow> validate_ini config = None \<and> visible (last ds) cp = Some (config, True) \<and> visible (last ds) bp = Some (old, True))
     \<and> (\<not> ok \<longrightarrow> visible (last ds) cp = Some (old, True))
     \<and> (length ds \<noteq> 1 \<longrightarrow> visible (last ds) (web_new cp pid) = None \<and> visible (last ds) (web_bak_new cp pid) = None)"
proof -
  define ct where "ct = web_new cp pid"
  define bt where "bt = web_bak_new cp pid"
  have neq: "bp \<noteq> cp" "cp \<noteq> bp" "bp \<noteq> ct" "bp \<noteq> bt" "cp \<noteq> ct" "cp \<noteq> bt" "ct \<noteq> bt" "bt \<noteq> ct" "ct \<noteq> cp" "bt \<noteq> cp" "ct \<noteq> bp" "bt \<noteq> bp"
    using assms(4-6) by (auto simp: ct_def bt_def)
  define bakf where "bakf = map_option (\<lambda>t. (t, True)) bak"
  define M where "M = config_moves cp bp (Some (old, True)) (Some (config, True)) bakf"
  have M0: "M d0" using assms(1,2) by (simp add: M_def config_moves_def safe_file_def bakf_def)
  have crash: "list_all (\<lambda>d. (\<forall>c. after_crash d cp c \<longrightarrow> c = Some old \<or> c = Some config)
        \<and> (\<forall>c. after_crash d bp c \<longrightarrow> c = bak \<or> c = Some old)) ds" if "list_all M ds" for ds
    using that by (rule list.pred_mono_strong) (auto simp: M_def config_moves_def after_crash_def bakf_def)
  have unl: "M d \<Longrightarrow> M (fs_unlink ct d)" "M d \<Longrightarrow> M (fs_unlink bt d)" for d
    using config_moves_unlink neq by (auto simp: M_def)
  have tmp: "list_all (only_temp ct d) ws \<Longrightarrow> M d \<Longrightarrow> list_all M ws" "list_all (only_temp bt d) ws \<Longrightarrow> M d \<Longrightarrow> list_all M ws" for d ws
    using config_moves_temp neq by (auto simp: M_def)
  have at_last: "list_all M ws \<Longrightarrow> M d \<Longrightarrow> M (last (d # ws))" for d ws by (simp add: list_all_iff)
  show ?thesis
  proof (cases "validate_ini config \<noteq> None \<or> \<not> stat_ok \<or> \<not> path_fits e")
    case True
    with assms(3) have "ds = [d0]" "\<not> ok" by (auto simp: save_config_def)
    with crash [of "[d0]"] M0 assms(1) show ?thesis by (simp add: safe_file_def)
  next
    case go: False
    define d2 where "d2 = fs_unlink bt (fs_unlink ct d0)"
    define finish where "finish ws = ws @ [fs_unlink ct (last ws), fs_unlink bt (fs_unlink ct (last ws))]" for ws
    obtain cs copied where c: "copy_to_temp ce source_ok cp bt d2 = (cs, copied)" by fastforce
    note cr = copy_to_temp_result [OF c]
    define ds1 where "ds1 = fs_unlink ct d0 # d2 # cs"
    define d3 where "d3 = fs_rename bt bp (last ds1)"
    obtain ws written where w: "write_temp e ct config d3 = (ws, written)" by fastforce
    note wr = write_temp_result [OF w]
    define ds2 where "ds2 = ds1 @ d3 # ws"
    define d4 where "d4 = fs_rename ct cp (last ds2)"
    have "save_config ce e stat_ok source_ok pid cp bp config d0 = (if \<not> copied \<or> \<not> rename_ok ce then (finish ds1, False)
       else if \<not> written \<or> \<not> rename_ok e then (finish ds2, False)
       else (finish (if dir_ok e then ds2 @ [d4, fs_sync_dir d4] else ds2 @ [d4]), True))"
      using go c w unfolding d4_def ds2_def d3_def ds1_def d2_def finish_def save_config_def ct_def [symmetric] bt_def [symmetric]
      by (cases copied; cases "rename_ok ce"; cases written; cases "rename_ok e"; cases "dir_ok e") (simp_all add: Let_def del: last.simps)
    with assms(3) have e: "(ds, ok) = (if \<not> copied \<or> \<not> rename_ok ce then (finish ds1, False)
       else if \<not> written \<or> \<not> rename_ok e then (finish ds2, False)
       else (finish (if dir_ok e then ds2 @ [d4, fs_sync_dir d4] else ds2 @ [d4]), True))" by simp
    have M2: "M d2" using M0 unl by (simp add: d2_def)
    have M1s: "list_all M ds1" using M0 M2 unl tmp(2) [OF cr(1)] by (simp add: ds1_def)
    have l1: "last ds1 = last (d2 # cs)" by (simp add: ds1_def)
    have old1: "visible (last ds1) cp = Some (old, True)"
      using only_temp_last [OF cr(1)] neq assms(1) by (simp add: l1 only_temp_def d2_def safe_file_def)
    have fin: "list_all M (finish zs)" if "list_all M zs" "zs \<noteq> []" for zs
      using that unl by (auto simp: finish_def list_all_iff)
    have finl: "visible (last (finish zs)) p = (if p = bt \<or> p = ct then None else visible (last zs) p)" "length (finish zs) \<noteq> 1 \<longleftrightarrow> True" for zs p
      by (auto simp: finish_def)
    have copied: "visible (last ds1) bt = Some (old, True)" if copied
      using cr(2) that neq assms(1) by (auto simp: l1 d2_def safe_file_def)
    have M3: "M d3" "visible d3 bp = Some (old, True)" "visible d3 cp = Some (old, True)" if copied
      using copied [OF that] old1 M1s neq by (auto simp: d3_def M_def config_moves_def ds1_def list_all_iff)
    have M2s: "list_all M ds2" if copied using M1s M3 [OF that] tmp(1) [OF wr(1)] by (simp add: ds2_def)
    have l2: "last ds2 = last (d3 # ws)" by (simp add: ds2_def)
    have at2: "visible (last ds2) bp = visible d3 bp" "visible (last ds2) cp = visible d3 cp"
      using only_temp_last [OF wr(1)] neq by (simp_all add: l2 only_temp_def)
    have M4: "M d4" "visible d4 cp = Some (config, True)" "visible d4 bp = Some (old, True)" if copied written
    proof -
      have "M (last ds2)" using at_last [OF _ M3(1)] M2s that by (simp add: l2 ds2_def)
      then show "M d4" "visible d4 cp = Some (config, True)" "visible d4 bp = Some (old, True)"
        using wr(2) that at2 M3 neq by (auto simp: d4_def M_def config_moves_def l2)
    qed
    have M5: "M (fs_sync_dir d4)" if copied written using M4 [OF that] neq by (auto simp: M_def config_moves_def)
    have "list_all M ds"
      using e fin M1s M2s M4(1) M5 by (auto simp: ds1_def [symmetric] split: if_splits) (auto simp: ds1_def ds2_def intro!: fin)
    from crash [OF this] show ?thesis
      using e finl neq old1 at2 M3 M4 go unfolding ct_def [symmetric] bt_def [symmetric] by (auto split: if_splits)
  qed
qed


definition demo_config :: string where "demo_config = ''[a]'' @ [NL] @ ''b=1'' @ [NL]"

definition demo_config_disk :: disk where
  "demo_config_disk = \<lparr>visible = [''ini'' \<mapsto> (''old'', True)], durable = [''ini'' \<mapsto> (''old'', True)]\<rparr>"

lemma demo_config_valid: "validate_ini demo_config = None"
  by (simp add: validate_ini_def demo_config_def MAX_CONFIG_def validate_loop.simps trim_def rstrip_def first_line_def next_lines_def
      isspace_def code_def is_comment_def is_section_def split_at_def)

lemma web_save_config_witness:
  "visible (last (fst (save_config (demo_save_env [Wrote 9]) (demo_save_env [Wrote 1, Wrote 99]) True True 7 ''ini'' ''bak'' demo_config
     demo_config_disk))) ''bak'' = Some (''old'', True)"
proof -
  have d: "safe_file demo_config_disk ''ini'' (Some ''old'')" "safe_file demo_config_disk ''bak'' None"
    by (simp_all add: safe_file_def demo_config_disk_def)
  have n: "''bak'' \<noteq> ''ini''" "''bak'' \<noteq> web_new ''ini'' 7" "''bak'' \<noteq> web_bak_new ''ini'' 7"
    by (simp_all add: web_new_def web_bak_new_def)
  obtain ds ok where s: "save_config (demo_save_env [Wrote 9]) (demo_save_env [Wrote 1, Wrote 99]) True True 7 ''ini'' ''bak'' demo_config
      demo_config_disk = (ds, ok)" by fastforce
  have "snd (save_config (demo_save_env [Wrote 9]) (demo_save_env [Wrote 1, Wrote 99]) True True 7 ''ini'' ''bak'' demo_config demo_config_disk)"
    by (simp add: save_config_def demo_config_valid demo_save_env_def write_temp_def copy_to_temp_def demo_config_disk_def Let_def
        web_new_def web_bak_new_def del: last.simps) (simp add: demo_config_def Let_def)
  then have ok using s by simp
  with web_save_config [OF d s n] s show ?thesis by simp
qed

end
