(* ===== verification/Web_Keys.thy ===== *)
theory Web_Keys
  imports Web_Request Web_Ini
begin

text \<open>
  The users of the web server, \<^verbatim>\<open>src/web/mt11-web.c\<close>: adding and removing the public keys that may log in
  by SSH, and changing the password. Each is a function from the form and the file as it is to the new
  contents of the file, or an error; the contents are then installed by \<^verbatim>\<open>save_atomic_file\<close>.
\<close>

subsection \<open>Public keys\<close>

definition MAX_AUTHORIZED_KEYS :: nat where "MAX_AUTHORIZED_KEYS = 64 * 1024"

record public_key_view =
  pk_type :: string
  pk_blob :: string
  pk_comment :: string

definition pk_blank :: "char \<Rightarrow> bool" where "pk_blank c \<longleftrightarrow> c = CHR '' '' \<or> c = CHR 0x09"

definition supported_public_key_type :: "string \<Rightarrow> bool" where
  "supported_public_key_type t \<longleftrightarrow> t \<in> set [''ssh-ed25519'', ''ssh-rsa'', ''ecdsa-sha2-nistp256'', ''ecdsa-sha2-nistp384'',
     ''ecdsa-sha2-nistp521'', ''sk-ssh-ed25519@openssh.com'', ''sk-ecdsa-sha2-nistp256@openssh.com'']"

text \<open>The characters of the blob: no character but more padding follows padding.\<close>

fun blob_chars :: "bool \<Rightarrow> string \<Rightarrow> bool" where
  "blob_chars padding [] = True"
| "blob_chars padding (c # cs) =
     (if c = CHR ''='' then blob_chars True cs
      else \<not> padding \<and> (isalnum c \<or> c = CHR ''+'' \<or> c = CHR ''/'') \<and> blob_chars padding cs)"

definition blob_ok :: "string \<Rightarrow> bool" where
  "blob_ok b \<longleftrightarrow> blob_chars False b \<and> 16 \<le> length b \<and> length b \<le> 16384
     \<and> length (takeWhile (\<lambda>c. c = CHR ''='') (rev b)) \<le> 2 \<and> length b mod 4 = 0"

definition comment_ok :: "string \<Rightarrow> bool" where
  "comment_ok s \<longleftrightarrow> list_all (\<lambda>c. \<not> (code c < 0x20 \<or> code c = 0x7f)) s"

definition parse_public_key :: "string \<Rightarrow> public_key_view option" where
  "parse_public_key line =
     (let t = rev (dropWhile (\<lambda>c. pk_blank c \<or> c = CR) (rev (dropWhile pk_blank line)));
          ty = takeWhile (\<lambda>c. \<not> pk_blank c) t;
          rest = dropWhile pk_blank (dropWhile (\<lambda>c. \<not> pk_blank c) t);
          blob = takeWhile (\<lambda>c. \<not> pk_blank c) rest;
          comment = dropWhile pk_blank (dropWhile (\<lambda>c. \<not> pk_blank c) rest)
      in if t = [] \<or> \<not> supported_public_key_type ty \<or> \<not> blob_ok blob \<or> \<not> comment_ok comment then None
         else Some \<lparr>pk_type = ty, pk_blob = blob, pk_comment = comment\<rparr>)"

text \<open>Two keys are the same if their types and blobs are.\<close>

definition identity :: "public_key_view \<Rightarrow> string \<times> string" where
  "identity k = (pk_type k, pk_blob k)"

definition public_key_identity_equal :: "public_key_view \<Rightarrow> public_key_view \<Rightarrow> bool" where
  "public_key_identity_equal a b \<longleftrightarrow> pk_type a = pk_type b \<and> pk_blob a = pk_blob b"

lemma identity_equal: "public_key_identity_equal a b \<longleftrightarrow> identity a = identity b"
  by (simp add: public_key_identity_equal_def identity_def)

text \<open>The lines of a text, as the loops walk over them.\<close>

function key_lines :: "string \<Rightarrow> string list" where
  "key_lines p = (if p = [] then [] else first_line p # key_lines (next_lines p))"
  by pat_completeness auto
termination
  by (relation "measure length") (auto simp: next_lines_shorter)

declare key_lines.simps [simp del]

datatype key_error = Key_required | Keys_too_large | Key_malformed nat | Key_duplicate_line nat | Keys_read
  | Key_already nat | Key_file_too_large | Key_remove_unconfirmed | Key_selection | Key_absent | Key_last

definition strip_blanks :: "string \<Rightarrow> string" where
  "strip_blanks s = rev (dropWhile pk_blank (rev (dropWhile pk_blank s)))"

text \<open>The keys of a form: their lines without the blanks around them, and parsed.\<close>

fun key_candidates :: "string list \<Rightarrow> nat \<Rightarrow> key_error + (public_key_view \<times> string) list" where
  "key_candidates [] n = Inr []"
| "key_candidates (l # ls) n =
     (let s = strip_blanks l
      in if s = [] then key_candidates ls n
         else case parse_public_key s of
           None \<Rightarrow> Inl (Key_malformed (n + 1))
         | Some k \<Rightarrow>
             (case key_candidates ls (n + 1) of Inl e \<Rightarrow> Inl e | Inr ks \<Rightarrow> Inr ((k, s) # ks)))"

text \<open>The number of the first key that repeats an earlier one.\<close>

fun find_duplicate :: "public_key_view list \<Rightarrow> public_key_view list \<Rightarrow> nat option" where
  "find_duplicate seen [] = None"
| "find_duplicate seen (k # ks) =
     (if list_ex (\<lambda>p. public_key_identity_equal k p) seen then Some (length seen + 1)
      else find_duplicate (seen @ [k]) ks)"

definition line_has_key :: "public_key_view \<Rightarrow> string \<Rightarrow> bool" where
  "line_has_key k line \<longleftrightarrow> (case parse_public_key line of None \<Rightarrow> False | Some current \<Rightarrow> public_key_identity_equal k current)"

fun find_already :: "string list \<Rightarrow> nat \<Rightarrow> public_key_view list \<Rightarrow> nat option" where
  "find_already lines n [] = None"
| "find_already lines n (k # ks) =
     (if list_ex (line_has_key k) lines then Some (n + 1) else find_already lines (n + 1) ks)"

text \<open>The size of the new file: the subtraction is one of \<^verbatim>\<open>size_t\<close>.\<close>

definition size_minus :: "nat \<Rightarrow> nat \<Rightarrow> nat" where
  "size_minus a b = (a + 2 ^ 64 - b) mod 2 ^ 64"

fun updated_length :: "nat \<Rightarrow> string list \<Rightarrow> nat option" where
  "updated_length n [] = Some n"
| "updated_length n (s # ss) =
     (if size_minus (size_minus MAX_AUTHORIZED_KEYS (length s)) 1 < n then None else updated_length (n + length s + 1) ss)"

definition with_newline :: "string \<Rightarrow> string" where
  "with_newline s = (if s \<noteq> [] \<and> last s \<noteq> NL then s @ [NL] else s)"

text \<open>The file is read with a limit; a file that does not exist is an empty one, one that is too long
  cannot be read.\<close>

definition read_authorized_keys :: "string option \<Rightarrow> string option" where
  "read_authorized_keys f = (case f of None \<Rightarrow> Some [] | Some s \<Rightarrow> if MAX_AUTHORIZED_KEYS < length s then None else Some s)"

definition add_authorized_keys :: "string option \<Rightarrow> string option \<Rightarrow> key_error + (string \<times> nat)" where
  "add_authorized_keys form f =
     (case form of
        None \<Rightarrow> Inl Key_required
      | Some text0 \<Rightarrow>
          if text0 = [] then Inl Key_required
          else
            let input = normalize_newlines text0
            in if MAX_AUTHORIZED_KEYS < length input then Inl Keys_too_large
               else case key_candidates (key_lines input) 0 of
                 Inl e \<Rightarrow> Inl e
               | Inr cands \<Rightarrow>
                   if cands = [] then Inl Key_required
                   else case find_duplicate [] (map fst cands) of
                     Some n \<Rightarrow> Inl (Key_duplicate_line n)
                   | None \<Rightarrow>
                       (case read_authorized_keys f of
                          None \<Rightarrow> Inl Keys_read
                        | Some existing \<Rightarrow>
                            (case find_already (key_lines existing) 0 (map fst cands) of
                               Some n \<Rightarrow> Inl (Key_already n)
                             | None \<Rightarrow>
                                 (case updated_length (length (with_newline existing)) (map snd cands) of
                                    None \<Rightarrow> Inl Key_file_too_large
                                  | Some _ \<Rightarrow>
                                      Inr (with_newline existing @ concat (map (\<lambda>(k, s). s @ [NL]) cands), length cands)))))"

text \<open>Removing a key: the lines that stay, whether the key was found, and how many keys stay.\<close>

function remove_loop :: "public_key_view \<Rightarrow> string \<Rightarrow> bool \<Rightarrow> nat \<Rightarrow> string \<Rightarrow> string \<times> bool \<times> nat" where
  "remove_loop wanted p found remaining used =
     (if p = [] then (used, found, remaining)
      else
        let line = first_line p; parsed = parse_public_key line
        in if \<not> found \<and> line_has_key wanted line then remove_loop wanted (next_lines p) True remaining used
           else remove_loop wanted (next_lines p) found (if parsed \<noteq> None then remaining + 1 else remaining) (used @ line @ line_end p))"
  by pat_completeness auto
termination
  by (relation "measure (\<lambda>(w, p, f, r, u). length p)") (auto simp: next_lines_shorter)

declare remove_loop.simps [simp del]

definition remove_authorized_key :: "string option \<Rightarrow> string option \<Rightarrow> string option \<Rightarrow> key_error + string" where
  "remove_authorized_key form confirmation f =
     (if confirmation \<noteq> Some ''yes'' then Inl Key_remove_unconfirmed
      else case (case form of None \<Rightarrow> None | Some t \<Rightarrow> parse_public_key t) of
        None \<Rightarrow> Inl Key_selection
      | Some wanted \<Rightarrow>
          (case read_authorized_keys f of
             None \<Rightarrow> Inl Keys_read
           | Some existing \<Rightarrow>
               (case remove_loop wanted existing False 0 [] of
                  (updated, found, remaining) \<Rightarrow>
                    if \<not> found then Inl Key_absent else if remaining = 0 then Inl Key_last else Inr updated)))"

subsection \<open>What a file of keys authorises\<close>

definition parsed_keys :: "string list \<Rightarrow> (string \<times> string) list" where
  "parsed_keys lines = map identity (map the (filter (\<lambda>k. k \<noteq> None) (map parse_public_key lines)))"

definition authorized :: "string \<Rightarrow> (string \<times> string) list" where
  "authorized s = parsed_keys (key_lines s)"


subsection \<open>Lines\<close>

lemma first_line_no_NL: "NL \<notin> set (first_line p)"
  by (auto simp: first_line_def dest: set_takeWhileD)

lemma key_lines_Nil [simp]: "key_lines [] = []" by (simp add: key_lines.simps)

lemma line_split: "NL \<notin> set l \<Longrightarrow> first_line (l @ NL # r) = l \<and> next_lines (l @ NL # r) = r"
  by (induction l) (auto simp: first_line_def next_lines_def)

lemma no_line: "NL \<notin> set p \<Longrightarrow> first_line p = p \<and> next_lines p = []"
  by (induction p) (auto simp: first_line_def next_lines_def)

lemma key_lines_line: "NL \<notin> set l \<Longrightarrow> key_lines (l @ NL # r) = l # key_lines r"
  by (subst key_lines.simps) (simp add: line_split)

lemma key_lines_last: "NL \<notin> set l \<Longrightarrow> l \<noteq> [] \<Longrightarrow> key_lines l = [l]"
  by (subst key_lines.simps) (simp add: no_line)

lemma split_line: "NL \<in> set p \<Longrightarrow> p = first_line p @ NL # next_lines p"
  by (induction p) (auto simp: first_line_def next_lines_def)

lemma with_newline_no_line: "NL \<notin> set p \<Longrightarrow> p \<noteq> [] \<Longrightarrow> with_newline p = p @ [NL]"
  by (metis last_in_set with_newline_def)

lemma with_newline_step: "NL \<in> set p \<Longrightarrow> with_newline p = first_line p @ NL # with_newline (next_lines p)"
proof -
  assume "NL \<in> set p"
  note s = split_line [OF this]
  have "with_newline p = with_newline (first_line p @ NL # next_lines p)" using s by simp
  then show ?thesis by (simp add: with_newline_def)
qed

lemma key_lines_append: "key_lines (with_newline s @ r) = key_lines s @ key_lines r"
proof (induction s rule: key_lines.induct)
  case (1 p)
  show ?case
  proof (cases "p = []")
    case False
    show ?thesis
    proof (cases "NL \<in> set p")
      case True
      with False 1 show ?thesis
        by (simp add: with_newline_step key_lines_line [OF first_line_no_NL] key_lines.simps [of p])
    next
      case no: False
      with False show ?thesis by (simp add: with_newline_no_line key_lines_line key_lines_last)
    qed
  qed (simp add: with_newline_def)
qed

lemma key_lines_concat: "list_all (\<lambda>s. NL \<notin> set s) ss \<Longrightarrow> key_lines (concat (map (\<lambda>s. s @ [NL]) ss)) = ss"
  by (induction ss) (simp_all add: key_lines_line)

lemma key_lines_no_NL: "l \<in> set (key_lines p) \<Longrightarrow> NL \<notin> set l"
  by (induction p rule: key_lines.induct) (subst (asm) (2) key_lines.simps, auto simp: first_line_no_NL split: if_splits)

lemma key_lines_shorter: "sum_list (map (\<lambda>l. length l + 1) (key_lines p)) \<le> length p + 1"
proof (induction p rule: key_lines.induct)
  case (1 p)
  show ?case
  proof (cases "NL \<in> set p")
    case True
    then have "p \<noteq> []" by auto
    moreover have "length p = length (first_line p) + 1 + length (next_lines p)" by (subst split_line [OF True]) simp
    ultimately show ?thesis using 1 by (subst key_lines.simps) simp
  next
    case False
    then show ?thesis by (cases "p = []") (simp_all add: key_lines_last)
  qed
qed

subsection \<open>Keys\<close>

lemma strip_blanks_set: "set (strip_blanks s) \<subseteq> set s"
  by (auto simp: strip_blanks_def dest!: set_dropWhileD)

lemma strip_blanks_length: "length (strip_blanks s) \<le> length s"
  using length_dropWhile_le [of pk_blank "rev (dropWhile pk_blank s)"] length_dropWhile_le [of pk_blank s]
  by (simp add: strip_blanks_def)

lemma key_candidates_result: "key_candidates ls n = Inr cands \<Longrightarrow>
    map snd cands = filter (\<lambda>s. s \<noteq> []) (map strip_blanks ls) \<and> list_all (\<lambda>(k, s). parse_public_key s = Some k) cands"
proof (induction ls n arbitrary: cands rule: key_candidates.induct)
  case (2 l ls n)
  then show ?case by (auto simp: Let_def split: if_splits option.splits sum.splits)
qed simp

lemma find_duplicate_None: "find_duplicate seen ks = None \<Longrightarrow> distinct (map identity ks) \<and> set (map identity ks) \<inter> set (map identity seen) = {}"
proof (induction ks arbitrary: seen)
  case (Cons k ks)
  then have "\<not> list_ex (\<lambda>p. public_key_identity_equal k p) seen" "find_duplicate (seen @ [k]) ks = None" by (auto split: if_splits)
  with Cons.IH [OF this(2)] show ?case by (auto simp: list_ex_iff identity_equal)
qed simp

lemma line_has_key_iff: "line_has_key k line \<longleftrightarrow> map_option identity (parse_public_key line) = Some (identity k)"
  by (auto simp: line_has_key_def identity_equal split: option.splits)

lemma parsed_keys_set: "i \<in> set (parsed_keys lines) \<longleftrightarrow> (\<exists>l \<in> set lines. map_option identity (parse_public_key l) = Some i)"
  by (force simp: parsed_keys_def)

lemma find_already_None: "find_already lines n ks = None \<Longrightarrow> set (map identity ks) \<inter> set (parsed_keys lines) = {}"
proof (induction ks arbitrary: n)
  case (Cons k ks)
  then have "\<not> list_ex (line_has_key k) lines" "find_already lines (n + 1) ks = None" by (auto split: if_splits)
  with Cons.IH [OF this(2)] show ?case by (auto simp: list_ex_iff line_has_key_iff parsed_keys_set)
qed simp

lemma parsed_keys_append [simp]: "parsed_keys (a @ b) = parsed_keys a @ parsed_keys b"
  by (simp add: parsed_keys_def)

lemma parsed_keys_candidates: "list_all (\<lambda>(k, s). parse_public_key s = Some k) cands \<Longrightarrow> parsed_keys (map snd cands) = map identity (map fst cands)"
  by (induction cands) (auto simp: parsed_keys_def)

lemma size_minus_le: "b \<le> a \<Longrightarrow> a < 2 ^ 64 \<Longrightarrow> size_minus a b = a - b"
proof -
  assume h: "b \<le> a" "a < 2 ^ 64"
  then have "a + 2 ^ 64 - b = (a - b) + 2 ^ 64" by simp
  moreover have "((a - b) + 2 ^ 64) mod 2 ^ 64 = (a - b) mod 2 ^ 64" by (rule mod_add_self2)
  moreover have "(a - b) mod 2 ^ 64 = a - b" using h by (intro mod_less) simp
  ultimately show ?thesis by (simp only: size_minus_def)
qed

lemma updated_length_fits: "updated_length n ss = Some m \<Longrightarrow> list_all (\<lambda>s. length s < MAX_AUTHORIZED_KEYS) ss \<Longrightarrow> ss \<noteq> [] \<Longrightarrow>
   n + sum_list (map (\<lambda>s. length s + 1) ss) \<le> MAX_AUTHORIZED_KEYS"
proof (induction ss arbitrary: n)
  case (Cons s ss)
  from Cons.prems have s: "length s < MAX_AUTHORIZED_KEYS" by simp
  then have "size_minus (size_minus MAX_AUTHORIZED_KEYS (length s)) 1 = MAX_AUTHORIZED_KEYS - length s - 1"
    by (simp add: size_minus_le MAX_AUTHORIZED_KEYS_def)
  with Cons.prems have n: "n \<le> MAX_AUTHORIZED_KEYS - length s - 1" "updated_length (n + length s + 1) ss = Some m"
    by (auto split: if_splits)
  with Cons.IH [OF n(2)] Cons.prems s show ?case by (cases "ss = []") auto
qed simp


text \<open>C29: A form that adds keys and is accepted adds exactly the keys of its lines, each of a supported
  type, none of them twice and none that was authorised before; every line of the file stays as it was,
  in its place, and every key that was authorised stays authorised. Provided no line of the
  form is as long as the limit, the new file can be read again.\<close>

theorem web_keys_added:
  assumes "add_authorized_keys (Some form) f = Inr (new, n)"
  defines "existing \<equiv> (case f of None \<Rightarrow> [] | Some s \<Rightarrow> s)"
  defines "added \<equiv> parsed_keys (map strip_blanks (key_lines (normalize_newlines form)))"
  shows "authorized new = authorized existing @ added \<and> length added = n \<and> 0 < n \<and> distinct added
     \<and> set added \<inter> set (authorized existing) = {}
     \<and> take (length (key_lines existing)) (key_lines new) = key_lines existing
     \<and> (length (normalize_newlines form) < MAX_AUTHORIZED_KEYS \<longrightarrow> read_authorized_keys (Some new) = Some new)"
proof -
  let ?ls = "key_lines (normalize_newlines form)"
  from assms(1) obtain cands m where c: "key_candidates ?ls 0 = Inr cands" "cands \<noteq> []" "find_duplicate [] (map fst cands) = None"
      "read_authorized_keys f = Some existing" "find_already (key_lines existing) 0 (map fst cands) = None"
      "updated_length (length (with_newline existing)) (map snd cands) = Some m"
      "new = with_newline existing @ concat (map (\<lambda>(k, s). s @ [NL]) cands)" "n = length cands"
    by (auto simp: add_authorized_keys_def read_authorized_keys_def existing_def Let_def split: option.splits sum.splits if_splits)
  note r = key_candidates_result [OF c(1)]
  have empty: "parsed_keys (filter (\<lambda>s. s \<noteq> []) ls) = parsed_keys ls" for ls
  proof -
    have "parse_public_key [] = None" by (simp add: parse_public_key_def)
    then show ?thesis by (induction ls) (auto simp: parsed_keys_def)
  qed
  have added: "added = map identity (map fst cands)"
    using parsed_keys_candidates [of cands] r empty [of "map strip_blanks ?ls"] by (simp add: added_def)
  have nl: "list_all (\<lambda>s. NL \<notin> set s) (map snd cands)"
    unfolding conjunct1 [OF r] using strip_blanks_set key_lines_no_NL by (fastforce simp: list_all_iff)
  have cc: "concat (map (\<lambda>(k, s). s @ [NL]) cands) = concat (map (\<lambda>s. s @ [NL]) (map snd cands))"
    by (induction cands) auto
  have lines: "key_lines new = key_lines existing @ map snd cands"
    unfolding c(7) key_lines_append cc key_lines_concat [OF nl] by simp
  have "authorized new = authorized existing @ added"
    using parsed_keys_candidates [of cands] r by (simp add: authorized_def lines added)
  moreover have "distinct added" using find_duplicate_None [OF c(3)] by (simp add: added)
  moreover have "set added \<inter> set (authorized existing) = {}" using find_already_None [OF c(5)] by (simp add: added authorized_def)
  moreover have "read_authorized_keys (Some new) = Some new" if small: "length (normalize_newlines form) < MAX_AUTHORIZED_KEYS"
  proof -
    have "length s < MAX_AUTHORIZED_KEYS" if s: "s \<in> set (map snd cands)" for s
    proof -
      from s conjunct1 [OF r] obtain l where l: "l \<in> set ?ls" "s = strip_blanks l" by auto
      have "length l + 1 \<le> sum_list (map (\<lambda>l. length l + 1) ?ls)" using l(1) by (intro member_le_sum_list) auto
      moreover have "length s \<le> length l" using l(2) strip_blanks_length [of l] by simp
      ultimately show ?thesis using key_lines_shorter [of "normalize_newlines form"] small by linarith
    qed
    then have "length (with_newline existing) + sum_list (map (\<lambda>s. length s + 1) (map snd cands)) \<le> MAX_AUTHORIZED_KEYS"
      using c(2) by (intro updated_length_fits [OF c(6)]) (auto simp: list_all_iff)
    moreover have "length new = length (with_newline existing) + sum_list (map (\<lambda>s. length s + 1) (map snd cands))"
      unfolding c(7) cc by (simp add: length_concat comp_def)
    ultimately show ?thesis by (simp add: read_authorized_keys_def)
  qed
  ultimately show ?thesis using c(2,8) lines by (simp add: added)
qed


subsection \<open>Removing a key\<close>

lemma key_line_parts: "first_line p @ line_end p @ next_lines p = p"
proof (cases "NL \<in> set p")
  case True
  then show ?thesis using split_line [OF True] by (simp add: line_end_def)
next
  case False
  then show ?thesis by (simp add: line_end_def no_line)
qed

lemma key_lines_step: "p \<noteq> [] \<Longrightarrow> key_lines p = first_line p # key_lines (next_lines p)"
  by (simp add: key_lines.simps [of p])

lemma parsed_keys_Cons: "length (parsed_keys (l # ls)) = (if parse_public_key l \<noteq> None then 1 else 0) + length (parsed_keys ls)"
  by (simp add: parsed_keys_def)

lemma remove_loop_found: "remove_loop wanted p True remaining used = (used @ p, True, remaining + length (parsed_keys (key_lines p)))"
proof (induction p arbitrary: remaining used rule: key_lines.induct)
  case (1 p)
  show ?case
  proof (cases "p = []")
    case True
    then show ?thesis by (simp add: remove_loop.simps parsed_keys_def)
  next
    case False
    have "used @ first_line p @ line_end p @ next_lines p = used @ p" by (simp add: key_line_parts)
    with False 1 show ?thesis
      by (subst remove_loop.simps) (simp add: Let_def key_lines_step parsed_keys_Cons)
  qed
qed

lemma remove_loop_removes:
  assumes "remove_loop wanted p False remaining used = (out, True, r)"
  shows "\<exists>pre l post. out = used @ pre @ post \<and> with_newline pre = pre \<and> key_lines p = key_lines pre @ l # key_lines post
     \<and> length pre + length post \<le> length p
     \<and> line_has_key wanted l \<and> list_all (\<lambda>x. \<not> line_has_key wanted x) (key_lines pre)
     \<and> r = remaining + length (parsed_keys (key_lines pre @ key_lines post))"
  using assms
proof (induction p arbitrary: remaining used rule: key_lines.induct)
  case (1 p)
  show ?case
  proof (cases "p = []")
    case True
    with 1(2) show ?thesis by (simp add: remove_loop.simps)
  next
    case False
    have len: "length (next_lines p) \<le> length p" using next_lines_shorter [OF False] by simp
    show ?thesis
    proof (cases "line_has_key wanted (first_line p)")
      case True
      with False 1(2) have "remove_loop wanted (next_lines p) True remaining used = (out, True, r)"
        by (subst (asm) remove_loop.simps) (simp add: Let_def)
      then have "out = used @ next_lines p" "r = remaining + length (parsed_keys (key_lines (next_lines p)))"
        by (simp_all add: remove_loop_found)
      with True False len show ?thesis
        by (intro exI [of _ "[]"] exI [of _ "first_line p"] exI [of _ "next_lines p"]) (simp add: with_newline_def key_lines_step)
    next
      case no: False
      with False 1(2) have step: "remove_loop wanted (next_lines p) False
          (if parse_public_key (first_line p) \<noteq> None then remaining + 1 else remaining) (used @ first_line p @ line_end p) = (out, True, r)"
        by (subst (asm) remove_loop.simps) (simp add: Let_def)
      have "NL \<in> set p"
      proof (rule ccontr)
        assume "NL \<notin> set p"
        with step show False by (simp add: no_line remove_loop.simps)
      qed
      then have p: "p = first_line p @ NL # next_lines p" "line_end p = [NL]" using split_line by (auto simp: line_end_def)
      have lp: "length p = length (first_line p) + 1 + length (next_lines p)" by (subst p(1)) simp
      from 1(1) [OF False step] obtain pre l post where ih: "out = (used @ first_line p @ line_end p) @ pre @ post" "with_newline pre = pre"
          "key_lines (next_lines p) = key_lines pre @ l # key_lines post" "length pre + length post \<le> length (next_lines p)"
          "line_has_key wanted l" "list_all (\<lambda>x. \<not> line_has_key wanted x) (key_lines pre)"
          "r = (if parse_public_key (first_line p) \<noteq> None then remaining + 1 else remaining) + length (parsed_keys (key_lines pre @ key_lines post))"
        by blast
      have "key_lines (first_line p @ NL # pre) = first_line p # key_lines pre" by (simp add: key_lines_line first_line_no_NL)
      moreover have "with_newline (first_line p @ NL # pre) = first_line p @ NL # pre"
        using ih(2) by (auto simp: with_newline_def split: if_splits)
      ultimately show ?thesis using ih no False lp p(2)
        by (intro exI [of _ "first_line p @ NL # pre"] exI [of _ l] exI [of _ post]) (simp add: key_lines_step parsed_keys_Cons)
    qed
  qed
qed

lemma line_has_key_parsed: "line_has_key k l \<Longrightarrow> parsed_keys (l # ls) = identity k # parsed_keys ls"
  by (auto simp: line_has_key_iff parsed_keys_def)

lemma no_line_has_key: "list_all (\<lambda>x. \<not> line_has_key k x) ls \<Longrightarrow> identity k \<notin> set (parsed_keys ls)"
  by (auto simp: parsed_keys_set list_all_iff line_has_key_iff)

text \<open>C30: A confirmed removal that is accepted removes exactly the line of the first key that is the one
  given; all other lines stay as they were, in their order, so that every other key stays
  authorised, and at least one key does: nobody can lock everybody out. The new file can be read
  again.\<close>

theorem web_keys_removed:
  assumes "remove_authorized_key (Some form) confirmation f = Inr new"
  defines "existing \<equiv> (case f of None \<Rightarrow> [] | Some s \<Rightarrow> s)"
  shows "\<exists>wanted a l b. confirmation = Some ''yes'' \<and> parse_public_key form = Some wanted
     \<and> key_lines existing = a @ l # b \<and> key_lines new = a @ b \<and> line_has_key wanted l
     \<and> authorized new = remove1 (identity wanted) (authorized existing) \<and> identity wanted \<in> set (authorized existing)
     \<and> authorized new \<noteq> [] \<and> read_authorized_keys (Some new) = Some new"
proof -
  from assms(1) obtain wanted r where w: "confirmation = Some ''yes''" "parse_public_key form = Some wanted"
      "read_authorized_keys f = Some existing" "remove_loop wanted existing False 0 [] = (new, True, r)" "r \<noteq> 0"
    by (auto simp: remove_authorized_key_def read_authorized_keys_def existing_def split: option.splits prod.splits if_splits)
  from remove_loop_removes [OF w(4)] obtain pre l post where s: "new = pre @ post" "with_newline pre = pre"
      "key_lines existing = key_lines pre @ l # key_lines post" "length pre + length post \<le> length existing"
      "line_has_key wanted l" "list_all (\<lambda>x. \<not> line_has_key wanted x) (key_lines pre)"
      "r = length (parsed_keys (key_lines pre @ key_lines post))" by auto
  have lines: "key_lines new = key_lines pre @ key_lines post" using key_lines_append [of pre post] s(1,2) by simp
  have old: "authorized existing = parsed_keys (key_lines pre) @ identity wanted # parsed_keys (key_lines post)"
    by (simp add: authorized_def s(3) line_has_key_parsed [OF s(5)])
  have nw: "authorized new = parsed_keys (key_lines pre) @ parsed_keys (key_lines post)" by (simp add: authorized_def lines)
  have "length existing \<le> MAX_AUTHORIZED_KEYS" using w(3) by (auto simp: read_authorized_keys_def existing_def split: option.splits if_splits)
  then have "read_authorized_keys (Some new) = Some new" using s(1,4) by (simp add: read_authorized_keys_def)
  moreover have "authorized new = remove1 (identity wanted) (authorized existing)" "identity wanted \<in> set (authorized existing)"
    using no_line_has_key [OF s(6)] by (simp_all add: old nw remove1_append)
  moreover have "authorized new \<noteq> []" using w(5) s(7) by (auto simp: authorized_def lines)
  ultimately show ?thesis using w s(3,5) lines by blast
qed


definition demo_key_a :: string where "demo_key_a = ''ssh-rsa AAAABBBBCCCCDDDD''"
definition demo_key_b :: string where "demo_key_b = ''ssh-ed25519 AAAABBBBCCCCDD== me''"

lemmas key_eval = parse_public_key_def pk_blank_def supported_public_key_type_def blob_ok_def comment_ok_def isalnum_def
  isdigit_def islower_def isupper_def code_def

lemma demo_keys_parse:
  "parse_public_key demo_key_a = Some \<lparr>pk_type = ''ssh-rsa'', pk_blob = ''AAAABBBBCCCCDDDD'', pk_comment = []\<rparr>"
  "parse_public_key demo_key_b = Some \<lparr>pk_type = ''ssh-ed25519'', pk_blob = ''AAAABBBBCCCCDD=='', pk_comment = ''me''\<rparr>"
  by (simp_all add: demo_key_a_def demo_key_b_def key_eval)

lemma demo_keys_lines: "NL \<notin> set demo_key_a" "NL \<notin> set demo_key_b" "demo_key_a \<noteq> []" "demo_key_b \<noteq> []"
  "strip_blanks demo_key_b = demo_key_b" "normalize_newlines demo_key_b = demo_key_b" "length demo_key_a = 24" "length demo_key_b = 31"
  by (simp_all add: demo_key_a_def demo_key_b_def strip_blanks_def pk_blank_def)

lemma demo_add: "add_authorized_keys (Some demo_key_b) (Some demo_key_a) = Inr (demo_key_a @ NL # demo_key_b @ [NL], 1)"
proof -
  have "with_newline demo_key_a = demo_key_a @ [NL]" by (rule with_newline_no_line [OF demo_keys_lines(1,3)])
  then show ?thesis
    by (simp add: add_authorized_keys_def Let_def demo_keys_lines key_lines_last demo_keys_parse read_authorized_keys_def
        MAX_AUTHORIZED_KEYS_def line_has_key_def public_key_identity_equal_def size_minus_def)
qed

lemma web_keys_added_witness: "authorized (demo_key_a @ NL # demo_key_b @ [NL]) = authorized demo_key_a @ [(''ssh-ed25519'', ''AAAABBBBCCCCDD=='')]"
  using web_keys_added [OF demo_add] by (simp add: demo_keys_lines key_lines_last parsed_keys_def demo_keys_parse identity_def)

lemma demo_remove: "remove_authorized_key (Some demo_key_a) (Some ''yes'') (Some (demo_key_a @ NL # demo_key_b @ [NL])) = Inr (demo_key_b @ [NL])"
proof -
  have n: "remove_loop w (demo_key_a @ NL # demo_key_b @ [NL]) f r u = (if \<not> f \<and> line_has_key w demo_key_a
      then remove_loop w (demo_key_b @ [NL]) True r u
      else remove_loop w (demo_key_b @ [NL]) f (r + 1) (u @ demo_key_a @ [NL]))" for w f r u
    by (subst remove_loop.simps) (simp add: line_split demo_keys_lines Let_def demo_keys_parse line_end_def)
  have k: "key_lines (demo_key_b @ [NL]) = [demo_key_b]" using key_lines_line [of demo_key_b "[]"] demo_keys_lines by simp
  show ?thesis
    by (simp add: remove_authorized_key_def demo_keys_parse read_authorized_keys_def demo_keys_lines MAX_AUTHORIZED_KEYS_def n
        line_has_key_def public_key_identity_equal_def remove_loop_found k) (simp add: parsed_keys_def demo_keys_parse)
qed

lemma web_keys_removed_witness: "authorized (demo_key_b @ [NL]) \<noteq> [] \<and> read_authorized_keys (Some (demo_key_b @ [NL])) = Some (demo_key_b @ [NL])"
  using web_keys_removed [OF demo_remove] by blast

text \<open>The guard of the size of the new file wraps around: a single line as long as the limit passes it, and the
  file that is written cannot be read again, neither to show nor to change the keys.\<close>

lemma web_keys_unreadable:
  assumes "parse_public_key s = Some k" "length s = MAX_AUTHORIZED_KEYS" "NL \<notin> set s" "CR \<notin> set s" "strip_blanks s = s"
  shows "add_authorized_keys (Some s) None = Inr (s @ [NL], 1) \<and> read_authorized_keys (Some (s @ [NL])) = None"
proof -
  have "s \<noteq> []" using assms(2) by (auto simp: MAX_AUTHORIZED_KEYS_def)
  then show ?thesis using assms
    by (simp add: add_authorized_keys_def Let_def normalize_newlines_id key_lines_last read_authorized_keys_def with_newline_def size_minus_def)
qed

subsection \<open>The password\<close>

datatype password_error = Password_length | Password_control | Password_mismatch

definition change_admin_password :: "string option \<Rightarrow> string option \<Rightarrow> password_error + string" where
  "change_admin_password password confirmation =
     (case (password, confirmation) of
        (Some p, Some c) \<Rightarrow>
          if length p < 8 \<or> 128 < length p then Inl Password_length
          else if list_ex (\<lambda>x. code x < 0x20 \<or> code x = 0x7f) p then Inl Password_control
          else if \<not> constant_time_equal p c then Inl Password_mismatch
          else Inr (p @ [NL])
      | _ \<Rightarrow> Inl Password_length)"

text \<open>C31: A password is accepted exactly when it has 8 to 128 characters, none of them a control
  character, and the confirmation is the same. The file that is then stored authenticates the
  administrator with exactly that password, and with no other.\<close>

theorem web_password_changed:
  assumes "length candidate < 2 ^ 32" "length confirmation < 2 ^ 32"
  shows "case change_admin_password (Some password) (Some confirmation) of
      Inr contents \<Rightarrow> confirmation = password \<and> 8 \<le> length password \<and> length password \<le> 128 \<and> comment_ok password
        \<and> (check_password (read_file (Some contents) 512) user candidate = 1 \<longleftrightarrow> user = ''admin'' \<and> candidate = password)
    | Inl e \<Rightarrow> \<not> (8 \<le> length password \<and> length password \<le> 128 \<and> comment_ok password \<and> confirmation = password)"
proof (cases "change_admin_password (Some password) (Some confirmation)")
  case (Inl e)
  have "constant_time_equal password confirmation \<longleftrightarrow> password = confirmation" if "length password \<le> 128"
    using that assms by (intro constant_time_equal_iff) auto
  with Inl show ?thesis
    by (auto simp: change_admin_password_def comment_ok_def list_all_iff list_ex_iff split: if_splits)
next
  case (Inr contents)
  then have h: "8 \<le> length password" "length password \<le> 128" "list_all (\<lambda>x. \<not> (code x < 0x20 \<or> code x = 0x7f)) password"
      "constant_time_equal password confirmation" "contents = password @ [NL]"
    by (auto simp: change_admin_password_def list_all_iff list_ex_iff split: if_splits)
  then have "password \<noteq> []" by auto
  then obtain p x where p: "password = p @ [x]" by (cases password rule: rev_cases) auto
  with h(3) have "x \<noteq> NL" "x \<noteq> CR" by (auto simp: code_def)
  then have "stored_password contents = password" by (simp add: stored_password_def h(5) p)
  moreover have "confirmation = password" using constant_time_equal_iff [of password confirmation] h(2,4) assms by simp
  ultimately show ?thesis using Inr h \<open>password \<noteq> []\<close> check_password_iff [of candidate "Some contents" user] assms
    by (auto simp: comment_ok_def)
qed

lemma web_password_changed_witness:
  "check_password (read_file (Some (''open sesame'' @ [NL])) 512) ''admin'' ''open sesame'' = 1"
proof -
  have "change_admin_password (Some ''open sesame'') (Some ''open sesame'') = Inr (''open sesame'' @ [NL])"
    using constant_time_equal_iff [of "''open sesame''" "''open sesame''"] by (simp add: change_admin_password_def code_def)
  with web_password_changed [of "''open sesame''" "''open sesame''" "''open sesame''" "''admin''"] show ?thesis by simp
qed

end
