(* ===== verification/Spec2Isabelle.thy ===== *)
theory Spec2Isabelle
  imports Siyi_Packet Private_Uart Siyi_Claims Config_File Support_Mavlink Autofocus Manual_Control
    Mt11_Backend Siyi_Reads Thermal_Usb Web_Text Web_Session Web_Request Web_Accept Web_Ini Web_Params Mavlink_Command Camera_Ftp Web_Files Web_Keys
begin

text \<open>
  A verification development for AP\_CameraGimbal: the camera application and the web server that run
  on the SIYI MT11, A8 and ZR10 and the XFRobot Z1 Mini camera gimbals.

  \<^bold>\<open>The program.\<close> The camera application (\<^verbatim>\<open>src/camera_app\<close>) is one event loop. Clients speak SIYI packets
  over UDP, TCP and a UART to its SIYI server (\<^verbatim>\<open>protocol/siyi_server.c\<close>), which hands each packet to the
  backend of the target; the backend answers it, acts on the media layer, or passes it to the gimbal over a
  serial link with a framing of its own, and frames from the gimbal come back the same way. Flight
  controllers and ground stations speak MAVLink to \<^verbatim>\<open>protocol/mavlink_server.c\<close>, which drives the same
  backend, serves the camera definition as a file, and is relayed to a remote SupportProxy. A web server
  (\<^verbatim>\<open>src/web/mt11-web.c\<close>) runs in processes of its own: it shares the configuration file with the camera
  application, and sends it manual gimbal commands over a loopback socket.

  \<^bold>\<open>Conventions.\<close> Every definition that models code carries the name of the C function or type, or a name
  that says which part of a function it is. A structure is a record, an enumeration a datatype, an integer
  whose width matters a word, a buffer the list of its valid bytes. A function of the code that changes
  state returns the new state. Error returns are values: an error number in an option, or a sum. Undefined
  behaviour (a wrapped length, a conversion of a float that does not fit, signed overflow) is a value of its
  own, so that its absence, or its presence, is a theorem. What is not in the repository (the kernel, the
  clock, the MAVLink library, the media libraries, the random source) is a parameter: an argument, or a
  tape of answers that the model reads in the order of the calls. Loops are functions that are proved to
  terminate.

  \<^bold>\<open>The shared theories.\<close> \<^verbatim>\<open>AP_Prelude\<close>: machine types, byte buffers, error numbers, lemma collections.
  \<^verbatim>\<open>C_Strings\<close>: the C library on strings. \<^verbatim>\<open>Stream_Parse\<close>: the contract of a framing decision, the locale
  \<^verbatim>\<open>stream_parser\<close>, with the independence of the cut into reads proved once; the SIYI stream, the private
  UART and the A8 link interpret it. \<^verbatim>\<open>Byte_Queue\<close>: the output window of a connection and the locale of a
  bounded byte queue that it meets. \<^verbatim>\<open>File_System\<close>: files with what is seen and what is on the disk, and the
  states that a loss of power may leave.

  \<^bold>\<open>The SIYI protocol.\<close> \<^verbatim>\<open>Siyi_Packet\<close> (\<^verbatim>\<open>protocol/siyi.c\<close>): the codec and its checksum; C2 to C4.
  \<^verbatim>\<open>Siyi_Server\<close>, \<^verbatim>\<open>Siyi_Emit\<close>, \<^verbatim>\<open>Siyi_Stream\<close>, \<^verbatim>\<open>Siyi_Handle\<close> (\<^verbatim>\<open>protocol/siyi_server.c\<close>): routes and
  pending replies, what sending may close, \<^verbatim>\<open>process_stream\<close>, and the handlers of the descriptors with
  opening and closing; \<^verbatim>\<open>Siyi_Contract\<close> and \<^verbatim>\<open>Siyi_Claims\<close>: the invariant of every reachable state (C7),
  the service of a stream whatever the callback answers (C6), and the memory fault that a client which does
  not read its replies brings about (C8).

  \<^bold>\<open>The gimbal.\<close> \<^verbatim>\<open>Private_Uart\<close> (\<^verbatim>\<open>protocol/private_uart.c\<close>, C5) and \<^verbatim>\<open>Siyi_Link\<close>: the two serial framings.
  \<^verbatim>\<open>Gimbal_Map\<close> (\<^verbatim>\<open>include/apcam/gimbal_transform.h\<close> and the headers of the camera application): joint
  coordinates, rate commands (C35), the last angle command, the block during manual control. \<^verbatim>\<open>Gimbal_Backend\<close>:
  what the backends share. \<^verbatim>\<open>Mt11_Backend\<close> (\<^verbatim>\<open>backends/mt11/control.c\<close>): every request is dealt with as an
  independent table says (C32), an angle reported as done is in force, with the one exception the code has
  (C33), and the tunnel to the gimbal is transparent (C34). \<^verbatim>\<open>Siyi_Backend\<close> and \<^verbatim>\<open>Siyi_Reads\<close>
  (\<^verbatim>\<open>backends/siyi/control.c\<close>): the same for the A8 and the ZR10 (C36), and the reading of the link (C37).
  \<^verbatim>\<open>Manual_Control\<close> (\<^verbatim>\<open>protocol/manual_control.c\<close>): the lease of the web server, with the invariant that a
  gimbal which may be moving has a stop time (C16, C17).

  \<^bold>\<open>MAVLink.\<close> \<^verbatim>\<open>Mavlink_Command\<close> (\<^verbatim>\<open>protocol/mavlink_server.c\<close>): addressing, the camera commands, series of
  photos and the region of interest, and their acknowledgements (C23 to C25). \<^verbatim>\<open>Camera_Ftp\<close>
  (\<^verbatim>\<open>protocol/camera_ftp.c\<close>): the table of sessions refines a map from clients (C26), and a download arrives
  whole (C27). \<^verbatim>\<open>Support_Mavlink\<close> (\<^verbatim>\<open>protocol/support_mavlink.c\<close>): the ring queues refine a queue that keeps
  the newest 128 messages (C12), and signing times are never reused over whole runs (C13).

  \<^bold>\<open>Configuration.\<close> \<^verbatim>\<open>Config_Model\<close>, \<^verbatim>\<open>Config_Params\<close>, \<^verbatim>\<open>Config_File\<close> (\<^verbatim>\<open>config.c\<close>): the table of fields for
  each target, numeric parameters (C9), loading (C10) and saving, call by call, which is all or nothing (C11).

  \<^bold>\<open>Media.\<close> \<^verbatim>\<open>Autofocus\<close> (\<^verbatim>\<open>media/autofocus.c\<close>): the search finds the peak (C14) and returns for every lens
  (C15). \<^verbatim>\<open>Thermal_Image\<close> and \<^verbatim>\<open>Thermal_Usb\<close> (\<^verbatim>\<open>backends/mt11/thermal.c\<close>): the temperature range, the
  conversion and rotation of the picture, and the assembly of frames (C38 to C40).

  \<^bold>\<open>The web server\<close> (\<^verbatim>\<open>web/mt11-web.c\<close>). \<^verbatim>\<open>Web_Text\<close>: escaping and decoding (C18). \<^verbatim>\<open>Web_Session\<close>: the
  file of login sessions, with the locale of a session store, interpreted on it, and the whole life of a
  session (C19). \<^verbatim>\<open>Web_Request\<close>: receiving (C21) and authentication (C20). \<^verbatim>\<open>Web_Accept\<close>: content negotiation.
  \<^verbatim>\<open>Web_Ini\<close>: editing a configuration file (C22). \<^verbatim>\<open>Web_Params\<close>: the parameter form, with the property that
  spans both programs: what an accepted form saves is in the file in normal form, and the camera
  application has a field for it whose parser accepts it (C1). \<^verbatim>\<open>Web_Files\<close>: saving files with a loss of power
  at any moment (C28). \<^verbatim>\<open>Web_Keys\<close>: the keys and the password of the users (C29 to C31).

  \<^bold>\<open>Bounds.\<close> The loops that bring an angle into range run on fuel 64, which \<^verbatim>\<open>wrap_range\<close> shows to be enough
  for every angle of up to 20000 degrees; the code calls them with joint angles. No other loop has fuel. The
  run of C13 is shorter than 2 to the 55 operations and starts below half of the range of its 64-bit time,
  and the series of C24 stays below the largest photo number and the end of the clock, so that these do not
  wrap around. Floats are exact rationals (or infinite, or not a number) and each operation is rounded by a
  parameter, of which a theorem assumes what it needs.

  \<^bold>\<open>What is not modelled.\<close> The camera pipelines, streaming and recording: calls into libraries that are not in
  the repository. The gimbal backend of the Z1 Mini and its XFRobot server. Of the MAVLink server routing,
  telemetry, tracking and parameters, and the packing of messages. Of the web server routing and the
  rendering of pages. Sockets, threads and processes as such: a lock makes an operation one step. Log
  messages, and allocation that fails, except where it is a result of the operation.
\<close>

end
